(* ===== verification/Prelude.thy ===== *)
theory Prelude
  imports Main "HOL-Library.Multiset"
begin

text \<open>
  The prelude of the development: the collections its proofs draw on, reachability of a step
  relation with the invariant rule every concurrent component uses, and generic facts on
  lists, maps and stable sorting that more than one component needs. Nothing here models
  code of the repository.
\<close>

named_theorems go_defs \<open>unfolding of the one-line accessors and constructors of the model\<close>
named_theorems frame \<open>what an operation leaves unchanged\<close>
named_theorems preserves \<open>preservation of a component's invariant by one operation\<close>

section \<open>Reachable states\<close>

inductive reach :: "('s \<Rightarrow> bool) \<Rightarrow> ('s \<Rightarrow> 's \<Rightarrow> bool) \<Rightarrow> 's \<Rightarrow> bool"
  for init :: "'s \<Rightarrow> bool" and step :: "'s \<Rightarrow> 's \<Rightarrow> bool" where
  reach_init [intro]: "init s \<Longrightarrow> reach init step s"
| reach_step [intro]: "reach init step s \<Longrightarrow> step s t \<Longrightarrow> reach init step t"

lemma reach_invariant:
  assumes "reach init step s"
    and "\<And>s. init s \<Longrightarrow> I s"
    and "\<And>s t. I s \<Longrightarrow> step s t \<Longrightarrow> I t"
  shows "I s"
  using assms(1) by (induction rule: reach.induct) (use assms(2,3) in blast)+

section \<open>Lists\<close>

fun find_index :: "('a \<Rightarrow> bool) \<Rightarrow> 'a list \<Rightarrow> nat option" where
  "find_index P [] = None"
| "find_index P (x # xs) = (if P x then Some 0 else map_option Suc (find_index P xs))"

definition remove_at :: "nat \<Rightarrow> 'a list \<Rightarrow> 'a list" where
  "remove_at i xs = take i xs @ drop (Suc i) xs"

definition insert_at :: "nat \<Rightarrow> 'a \<Rightarrow> 'a list \<Rightarrow> 'a list" where
  "insert_at i x xs = take i xs @ x # drop i xs"

lemma find_index_None_iff: "find_index P xs = None \<longleftrightarrow> (\<forall>x \<in> set xs. \<not> P x)"
  by (induction xs) auto

lemma find_index_SomeD:
  "find_index P xs = Some i \<Longrightarrow> i < length xs \<and> P (xs ! i) \<and> (\<forall>j < i. \<not> P (xs ! j))"
proof (induction xs arbitrary: i)
  case Nil
  then show ?case by simp
next
  case (Cons x xs)
  show ?case
  proof (cases "P x")
    case True
    with Cons.prems show ?thesis by simp
  next
    case False
    with Cons.prems obtain k where k: "find_index P xs = Some k" "i = Suc k" by auto
    have "k < length xs \<and> P (xs ! k) \<and> (\<forall>j < k. \<not> P (xs ! j))" using Cons.IH [OF k(1)] .
    with False k(2) show ?thesis by (auto simp: nth_Cons split: nat.splits)
  qed
qed

lemma mset_insert_at: "mset (insert_at i x xs) = add_mset x (mset xs)"
proof -
  have "mset (take i xs) + mset (drop i xs) = mset xs"
    using mset_append [of "take i xs" "drop i xs"] by simp
  then show ?thesis by (simp add: insert_at_def)
qed

lemma mset_remove_at: "i < length xs \<Longrightarrow> add_mset (xs ! i) (mset (remove_at i xs)) = mset xs"
proof -
  assume "i < length xs"
  then have "mset xs = mset (take i xs @ xs ! i # drop (Suc i) xs)"
    by (simp add: id_take_nth_drop [symmetric])
  then show ?thesis by (simp add: remove_at_def)
qed

lemma set_insert_at: "set (insert_at i x xs) = insert x (set xs)"
  using arg_cong [OF mset_insert_at [of i x xs], of set_mset] by simp

lemma set_remove_at_subset: "set (remove_at i xs) \<subseteq> set xs"
  by (auto simp: remove_at_def dest: in_set_takeD in_set_dropD)

lemma distinct_remove_at: "distinct xs \<Longrightarrow> distinct (remove_at i xs)"
  by (auto simp: remove_at_def distinct_take dest: in_set_takeD in_set_dropD)
     (metis Suc_n_not_le_n disjoint_iff distinct_append append_take_drop_id in_set_dropD le_SucI
        le_refl set_drop_subset_set_drop subsetD)

lemma remove_at_mset: "i < length xs \<Longrightarrow> mset (remove_at i xs) = mset xs - {#xs ! i#}"
  using mset_remove_at [of i xs] by (metis add_mset_remove_trivial)

lemma mset_concat_update:
  "i < length xs \<Longrightarrow> mset (concat (map g (xs[i := a]))) + mset (g (xs ! i)) =
     mset (concat (map g xs)) + mset (g a)"
  by (induction xs arbitrary: i) (auto simp: nth_Cons split: nat.split)

section \<open>Stable sorting\<close>

lemma sort_key_keeps_group: "filter (\<lambda>x. f x = k) (sort_key f xs) = filter (\<lambda>x. f x = k) xs"
  by (rule sort_key_stable)

lemma sort_key_idem [simp]: "sort_key f (sort_key f xs) = sort_key f xs"
  by (rule sort_key_id_if_sorted) simp

section \<open>Association-list updates\<close>

lemma map_upd_dom_finite [simp]: "finite (dom m) \<Longrightarrow> finite (dom (m(k \<mapsto> v)))"
  by simp

lemma find_append: "find P (xs @ ys) = (case find P xs of None \<Rightarrow> find P ys | Some x \<Rightarrow> Some x)"
  by (induction xs) auto

end
