(* ===== verification/GoRuntime.thy ===== *)
theory GoRuntime
  imports Prelude
begin

text \<open>
  What the program uses of Go itself: error values with their wrapping chains and
  \<open>errors.Is\<close> / \<open>errors.Join\<close>, the outcome of a call that may panic, decimal rendering
  (\<open>strconv.Itoa\<close>), and 64-bit signed wrap-around for \<open>time.Duration\<close> arithmetic.

  An error value is modelled by its identity and its wrapping structure, which is all the code
  inspects; the rendered message is kept as the format text. A sentinel made by
  \<open>errors.New\<close> is a \<open>Leaf\<close>, \<open>fmt.Errorf\<close> with \<open>%w\<close> verbs is a \<open>Wrap\<close> over its operands,
  \<open>errors.Join\<close> a \<open>Joined\<close>. Comparison with a target is meant for sentinels, as everywhere
  in the code.
\<close>

section \<open>Errors\<close>

datatype goerror =
    Leaf string
  | Wrap string "goerror list"
  | Joined "goerror list"

fun error_is :: "goerror \<Rightarrow> goerror \<Rightarrow> bool" where
  "error_is (Leaf n) t \<longleftrightarrow> Leaf n = t"
| "error_is (Wrap m es) t \<longleftrightarrow> Wrap m es = t \<or> list_ex (\<lambda>e. error_is e t) es"
| "error_is (Joined es) t \<longleftrightarrow> Joined es = t \<or> list_ex (\<lambda>e. error_is e t) es"

definition opt_error_is :: "goerror option \<Rightarrow> goerror \<Rightarrow> bool" where
  "opt_error_is e t = (case e of None \<Rightarrow> False | Some e' \<Rightarrow> error_is e' t)"

text \<open>\<open>errors.Join\<close> drops nil operands and is nil when all of them are.\<close>

definition errors_join :: "goerror option list \<Rightarrow> goerror option" where
  "errors_join es = (let kept = map the (filter (\<lambda>e. e \<noteq> None) es)
                     in if kept = [] then None else Some (Joined kept))"

lemma errors_join_None_iff: "errors_join es = None \<longleftrightarrow> (\<forall>e \<in> set es. e = None)"
  by (auto simp: errors_join_def Let_def filter_empty_conv)

lemma errors_join_is:
  "opt_error_is (errors_join es) (Leaf n) \<longleftrightarrow> (\<exists>e \<in> set es. opt_error_is e (Leaf n))"
  by (force simp: errors_join_def opt_error_is_def Let_def list_ex_iff filter_empty_conv
      split: option.splits)

lemma opt_error_is_simps [simp]:
  "opt_error_is None t = False"
  "opt_error_is (Some e) t = error_is e t"
  by (simp_all add: opt_error_is_def)

section \<open>Outcomes\<close>

text \<open>
  A call returns its error result or panics; the panic value is kept as its rendering. A
  recovered panic is a value again (\<open>recover\<close>).
\<close>

type_synonym panic = string

datatype outcome = Returned "goerror option" | Panicked panic

definition panic_of :: "outcome \<Rightarrow> panic option" where
  "panic_of r = (case r of Returned _ \<Rightarrow> None | Panicked p \<Rightarrow> Some p)"

definition error_of :: "outcome \<Rightarrow> goerror option" where
  "error_of r = (case r of Returned e \<Rightarrow> e | Panicked _ \<Rightarrow> None)"

lemma outcome_parts [simp]:
  "panic_of (Returned e) = None" "panic_of (Panicked p) = Some p"
  "error_of (Returned e) = e" "error_of (Panicked p) = None"
  by (simp_all add: panic_of_def error_of_def)

section \<open>Decimal rendering\<close>

definition digit_char :: "nat \<Rightarrow> char" where
  "digit_char d = char_of (48 + d)"

fun nat_digits :: "nat \<Rightarrow> nat list" where
  "nat_digits n = (if n < 10 then [n] else nat_digits (n div 10) @ [n mod 10])"

declare nat_digits.simps [simp del]

definition show_nat :: "nat \<Rightarrow> string" where
  "show_nat n = map digit_char (nat_digits n)"

definition itoa :: "int \<Rightarrow> string" where
  "itoa i = (if i < 0 then CHR ''-'' # show_nat (nat (- i)) else show_nat (nat i))"

fun digits_value :: "nat \<Rightarrow> nat list \<Rightarrow> nat" where
  "digits_value acc [] = acc"
| "digits_value acc (d # ds) = digits_value (10 * acc + d) ds"

lemma digits_value_append: "digits_value acc (xs @ ys) = digits_value (digits_value acc xs) ys"
  by (induction xs arbitrary: acc) auto

lemma digits_value_nat_digits: "digits_value 0 (nat_digits n) = n"
proof (induction n rule: nat_digits.induct)
  case (1 n)
  then show ?case
    by (cases "n < 10") (simp_all add: nat_digits.simps [of n] digits_value_append)
qed

lemma nat_digits_lt: "\<forall>d \<in> set (nat_digits n). d < 10"
proof (induction n rule: nat_digits.induct)
  case (1 n)
  then show ?case
    by (cases "n < 10") (simp_all only: nat_digits.simps [of n], auto)
qed

lemma nat_digits_inj: "nat_digits m = nat_digits n \<Longrightarrow> m = n"
  by (drule arg_cong [of _ _ "digits_value 0"]) (simp only: digits_value_nat_digits)

lemma digit_char_inj: "a < 10 \<Longrightarrow> b < 10 \<Longrightarrow> digit_char a = digit_char b \<Longrightarrow> a = b"
  unfolding digit_char_def
  by (drule arg_cong [of _ _ "of_char :: char \<Rightarrow> nat"]) simp

lemma inj_on_digit_char: "inj_on digit_char {d. d < 10}"
  by (auto simp: inj_on_def intro: digit_char_inj)

lemma show_nat_inj [simp]: "show_nat m = show_nat n \<longleftrightarrow> m = n"
proof
  assume eq: "show_nat m = show_nat n"
  have "set (nat_digits m) \<union> set (nat_digits n) \<subseteq> {d. d < 10}"
    using nat_digits_lt by blast
  then have "inj_on digit_char (set (nat_digits m) \<union> set (nat_digits n))"
    by (rule inj_on_subset [OF inj_on_digit_char])
  with eq have "nat_digits m = nat_digits n"
    unfolding show_nat_def by (blast dest: map_inj_on)
  then show "m = n" by (rule nat_digits_inj)
qed simp

section \<open>64-bit signed integers\<close>

text \<open>
  Go's \<open>int64\<close> (and \<open>time.Duration\<close>) wraps in two's complement; the model keeps values as
  \<open>int\<close> and writes the wrap-around out.
\<close>

definition wrap64 :: "int \<Rightarrow> int" where
  "wrap64 x = (x + 2 ^ 63) mod 2 ^ 64 - 2 ^ 63"

lemma wrap64_id: "- (2 ^ 63) \<le> x \<Longrightarrow> x < 2 ^ 63 \<Longrightarrow> wrap64 x = x"
  by (simp add: wrap64_def)

lemma wrap64_bounds: "- (2 ^ 63) \<le> wrap64 x \<and> wrap64 x < 2 ^ 63"
  by (simp add: wrap64_def)

end
