(* ===== verification/TxDefinition.thy ===== *)
theory TxDefinition
  imports GoRuntime
begin

text \<open>
  The configuration of one \<open>Run\<close> (transaction/definition.go and transaction/errors.go): the
  propagation constants, the resolved definition, the functional options that build it, and
  the rollback rules. An option is a function on definitions, as in the code, and a rule is a
  predicate on errors. Durations are nanosecond counts.
\<close>

section \<open>Sentinel errors\<close>

definition ErrRollbackOnly :: goerror where
  "ErrRollbackOnly = Leaf ''unit of work marked rollback only''"

definition ErrTransactionRequired :: goerror where
  "ErrTransactionRequired = Leaf ''mandatory propagation requires an active transaction''"

definition ErrTransactionNotAllowed :: goerror where
  "ErrTransactionNotAllowed = Leaf ''never propagation forbids an active transaction''"

definition ErrIncompatibleJoin :: goerror where
  "ErrIncompatibleJoin = Leaf ''requested options are incompatible with the active transaction''"

definition ErrBeginFailed :: goerror where
  "ErrBeginFailed = Leaf ''could not begin the transaction''"

definition ErrTransactionSystem :: goerror where
  "ErrTransactionSystem = Leaf ''transaction system failure''"

definition ErrInvalidTimeout :: goerror where
  "ErrInvalidTimeout = Leaf ''timeout must not be negative''"

definition ErrTransactionTimedOut :: goerror where
  "ErrTransactionTimedOut = Leaf ''transaction timed out''"

lemmas tx_sentinels [go_defs] =
  ErrRollbackOnly_def ErrTransactionRequired_def ErrTransactionNotAllowed_def
  ErrIncompatibleJoin_def ErrBeginFailed_def ErrTransactionSystem_def
  ErrInvalidTimeout_def ErrTransactionTimedOut_def

section \<open>Propagation\<close>

text \<open>
  \<open>Propagation\<close> is an \<open>int\<close> in the code, so a value outside the five constants exists; it
  is kept as \<open>UnknownPropagation\<close> with its number.
\<close>

datatype propagation =
    Required
  | Supports
  | Mandatory
  | Never
  | Nested
  | UnknownPropagation int

fun propagation_string :: "propagation \<Rightarrow> string" where
  "propagation_string Required = ''Required''"
| "propagation_string Supports = ''Supports''"
| "propagation_string Mandatory = ''Mandatory''"
| "propagation_string Never = ''Never''"
| "propagation_string Nested = ''Nested''"
| "propagation_string (UnknownPropagation p) = ''Propagation('' @ itoa p @ '')''"

section \<open>The definition and its options\<close>

text \<open>\<open>sql.IsolationLevel\<close> is an integer whose zero value is \<open>sql.LevelDefault\<close>.\<close>

type_synonym isolation_level = int

definition level_default :: isolation_level where
  "level_default = 0"

record tx_definition =
  d_propagation :: propagation
  d_isolation :: isolation_level
  d_readOnly :: bool
  d_timeout :: int
  d_name :: string
  d_rollbackFor :: "(goerror \<Rightarrow> bool) list"
  d_noRollbackFor :: "(goerror \<Rightarrow> bool) list"

type_synonym tx_option = "tx_definition \<Rightarrow> tx_definition"

definition newDefinition :: "tx_option list \<Rightarrow> tx_definition" where
  "newDefinition options = fold (\<lambda>option d. option d) options
     \<lparr>d_propagation = Required, d_isolation = level_default, d_readOnly = False, d_timeout = 0,
      d_name = '''', d_rollbackFor = [], d_noRollbackFor = []\<rparr>"

definition transactionOptions :: "tx_definition \<Rightarrow> isolation_level \<times> bool" where
  "transactionOptions d = (d_isolation d, d_readOnly d)"

definition WithPropagation :: "propagation \<Rightarrow> tx_option" where
  "WithPropagation p d = d\<lparr>d_propagation := p\<rparr>"

definition WithIsolation :: "isolation_level \<Rightarrow> tx_option" where
  "WithIsolation level d = d\<lparr>d_isolation := level\<rparr>"

definition ReadOnly :: tx_option where
  "ReadOnly d = d\<lparr>d_readOnly := True\<rparr>"

definition WithTimeout :: "int \<Rightarrow> tx_option" where
  "WithTimeout timeout d = d\<lparr>d_timeout := timeout\<rparr>"

definition WithName :: "string \<Rightarrow> tx_option" where
  "WithName name d = d\<lparr>d_name := name\<rparr>"

definition RollbackForError :: "goerror list \<Rightarrow> tx_option" where
  "RollbackForError targets d =
     d\<lparr>d_rollbackFor := d_rollbackFor d @ map (\<lambda>target err. error_is err target) targets\<rparr>"

definition RollbackForFunc :: "(goerror \<Rightarrow> bool) \<Rightarrow> tx_option" where
  "RollbackForFunc predicate d = d\<lparr>d_rollbackFor := d_rollbackFor d @ [predicate]\<rparr>"

definition NoRollbackForError :: "goerror list \<Rightarrow> tx_option" where
  "NoRollbackForError targets d =
     d\<lparr>d_noRollbackFor := d_noRollbackFor d @ map (\<lambda>target err. error_is err target) targets\<rparr>"

definition NoRollbackForFunc :: "(goerror \<Rightarrow> bool) \<Rightarrow> tx_option" where
  "NoRollbackForFunc predicate d = d\<lparr>d_noRollbackFor := d_noRollbackFor d @ [predicate]\<rparr>"

lemmas option_defs [go_defs] =
  WithPropagation_def WithIsolation_def ReadOnly_def WithTimeout_def WithName_def
  RollbackForError_def RollbackForFunc_def NoRollbackForError_def NoRollbackForFunc_def

section \<open>Rollback rules\<close>

text \<open>The two loops of \<open>shouldRollback\<close>, in their order.\<close>

fun any_rule :: "(goerror \<Rightarrow> bool) list \<Rightarrow> goerror \<Rightarrow> bool" where
  "any_rule [] err = False"
| "any_rule (matches # rules) err = (if matches err then True else any_rule rules err)"

definition shouldRollback :: "tx_definition \<Rightarrow> goerror option \<Rightarrow> bool" where
  "shouldRollback d err = (case err of
      None \<Rightarrow> False
    | Some e \<Rightarrow> if any_rule (d_rollbackFor d) e then True
                else if any_rule (d_noRollbackFor d) e then False
                else True)"

lemma any_rule_iff: "any_rule rules e \<longleftrightarrow> (\<exists>m \<in> set rules. m e)"
  by (induction rules) auto

lemma shouldRollback_iff:
  "shouldRollback d (Some e) \<longleftrightarrow>
     (\<exists>m \<in> set (d_rollbackFor d). m e) \<or> \<not> (\<exists>m \<in> set (d_noRollbackFor d). m e)"
  by (auto simp: shouldRollback_def any_rule_iff)

lemma shouldRollback_None [simp]: "\<not> shouldRollback d None"
  by (simp add: shouldRollback_def)

lemma shouldRollback_default [simp]: "shouldRollback (newDefinition []) (Some e)"
  by (simp add: shouldRollback_def newDefinition_def)

lemma newDefinition_snoc: "newDefinition (opts @ [o1]) = o1 (newDefinition opts)"
  by (simp add: newDefinition_def)

end
