(* ===== verification/TxUnit.thy ===== *)
theory TxUnit
  imports TxDefinition
begin

text \<open>
  The unit of work and its context binding (transaction/context.go). Client code, that is the
  work handed to \<open>Run\<close> and the callbacks it registers, is a parameter: work is a function on
  the world, and a registered callback is a code \<open>'cb\<close> that an argument \<open>exec\<close> of the
  definitions interprets (the world stores callbacks, so they cannot be functions on it).

  The world holds what the package reaches through pointers: the units of work (a pointer is
  an index), the transactions \<open>database/sql\<close> opened, the cancellation scopes contexts carry,
  and everything behind the driver as \<open>'db\<close>. The mutexes of the code guard single steps of
  one goroutine, so a locked section is one step here; log output is not modelled.
\<close>

section \<open>Statuses, contexts and callbacks\<close>

datatype tx_completion = StatusCommitted | StatusRolledBack | StatusUnknown | OtherStatus int

fun completion_string :: "tx_completion \<Rightarrow> string" where
  "completion_string StatusCommitted = ''Committed''"
| "completion_string StatusRolledBack = ''RolledBack''"
| "completion_string StatusUnknown = ''Unknown''"
| "completion_string (OtherStatus s) = ''Status('' @ itoa s @ '')''"

record tx_status =
  st_unit :: "nat option"
  st_name :: string
  st_newTransaction :: bool
  st_savepoint :: bool

definition zero_status :: tx_status where
  "zero_status = \<lparr>st_unit = None, st_name = '''', st_newTransaction = False, st_savepoint = False\<rparr>"

record gocontext =
  ctx_status :: "tx_status option"
  ctx_scope :: "nat option"

definition background :: gocontext where
  "background = \<lparr>ctx_status = None, ctx_scope = None\<rparr>"

text \<open>What a callback receives beside its context, by phase.\<close>

datatype cb_argument = NoArgument | CompletionArgument tx_completion | SavepointArgument string

record 'cb ordered_callback =
  cb_order :: int
  cb_call :: 'cb

record 'cb unit_of_work =
  transaction :: "nat option"
  u_isolation :: isolation_level
  u_readOnly :: bool
  rollbackOnly :: bool
  completed :: bool
  savepointCounter :: nat
  beforeCommit :: "'cb ordered_callback list"
  beforeCompletion :: "'cb ordered_callback list"
  afterCommit :: "'cb ordered_callback list"
  afterCompletion :: "'cb ordered_callback list"
  savepoint :: "'cb ordered_callback list"
  savepointRollback :: "'cb ordered_callback list"

definition new_unit :: "isolation_level \<Rightarrow> bool \<Rightarrow> 'cb unit_of_work" where
  "new_unit isolation read_only =
     \<lparr>transaction = None, u_isolation = isolation, u_readOnly = read_only, rollbackOnly = False,
      completed = False, savepointCounter = 0, beforeCommit = [], beforeCompletion = [],
      afterCommit = [], afterCompletion = [], savepoint = [], savepointRollback = []\<rparr>"

section \<open>The world\<close>

text \<open>
  \<open>tx_end\<close> is the \<open>done\<close> flag of a \<open>*sql.Tx\<close> with the way it ended; a commit the driver
  reported as failed is \<open>TxFailed\<close>. A cancellation scope is a \<open>context.WithTimeoutCause\<close>
  child: the cause its own timer would record, and, once cancelled, its \<open>Err\<close> and \<open>Cause\<close>.
\<close>

datatype tx_end = TxOpen | TxCommitted | TxRolledBack | TxFailed

record sql_tx =
  tx_scope :: "nat option"
  tx_state :: tx_end

record cancel_scope =
  scope_cause :: goerror
  scope_done :: "(goerror \<times> goerror) option"

record ('cb, 'db) world =
  units :: "'cb unit_of_work list"
  txs :: "sql_tx list"
  scopes :: "cancel_scope list"
  db :: 'db

type_synonym ('cb, 'db) action = "('cb, 'db) world \<Rightarrow> outcome \<times> ('cb, 'db) world"
type_synonym ('cb, 'db) work = "gocontext \<Rightarrow> ('cb, 'db) action"
type_synonym ('cb, 'db) interp = "'cb \<Rightarrow> gocontext \<Rightarrow> cb_argument \<Rightarrow> ('cb, 'db) action"

definition upd_unit ::
  "nat \<Rightarrow> ('cb unit_of_work \<Rightarrow> 'cb unit_of_work) \<Rightarrow> ('cb, 'db) world \<Rightarrow> ('cb, 'db) world" where
  "upd_unit u f w = w\<lparr>units := (units w)[u := f (units w ! u)]\<rparr>"

section \<open>The unit's fields\<close>

definition markRollbackOnly :: "nat \<Rightarrow> ('cb, 'db) world \<Rightarrow> ('cb, 'db) world" where
  "markRollbackOnly u w =
     (if completed (units w ! u) then w else upd_unit u (\<lambda>x. x\<lparr>rollbackOnly := True\<rparr>) w)"

definition isRollbackOnly :: "nat \<Rightarrow> ('cb, 'db) world \<Rightarrow> bool" where
  "isRollbackOnly u w = rollbackOnly (units w ! u)"

definition markCompleted :: "nat \<Rightarrow> ('cb, 'db) world \<Rightarrow> ('cb, 'db) world" where
  "markCompleted u w = upd_unit u (\<lambda>x. x\<lparr>completed := True\<rparr>) w"

definition isCompleted :: "nat \<Rightarrow> ('cb, 'db) world \<Rightarrow> bool" where
  "isCompleted u w = completed (units w ! u)"

definition savepoint_name :: "nat \<Rightarrow> string" where
  "savepoint_name counter = ''transaction_savepoint_'' @ show_nat counter"

definition nextSavepointName :: "nat \<Rightarrow> ('cb, 'db) world \<Rightarrow> string \<times> ('cb, 'db) world" where
  "nextSavepointName u w =
     (let w' = upd_unit u (\<lambda>x. x\<lparr>savepointCounter := Suc (savepointCounter x)\<rparr>) w
      in (savepoint_name (savepointCounter (units w' ! u)), w'))"

section \<open>Running a phase\<close>

text \<open>
  Each phase sorts its slice in place, stably by order, and ranges over it; a callback
  registered during the phase lands behind the range. A panic ends the loops that do not
  recover.
\<close>

definition sortByOrder :: "'cb ordered_callback list \<Rightarrow> 'cb ordered_callback list" where
  "sortByOrder callbacks = sort_key cb_order callbacks"

fun vetoing_loop ::
  "('cb, 'db) interp \<Rightarrow> gocontext \<Rightarrow> 'cb ordered_callback list \<Rightarrow> ('cb, 'db) action" where
  "vetoing_loop exec ctx [] w = (Returned None, w)"
| "vetoing_loop exec ctx (callback # rest) w =
     (case exec (cb_call callback) ctx NoArgument w of
        (Panicked p, w') \<Rightarrow> (Panicked p, w')
      | (Returned (Some err), w') \<Rightarrow> (Returned (Some err), w')
      | (Returned None, w') \<Rightarrow> vetoing_loop exec ctx rest w')"

fun plain_loop ::
  "('cb, 'db) interp \<Rightarrow> gocontext \<Rightarrow> cb_argument \<Rightarrow> 'cb ordered_callback list \<Rightarrow> ('cb, 'db) action" where
  "plain_loop exec ctx arg [] w = (Returned None, w)"
| "plain_loop exec ctx arg (callback # rest) w =
     (case exec (cb_call callback) ctx arg w of
        (Panicked p, w') \<Rightarrow> (Panicked p, w')
      | (Returned _, w') \<Rightarrow> plain_loop exec ctx arg rest w')"

text \<open>\<open>recoverSynchronization\<close> swallows (and logs) a panic.\<close>

definition recoverSynchronization :: "('cb, 'db) action \<Rightarrow> ('cb, 'db) world \<Rightarrow> ('cb, 'db) world" where
  "recoverSynchronization callback w = snd (callback w)"

fun recovering_loop ::
  "('cb, 'db) interp \<Rightarrow> gocontext \<Rightarrow> cb_argument \<Rightarrow> 'cb ordered_callback list \<Rightarrow>
   ('cb, 'db) world \<Rightarrow> ('cb, 'db) world" where
  "recovering_loop exec ctx arg [] w = w"
| "recovering_loop exec ctx arg (callback # rest) w =
     recovering_loop exec ctx arg rest (recoverSynchronization (exec (cb_call callback) ctx arg) w)"

definition runBeforeCommit :: "('cb, 'db) interp \<Rightarrow> nat \<Rightarrow> gocontext \<Rightarrow> ('cb, 'db) action" where
  "runBeforeCommit exec u ctx w =
     (let w1 = upd_unit u (\<lambda>x. x\<lparr>beforeCommit := sortByOrder (beforeCommit x)\<rparr>) w
      in vetoing_loop exec ctx (beforeCommit (units w1 ! u)) w1)"

definition runBeforeCompletion :: "('cb, 'db) interp \<Rightarrow> nat \<Rightarrow> gocontext \<Rightarrow> ('cb, 'db) action" where
  "runBeforeCompletion exec u ctx w =
     (let w1 = upd_unit u (\<lambda>x. x\<lparr>beforeCompletion := sortByOrder (beforeCompletion x)\<rparr>) w
      in plain_loop exec ctx NoArgument (beforeCompletion (units w1 ! u)) w1)"

definition runAfterCommit ::
  "('cb, 'db) interp \<Rightarrow> nat \<Rightarrow> gocontext \<Rightarrow> ('cb, 'db) world \<Rightarrow> ('cb, 'db) world" where
  "runAfterCommit exec u ctx w =
     (let w1 = upd_unit u (\<lambda>x. x\<lparr>afterCommit := sortByOrder (afterCommit x)\<rparr>) w
      in recovering_loop exec ctx NoArgument (afterCommit (units w1 ! u)) w1)"

definition runAfterCompletion ::
  "('cb, 'db) interp \<Rightarrow> nat \<Rightarrow> gocontext \<Rightarrow> tx_completion \<Rightarrow> ('cb, 'db) world \<Rightarrow> ('cb, 'db) world" where
  "runAfterCompletion exec u ctx status w =
     (let w1 = upd_unit u (\<lambda>x. x\<lparr>afterCompletion := sortByOrder (afterCompletion x)\<rparr>) w
      in recovering_loop exec ctx (CompletionArgument status) (afterCompletion (units w1 ! u)) w1)"

definition runSavepoint ::
  "('cb, 'db) interp \<Rightarrow> nat \<Rightarrow> gocontext \<Rightarrow> string \<Rightarrow> ('cb, 'db) action" where
  "runSavepoint exec u ctx name w =
     (let w1 = upd_unit u (\<lambda>x. x\<lparr>savepoint := sortByOrder (savepoint x)\<rparr>) w
      in plain_loop exec ctx (SavepointArgument name) (savepoint (units w1 ! u)) w1)"

definition runSavepointRollback ::
  "('cb, 'db) interp \<Rightarrow> nat \<Rightarrow> gocontext \<Rightarrow> string \<Rightarrow> ('cb, 'db) action" where
  "runSavepointRollback exec u ctx name w =
     (let w1 = upd_unit u (\<lambda>x. x\<lparr>savepointRollback := sortByOrder (savepointRollback x)\<rparr>) w
      in plain_loop exec ctx (SavepointArgument name) (savepointRollback (units w1 ! u)) w1)"

section \<open>The context binding\<close>

definition withStatus :: "gocontext \<Rightarrow> tx_status \<Rightarrow> gocontext" where
  "withStatus ctx status = ctx\<lparr>ctx_status := Some status\<rparr>"

definition withoutUnit :: "gocontext \<Rightarrow> gocontext" where
  "withoutUnit ctx = ctx\<lparr>ctx_status := None\<rparr>"

definition statusFromContext :: "gocontext \<Rightarrow> ('cb, 'db) world \<Rightarrow> tx_status option" where
  "statusFromContext ctx w = (case ctx_status ctx of
      None \<Rightarrow> None
    | Some status \<Rightarrow> (case st_unit status of
        None \<Rightarrow> None
      | Some u \<Rightarrow> if transaction (units w ! u) = None then None else Some status))"

definition fromContext :: "gocontext \<Rightarrow> ('cb, 'db) world \<Rightarrow> nat option" where
  "fromContext ctx w = (case statusFromContext ctx w of
      Some status \<Rightarrow> st_unit status
    | None \<Rightarrow> None)"

definition StatusFromContext :: "gocontext \<Rightarrow> ('cb, 'db) world \<Rightarrow> tx_status \<times> bool" where
  "StatusFromContext ctx w = (case statusFromContext ctx w of
      Some status \<Rightarrow> (status, True)
    | None \<Rightarrow> (zero_status, False))"

definition CurrentTransactionName :: "gocontext \<Rightarrow> ('cb, 'db) world \<Rightarrow> string \<times> bool" where
  "CurrentTransactionName ctx w = (case statusFromContext ctx w of
      Some status \<Rightarrow> (st_name status, True)
    | None \<Rightarrow> ('''', False))"

definition MarkRollbackOnly :: "gocontext \<Rightarrow> ('cb, 'db) world \<Rightarrow> bool \<times> ('cb, 'db) world" where
  "MarkRollbackOnly ctx w = (case fromContext ctx w of
      None \<Rightarrow> (False, w)
    | Some u \<Rightarrow> (True, markRollbackOnly u w))"

text \<open>
  The methods of \<open>TransactionStatus\<close> read the unit behind it; on the zero status the
  dereference panics, which is \<open>None\<close> here.
\<close>

definition IsReadOnly :: "tx_status \<Rightarrow> ('cb, 'db) world \<Rightarrow> bool option" where
  "IsReadOnly s w = map_option (\<lambda>u. u_readOnly (units w ! u)) (st_unit s)"

definition IsCompleted :: "tx_status \<Rightarrow> ('cb, 'db) world \<Rightarrow> bool option" where
  "IsCompleted s w = map_option (\<lambda>u. isCompleted u w) (st_unit s)"

definition IsRollbackOnly :: "tx_status \<Rightarrow> ('cb, 'db) world \<Rightarrow> bool option" where
  "IsRollbackOnly s w = map_option (\<lambda>u. isRollbackOnly u w) (st_unit s)"

definition SetRollbackOnly :: "tx_status \<Rightarrow> ('cb, 'db) world \<Rightarrow> ('cb, 'db) world option" where
  "SetRollbackOnly s w = map_option (\<lambda>u. markRollbackOnly u w) (st_unit s)"

section \<open>Registration\<close>

type_synonym register_option = "int \<Rightarrow> int"

definition WithOrder :: "int \<Rightarrow> register_option" where
  "WithOrder order registration = order"

definition newRegistration :: "register_option list \<Rightarrow> int" where
  "newRegistration options = fold (\<lambda>option r. option r) options 0"

definition ordered :: "register_option list \<Rightarrow> 'cb \<Rightarrow> 'cb ordered_callback" where
  "ordered opts callback = \<lparr>cb_order = newRegistration opts, cb_call = callback\<rparr>"

definition RegisterBeforeCommit ::
  "gocontext \<Rightarrow> 'cb \<Rightarrow> register_option list \<Rightarrow> ('cb, 'db) world \<Rightarrow> bool \<times> ('cb, 'db) world" where
  "RegisterBeforeCommit ctx callback opts w = (case fromContext ctx w of
      None \<Rightarrow> (False, w)
    | Some u \<Rightarrow> (True, upd_unit u
        (\<lambda>x. x\<lparr>beforeCommit := beforeCommit x @ [ordered opts callback]\<rparr>) w))"

definition RegisterBeforeCompletion ::
  "gocontext \<Rightarrow> 'cb \<Rightarrow> register_option list \<Rightarrow> ('cb, 'db) world \<Rightarrow> bool \<times> ('cb, 'db) world" where
  "RegisterBeforeCompletion ctx callback opts w = (case fromContext ctx w of
      None \<Rightarrow> (False, w)
    | Some u \<Rightarrow> (True, upd_unit u
        (\<lambda>x. x\<lparr>beforeCompletion := beforeCompletion x @ [ordered opts callback]\<rparr>) w))"

definition RegisterAfterCommit ::
  "gocontext \<Rightarrow> 'cb \<Rightarrow> register_option list \<Rightarrow> ('cb, 'db) world \<Rightarrow> bool \<times> ('cb, 'db) world" where
  "RegisterAfterCommit ctx callback opts w = (case fromContext ctx w of
      None \<Rightarrow> (False, w)
    | Some u \<Rightarrow> (True, upd_unit u
        (\<lambda>x. x\<lparr>afterCommit := afterCommit x @ [ordered opts callback]\<rparr>) w))"

definition RegisterAfterCompletion ::
  "gocontext \<Rightarrow> 'cb \<Rightarrow> register_option list \<Rightarrow> ('cb, 'db) world \<Rightarrow> bool \<times> ('cb, 'db) world" where
  "RegisterAfterCompletion ctx callback opts w = (case fromContext ctx w of
      None \<Rightarrow> (False, w)
    | Some u \<Rightarrow> (True, upd_unit u
        (\<lambda>x. x\<lparr>afterCompletion := afterCompletion x @ [ordered opts callback]\<rparr>) w))"

definition RegisterSavepoint ::
  "gocontext \<Rightarrow> 'cb \<Rightarrow> register_option list \<Rightarrow> ('cb, 'db) world \<Rightarrow> bool \<times> ('cb, 'db) world" where
  "RegisterSavepoint ctx callback opts w = (case fromContext ctx w of
      None \<Rightarrow> (False, w)
    | Some u \<Rightarrow> (True, upd_unit u
        (\<lambda>x. x\<lparr>savepoint := savepoint x @ [ordered opts callback]\<rparr>) w))"

definition RegisterSavepointRollback ::
  "gocontext \<Rightarrow> 'cb \<Rightarrow> register_option list \<Rightarrow> ('cb, 'db) world \<Rightarrow> bool \<times> ('cb, 'db) world" where
  "RegisterSavepointRollback ctx callback opts w = (case fromContext ctx w of
      None \<Rightarrow> (False, w)
    | Some u \<Rightarrow> (True, upd_unit u
        (\<lambda>x. x\<lparr>savepointRollback := savepointRollback x @ [ordered opts callback]\<rparr>) w))"

lemmas register_defs [go_defs] =
  RegisterBeforeCommit_def RegisterBeforeCompletion_def RegisterAfterCommit_def
  RegisterAfterCompletion_def RegisterSavepoint_def RegisterSavepointRollback_def

lemmas phase_defs [go_defs] =
  runBeforeCommit_def runBeforeCompletion_def runAfterCommit_def runAfterCompletion_def
  runSavepoint_def runSavepointRollback_def

end
