(* ===== verification/TxManager.thy ===== *)
theory TxManager
  imports TxUnit
begin

text \<open>
  The transaction manager (transaction/manager.go) and its execution listeners
  (transaction/listener.go). \<open>Run\<close> is translated branch by branch; the driver beneath
  \<open>database/sql\<close> is the parameter \<open>sql_driver\<close>, and the part of \<open>*sql.Tx\<close> and of \<open>context\<close>
  the manager relies on is modelled: a transaction ends once and reports \<open>sql.ErrTxDone\<close>
  afterwards, and a cancelled context makes \<open>BeginTx\<close>, \<open>Commit\<close> and \<open>ExecContext\<close> fail with
  the context's error, the cancelled transaction being rolled back.
\<close>

section \<open>The driver, \<open>*sql.Tx\<close> and cancellation\<close>

record 'db sql_driver =
  drv_begin :: "nat \<Rightarrow> isolation_level \<times> bool \<Rightarrow> 'db \<Rightarrow> goerror option \<times> 'db"
  drv_commit :: "nat \<Rightarrow> 'db \<Rightarrow> goerror option \<times> 'db"
  drv_rollback :: "nat \<Rightarrow> 'db \<Rightarrow> goerror option \<times> 'db"
  drv_exec :: "nat \<Rightarrow> string \<Rightarrow> 'db \<Rightarrow> goerror option \<times> 'db"

definition ErrTxDone :: goerror where
  "ErrTxDone = Leaf ''sql: transaction has already been committed or rolled back''"

definition Canceled :: goerror where
  "Canceled = Leaf ''context canceled''"

definition scope_state :: "nat option \<Rightarrow> ('cb, 'db) world \<Rightarrow> (goerror \<times> goerror) option" where
  "scope_state scope w = (case scope of None \<Rightarrow> None | Some k \<Rightarrow> scope_done (scopes w ! k))"

text \<open>\<open>context.WithTimeoutCause\<close>: a child of a cancelled context is born cancelled.\<close>

definition withTimeoutCause ::
  "gocontext \<Rightarrow> goerror \<Rightarrow> ('cb, 'db) world \<Rightarrow> gocontext \<times> ('cb, 'db) world" where
  "withTimeoutCause ctx cause w =
     (ctx\<lparr>ctx_scope := Some (length (scopes w))\<rparr>,
      w\<lparr>scopes := scopes w @ [\<lparr>scope_cause = cause, scope_done = scope_state (ctx_scope ctx) w\<rparr>]\<rparr>)"

definition cancelScope :: "nat option \<Rightarrow> ('cb, 'db) world \<Rightarrow> ('cb, 'db) world" where
  "cancelScope scope w = (case scope of
      None \<Rightarrow> w
    | Some k \<Rightarrow> if scope_done (scopes w ! k) = None
                then w\<lparr>scopes := (scopes w)[k := (scopes w ! k)\<lparr>scope_done := Some (Canceled, Canceled)\<rparr>]\<rparr>
                else w)"

text \<open>What the timer of a scope does when it fires first.\<close>

definition DeadlineExceeded :: goerror where
  "DeadlineExceeded = Leaf ''context deadline exceeded''"

definition fireTimer :: "nat \<Rightarrow> ('cb, 'db) world \<Rightarrow> ('cb, 'db) world" where
  "fireTimer k w = (if scope_done (scopes w ! k) = None
     then w\<lparr>scopes := (scopes w)[k := (scopes w ! k)
            \<lparr>scope_done := Some (DeadlineExceeded, scope_cause (scopes w ! k))\<rparr>]\<rparr>
     else w)"

definition BeginTx ::
  "'db sql_driver \<Rightarrow> gocontext \<Rightarrow> isolation_level \<times> bool \<Rightarrow> ('cb, 'db) world \<Rightarrow>
   (goerror + nat) \<times> ('cb, 'db) world" where
  "BeginTx drv ctx opts w = (case scope_state (ctx_scope ctx) w of
      Some (err, _) \<Rightarrow> (Inl err, w)
    | None \<Rightarrow> (case drv_begin drv (length (txs w)) opts (db w) of
        (Some err, d) \<Rightarrow> (Inl err, w\<lparr>db := d\<rparr>)
      | (None, d) \<Rightarrow> (Inr (length (txs w)),
          w\<lparr>db := d, txs := txs w @ [\<lparr>tx_scope = ctx_scope ctx, tx_state = TxOpen\<rparr>]\<rparr>)))"

definition end_tx :: "nat \<Rightarrow> tx_end \<Rightarrow> 'db \<Rightarrow> ('cb, 'db) world \<Rightarrow> ('cb, 'db) world" where
  "end_tx t how d w = w\<lparr>db := d, txs := (txs w)[t := (txs w ! t)\<lparr>tx_state := how\<rparr>]\<rparr>"

definition Tx_Rollback ::
  "'db sql_driver \<Rightarrow> nat \<Rightarrow> ('cb, 'db) world \<Rightarrow> goerror option \<times> ('cb, 'db) world" where
  "Tx_Rollback drv t w =
     (if tx_state (txs w ! t) \<noteq> TxOpen then (Some ErrTxDone, w)
      else (case drv_rollback drv t (db w) of (err, d) \<Rightarrow> (err, end_tx t TxRolledBack d w)))"

definition Tx_Commit ::
  "'db sql_driver \<Rightarrow> nat \<Rightarrow> ('cb, 'db) world \<Rightarrow> goerror option \<times> ('cb, 'db) world" where
  "Tx_Commit drv t w =
     (if tx_state (txs w ! t) \<noteq> TxOpen then (Some ErrTxDone, w)
      else (case scope_state (tx_scope (txs w ! t)) w of
        Some (err, _) \<Rightarrow> (Some err, snd (Tx_Rollback drv t w))
      | None \<Rightarrow> (case drv_commit drv t (db w) of
          (None, d) \<Rightarrow> (None, end_tx t TxCommitted d w)
        | (Some err, d) \<Rightarrow> (Some err, end_tx t TxFailed d w))))"

definition Tx_ExecContext ::
  "'db sql_driver \<Rightarrow> gocontext \<Rightarrow> nat \<Rightarrow> string \<Rightarrow> ('cb, 'db) world \<Rightarrow> goerror option \<times> ('cb, 'db) world" where
  "Tx_ExecContext drv ctx t statement w = (case scope_state (ctx_scope ctx) w of
      Some (err, _) \<Rightarrow> (Some err, w)
    | None \<Rightarrow> if tx_state (txs w ! t) \<noteq> TxOpen then (Some ErrTxDone, w)
              else (case drv_exec drv t statement (db w) of (err, d) \<Rightarrow> (err, w\<lparr>db := d\<rparr>)))"

section \<open>Execution listeners\<close>

record ('cb, 'db) listener =
  BeforeBegin :: "(gocontext \<Rightarrow> tx_status \<Rightarrow> ('cb, 'db) action) option"
  AfterBegin :: "(gocontext \<Rightarrow> tx_status \<Rightarrow> goerror option \<Rightarrow> ('cb, 'db) action) option"
  BeforeCommit :: "(gocontext \<Rightarrow> tx_status \<Rightarrow> ('cb, 'db) action) option"
  AfterCommit :: "(gocontext \<Rightarrow> tx_status \<Rightarrow> goerror option \<Rightarrow> ('cb, 'db) action) option"
  BeforeRollback :: "(gocontext \<Rightarrow> tx_status \<Rightarrow> ('cb, 'db) action) option"
  AfterRollback :: "(gocontext \<Rightarrow> tx_status \<Rightarrow> goerror option \<Rightarrow> ('cb, 'db) action) option"

record ('cb, 'db) manager =
  database :: "'db sql_driver"
  listeners :: "('cb, 'db) listener list"

definition NewManager :: "'db sql_driver \<Rightarrow> ('cb, 'db) listener list \<Rightarrow> ('cb, 'db) manager" where
  "NewManager drv hooks = \<lparr>database = drv, listeners = hooks\<rparr>"

definition recoverListener :: "('cb, 'db) action \<Rightarrow> ('cb, 'db) world \<Rightarrow> ('cb, 'db) world" where
  "recoverListener hook w = snd (hook w)"

text \<open>The loop of the six \<open>fire\<close> methods: a nil hook is skipped, a panic is recovered.\<close>

fun fire_loop :: "('cb, 'db) action option list \<Rightarrow> ('cb, 'db) world \<Rightarrow> ('cb, 'db) world" where
  "fire_loop [] w = w"
| "fire_loop (None # rest) w = fire_loop rest w"
| "fire_loop (Some hook # rest) w = fire_loop rest (recoverListener hook w)"

definition fireBeforeBegin ::
  "('cb, 'db) manager \<Rightarrow> gocontext \<Rightarrow> tx_status \<Rightarrow> ('cb, 'db) world \<Rightarrow> ('cb, 'db) world" where
  "fireBeforeBegin m ctx st w =
     fire_loop (map (\<lambda>l. map_option (\<lambda>hook. hook ctx st) (BeforeBegin l)) (listeners m)) w"

definition fireAfterBegin ::
  "('cb, 'db) manager \<Rightarrow> gocontext \<Rightarrow> tx_status \<Rightarrow> goerror option \<Rightarrow> ('cb, 'db) world \<Rightarrow> ('cb, 'db) world" where
  "fireAfterBegin m ctx st err w =
     fire_loop (map (\<lambda>l. map_option (\<lambda>hook. hook ctx st err) (AfterBegin l)) (listeners m)) w"

definition fireBeforeCommit ::
  "('cb, 'db) manager \<Rightarrow> gocontext \<Rightarrow> tx_status \<Rightarrow> ('cb, 'db) world \<Rightarrow> ('cb, 'db) world" where
  "fireBeforeCommit m ctx st w =
     fire_loop (map (\<lambda>l. map_option (\<lambda>hook. hook ctx st) (BeforeCommit l)) (listeners m)) w"

definition fireAfterCommit ::
  "('cb, 'db) manager \<Rightarrow> gocontext \<Rightarrow> tx_status \<Rightarrow> goerror option \<Rightarrow> ('cb, 'db) world \<Rightarrow> ('cb, 'db) world" where
  "fireAfterCommit m ctx st err w =
     fire_loop (map (\<lambda>l. map_option (\<lambda>hook. hook ctx st err) (AfterCommit l)) (listeners m)) w"

definition fireBeforeRollback ::
  "('cb, 'db) manager \<Rightarrow> gocontext \<Rightarrow> tx_status \<Rightarrow> ('cb, 'db) world \<Rightarrow> ('cb, 'db) world" where
  "fireBeforeRollback m ctx st w =
     fire_loop (map (\<lambda>l. map_option (\<lambda>hook. hook ctx st) (BeforeRollback l)) (listeners m)) w"

definition fireAfterRollback ::
  "('cb, 'db) manager \<Rightarrow> gocontext \<Rightarrow> tx_status \<Rightarrow> goerror option \<Rightarrow> ('cb, 'db) world \<Rightarrow> ('cb, 'db) world" where
  "fireAfterRollback m ctx st err w =
     fire_loop (map (\<lambda>l. map_option (\<lambda>hook. hook ctx st err) (AfterRollback l)) (listeners m)) w"

section \<open>Small helpers of the manager\<close>

definition validateJoin :: "tx_definition \<Rightarrow> 'cb unit_of_work \<Rightarrow> goerror option" where
  "validateJoin d x =
     (if d_isolation d \<noteq> level_default \<and> d_isolation d \<noteq> u_isolation x
      then Some (Wrap ''%w: isolation %s requested while joining a transaction at %s'' [ErrIncompatibleJoin])
      else if d_readOnly d \<and> \<not> u_readOnly x
      then Some (Wrap ''%w: read-only requested while joining a read-write transaction'' [ErrIncompatibleJoin])
      else None)"

definition runGuarded ::
  "gocontext \<Rightarrow> ('cb, 'db) work \<Rightarrow> ('cb, 'db) world \<Rightarrow> goerror option \<times> panic option \<times> ('cb, 'db) world" where
  "runGuarded ctx work w = (case work ctx w of (r, w') \<Rightarrow> (error_of r, panic_of r, w'))"

definition runGuardedVoid ::
  "gocontext \<Rightarrow> ('cb, 'db) work \<Rightarrow> ('cb, 'db) world \<Rightarrow> panic option \<times> ('cb, 'db) world" where
  "runGuardedVoid ctx fn w = (case fn ctx w of (r, w') \<Rightarrow> (panic_of r, w'))"

fun reraise :: "panic option list \<Rightarrow> panic option" where
  "reraise [] = None"
| "reraise (None # rest) = reraise rest"
| "reraise (Some p # rest) = Some p"

definition timedOut :: "gocontext \<Rightarrow> ('cb, 'db) world \<Rightarrow> bool" where
  "timedOut ctx w = (case scope_state (ctx_scope ctx) w of
      None \<Rightarrow> False
    | Some (_, cause) \<Rightarrow> error_is cause ErrTransactionTimedOut)"

definition ignoreTxDone :: "goerror option \<Rightarrow> goerror option" where
  "ignoreTxDone err = (if opt_error_is err ErrTxDone then None else err)"

definition wrapSystem :: "goerror option \<Rightarrow> goerror option" where
  "wrapSystem err = map_option (\<lambda>e. Wrap ''%w: %w'' [ErrTransactionSystem, e]) err"

section \<open>Joining an active transaction\<close>

definition participate ::
  "gocontext \<Rightarrow> nat \<Rightarrow> ('cb, 'db) work \<Rightarrow> tx_definition \<Rightarrow> ('cb, 'db) action" where
  "participate ctx u work d w = (case validateJoin d (units w ! u) of
      Some err \<Rightarrow> (Returned (Some err), w)
    | None \<Rightarrow> (case work (withStatus ctx \<lparr>st_unit = Some u, st_name = d_name d,
                                 st_newTransaction = False, st_savepoint = False\<rparr>) w of
        (Panicked p, w') \<Rightarrow> (Panicked p, w')
      | (Returned None, w') \<Rightarrow> (Returned None, w')
      | (Returned (Some err), w') \<Rightarrow>
          (Returned (Some err), if shouldRollback d (Some err) then markRollbackOnly u w' else w')))"

section \<open>A new transaction\<close>

text \<open>
  The body of \<open>runNew\<close> after a successful begin, in three parts: the guarded phases that
  decide between commit and rollback (\<open>decide\<close>), and the two settlements. \<open>decide\<close> returns the
  work error, the three panic values, the verdict and the world.
\<close>

definition decide ::
  "('cb, 'db) interp \<Rightarrow> nat \<Rightarrow> gocontext \<Rightarrow> gocontext \<Rightarrow> ('cb, 'db) work \<Rightarrow> tx_definition \<Rightarrow>
   ('cb, 'db) world \<Rightarrow> goerror option \<times> panic option list \<times> bool \<times> ('cb, 'db) world" where
  "decide exec u bound tctx work d w =
     (let (err0, workPanic, w1) = runGuarded bound work w;
          workErr = (if err0 \<noteq> None \<and> timedOut tctx w1
                     then Some (Wrap ''%w: %w'' [ErrTransactionTimedOut, the err0]) else err0);
          rollback = (workPanic \<noteq> None \<or> isRollbackOnly u w1 \<or>
                      (workErr \<noteq> None \<and> shouldRollback d workErr));
          (workErr', beforeCommitPanic, rollback', w2) =
            (if rollback then (workErr, None, True, w1)
             else (case runGuarded bound (runBeforeCommit exec u) w1 of
                (vetoErr, panicValue, w') \<Rightarrow>
                  if panicValue \<noteq> None then (workErr, panicValue, True, w')
                  else if vetoErr \<noteq> None then (errors_join [workErr, vetoErr], None, True, w')
                  else (workErr, None, False, w')));
          (beforeCompletionPanic, w3) = runGuardedVoid bound (runBeforeCompletion exec u) w2
      in (workErr', [workPanic, beforeCommitPanic, beforeCompletionPanic],
          rollback' \<or> beforeCompletionPanic \<noteq> None, w3))"

definition settleRollback ::
  "('cb, 'db) interp \<Rightarrow> ('cb, 'db) manager \<Rightarrow> nat \<Rightarrow> nat \<Rightarrow> tx_status \<Rightarrow> gocontext \<Rightarrow> gocontext \<Rightarrow>
   goerror option \<Rightarrow> panic option list \<Rightarrow> ('cb, 'db) action" where
  "settleRollback exec m u t st bound cctx workErr panics w =
     (let w1 = fireBeforeRollback m bound st w;
          (err, w2) = Tx_Rollback (database m) t w1;
          rollbackErr = ignoreTxDone err;
          w3 = markCompleted u w2;
          w4 = runAfterCompletion exec u cctx StatusRolledBack w3;
          w5 = fireAfterRollback m cctx st rollbackErr w4;
          settleErr = wrapSystem rollbackErr
      in (case reraise panics of
            Some p \<Rightarrow> Panicked p
          | None \<Rightarrow> Returned (if workErr \<noteq> None then errors_join [workErr, settleErr]
                              else if settleErr \<noteq> None then settleErr
                              else Some ErrRollbackOnly), w5))"

definition settleCommit ::
  "('cb, 'db) interp \<Rightarrow> ('cb, 'db) manager \<Rightarrow> nat \<Rightarrow> nat \<Rightarrow> tx_status \<Rightarrow> gocontext \<Rightarrow> gocontext \<Rightarrow>
   goerror option \<Rightarrow> ('cb, 'db) action" where
  "settleCommit exec m u t st bound cctx workErr w =
     (let w1 = fireBeforeCommit m bound st w
      in (case Tx_Commit (database m) t w1 of
            (Some commitErr, w2) \<Rightarrow>
              (let w3 = markCompleted u w2;
                   w4 = runAfterCompletion exec u cctx StatusUnknown w3;
                   w5 = fireAfterCommit m cctx st (Some commitErr) w4
               in (Returned (errors_join [workErr, wrapSystem (Some commitErr)]), w5))
          | (None, w2) \<Rightarrow>
              (let w3 = markCompleted u w2;
                   w4 = runAfterCommit exec u cctx w3;
                   w5 = runAfterCompletion exec u cctx StatusCommitted w4;
                   w6 = fireAfterCommit m cctx st None w5
               in (Returned workErr, w6))))"

definition runBegun ::
  "('cb, 'db) interp \<Rightarrow> ('cb, 'db) manager \<Rightarrow> gocontext \<Rightarrow> gocontext \<Rightarrow> nat \<Rightarrow> nat \<Rightarrow> tx_status \<Rightarrow>
   ('cb, 'db) work \<Rightarrow> tx_definition \<Rightarrow> ('cb, 'db) action" where
  "runBegun exec m ctx tctx u t st work d w =
     (let bound = withStatus tctx st;
          cctx = withoutUnit ctx;
          (workErr, panics, rollback, w1) = decide exec u bound tctx work d w
      in if rollback then settleRollback exec m u t st bound cctx workErr panics w1
         else settleCommit exec m u t st bound cctx workErr w1)"

definition runNew ::
  "('cb, 'db) interp \<Rightarrow> ('cb, 'db) manager \<Rightarrow> gocontext \<Rightarrow> ('cb, 'db) work \<Rightarrow> tx_definition \<Rightarrow>
   ('cb, 'db) action" where
  "runNew exec m ctx work d w =
     (let (tctx, w1) = (if d_timeout d > 0 then withTimeoutCause ctx ErrTransactionTimedOut w else (ctx, w));
          u = length (units w1);
          w2 = w1\<lparr>units := units w1 @ [new_unit (d_isolation d) (d_readOnly d)]\<rparr>;
          st = \<lparr>st_unit = Some u, st_name = d_name d, st_newTransaction = True, st_savepoint = False\<rparr>;
          w3 = fireBeforeBegin m tctx st w2;
          (r, w4) = (case BeginTx (database m) tctx (transactionOptions d) w3 of
              (Inl err, w') \<Rightarrow>
                (Returned (Some (Wrap ''%w: %w'' [ErrBeginFailed, err])), fireAfterBegin m tctx st (Some err) w')
            | (Inr t, w') \<Rightarrow>
                runBegun exec m ctx tctx u t st work d
                  (fireAfterBegin m tctx st None (upd_unit u (\<lambda>x. x\<lparr>transaction := Some t\<rparr>) w')))
      in (r, if d_timeout d > 0 then cancelScope (ctx_scope tctx) w4 else w4))"

section \<open>A savepoint of the active transaction\<close>

definition release_savepoint ::
  "('cb, 'db) manager \<Rightarrow> gocontext \<Rightarrow> nat \<Rightarrow> string \<Rightarrow> ('cb, 'db) world \<Rightarrow> ('cb, 'db) world" where
  "release_savepoint m ctx t name w =
     snd (Tx_ExecContext (database m) ctx t (''RELEASE SAVEPOINT '' @ name) w)"

definition runNested ::
  "('cb, 'db) interp \<Rightarrow> ('cb, 'db) manager \<Rightarrow> gocontext \<Rightarrow> nat \<Rightarrow> ('cb, 'db) work \<Rightarrow> tx_definition \<Rightarrow>
   ('cb, 'db) action" where
  "runNested exec m ctx u work d w = (case validateJoin d (units w ! u) of
      Some err \<Rightarrow> (Returned (Some err), w)
    | None \<Rightarrow>
       (let (name, w1) = nextSavepointName u w;
            t = the (transaction (units w1 ! u))
        in (case Tx_ExecContext (database m) ctx t (''SAVEPOINT '' @ name) w1 of
              (Some err, w2) \<Rightarrow> (Returned (wrapSystem (Some (Wrap ''create savepoint: %w'' [err]))), w2)
            | (None, w2) \<Rightarrow>
               (case runSavepoint exec u ctx name w2 of
                  (Panicked p, w3) \<Rightarrow> (Panicked p, w3)
                | (Returned _, w3) \<Rightarrow>
                   (case work (withStatus ctx \<lparr>st_unit = Some u, st_name = d_name d,
                                  st_newTransaction = False, st_savepoint = True\<rparr>) w3 of
                      (Panicked p, w4) \<Rightarrow> (Panicked p, w4)
                    | (Returned workErr, w4) \<Rightarrow>
                       (if workErr \<noteq> None \<and> shouldRollback d workErr
                        then (case runSavepointRollback exec u ctx name w4 of
                            (Panicked p, w5) \<Rightarrow> (Panicked p, w5)
                          | (Returned _, w5) \<Rightarrow>
                             (case Tx_ExecContext (database m) ctx t (''ROLLBACK TO SAVEPOINT '' @ name) w5 of
                                (Some err, w6) \<Rightarrow>
                                  (Returned (errors_join [workErr, wrapSystem (Some err)]), markRollbackOnly u w6)
                              | (None, w6) \<Rightarrow> (Returned workErr, release_savepoint m ctx t name w6)))
                        else (Returned workErr, release_savepoint m ctx t name w4)))))))"

section \<open>Run\<close>

definition Run ::
  "('cb, 'db) interp \<Rightarrow> ('cb, 'db) manager \<Rightarrow> gocontext \<Rightarrow> ('cb, 'db) work \<Rightarrow> tx_option list \<Rightarrow>
   ('cb, 'db) action" where
  "Run exec m ctx work opts w =
     (let d = newDefinition opts
      in if d_timeout d < 0 then (Returned (Some ErrInvalidTimeout), w)
         else (let joined = fromContext ctx w
           in (case d_propagation d of
             Required \<Rightarrow> (case joined of
                 Some u \<Rightarrow> participate ctx u work d w
               | None \<Rightarrow> runNew exec m ctx work d w)
           | Supports \<Rightarrow> (case joined of
                 Some u \<Rightarrow> participate ctx u work d w
               | None \<Rightarrow> work ctx w)
           | Mandatory \<Rightarrow> (case joined of
                 None \<Rightarrow> (Returned (Some ErrTransactionRequired), w)
               | Some u \<Rightarrow> participate ctx u work d w)
           | Never \<Rightarrow> (case joined of
                 Some _ \<Rightarrow> (Returned (Some ErrTransactionNotAllowed), w)
               | None \<Rightarrow> work ctx w)
           | Nested \<Rightarrow> (case joined of
                 Some u \<Rightarrow> runNested exec m ctx u work d w
               | None \<Rightarrow> runNew exec m ctx work d w)
           | UnknownPropagation p \<Rightarrow>
               (Returned (Some (Leaf (''unknown propagation '' @ propagation_string (d_propagation d)))), w))))"

section \<open>RunResult\<close>

text \<open>
  The variable \<open>result\<close> that the closure captures is a cell of the world, reached by \<open>cell\<close> and
  \<open>assign\<close>; it holds the zero value of its type until the work assigns it, which a panic prevents.
\<close>

definition RunResult ::
  "('a \<Rightarrow> 'db \<Rightarrow> 'db) \<Rightarrow> ('db \<Rightarrow> 'a) \<Rightarrow> 'a \<Rightarrow> ('cb, 'db) interp \<Rightarrow> ('cb, 'db) manager \<Rightarrow> gocontext \<Rightarrow>
   (gocontext \<Rightarrow> ('cb, 'db) world \<Rightarrow> 'a \<times> outcome \<times> ('cb, 'db) world) \<Rightarrow> tx_option list \<Rightarrow> ('cb, 'db) world \<Rightarrow>
   'a \<times> outcome \<times> ('cb, 'db) world" where
  "RunResult assign cell zero exec m ctx work opts w =
     (let (r, w') = Run exec m ctx (\<lambda>c v. case work c v of
            (value_of, Returned err, v') \<Rightarrow> (Returned err, v'\<lparr>db := assign value_of (db v')\<rparr>)
          | (_, Panicked p, v') \<Rightarrow> (Panicked p, v')) opts (w\<lparr>db := assign zero (db w)\<rparr>)
      in (cell (db w'), r, w'))"

section \<open>Querier\<close>

datatype querier = OnTransaction nat | OnDatabase

definition Querier :: "gocontext \<Rightarrow> ('cb, 'db) world \<Rightarrow> querier" where
  "Querier ctx w = (case fromContext ctx w of
      Some u \<Rightarrow> OnTransaction (the (transaction (units w ! u)))
    | None \<Rightarrow> OnDatabase)"

end
