(* ===== verification/TxGrowth.thy ===== *)
theory TxGrowth
  imports TxManager
begin

text \<open>
  The order in which worlds evolve. Nothing the package offers to client code takes back what
  happened: units and transactions are only added, a rollback-only mark stays, a unit is completed
  by its own \<open>Run\<close> only and cannot be marked afterwards, registrations are never dropped (as multisets),
  and an open transaction stays open or is rolled back; only the \<open>Run\<close> that began a
  transaction commits it. Client code (work, callbacks, listener hooks) is asked to respect
  this order; \<open>Run\<close> then respects it too, so every program built from the package's own
  calls does.
\<close>

section \<open>Pointwise growth of a table\<close>

definition grows :: "nat set \<Rightarrow> ('a \<Rightarrow> 'a \<Rightarrow> bool) \<Rightarrow> 'a list \<Rightarrow> 'a list \<Rightarrow> bool" where
  "grows I le xs ys \<longleftrightarrow> length xs \<le> length ys \<and> (\<forall>i < length xs. i \<in> I \<longrightarrow> le (xs ! i) (ys ! i))"

lemma grows_length: "grows I le xs ys \<Longrightarrow> length xs \<le> length ys"
  by (simp add: grows_def)

lemma growsD: "grows I le xs ys \<Longrightarrow> i < length xs \<Longrightarrow> i \<in> I \<Longrightarrow> le (xs ! i) (ys ! i)"
  by (simp add: grows_def)

lemma grows_mono: "grows I le xs ys \<Longrightarrow> J \<subseteq> I \<Longrightarrow> grows J le xs ys"
  by (auto simp: grows_def)

lemma grows_outside: "grows (- {k}) le xs ys \<Longrightarrow> length xs \<le> k \<Longrightarrow> grows I le xs ys"
  by (auto simp: grows_def)

locale growth =
  fixes le :: "'a \<Rightarrow> 'a \<Rightarrow> bool"
  assumes le_refl: "le x x"
    and le_trans: "le x y \<Longrightarrow> le y z \<Longrightarrow> le x z"
begin

lemma grows_refl: "grows I le xs xs"
  by (simp add: grows_def le_refl)

lemma grows_trans: "grows I le xs ys \<Longrightarrow> grows I le ys zs \<Longrightarrow> grows I le xs zs"
  unfolding grows_def by (meson le_trans order_less_le_trans order_trans)

lemma grows_append: "grows I le xs (xs @ ys)"
  by (simp add: grows_def nth_append le_refl)

lemma grows_update: "le (xs ! i) y \<Longrightarrow> grows I le xs (xs[i := y])"
  by (simp add: grows_def) (metis le_refl nth_list_update_eq nth_list_update_neq)

lemma grows_update_outside: "i \<notin> I \<Longrightarrow> grows I le xs (xs[i := y])"
  by (simp add: grows_def) (metis le_refl nth_list_update_neq)

end

section \<open>The three tables of the world\<close>

definition unit_le :: "'cb unit_of_work \<Rightarrow> 'cb unit_of_work \<Rightarrow> bool" where
  "unit_le x y \<longleftrightarrow>
     (rollbackOnly x \<longrightarrow> rollbackOnly y) \<and>
     completed y = completed x \<and> (completed x \<longrightarrow> rollbackOnly y = rollbackOnly x) \<and>
     (transaction x \<noteq> None \<longrightarrow> transaction y = transaction x) \<and>
     u_isolation y = u_isolation x \<and> u_readOnly y = u_readOnly x \<and>
     savepointCounter x \<le> savepointCounter y \<and>
     mset (beforeCommit x) \<subseteq># mset (beforeCommit y) \<and>
     mset (beforeCompletion x) \<subseteq># mset (beforeCompletion y) \<and>
     mset (afterCommit x) \<subseteq># mset (afterCommit y) \<and>
     mset (afterCompletion x) \<subseteq># mset (afterCompletion y) \<and>
     mset (savepoint x) \<subseteq># mset (savepoint y) \<and>
     mset (savepointRollback x) \<subseteq># mset (savepointRollback y)"

definition tx_le :: "sql_tx \<Rightarrow> sql_tx \<Rightarrow> bool" where
  "tx_le x y \<longleftrightarrow> tx_scope y = tx_scope x \<and>
     (if tx_state x = TxOpen then tx_state y \<in> {TxOpen, TxRolledBack} else tx_state y = tx_state x)"

definition scope_le :: "cancel_scope \<Rightarrow> cancel_scope \<Rightarrow> bool" where
  "scope_le x y \<longleftrightarrow> scope_cause y = scope_cause x \<and>
     (scope_done x \<noteq> None \<longrightarrow> scope_done y = scope_done x)"

interpretation unit_growth: growth unit_le
proof
  fix x y z :: "'a unit_of_work"
  show "unit_le x x" by (simp add: unit_le_def)
  assume "unit_le x y" "unit_le y z"
  then show "unit_le x z"
    unfolding unit_le_def
    by (elim conjE, intro conjI)
       (metis | erule (1) subset_mset.trans | erule (1) order_trans)+
qed

interpretation tx_growth: growth tx_le
  by unfold_locales (auto simp: tx_le_def split: if_splits)

interpretation scope_growth: growth scope_le
  by unfold_locales (auto simp: scope_le_def)

definition world_le :: "nat set \<Rightarrow> nat set \<Rightarrow> ('cb, 'db) world \<Rightarrow> ('cb, 'db) world \<Rightarrow> bool" where
  "world_le U T w w' \<longleftrightarrow> grows U unit_le (units w) (units w') \<and> grows T tx_le (txs w) (txs w') \<and>
     grows UNIV scope_le (scopes w) (scopes w')"

abbreviation world_grows :: "('cb, 'db) world \<Rightarrow> ('cb, 'db) world \<Rightarrow> bool" where
  "world_grows \<equiv> world_le UNIV UNIV"

lemma world_le_refl [simp, intro!]: "world_le U T w w"
  by (simp add: world_le_def unit_growth.grows_refl tx_growth.grows_refl scope_growth.grows_refl)

lemma world_le_trans [trans]: "world_le U T v w \<Longrightarrow> world_le U T w x \<Longrightarrow> world_le U T v x"
  unfolding world_le_def
  by (blast intro: unit_growth.grows_trans tx_growth.grows_trans scope_growth.grows_trans)

lemma world_le_mono: "world_le U T v w \<Longrightarrow> U' \<subseteq> U \<Longrightarrow> T' \<subseteq> T \<Longrightarrow> world_le U' T' v w"
  unfolding world_le_def by (blast intro: grows_mono)

lemma world_grows_le: "world_grows v w \<Longrightarrow> world_le U T v w"
  by (rule world_le_mono) auto

lemma world_le_fresh:
  "world_le (- {u}) (- {t}) v w \<Longrightarrow> length (units v) \<le> u \<Longrightarrow> length (txs v) \<le> t \<Longrightarrow> world_grows v w"
  unfolding world_le_def by (blast intro: grows_outside)

lemma world_le_lengths:
  assumes "world_le U T v w"
  shows "length (units v) \<le> length (units w)" "length (txs v) \<le> length (txs w)"
    "length (scopes v) \<le> length (scopes w)"
  using assms by (auto simp: world_le_def dest: grows_length)

lemma world_le_unitD:
  "world_le U T v w \<Longrightarrow> u < length (units v) \<Longrightarrow> u \<in> U \<Longrightarrow> unit_le (units v ! u) (units w ! u)"
  by (auto simp: world_le_def dest: growsD)

lemma world_le_txD:
  "world_le U T v w \<Longrightarrow> t < length (txs v) \<Longrightarrow> t \<in> T \<Longrightarrow> tx_le (txs v ! t) (txs w ! t)"
  by (auto simp: world_le_def dest: growsD)

section \<open>The package's own steps\<close>

lemma upd_unit_le: "unit_le (units w ! u) (f (units w ! u)) \<Longrightarrow> world_le U T w (upd_unit u f w)"
  by (simp add: world_le_def upd_unit_def unit_growth.grows_update tx_growth.grows_refl
      scope_growth.grows_refl)

lemma upd_unit_le_outside: "u \<notin> U \<Longrightarrow> world_le U T w (upd_unit u f w)"
  by (simp add: world_le_def upd_unit_def unit_growth.grows_update_outside tx_growth.grows_refl
      scope_growth.grows_refl)

lemma markRollbackOnly_le [preserves]: "world_le U T w (markRollbackOnly u w)"
  by (auto simp: markRollbackOnly_def unit_le_def intro!: upd_unit_le)

lemma markCompleted_le: "u \<notin> U \<Longrightarrow> world_le U T w (markCompleted u w)"
  by (simp add: markCompleted_def upd_unit_le_outside)

lemma nextSavepointName_le [preserves]: "world_le U T w (snd (nextSavepointName u w))"
  by (auto simp: nextSavepointName_def Let_def unit_le_def intro!: upd_unit_le)

lemma MarkRollbackOnly_le [preserves]: "world_le U T w (snd (MarkRollbackOnly ctx w))"
  by (auto simp: MarkRollbackOnly_def intro: preserves split: option.splits)

lemma sortByOrder_mset [simp]: "mset (sortByOrder xs) = mset xs"
  by (simp add: sortByOrder_def)

lemma register_le [preserves]:
  "world_le U T w (snd (RegisterBeforeCommit ctx cb opts w))"
  "world_le U T w (snd (RegisterBeforeCompletion ctx cb opts w))"
  "world_le U T w (snd (RegisterAfterCommit ctx cb opts w))"
  "world_le U T w (snd (RegisterAfterCompletion ctx cb opts w))"
  "world_le U T w (snd (RegisterSavepoint ctx cb opts w))"
  "world_le U T w (snd (RegisterSavepointRollback ctx cb opts w))"
  by (auto simp: register_defs unit_le_def intro!: upd_unit_le split: option.splits)

lemma withTimeoutCause_le [preserves]: "world_le U T w (snd (withTimeoutCause ctx cause w))"
  by (simp add: withTimeoutCause_def world_le_def unit_growth.grows_refl tx_growth.grows_refl
      scope_growth.grows_append)

lemma cancelScope_le [preserves]: "world_le U T w (cancelScope scope w)"
  by (auto simp: cancelScope_def world_le_def unit_growth.grows_refl tx_growth.grows_refl
      scope_growth.grows_refl scope_le_def intro!: scope_growth.grows_update split: option.splits)

lemma fireTimer_le [preserves]: "world_le U T w (fireTimer k w)"
  by (auto simp: fireTimer_def world_le_def unit_growth.grows_refl tx_growth.grows_refl
      scope_growth.grows_refl scope_le_def intro!: scope_growth.grows_update)

lemma BeginTx_le [preserves]: "world_le U T w (snd (BeginTx drv ctx opts w))"
  by (auto simp: BeginTx_def world_le_def unit_growth.grows_refl tx_growth.grows_refl
      scope_growth.grows_refl tx_growth.grows_append split: option.splits prod.splits)

lemma end_tx_le:
  "(t \<in> T \<Longrightarrow> tx_le (txs w ! t) ((txs w ! t)\<lparr>tx_state := how\<rparr>)) \<Longrightarrow> world_le U T w (end_tx t how d w)"
  by (cases "t \<in> T")
     (auto simp: end_tx_def world_le_def unit_growth.grows_refl scope_growth.grows_refl
        intro: tx_growth.grows_update tx_growth.grows_update_outside)

lemma Tx_Rollback_le [preserves]: "world_le U T w (snd (Tx_Rollback drv t w))"
  by (auto simp: Tx_Rollback_def tx_le_def intro!: end_tx_le split: prod.splits)

lemma Tx_Commit_le: "t \<notin> T \<Longrightarrow> world_le U T w (snd (Tx_Commit drv t w))"
  using Tx_Rollback_le [of U T w drv t]
  by (auto simp: Tx_Commit_def intro!: end_tx_le split: option.splits prod.splits)

lemma Tx_ExecContext_le [preserves]: "world_le U T w (snd (Tx_ExecContext drv ctx t s w))"
  by (auto simp: Tx_ExecContext_def world_le_def unit_growth.grows_refl tx_growth.grows_refl
      scope_growth.grows_refl split: option.splits prod.splits)

section \<open>Client code that respects the order\<close>

definition action_grows :: "('cb, 'db) action \<Rightarrow> bool" where
  "action_grows a \<longleftrightarrow> (\<forall>w. world_grows w (snd (a w)))"

definition work_grows :: "('cb, 'db) work \<Rightarrow> bool" where
  "work_grows work \<longleftrightarrow> (\<forall>ctx. action_grows (work ctx))"

definition callbacks_grow :: "('cb, 'db) interp \<Rightarrow> bool" where
  "callbacks_grow exec \<longleftrightarrow> (\<forall>cb ctx arg. action_grows (exec cb ctx arg))"

definition listener_grows :: "('cb, 'db) listener \<Rightarrow> bool" where
  "listener_grows l \<longleftrightarrow>
     pred_option (\<lambda>hook. \<forall>ctx st. action_grows (hook ctx st)) (BeforeBegin l) \<and>
     pred_option (\<lambda>hook. \<forall>ctx st err. action_grows (hook ctx st err)) (AfterBegin l) \<and>
     pred_option (\<lambda>hook. \<forall>ctx st. action_grows (hook ctx st)) (BeforeCommit l) \<and>
     pred_option (\<lambda>hook. \<forall>ctx st err. action_grows (hook ctx st err)) (AfterCommit l) \<and>
     pred_option (\<lambda>hook. \<forall>ctx st. action_grows (hook ctx st)) (BeforeRollback l) \<and>
     pred_option (\<lambda>hook. \<forall>ctx st err. action_grows (hook ctx st err)) (AfterRollback l)"

definition manager_grows :: "('cb, 'db) manager \<Rightarrow> bool" where
  "manager_grows m \<longleftrightarrow> (\<forall>l \<in> set (listeners m). listener_grows l)"

lemma action_growsD: "action_grows a \<Longrightarrow> world_le U T w (snd (a w))"
  by (auto simp: action_grows_def intro: world_grows_le)

lemma work_growsD: "work_grows work \<Longrightarrow> action_grows (work ctx)"
  by (simp add: work_grows_def)

lemma vetoing_loop_grows:
  "callbacks_grow exec \<Longrightarrow> world_le U T w (snd (vetoing_loop exec ctx cbs w))"
proof (induction exec ctx cbs w rule: vetoing_loop.induct)
  case (2 exec ctx callback rest w)
  have first: "world_le U T w (snd (exec (cb_call callback) ctx NoArgument w))"
    using 2(2) by (auto simp: callbacks_grow_def intro: action_growsD)
  show ?case
    using first 2(1) [OF _ _ _ 2(2)]
    by (auto split: prod.splits outcome.splits option.splits) (metis world_le_trans)
qed simp

lemma plain_loop_grows:
  "callbacks_grow exec \<Longrightarrow> world_le U T w (snd (plain_loop exec ctx arg cbs w))"
proof (induction exec ctx arg cbs w rule: plain_loop.induct)
  case (2 exec ctx arg callback rest w)
  have first: "world_le U T w (snd (exec (cb_call callback) ctx arg w))"
    using 2(2) by (auto simp: callbacks_grow_def intro: action_growsD)
  show ?case
    using first 2(1) [OF _ _ 2(2)]
    by (auto split: prod.splits outcome.splits) (metis world_le_trans)
qed simp

lemma recovering_loop_grows:
  "callbacks_grow exec \<Longrightarrow> world_le U T w (recovering_loop exec ctx arg cbs w)"
proof (induction exec ctx arg cbs w rule: recovering_loop.induct)
  case (2 exec ctx arg callback rest w)
  have first: "world_le U T w (recoverSynchronization (exec (cb_call callback) ctx arg) w)"
    using 2(2) by (auto simp: callbacks_grow_def recoverSynchronization_def intro: action_growsD)
  show ?case
    using first 2(1) [OF 2(2)] by (auto dest: world_le_trans)
qed simp

lemma sorted_unit_le:
  "unit_le x (x\<lparr>beforeCommit := sortByOrder (beforeCommit x)\<rparr>)"
  "unit_le x (x\<lparr>beforeCompletion := sortByOrder (beforeCompletion x)\<rparr>)"
  "unit_le x (x\<lparr>afterCommit := sortByOrder (afterCommit x)\<rparr>)"
  "unit_le x (x\<lparr>afterCompletion := sortByOrder (afterCompletion x)\<rparr>)"
  "unit_le x (x\<lparr>savepoint := sortByOrder (savepoint x)\<rparr>)"
  "unit_le x (x\<lparr>savepointRollback := sortByOrder (savepointRollback x)\<rparr>)"
  by (simp_all add: unit_le_def)

lemma fire_loop_grows:
  "(\<And>hook. Some hook \<in> set hooks \<Longrightarrow> action_grows hook) \<Longrightarrow> world_le U T w (fire_loop hooks w)"
proof (induction hooks w rule: fire_loop.induct)
  case (3 hook rest w)
  have "world_le U T w (recoverListener hook w)"
    using 3(2) by (auto simp: recoverListener_def intro: action_growsD)
  moreover have "world_le U T (recoverListener hook w) (fire_loop rest (recoverListener hook w))"
    using 3 by auto
  ultimately show ?case by (auto dest: world_le_trans)
qed auto

lemma fire_hooks_grow:
  assumes "\<And>l hook. l \<in> set ls \<Longrightarrow> sel l = Some hook \<Longrightarrow> action_grows (call hook)"
  shows "world_le U T w (fire_loop (map (\<lambda>l. map_option call (sel l)) ls) w)"
proof (rule fire_loop_grows)
  fix hook
  assume "Some hook \<in> set (map (\<lambda>l. map_option call (sel l)) ls)"
  then obtain l where "l \<in> set ls" "map_option call (sel l) = Some hook"
    by (metis (no_types, lifting) imageE image_set)
  then show "action_grows hook" using assms by auto
qed

text \<open>
  The contract between the manager and its clients: callbacks and hooks that respect the
  order. Everything \<open>Run\<close> does around them then respects it as well.
\<close>

locale tx_client =
  fixes exec :: "('cb, 'db) interp" and m :: "('cb, 'db) manager"
  assumes exec_grows: "callbacks_grow exec"
    and hooks_grow: "manager_grows m"
begin

lemma phases_grow:
  "world_le U T w (snd (runBeforeCommit exec u ctx w))"
  "world_le U T w (snd (runBeforeCompletion exec u ctx w))"
  "world_le U T w (runAfterCommit exec u ctx w)"
  "world_le U T w (runAfterCompletion exec u ctx status w)"
  "world_le U T w (snd (runSavepoint exec u ctx name w))"
  "world_le U T w (snd (runSavepointRollback exec u ctx name w))"
  unfolding phase_defs Let_def
  by (rule world_le_trans [OF upd_unit_le], rule sorted_unit_le,
      rule vetoing_loop_grows plain_loop_grows recovering_loop_grows, rule exec_grows)+

lemma hook_of: "l \<in> set (listeners m) \<Longrightarrow> listener_grows l"
  using hooks_grow by (simp add: manager_grows_def)

lemma fires_grow:
  "world_le U T w (fireBeforeBegin m ctx st w)"
  "world_le U T w (fireAfterBegin m ctx st err w)"
  "world_le U T w (fireBeforeCommit m ctx st w)"
  "world_le U T w (fireAfterCommit m ctx st err w)"
  "world_le U T w (fireBeforeRollback m ctx st w)"
  "world_le U T w (fireAfterRollback m ctx st err w)"
  unfolding fireBeforeBegin_def fireAfterBegin_def fireBeforeCommit_def fireAfterCommit_def
    fireBeforeRollback_def fireAfterRollback_def
  by (rule fire_hooks_grow, drule hook_of, simp add: listener_grows_def)+

end

end
