(* ===== verification/TxSettlement.thy ===== *)
theory TxSettlement
  imports TxGrowth
begin

text \<open>
  What one \<open>Run\<close> does to the world: it respects the order of TxGrowth, it never leaves a
  transaction it began open, and its result says how the transaction ended. Everything is
  proved once for any client that respects the order, in the context of the contract
  \<open>tx_client\<close>, and stated without the locale at the end.
\<close>

definition live_tx :: "nat \<Rightarrow> ('cb, 'db) world \<Rightarrow> bool" where
  "live_tx t w \<longleftrightarrow> t < length (txs w) \<and> tx_state (txs w ! t) \<in> {TxOpen, TxRolledBack}"

definition has_unit :: "nat \<Rightarrow> ('cb, 'db) world \<Rightarrow> bool" where
  "has_unit u w \<longleftrightarrow> u < length (units w)"

lemma live_tx_le: "world_le U UNIV v w \<Longrightarrow> live_tx t v \<Longrightarrow> live_tx t w"
  using world_le_txD [of U UNIV v w t] world_le_lengths(2) [of U UNIV v w]
  by (auto simp: live_tx_def tx_le_def)

lemma ended_tx_le:
  "world_le U UNIV v w \<Longrightarrow> t < length (txs v) \<Longrightarrow> tx_state (txs v ! t) \<noteq> TxOpen \<Longrightarrow>
   t < length (txs w) \<and> tx_state (txs w ! t) = tx_state (txs v ! t)"
  using world_le_txD [of U UNIV v w t] world_le_lengths(2) [of U UNIV v w]
  by (auto simp: tx_le_def)

lemma has_unit_le: "world_le U T v w \<Longrightarrow> has_unit u v \<Longrightarrow> has_unit u w"
  using world_le_lengths(1) [of U T v w] by (simp add: has_unit_def)

lemma completed_le: "world_grows v w \<Longrightarrow> has_unit u v \<Longrightarrow> isCompleted u w = isCompleted u v"
  using world_le_unitD [of UNIV UNIV v w u] by (auto simp: has_unit_def unit_le_def isCompleted_def)

lemma marked_le: "world_grows v w \<Longrightarrow> has_unit u v \<Longrightarrow> isRollbackOnly u v \<Longrightarrow> isRollbackOnly u w"
  using world_le_unitD [of UNIV UNIV v w u] by (auto simp: has_unit_def unit_le_def isRollbackOnly_def)

lemma bound_le:
  "world_grows v w \<Longrightarrow> has_unit u v \<Longrightarrow> transaction (units v ! u) = Some t \<Longrightarrow>
   transaction (units w ! u) = Some t"
  using world_le_unitD [of UNIV UNIV v w u] by (auto simp: has_unit_def unit_le_def)

lemma isCompleted_markCompleted [simp]: "has_unit u w \<Longrightarrow> isCompleted u (markCompleted u w)"
  by (simp add: has_unit_def isCompleted_def markCompleted_def upd_unit_def)

lemma txs_markCompleted [simp]: "txs (markCompleted u w) = txs w"
  by (simp add: markCompleted_def upd_unit_def)

lemma has_unit_markCompleted [simp]: "has_unit u' (markCompleted u w) = has_unit u' w"
  by (simp add: has_unit_def markCompleted_def upd_unit_def)

lemma transaction_markCompleted [simp]:
  "transaction (units (markCompleted u w) ! u') = transaction (units w ! u')"
  by (cases "u < length (units w)"; cases "u' = u")
     (simp_all add: markCompleted_def upd_unit_def list_update_beyond)

lemma Tx_Rollback_ends:
  "live_tx t w \<Longrightarrow> Tx_Rollback drv t w = (err, w') \<Longrightarrow>
   t < length (txs w') \<and> tx_state (txs w' ! t) = TxRolledBack \<and> units w' = units w"
  by (auto simp: Tx_Rollback_def live_tx_def end_tx_def split: if_splits prod.splits)

lemma Tx_Commit_ends:
  assumes "live_tx t w" and "Tx_Commit drv t w = (err, w')"
  shows "t < length (txs w')" "units w' = units w"
    "err = None \<Longrightarrow> tx_state (txs w' ! t) = TxCommitted"
    "err \<noteq> None \<Longrightarrow> tx_state (txs w' ! t) \<in> {TxRolledBack, TxFailed}"
  using assms
  by (auto simp: Tx_Commit_def Tx_Rollback_def live_tx_def end_tx_def
      split: if_splits option.splits prod.splits)

lemma has_unit_units: "units w' = units w \<Longrightarrow> has_unit u w' = has_unit u w"
  by (simp add: has_unit_def)

lemma errors_join_not_None: "e \<noteq> None \<Longrightarrow> e \<in> set es \<Longrightarrow> errors_join es \<noteq> None"
  by (auto simp: errors_join_None_iff)

section \<open>The verdict\<close>

lemma decide_commit_verdict:
  assumes "decide exec u bound tctx work d w = (e, ps, False, w')"
  obtains e0 w1 where "work bound w = (Returned e0, w1)" "\<not> isRollbackOnly u w1"
    "\<not> shouldRollback d e" "e0 = None \<longleftrightarrow> e = None" "ps = [None, None, None]"
  using assms
  by (cases "work bound w"; cases "fst (work bound w)")
     (auto simp: decide_def runGuarded_def runGuardedVoid_def Let_def
        split: prod.splits if_splits)

lemma decide_doomed:
  assumes "work bound w = (r, w1)" "isRollbackOnly u w1 \<or> panic_of r \<noteq> None"
    and "decide exec u bound tctx work d w = (e, ps, rb, w')"
  shows "rb" "hd ps = panic_of r" "e = None \<longleftrightarrow> error_of r = None"
  using assms
  by (auto simp: decide_def runGuarded_def Let_def split: prod.splits if_splits)

context tx_client begin

lemma runGuarded_grows:
  "work_grows work \<Longrightarrow> runGuarded ctx work w = (e, p, w') \<Longrightarrow> world_le U T w w'"
  using action_growsD [OF work_growsD, of work U T w ctx]
  by (auto simp: runGuarded_def split: prod.splits)

lemma runGuarded_phase_grows:
  "runGuarded ctx (runBeforeCommit exec u) w = (e, p, w') \<Longrightarrow> world_le U T w w'"
  using phases_grow(1) [of U T w u ctx] by (auto simp: runGuarded_def split: prod.splits)

lemma runGuardedVoid_phase_grows:
  "runGuardedVoid ctx (runBeforeCompletion exec u) w = (p, w') \<Longrightarrow> world_le U T w w'"
  using phases_grow(2) [of U T w u ctx] by (auto simp: runGuardedVoid_def split: prod.splits)

lemma decide_grows:
  assumes "work_grows work" "decide exec u bound tctx work d w = (e, ps, rb, w')"
  shows "world_le U T w w'"
proof -
  obtain e0 p0 w1 where g1: "runGuarded bound work w = (e0, p0, w1)" by (metis prod_cases3)
  obtain e1 p1 w2 where g2: "runGuarded bound (runBeforeCommit exec u) w1 = (e1, p1, w2)"
    by (metis prod_cases3)
  have le: "world_le U T w w1" "world_le U T w1 w2"
    using runGuarded_grows [OF assms(1) g1] runGuarded_phase_grows [OF g2] by auto
  have "world_le U T w1 w' \<or> world_le U T w2 w'"
    using assms(2) g1 g2 runGuardedVoid_phase_grows
    by (auto simp: decide_def Let_def split: prod.splits if_splits)
  with le show ?thesis by (meson world_le_trans)
qed

section \<open>Settling\<close>

lemma settleRollback_steps:
  assumes "settleRollback exec m u t st bound cctx e ps w = (r, w')"
  obtains err v1 v2 where
    "world_le U T w v1" "Tx_Rollback (database m) t v1 = (err, v2)"
    "world_le U T (markCompleted u v2) w'" "world_le U T v1 v2"
    "r = (case reraise ps of Some p \<Rightarrow> Panicked p
          | None \<Rightarrow> Returned (if e \<noteq> None then errors_join [e, wrapSystem (ignoreTxDone err)]
               else if wrapSystem (ignoreTxDone err) \<noteq> None then wrapSystem (ignoreTxDone err)
               else Some ErrRollbackOnly))"
proof -
  let ?v1 = "fireBeforeRollback m bound st w"
  obtain err v2 where rb: "Tx_Rollback (database m) t ?v1 = (err, v2)" by fastforce
  let ?v4 = "runAfterCompletion exec u cctx StatusRolledBack (markCompleted u v2)"
  have w': "w' = fireAfterRollback m cctx st (ignoreTxDone err) ?v4"
    using assms rb by (simp add: settleRollback_def Let_def)
  have "world_le U T (markCompleted u v2) w'"
    unfolding w' by (rule world_le_trans [OF phases_grow(4) fires_grow(6)])
  moreover have "world_le U T ?v1 v2" using Tx_Rollback_le [of U T ?v1 "database m" t] rb by simp
  ultimately show thesis
    using that [OF fires_grow(5) rb] assms rb by (simp add: settleRollback_def Let_def)
qed

lemma settleRollback_grows:
  assumes "u \<notin> U"
  shows "world_le U T w (snd (settleRollback exec m u t st bound cctx e ps w))"
proof -
  obtain r w' where eq: "settleRollback exec m u t st bound cctx e ps w = (r, w')" by fastforce
  obtain err v1 v2 where "world_le U T w v1" "world_le U T v1 v2"
    "world_le U T (markCompleted u v2) w'"
    using settleRollback_steps [OF eq, of U T] by metis
  then have "world_le U T w w'" using markCompleted_le [OF assms] by (meson world_le_trans)
  then show ?thesis by (simp add: eq)
qed

lemma settleRollback_ends:
  assumes "settleRollback exec m u t st bound cctx e ps w = (r, w')" "live_tx t w" "has_unit u w"
  shows "tx_state (txs w' ! t) = TxRolledBack" "isCompleted u w'" "r \<noteq> Returned None"
    "reraise ps = Some p \<Longrightarrow> r = Panicked p"
    "reraise ps = None \<Longrightarrow> e = None \<Longrightarrow> r = Returned (Some ErrRollbackOnly) \<or>
       (\<exists>err. r = Returned (Some (Wrap ''%w: %w'' [ErrTransactionSystem, err])))"
proof -
  obtain err v1 v2 where s: "world_grows w v1" "Tx_Rollback (database m) t v1 = (err, v2)"
    "world_grows (markCompleted u v2) w'"
    "r = (case reraise ps of Some p \<Rightarrow> Panicked p
          | None \<Rightarrow> Returned (if e \<noteq> None then errors_join [e, wrapSystem (ignoreTxDone err)]
               else if wrapSystem (ignoreTxDone err) \<noteq> None then wrapSystem (ignoreTxDone err)
               else Some ErrRollbackOnly))"
    using settleRollback_steps [OF assms(1), of UNIV UNIV] by metis
  have v2: "t < length (txs v2)" "tx_state (txs v2 ! t) = TxRolledBack" "has_unit u v2"
    using Tx_Rollback_ends [OF live_tx_le [OF s(1) assms(2)] s(2)]
      has_unit_le [OF s(1) assms(3)] has_unit_units [of v2 v1] by auto
  show "tx_state (txs w' ! t) = TxRolledBack"
    using ended_tx_le [OF s(3), of t] v2 by simp
  show "isCompleted u w'" using completed_le [OF s(3)] v2 by simp
  show "r \<noteq> Returned None"
    using errors_join_not_None [of e] s(4) by (auto split: option.splits if_splits)
  show "reraise ps = Some p \<Longrightarrow> r = Panicked p" using s(4) by simp
  show "reraise ps = None \<Longrightarrow> e = None \<Longrightarrow> r = Returned (Some ErrRollbackOnly) \<or>
       (\<exists>err. r = Returned (Some (Wrap ''%w: %w'' [ErrTransactionSystem, err])))"
    using s(4) by (auto simp: wrapSystem_def split: option.splits if_splits)
qed

lemma settled_bound:
  assumes "world_grows w v1" "world_le UNIV (- {t}) v1 v2" "world_grows (markCompleted u v2) w'"
    and "has_unit u w" "transaction (units w ! u) = Some s"
  shows "transaction (units w' ! u) = Some s"
proof -
  have v2: "world_le UNIV (- {t}) w v2"
    using world_le_trans [OF world_grows_le [OF assms(1)] assms(2)] .
  have "transaction (units v2 ! u) = Some s"
    using world_le_unitD [OF v2, of u] assms(4,5) by (auto simp: has_unit_def unit_le_def)
  then show ?thesis
    by (intro bound_le [OF assms(3)]) (simp_all add: has_unit_le [OF v2 assms(4)])
qed

lemma settleRollback_bound:
  assumes "settleRollback exec m u t st bound cctx e ps w = (r, w')" "has_unit u w"
    and "transaction (units w ! u) = Some s"
  shows "transaction (units w' ! u) = Some s"
proof -
  obtain err v1 v2 where "world_grows w v1" "world_grows v1 v2" "world_grows (markCompleted u v2) w'"
    using settleRollback_steps [OF assms(1), of UNIV UNIV] by metis
  then show ?thesis
    using settled_bound [of w v1 t v2 u w'] assms(2,3) world_grows_le by blast
qed

lemma settleCommit_steps:
  assumes "settleCommit exec m u t st bound cctx e w = (r, w')"
  obtains err v1 v2 where
    "world_le U T w v1" "Tx_Commit (database m) t v1 = (err, v2)"
    "world_le U T (markCompleted u v2) w'"
    "r = Returned (if err = None then e else errors_join [e, wrapSystem err])"
proof -
  let ?v1 = "fireBeforeCommit m bound st w"
  obtain err v2 where c: "Tx_Commit (database m) t ?v1 = (err, v2)" by fastforce
  have "world_le U T (markCompleted u v2) w'"
  proof (cases err)
    case None
    then have "w' = fireAfterCommit m cctx st None (runAfterCompletion exec u cctx StatusCommitted
        (runAfterCommit exec u cctx (markCompleted u v2)))"
      using assms c by (simp add: settleCommit_def Let_def)
    then show ?thesis by (metis fires_grow(4) phases_grow(3,4) world_le_trans)
  next
    case (Some a)
    then have "w' = fireAfterCommit m cctx st (Some a)
        (runAfterCompletion exec u cctx StatusUnknown (markCompleted u v2))"
      using assms c by (simp add: settleCommit_def Let_def)
    then show ?thesis by (metis fires_grow(4) phases_grow(4) world_le_trans)
  qed
  then show thesis
    using that [OF fires_grow(3) c] assms c
    by (cases err) (auto simp: settleCommit_def Let_def)
qed

lemma settleCommit_grows:
  assumes "u \<notin> U" "t \<notin> T"
  shows "world_le U T w (snd (settleCommit exec m u t st bound cctx e w))"
proof -
  obtain r w' where eq: "settleCommit exec m u t st bound cctx e w = (r, w')" by fastforce
  obtain err v1 v2 where s: "world_le U T w v1" "Tx_Commit (database m) t v1 = (err, v2)"
    "world_le U T (markCompleted u v2) w'"
    using settleCommit_steps [OF eq, of U T] by metis
  have "world_le U T v1 v2" using Tx_Commit_le [OF assms(2), of U v1 "database m"] s(2) by simp
  with s have "world_le U T w w'" using markCompleted_le [OF assms(1)] by (meson world_le_trans)
  then show ?thesis by (simp add: eq)
qed

lemma settleCommit_ends:
  assumes "settleCommit exec m u t st bound cctx e w = (r, w')" "live_tx t w" "has_unit u w"
  shows "tx_state (txs w' ! t) = TxCommitted \<and> r = Returned e \<or>
         tx_state (txs w' ! t) \<in> {TxRolledBack, TxFailed} \<and> (\<exists>err. r = Returned (Some err))"
    and "isCompleted u w'"
proof -
  obtain err v1 v2 where s: "world_grows w v1" "Tx_Commit (database m) t v1 = (err, v2)"
    "world_grows (markCompleted u v2) w'"
    "r = Returned (if err = None then e else errors_join [e, wrapSystem err])"
    using settleCommit_steps [OF assms(1), of UNIV UNIV] by metis
  have live: "live_tx t v1" by (rule live_tx_le [OF s(1) assms(2)])
  note ends = Tx_Commit_ends [OF live s(2)]
  have unit: "has_unit u v2"
    using has_unit_le [OF s(1) assms(3)] has_unit_units [OF ends(2)] by simp
  have kept: "tx_state (txs v2 ! t) \<noteq> TxOpen \<Longrightarrow> tx_state (txs w' ! t) = tx_state (txs v2 ! t)"
    using ended_tx_le [OF s(3), of t] ends(1) by simp
  show "isCompleted u w'" using completed_le [OF s(3)] unit by simp
  show "tx_state (txs w' ! t) = TxCommitted \<and> r = Returned e \<or>
         tx_state (txs w' ! t) \<in> {TxRolledBack, TxFailed} \<and> (\<exists>err. r = Returned (Some err))"
  proof (cases err)
    case None
    with ends(3) kept s(4) show ?thesis by simp
  next
    case (Some a)
    have "errors_join [e, wrapSystem err] \<noteq> None"
      by (rule errors_join_not_None [of "wrapSystem err"]) (auto simp: Some wrapSystem_def)
    with Some ends(4) kept s(4) show ?thesis by auto
  qed
qed

lemma settleCommit_bound:
  assumes "settleCommit exec m u t st bound cctx e w = (r, w')" "has_unit u w"
    and "transaction (units w ! u) = Some s"
  shows "transaction (units w' ! u) = Some s"
proof -
  obtain err v1 v2 where s: "world_grows w v1" "Tx_Commit (database m) t v1 = (err, v2)"
    "world_grows (markCompleted u v2) w'"
    using settleCommit_steps [OF assms(1), of UNIV UNIV] by metis
  have "world_le UNIV (- {t}) v1 v2"
    using Tx_Commit_le [of t "- {t}" UNIV v1 "database m"] s(2) by simp
  then show ?thesis using settled_bound [OF s(1) _ s(3)] assms(2,3) by blast
qed

section \<open>A begun transaction\<close>

lemma runBegun_grows:
  assumes "work_grows work" "u \<notin> U" "t \<notin> T"
  shows "world_le U T w (snd (runBegun exec m ctx tctx u t st work d w))"
proof -
  obtain e ps rb w1 where dec: "decide exec u (withStatus tctx st) tctx work d w = (e, ps, rb, w1)"
    by (metis prod_cases4)
  have "world_le U T w w1" by (rule decide_grows [OF assms(1) dec])
  moreover have "world_le U T w1 (snd (runBegun exec m ctx tctx u t st work d w))"
    using dec settleRollback_grows [OF assms(2)] settleCommit_grows [OF assms(2,3)]
    by (simp add: runBegun_def Let_def)
  ultimately show ?thesis by (rule world_le_trans)
qed

lemma runBegun_bound:
  assumes "work_grows work" "has_unit u w" "runBegun exec m ctx tctx u t st work d w = (r, w')"
    and "transaction (units w ! u) = Some s"
  shows "transaction (units w' ! u) = Some s"
proof -
  obtain e ps rb w1 where dec: "decide exec u (withStatus tctx st) tctx work d w = (e, ps, rb, w1)"
    by (metis prod_cases4)
  have le: "world_grows w w1" by (rule decide_grows [OF assms(1) dec])
  show ?thesis
    using assms(3) dec settleRollback_bound settleCommit_bound
      has_unit_le [OF le assms(2)] bound_le [OF le assms(2,4)]
    by (auto simp: runBegun_def Let_def split: if_splits)
qed

text \<open>
  The three ways a begun transaction ends. The first two are the settlements of a rollback
  verdict, the third a commit verdict whose commit went through or failed.
\<close>

lemma runBegun_ends:
  assumes "work_grows work" "live_tx t w" "has_unit u w"
    and "runBegun exec m ctx tctx u t st work d w = (r, w')"
  shows "isCompleted u w'"
    and "tx_state (txs w' ! t) = TxCommitted \<and>
           (\<exists>e e0 w1. r = Returned e \<and> work (withStatus tctx st) w = (Returned e0, w1) \<and>
              \<not> isRollbackOnly u w1 \<and> \<not> shouldRollback d e \<and> (e0 = None \<longleftrightarrow> e = None)) \<or>
         tx_state (txs w' ! t) = TxRolledBack \<and> r \<noteq> Returned None \<or>
         tx_state (txs w' ! t) = TxFailed \<and> (\<exists>e. r = Returned (Some e))"
proof -
  obtain e ps rb w1 where dec: "decide exec u (withStatus tctx st) tctx work d w = (e, ps, rb, w1)"
    by (metis prod_cases4)
  have le: "world_grows w w1" by (rule decide_grows [OF assms(1) dec])
  note live = live_tx_le [OF le assms(2)] and unit = has_unit_le [OF le assms(3)]
  have "isCompleted u w' \<and>
        (tx_state (txs w' ! t) = TxCommitted \<and>
           (\<exists>e e0 w1. r = Returned e \<and> work (withStatus tctx st) w = (Returned e0, w1) \<and>
              \<not> isRollbackOnly u w1 \<and> \<not> shouldRollback d e \<and> (e0 = None \<longleftrightarrow> e = None)) \<or>
         tx_state (txs w' ! t) = TxRolledBack \<and> r \<noteq> Returned None \<or>
         tx_state (txs w' ! t) = TxFailed \<and> (\<exists>e. r = Returned (Some e)))"
  proof (cases rb)
    case True
    then have "settleRollback exec m u t st (withStatus tctx st) (withoutUnit ctx) e ps w1 = (r, w')"
      using assms(4) dec by (simp add: runBegun_def Let_def)
    from settleRollback_ends [OF this live unit] show ?thesis by blast
  next
    case False
    then have settle: "settleCommit exec m u t st (withStatus tctx st) (withoutUnit ctx) e w1 = (r, w')"
      using assms(4) dec by (simp add: runBegun_def Let_def)
    obtain e0 v where "work (withStatus tctx st) w = (Returned e0, v)" "\<not> isRollbackOnly u v"
      "\<not> shouldRollback d e" "e0 = None \<longleftrightarrow> e = None"
      using decide_commit_verdict [of exec u "withStatus tctx st" tctx work d w e ps w1] dec False
      by metis
    with settleCommit_ends [OF settle live unit] show ?thesis by blast
  qed
  then show "isCompleted u w'"
    and "tx_state (txs w' ! t) = TxCommitted \<and>
           (\<exists>e e0 w1. r = Returned e \<and> work (withStatus tctx st) w = (Returned e0, w1) \<and>
              \<not> isRollbackOnly u w1 \<and> \<not> shouldRollback d e \<and> (e0 = None \<longleftrightarrow> e = None)) \<or>
         tx_state (txs w' ! t) = TxRolledBack \<and> r \<noteq> Returned None \<or>
         tx_state (txs w' ! t) = TxFailed \<and> (\<exists>e. r = Returned (Some e))"
    by blast+
qed

lemma runBegun_doomed:
  assumes "work_grows work" "live_tx t w" "has_unit u w"
    and "runBegun exec m ctx tctx u t st work d w = (r, w')"
    and "work (withStatus tctx st) w = (r0, w1)" "isRollbackOnly u w1 \<or> panic_of r0 \<noteq> None"
  shows "tx_state (txs w' ! t) = TxRolledBack" "r \<noteq> Returned None"
    "r0 = Panicked p \<Longrightarrow> r = Panicked p"
proof -
  obtain e ps rb w2 where dec: "decide exec u (withStatus tctx st) tctx work d w = (e, ps, rb, w2)"
    by (metis prod_cases4)
  note doomed = decide_doomed [OF assms(5,6) dec]
  have le: "world_grows w w2" by (rule decide_grows [OF assms(1) dec])
  have "settleRollback exec m u t st (withStatus tctx st) (withoutUnit ctx) e ps w2 = (r, w')"
    using assms(4) dec doomed(1) by (simp add: runBegun_def Let_def)
  note ends = settleRollback_ends [OF this live_tx_le [OF le assms(2)] has_unit_le [OF le assms(3)]]
  show "tx_state (txs w' ! t) = TxRolledBack" "r \<noteq> Returned None"
    using ends(1,3) by auto
  assume "r0 = Panicked p"
  then have "hd ps = Some p" using doomed(2) by simp
  moreover have "ps \<noteq> []" using dec by (auto simp: decide_def Let_def split: prod.splits)
  ultimately have "reraise ps = Some p" by (cases ps) auto
  then show "r = Panicked p" by (rule ends(4))
qed

end

end
