(* ===== verification/TxRun.thy ===== *)
theory TxRun
  imports TxSettlement
begin

text \<open>
  \<open>runNew\<close>, joining, nesting and \<open>Run\<close> as a whole: \<open>Run\<close> respects the order of TxGrowth for
  every client that does, so programs composed of the package's calls do; and the facts about
  a begun transaction are lifted to the outermost \<open>Run\<close>.
\<close>

lemma units_withTimeoutCause [simp]: "units (snd (withTimeoutCause ctx cause w)) = units w"
  and txs_withTimeoutCause [simp]: "txs (snd (withTimeoutCause ctx cause w)) = txs w"
  and status_withTimeoutCause [simp]:
    "ctx_status (fst (withTimeoutCause ctx cause w)) = ctx_status ctx"
  by (simp_all add: withTimeoutCause_def)

lemma BeginTx_Inr:
  "BeginTx drv ctx opts w = (Inr t, w') \<Longrightarrow>
   t = length (txs w) \<and> live_tx t w' \<and> units w' = units w \<and> length (txs w') = Suc t"
  by (auto simp: BeginTx_def live_tx_def split: option.splits prod.splits)

lemma upd_transaction:
  "has_unit u w \<Longrightarrow> transaction (units (upd_unit u (\<lambda>x. x\<lparr>transaction := Some t\<rparr>) w) ! u) = Some t"
  by (simp add: has_unit_def upd_unit_def)

lemma upd_unit_frame [simp]:
  "txs (upd_unit u f w) = txs w" "scopes (upd_unit u f w) = scopes w" "db (upd_unit u f w) = db w"
  "length (units (upd_unit u f w)) = length (units w)"
  by (simp_all add: upd_unit_def)

lemma has_unit_upd [simp]: "has_unit u' (upd_unit u f w) = has_unit u' w"
  by (simp add: has_unit_def)

lemma live_tx_upd [simp]: "live_tx t (upd_unit u f w) = live_tx t w"
  by (simp add: live_tx_def)

context tx_client begin

lemma runNew_cases:
  assumes run: "runNew exec m ctx work d w = (r, w')"
  obtains
    (begin_failed) err where "r = Returned (Some (Wrap ''%w: %w'' [ErrBeginFailed, err]))"
      "world_grows w w'"
  | (begun) tctx st t v v' where "st_unit st = Some (length (units w))" "st_name st = d_name d"
      "st_newTransaction st" "\<not> st_savepoint st" "length (txs w) \<le> t"
      "world_le (- {length (units w)}) UNIV w v" "live_tx t v" "has_unit (length (units w)) v"
      "transaction (units v ! length (units w)) = Some t" "\<not> isCompleted (length (units w)) v"
      "runBegun exec m ctx tctx (length (units w)) t st work d v = (r, v')" "world_grows v' w'"
proof -
  define u where "u = length (units w)"
  obtain tctx w1 where w1: "(tctx, w1) =
      (if d_timeout d > 0 then withTimeoutCause ctx ErrTransactionTimedOut w else (ctx, w))"
    by (metis surj_pair)
  have units1: "units w1 = units w" and txs1: "txs w1 = txs w" and le1: "world_le (- {u}) UNIV w w1"
    using w1 units_withTimeoutCause [of ctx ErrTransactionTimedOut w]
      txs_withTimeoutCause [of ctx ErrTransactionTimedOut w]
      withTimeoutCause_le [of "- {u}" UNIV w ctx ErrTransactionTimedOut]
    by (auto split: if_splits simp: prod_eq_iff)
  define w2 where "w2 = w1\<lparr>units := units w1 @ [new_unit (d_isolation d) (d_readOnly d)]\<rparr>"
  define st where "st = \<lparr>st_unit = Some u, st_name = d_name d, st_newTransaction = True, st_savepoint = False\<rparr>"
  define w3 where "w3 = fireBeforeBegin m tctx st w2"
  have le2: "world_le U UNIV w1 w2" for U
    by (simp add: w2_def world_le_def unit_growth.grows_append tx_growth.grows_refl scope_growth.grows_refl)
  have le3: "world_le U UNIV w2 w3" for U unfolding w3_def by (rule fires_grow(1))
  have "has_unit u w2" by (simp add: has_unit_def w2_def units1 u_def)
  then have unit3: "has_unit u w3" by (rule has_unit_le [OF le3])
  have le13: "world_le (- {u}) UNIV w w3" using le1 le2 le3 by (meson world_le_trans)
  obtain x w4 where bt: "BeginTx (database m) tctx (transactionOptions d) w3 = (x, w4)" by fastforce
  have le4: "world_le U UNIV w3 w4" for U
    using BeginTx_le [of U UNIV w3 "database m" tctx "transactionOptions d"] bt by simp
  have body: "(let (r, w5) = (case (x, w4) of
        (Inl err, w') \<Rightarrow> (Returned (Some (Wrap ''%w: %w'' [ErrBeginFailed, err])), fireAfterBegin m tctx st (Some err) w')
      | (Inr t, w') \<Rightarrow> runBegun exec m ctx tctx u t st work d
            (fireAfterBegin m tctx st None (upd_unit u (\<lambda>x. x\<lparr>transaction := Some t\<rparr>) w')))
      in (r, if d_timeout d > 0 then cancelScope (ctx_scope tctx) w5 else w5)) = (r, w')"
    using run unfolding runNew_def w1 [symmetric] bt [symmetric]
    by (simp only: Let_def prod.case w3_def st_def u_def w2_def units1)
  show thesis
  proof (cases x)
    case (Inl err)
    let ?w5 = "fireAfterBegin m tctx st (Some err) w4"
    have "world_le (- {u}) UNIV w ?w5"
      using le13 le4 fires_grow(2) by (meson world_le_trans)
    then have "world_grows w ?w5"
      unfolding u_def world_le_def by (blast intro: grows_outside)
    moreover have "world_grows ?w5 w'"
      using body Inl cancelScope_le by (auto simp: Let_def)
    ultimately have "world_grows w w'" by (rule world_le_trans)
    moreover have "r = Returned (Some (Wrap ''%w: %w'' [ErrBeginFailed, err]))"
      using body Inl by (simp add: Let_def)
    ultimately show thesis using begin_failed by blast
  next
    case (Inr t)
    let ?w5 = "upd_unit u (\<lambda>x. x\<lparr>transaction := Some t\<rparr>) w4"
    let ?v = "fireAfterBegin m tctx st None ?w5"
    have t: "t = length (txs w3)" "live_tx t w4" using BeginTx_Inr [OF bt [unfolded Inr]] by auto
    have le5: "world_le (- {u}) UNIV w4 ?w5" by (rule upd_unit_le_outside) simp
    have le6: "world_le U UNIV ?w5 ?v" for U by (rule fires_grow(2))
    have unit5: "has_unit u ?w5" using has_unit_le [OF le4 unit3] by simp
    have "\<not> isCompleted u w2" by (simp add: isCompleted_def w2_def units1 u_def new_unit_def)
    then have "\<not> isCompleted u w4"
      using completed_le [OF le3 \<open>has_unit u w2\<close>] completed_le [OF le4 unit3] by simp
    then have "\<not> isCompleted u ?w5"
      using unit5 by (simp add: isCompleted_def upd_unit_def has_unit_def)
    then have "\<not> isCompleted u ?v" using completed_le [OF le6 unit5] by simp
    moreover
    have "world_le (- {u}) UNIV w ?v" using le13 le4 le5 le6 by (meson world_le_trans)
    moreover have "length (txs w) \<le> t" using world_le_lengths(2) [OF le13] t(1) by simp
    moreover have "live_tx t ?v" by (rule live_tx_le [OF le6]) (use t in simp)
    moreover have "has_unit u ?v" by (rule has_unit_le [OF le6 unit5])
    moreover have "transaction (units ?v ! u) = Some t"
      by (rule bound_le [OF le6 unit5 upd_transaction]) (use unit5 in simp)
    moreover obtain r5 v' where rb: "runBegun exec m ctx tctx u t st work d ?v = (r5, v')" by fastforce
    moreover have "r5 = r" "world_grows v' w'"
      using body Inr rb cancelScope_le by (auto simp: Let_def)
    ultimately show thesis
      using begun [of st t ?v tctx v'] by (simp add: st_def u_def)
  qed
qed

lemma runNew_grows: "work_grows work \<Longrightarrow> world_grows w (snd (runNew exec m ctx work d w))"
proof -
  assume wg: "work_grows work"
  obtain r w' where run: "runNew exec m ctx work d w = (r, w')" by fastforce
  from run have "world_grows w w'"
  proof (cases rule: runNew_cases)
    case begin_failed
    then show ?thesis by blast
  next
    case (begun tctx st t v v')
    have "world_le (- {length (units w)}) (- {t}) v v'"
      using runBegun_grows [OF wg, of _ "- {length (units w)}" t "- {t}"] begun
      by (metis ComplD insertCI snd_conv)
    moreover have "world_le (- {length (units w)}) (- {t}) w v"
      using begun(6) by (rule world_le_mono) auto
    ultimately have "world_le (- {length (units w)}) (- {t}) w v'" by (rule world_le_trans [rotated])
    then have "world_grows w v'" by (rule world_le_fresh) (use begun in auto)
    with begun(12) show ?thesis by (rule world_le_trans [rotated])
  qed
  then show ?thesis by (simp add: run)
qed

lemma participate_grows:
  assumes "work_grows work"
  shows "world_grows w (snd (participate ctx u work d w))"
  using action_growsD [OF work_growsD [OF assms]]
  by (auto simp: participate_def split: option.splits prod.splits outcome.splits)
     (metis markRollbackOnly_le snd_conv world_le_trans)+

lemma grows_bind:
  assumes "world_grows w (snd p)"
    and "\<And>r w1. p = (r, w1) \<Longrightarrow> world_grows w1 (snd (f r w1))"
  shows "world_grows w (snd (case p of (r, w1) \<Rightarrow> f r w1))"
  using assms by (cases p) (auto intro: world_le_trans)

lemma runNested_grows:
  assumes "work_grows work"
  shows "world_grows w (snd (runNested exec m ctx u work d w))"
  unfolding runNested_def Let_def release_savepoint_def
  by (auto split: option.split outcome.split
      intro!: grows_bind preserves phases_grow(5) phases_grow(6) Tx_ExecContext_le
        action_growsD [OF work_growsD [OF assms]])

lemma Run_grows:
  assumes "work_grows work"
  shows "world_grows w (snd (Run exec m ctx work opts w))"
  unfolding Run_def Let_def
  by (auto split: propagation.split option.split
      intro: participate_grows [OF assms] runNew_grows [OF assms] runNested_grows [OF assms]
        action_growsD [OF work_growsD [OF assms]])

text \<open>The life of a transaction begun by \<open>runNew\<close>, seen from the final world.\<close>

lemma runNew_ends:
  assumes wg: "work_grows work" and run: "runNew exec m ctx work d w = (r, w')"
  shows "(\<exists>err. r = Returned (Some (Wrap ''%w: %w'' [ErrBeginFailed, err]))) \<or>
    (\<exists>t. length (txs w) \<le> t \<and> transaction (units w' ! length (units w)) = Some t \<and>
       isCompleted (length (units w)) w' \<and>
       (tx_state (txs w' ! t) = TxCommitted \<and> (\<exists>e. r = Returned e \<and> \<not> shouldRollback d e) \<or>
        tx_state (txs w' ! t) = TxRolledBack \<and> r \<noteq> Returned None \<or>
        tx_state (txs w' ! t) = TxFailed \<and> (\<exists>e. r = Returned (Some e))))"
  using run
proof (cases rule: runNew_cases)
  case begin_failed
  then show ?thesis by blast
next
  case (begun tctx st t v v')
  note ends = runBegun_ends [OF wg begun(7,8,11)]
  have le: "world_le (- {length (units w)}) (- {t}) v v'"
    using runBegun_grows [OF wg, of _ "- {length (units w)}" t "- {t}"] begun(11)
    by (metis ComplD insertCI snd_conv)
  have t: "t < length (txs v')"
    using begun(7) world_le_lengths(2) [OF le] by (simp add: live_tx_def)
  have unit: "has_unit (length (units w)) v'" by (rule has_unit_le [OF le begun(8)])
  have state: "tx_state (txs w' ! t) = tx_state (txs v' ! t)"
    using ended_tx_le [OF begun(12) t] ends(2) by auto
  have "transaction (units v' ! length (units w)) = Some t"
    by (rule runBegun_bound [OF wg begun(8,11,9)])
  then have "transaction (units w' ! length (units w)) = Some t"
    by (rule bound_le [OF begun(12) unit])
  moreover have "isCompleted (length (units w)) w'"
    using completed_le [OF begun(12) unit] ends(1) by simp
  ultimately show ?thesis using ends(2) begun(5) state by auto
qed

text \<open>
  A unit doomed by the end of the work, through a mark or through a panic: whatever the
  callbacks and listeners do, the transaction is rolled back.
\<close>

lemma runNew_doomed:
  assumes wg: "work_grows work" and run: "runNew exec m ctx work d w = (r, w')"
    and doom: "\<And>c v r0 v0. st_unit (the (ctx_status c)) = Some (length (units w)) \<Longrightarrow>
      ctx_status c \<noteq> None \<Longrightarrow> has_unit (length (units w)) v \<Longrightarrow>
      transaction (units v ! length (units w)) \<noteq> None \<Longrightarrow>
      \<not> isCompleted (length (units w)) v \<Longrightarrow> work c v = (r0, v0) \<Longrightarrow>
      isRollbackOnly (length (units w)) v0 \<or> panic_of r0 \<noteq> None"
  shows "(\<exists>err. r = Returned (Some (Wrap ''%w: %w'' [ErrBeginFailed, err]))) \<or>
    r \<noteq> Returned None \<and> (\<forall>p. (\<forall>c v. fst (work c v) = Panicked p) \<longrightarrow> r = Panicked p) \<and>
    (\<exists>t. length (txs w) \<le> t \<and> transaction (units w' ! length (units w)) = Some t \<and>
       tx_state (txs w' ! t) = TxRolledBack)"
  using run
proof (cases rule: runNew_cases)
  case begin_failed
  then show ?thesis by blast
next
  case (begun tctx st t v v')
  obtain r0 v0 where work: "work (withStatus tctx st) v = (r0, v0)" by fastforce
  have "isRollbackOnly (length (units w)) v0 \<or> panic_of r0 \<noteq> None"
    by (rule doom [OF _ _ begun(8) _ _ work]) (use begun in \<open>simp_all add: withStatus_def\<close>)
  note ends = runBegun_doomed [OF wg begun(7,8,11) work this]
  have le: "world_le (- {(length (units w))}) (- {t}) v v'"
    using runBegun_grows [OF wg, of _ "- {(length (units w))}" t "- {t}"] begun(11)
    by (metis ComplD insertCI snd_conv)
  have t: "t < length (txs v')"
    using begun(7) world_le_lengths(2) [OF le] by (simp add: live_tx_def)
  have unit: "has_unit (length (units w)) v'" by (rule has_unit_le [OF le begun(8)])
  have "transaction (units v' ! (length (units w))) = Some t"
    by (rule runBegun_bound [OF wg begun(8,11,9)])
  then have "transaction (units w' ! (length (units w))) = Some t" by (rule bound_le [OF begun(12) unit])
  moreover have "tx_state (txs w' ! t) = TxRolledBack"
    using ended_tx_le [OF begun(12) t] ends(1) by simp
  moreover have "r = Panicked p" if "\<forall>c v. fst (work c v) = Panicked p" for p
    using ends(3) work that by (metis fst_conv)
  ultimately show ?thesis using ends(2) begun(5) by blast
qed

end

lemma Run_outermost:
  "fromContext ctx w = None \<Longrightarrow> d_propagation (newDefinition opts) \<in> {Required, Nested} \<Longrightarrow>
   0 \<le> d_timeout (newDefinition opts) \<Longrightarrow>
   Run exec m ctx work opts w = runNew exec m ctx work (newDefinition opts) w"
  by (auto simp: Run_def Let_def)

lemma Run_joins:
  "fromContext ctx w = Some u \<Longrightarrow> d_propagation (newDefinition opts) \<in> {Required, Supports, Mandatory} \<Longrightarrow>
   0 \<le> d_timeout (newDefinition opts) \<Longrightarrow>
   Run exec m ctx work opts w = participate ctx u work (newDefinition opts) w"
  by (auto simp: Run_def Let_def)

lemma fromContext_bound:
  "st_unit st = Some u \<Longrightarrow> transaction (units w ! u) \<noteq> None \<Longrightarrow> ctx_status ctx = Some st \<Longrightarrow>
   fromContext ctx w = Some u"
  by (simp add: fromContext_def statusFromContext_def)

lemma participate_dooms:
  assumes "participate ctx u work d w = (Returned (Some e), w')" "shouldRollback d (Some e)"
    and "validateJoin d (units w ! u) = None" "has_unit u w'" "\<not> isCompleted u w'"
  shows "isRollbackOnly u w'"
  using assms
  by (auto simp: participate_def markRollbackOnly_def isRollbackOnly_def isCompleted_def has_unit_def
      upd_unit_def split: prod.splits outcome.splits option.splits)

text \<open>\<open>RunResult\<close> in an active unit: the value is the one the work produced, beside its outcome.\<close>

lemma RunResult_joined:
  assumes "fromContext ctx (w\<lparr>db := assign zero (db w)\<rparr>) = Some u" "d_propagation (newDefinition opts) \<in> {Required, Supports, Mandatory}"
    and "0 \<le> d_timeout (newDefinition opts)" "validateJoin (newDefinition opts) (units w ! u) = None"
    and law: "\<And>a d. cell (assign a d) = a" and work: "\<And>c v. fst (work c v) = a \<and> (\<exists>err. fst (snd (work c v)) = Returned err)"
  shows "fst (RunResult assign cell zero exec m ctx work opts w) = a"
proof -
  let ?w = "w\<lparr>db := assign zero (db w)\<rparr>"
  let ?work = "\<lambda>c v. case work c v of (value_of, Returned err, v') \<Rightarrow> (Returned err, v'\<lparr>db := assign value_of (db v')\<rparr>)
    | (_, Panicked p, v') \<Rightarrow> (Panicked p, v')"
  let ?c = "withStatus ctx \<lparr>st_unit = Some u, st_name = d_name (newDefinition opts), st_newTransaction = False, st_savepoint = False\<rparr>"
  obtain err v where v: "work ?c ?w = (a, Returned err, v)" using work [of ?c ?w] by (metis prod.collapse)
  have "db (snd (participate ctx u ?work (newDefinition opts) ?w)) = assign a (db v)"
    using assms(4) v by (simp add: participate_def markRollbackOnly_def split: option.split)
  then show ?thesis
    by (simp add: RunResult_def Run_joins [OF assms(1-3)] case_prod_beta law)
qed

end
