(* ===== verification/TxClient.thy ===== *)
theory TxClient
  imports TxRun
begin

text \<open>
  Client programs written with the package's own calls (transaction/context.go and
  transaction/manager.go): marking, registering callbacks that are programs again, executing
  statements through the querier, and calling \<open>Run\<close> recursively. They interpret the
  contract \<open>tx_client\<close>, so what is proved there holds of every such program. The nesting of
  calls is bounded by a fuel argument; a program that exhausts it panics.
\<close>

datatype phase =
    BeforeCommitPhase | BeforeCompletionPhase | AfterCommitPhase | AfterCompletionPhase
  | SavepointPhase | SavepointRollbackPhase

datatype program =
    DoReturn "goerror option"
  | DoPanic string
  | DoMark
  | DoExec string
  | DoRegister phase int program
  | DoThen program program
  | DoSwallow program
  | DoRun "tx_option list" program

fun register_in ::
  "phase \<Rightarrow> gocontext \<Rightarrow> 'cb \<Rightarrow> int \<Rightarrow> ('cb, 'db) world \<Rightarrow> bool \<times> ('cb, 'db) world" where
  "register_in BeforeCommitPhase ctx cb k = RegisterBeforeCommit ctx cb [WithOrder k]"
| "register_in BeforeCompletionPhase ctx cb k = RegisterBeforeCompletion ctx cb [WithOrder k]"
| "register_in AfterCommitPhase ctx cb k = RegisterAfterCommit ctx cb [WithOrder k]"
| "register_in AfterCompletionPhase ctx cb k = RegisterAfterCompletion ctx cb [WithOrder k]"
| "register_in SavepointPhase ctx cb k = RegisterSavepoint ctx cb [WithOrder k]"
| "register_in SavepointRollbackPhase ctx cb k = RegisterSavepointRollback ctx cb [WithOrder k]"

primrec run_program :: "nat \<Rightarrow> 'db sql_driver \<Rightarrow> (program, 'db) interp" where
  "run_program 0 drv = (\<lambda>p ctx arg w. (Panicked ''out of fuel'', w))"
| "run_program (Suc n) drv = (\<lambda>p ctx arg w. (case p of
      DoReturn e \<Rightarrow> (Returned e, w)
    | DoPanic s \<Rightarrow> (Panicked s, w)
    | DoMark \<Rightarrow> (Returned None, snd (MarkRollbackOnly ctx w))
    | DoExec s \<Rightarrow> (case Querier ctx w of
          OnTransaction t \<Rightarrow> (case Tx_ExecContext drv ctx t s w of (err, w') \<Rightarrow> (Returned err, w'))
        | OnDatabase \<Rightarrow> (Returned None, w))
    | DoRegister ph k q \<Rightarrow> (Returned None, snd (register_in ph ctx q k w))
    | DoThen p q \<Rightarrow> (case run_program n drv p ctx arg w of
          (Returned None, w') \<Rightarrow> run_program n drv q ctx arg w'
        | (Returned (Some err), w') \<Rightarrow> (Returned (Some err), w')
        | (Panicked s, w') \<Rightarrow> (Panicked s, w'))
    | DoSwallow p \<Rightarrow> (case run_program n drv p ctx arg w of
          (Returned _, w') \<Rightarrow> (Returned None, w')
        | (Panicked s, w') \<Rightarrow> (Panicked s, w'))
    | DoRun opts p \<Rightarrow>
        Run (run_program n drv) (NewManager drv []) ctx (\<lambda>c. run_program n drv p c NoArgument) opts w))"

definition as_work :: "nat \<Rightarrow> 'db sql_driver \<Rightarrow> program \<Rightarrow> (program, 'db) work" where
  "as_work n drv p ctx = run_program n drv p ctx NoArgument"

lemma NewManager_grows: "manager_grows (NewManager drv [])"
  by (simp add: manager_grows_def NewManager_def)

lemma register_in_le [preserves]: "world_le U T w (snd (register_in ph ctx cb k w))"
  by (cases ph) (auto intro: preserves)

lemma action_grows_bind:
  assumes "world_grows w (snd p)" and "\<And>r w1. p = (r, w1) \<Longrightarrow> world_grows w1 (snd (f r w1))"
  shows "world_grows w (snd (case p of (r, w1) \<Rightarrow> f r w1))"
  using assms by (cases p) (auto intro: world_le_trans)

lemma programs_grow: "callbacks_grow (run_program n drv)"
proof (induction n)
  case 0
  then show ?case by (simp add: callbacks_grow_def action_grows_def)
next
  case (Suc n)
  have sub: "world_grows w (snd (run_program n drv p ctx arg w))" for p ctx arg w
    using Suc by (auto simp: callbacks_grow_def intro: action_growsD)
  have client: "tx_client (run_program n drv) (NewManager drv [])"
    using Suc NewManager_grows by (rule tx_client.intro)
  have work: "work_grows (\<lambda>c. run_program n drv p c NoArgument)" for p
    using Suc by (simp add: callbacks_grow_def work_grows_def)
  have "world_grows w (snd (run_program (Suc n) drv p ctx arg w))" for p ctx arg w
  proof (cases p)
    case (DoThen a b)
    then show ?thesis
      by (auto intro!: action_grows_bind sub split: outcome.split option.split)
  next
    case (DoSwallow a)
    then show ?thesis by (auto intro!: action_grows_bind sub split: outcome.split)
  next
    case (DoRun opts a)
    then show ?thesis using tx_client.Run_grows [OF client work] by simp
  next
    case (DoExec s)
    then show ?thesis by (auto intro!: action_grows_bind preserves split: querier.split)
  qed (simp_all add: preserves)
  then show ?case by (simp add: callbacks_grow_def action_grows_def)
qed

lemma as_work_grows: "work_grows (as_work n drv p)"
  using programs_grow [of n drv] by (simp add: as_work_def work_grows_def callbacks_grow_def)

interpretation programs: tx_client "run_program n drv" "NewManager drv []"
  for n :: nat and drv :: "'db sql_driver"
  by (rule tx_client.intro [OF programs_grow NewManager_grows])

text \<open>Programs need no hypothesis: their \<open>Run\<close> respects the order outright.\<close>

lemmas program_Run_grows = programs.Run_grows [OF as_work_grows]

end
