(* ===== verification/TxProperties.thy ===== *)
theory TxProperties
  imports TxClient
begin

text \<open>
  The properties of the transaction package that make \<open>Run\<close> correct, with the concrete
  worlds and programs their witnesses run. \<open>outermost\<close> names the calls that begin their own
  transaction.
\<close>

definition outermost :: "gocontext \<Rightarrow> tx_option list \<Rightarrow> ('cb, 'db) world \<Rightarrow> bool" where
  "outermost ctx opts w \<longleftrightarrow> fromContext ctx w = None \<and>
     d_propagation (newDefinition opts) \<in> {Required, Nested} \<and> 0 \<le> d_timeout (newDefinition opts)"

definition respectful ::
  "('cb, 'db) interp \<Rightarrow> ('cb, 'db) manager \<Rightarrow> ('cb, 'db) work \<Rightarrow> bool" where
  "respectful exec m work \<longleftrightarrow> callbacks_grow exec \<and> manager_grows m \<and> work_grows work"

definition begin_failed :: "outcome \<Rightarrow> bool" where
  "begin_failed r \<longleftrightarrow> (\<exists>err. r = Returned (Some (Wrap ''%w: %w'' [ErrBeginFailed, err])))"

lemma respectful_client: "respectful exec m work \<Longrightarrow> tx_client exec m"
  by (simp add: respectful_def tx_client.intro)

lemma outermost_Run:
  "outermost ctx opts w \<Longrightarrow> Run exec m ctx work opts w = runNew exec m ctx work (newDefinition opts) w"
  by (auto simp: outermost_def intro: Run_outermost)

lemma programs_respectful: "respectful (run_program n drv) (NewManager drv []) (as_work n drv p)"
  by (simp add: respectful_def programs_grow NewManager_grows as_work_grows)

section \<open>Concrete instances\<close>

definition log_driver :: "string list sql_driver" where
  "log_driver = \<lparr>
     drv_begin = (\<lambda>t opts log. (None, log @ [''BEGIN''])),
     drv_commit = (\<lambda>t log. (None, log @ [''COMMIT''])),
     drv_rollback = (\<lambda>t log. (None, log @ [''ROLLBACK''])),
     drv_exec = (\<lambda>t s log. (None, log @ [s]))\<rparr>"

definition empty_world :: "'db \<Rightarrow> ('cb, 'db) world" where
  "empty_world d = \<lparr>units = [], txs = [], scopes = [], db = d\<rparr>"

lemma outermost_background [simp]: "outermost background [] (empty_world d)"
  by (simp add: outermost_def background_def fromContext_def statusFromContext_def newDefinition_def)

definition app_error :: goerror where
  "app_error = Leaf ''application failure''"

definition demo_run :: "program \<Rightarrow> outcome \<times> (program, string list) world" where
  "demo_run p = Run (run_program 20 log_driver) (NewManager log_driver []) background
     (as_work 20 log_driver p) [] (empty_world [])"

lemmas run_simps =
  Run_def runNew_def runNested_def participate_def runBegun_def decide_def settleCommit_def
  settleRollback_def newDefinition_def background_def empty_world_def fromContext_def
  statusFromContext_def NewManager_def BeginTx_def scope_state_def transactionOptions_def
  level_default_def Tx_Commit_def Tx_Rollback_def Tx_ExecContext_def end_tx_def Querier_def
  as_work_def Let_def withStatus_def withoutUnit_def new_unit_def upd_unit_def runGuarded_def
  runGuardedVoid_def phase_defs sortByOrder_def fireBeforeBegin_def fireAfterBegin_def
  fireBeforeCommit_def fireAfterCommit_def fireBeforeRollback_def fireAfterRollback_def
  isRollbackOnly_def markCompleted_def ignoreTxDone_def wrapSystem_def numeral_eq_Suc

section \<open>Every Run\<close>

text \<open>C1: whatever client code does with the package's own calls, a call of \<open>Run\<close> with any
  propagation only lets the world grow: no unit or transaction disappears, a rollback-only mark
  is never taken back, a completed unit is never marked, no registered callback is dropped, and a
  transaction that was open before the call is afterwards still open or rolled back; only
  the \<open>Run\<close> that began a transaction commits it.\<close>

theorem Run_respects_the_world_order:
  assumes "respectful exec m work"
  shows "world_grows w (snd (Run exec m ctx work opts w))"
  using tx_client.Run_grows [OF respectful_client [OF assms]] assms by (simp add: respectful_def)

theorem Run_respects_the_world_order_witness:
  "world_grows (empty_world []) (snd (demo_run (DoThen (DoExec ''INSERT'') DoMark)))"
  unfolding demo_run_def by (rule Run_respects_the_world_order [OF programs_respectful])

section \<open>The outermost Run\<close>

text \<open>C2: the outermost \<open>Run\<close> never leaks its transaction. Either the begin failed and the
  error says so, or the transaction it began has ended when \<open>Run\<close> returns or panics, and
  its unit of work is completed; this holds whatever the work, the callbacks and the listeners
  do, panics included.\<close>

theorem Run_never_leaks_a_transaction:
  assumes "respectful exec m work" "outermost ctx opts w"
    and "Run exec m ctx work opts w = (r, w')"
  shows "begin_failed r \<or>
    (\<exists>t. length (txs w) \<le> t \<and> transaction (units w' ! length (units w)) = Some t \<and>
       tx_state (txs w' ! t) \<noteq> TxOpen \<and> isCompleted (length (units w)) w')"
proof -
  have wg: "work_grows work" using assms(1) by (simp add: respectful_def)
  show ?thesis
    using tx_client.runNew_ends [OF respectful_client [OF assms(1)] wg
        assms(3) [unfolded outermost_Run [OF assms(2)]]]
    unfolding begin_failed_def by fastforce
qed

theorem Run_never_leaks_a_transaction_witness:
  "\<exists>r w'. demo_run (DoPanic ''boom'') = (r, w') \<and> (begin_failed r \<or>
    (\<exists>t. length (txs (empty_world [] :: (program, string list) world)) \<le> t \<and>
       transaction (units w' ! length (units (empty_world [] :: (program, string list) world))) = Some t \<and>
       tx_state (txs w' ! t) \<noteq> TxOpen \<and>
       isCompleted (length (units (empty_world [] :: (program, string list) world))) w'))"
proof -
  obtain r w' where run: "demo_run (DoPanic ''boom'') = (r, w')" by fastforce
  show ?thesis
    using Run_never_leaks_a_transaction [OF programs_respectful outermost_background
        run [unfolded demo_run_def]] run by blast
qed

text \<open>C3: what the outermost \<open>Run\<close> returns is the truth about its transaction. A nil result
  means it was committed; a panic leaves it rolled back; and if it was committed, the
  result is a returned error the rollback rules do not treat as fatal (or nil).\<close>

theorem Run_result_is_honest:
  assumes "respectful exec m work" "outermost ctx opts w"
    and "Run exec m ctx work opts w = (r, w')" "\<not> begin_failed r"
  shows "\<exists>t. length (txs w) \<le> t \<and> transaction (units w' ! length (units w)) = Some t \<and>
    (r = Returned None \<longrightarrow> tx_state (txs w' ! t) = TxCommitted) \<and>
    ((\<exists>p. r = Panicked p) \<longrightarrow> tx_state (txs w' ! t) = TxRolledBack) \<and>
    (tx_state (txs w' ! t) = TxCommitted \<longrightarrow>
       (\<exists>e. r = Returned e \<and> \<not> shouldRollback (newDefinition opts) e))"
proof -
  have wg: "work_grows work" using assms(1) by (simp add: respectful_def)
  show ?thesis
    using tx_client.runNew_ends [OF respectful_client [OF assms(1)] wg
        assms(3) [unfolded outermost_Run [OF assms(2)]]] assms(4)
    unfolding begin_failed_def by fastforce
qed

lemma demo_commit:
  "fst (demo_run (DoExec ''INSERT'')) = Returned None"
  by (simp add: demo_run_def log_driver_def run_simps)

theorem Run_result_is_honest_witness:
  "\<exists>w' t. demo_run (DoExec ''INSERT'') = (Returned None, w') \<and> tx_state (txs w' ! t) = TxCommitted"
proof -
  obtain w' where run: "demo_run (DoExec ''INSERT'') = (Returned None, w')"
    using demo_commit by (metis prod.collapse)
  have "\<not> begin_failed (Returned None)" by (simp add: begin_failed_def)
  then show ?thesis
    using Run_result_is_honest [OF programs_respectful outermost_background
        run [unfolded demo_run_def]] run by blast
qed

text \<open>C4: a work that always panics never commits: the transaction is rolled back and the same
  panic is raised again out of \<open>Run\<close>, unless the begin itself failed.\<close>

theorem Run_reraises_after_rollback:
  assumes "respectful exec m work" "outermost ctx opts w" "\<And>c v. fst (work c v) = Panicked p"
    and "Run exec m ctx work opts w = (r, w')" "\<not> begin_failed r"
  shows "r = Panicked p \<and> (\<exists>t. length (txs w) \<le> t \<and>
    transaction (units w' ! length (units w)) = Some t \<and> tx_state (txs w' ! t) = TxRolledBack)"
proof -
  have wg: "work_grows work" using assms(1) by (simp add: respectful_def)
  have "panic_of r0 \<noteq> None" if "work c v = (r0, v0)" for c v r0 v0
    using assms(3) [of c v] that by simp
  then show ?thesis
    using tx_client.runNew_doomed [OF respectful_client [OF assms(1)] wg
        assms(4) [unfolded outermost_Run [OF assms(2)]]] assms(3,5)
    unfolding begin_failed_def by blast
qed

lemma demo_panic: "fst (demo_run (DoPanic ''boom'')) = Panicked ''boom''"
  by (simp add: demo_run_def log_driver_def run_simps)

theorem Run_reraises_after_rollback_witness:
  "\<exists>w' t. demo_run (DoPanic ''boom'') = (Panicked ''boom'', w') \<and> tx_state (txs w' ! t) = TxRolledBack"
proof -
  obtain w' where run: "demo_run (DoPanic ''boom'') = (Panicked ''boom'', w')"
    using demo_panic by (metis prod.collapse)
  have "fst (as_work 20 log_driver (DoPanic ''boom'') c v) = Panicked ''boom''" for c v
    by (simp add: as_work_def numeral_eq_Suc)
  then show ?thesis
    using Run_reraises_after_rollback [OF programs_respectful outermost_background _
        run [unfolded demo_run_def]] run by (auto simp: begin_failed_def)
qed

section \<open>Rollback-only marks\<close>

text \<open>A step inside work that marks whatever unfinished unit its context is bound to, and a work
  that makes such a step between two arbitrary parts and ignores its result.\<close>

definition dooms :: "('cb, 'db) work \<Rightarrow> bool" where
  "dooms step \<longleftrightarrow> (\<forall>c v u. fromContext c v = Some u \<longrightarrow> has_unit u v \<longrightarrow> \<not> isCompleted u v \<longrightarrow>
     isRollbackOnly u (snd (step c v)))"

definition around :: "('cb, 'db) work \<Rightarrow> ('cb, 'db) work \<Rightarrow> ('cb, 'db) work \<Rightarrow> ('cb, 'db) work" where
  "around pre step post c v = post c (snd (step c (snd (pre c v))))"

lemma around_grows:
  "work_grows pre \<Longrightarrow> work_grows step \<Longrightarrow> work_grows post \<Longrightarrow> work_grows (around pre step post)"
  unfolding work_grows_def action_grows_def around_def by (meson world_le_trans)

lemma around_doomed:
  assumes grow: "work_grows pre" "work_grows step" "work_grows post" and "dooms step"
    and c: "st_unit (the (ctx_status c)) = Some u" "ctx_status c \<noteq> None"
    and v: "has_unit u v" "transaction (units v ! u) \<noteq> None" "\<not> isCompleted u v"
  shows "isRollbackOnly u (snd (around pre step post c v))"
proof -
  let ?v1 = "snd (pre c v)" and ?v2 = "snd (step c (snd (pre c v)))"
  have le: "world_grows v ?v1" "world_grows ?v1 ?v2" "world_grows ?v2 (snd (post c ?v2))"
    using grow by (simp_all add: work_grows_def action_grows_def)
  have unit: "has_unit u ?v1" by (rule has_unit_le [OF le(1) v(1)])
  obtain t where t: "transaction (units v ! u) = Some t" using v(2) by blast
  have "fromContext c ?v1 = Some u"
    using fromContext_bound [of "the (ctx_status c)" u ?v1 c] c bound_le [OF le(1) v(1) t] by force
  then have "isRollbackOnly u ?v2"
    using \<open>dooms step\<close> unit completed_le [OF le(1) v(1)] v(3) unfolding dooms_def by blast
  then show ?thesis
    using marked_le [OF le(3) has_unit_le [OF le(2) unit]] by (simp add: around_def)
qed

lemma doomed_Run:
  assumes "respectful exec m pre" "work_grows step" "work_grows post" "dooms step"
    and "outermost ctx opts w" "Run exec m ctx (around pre step post) opts w = (r, w')"
    and "\<not> begin_failed r"
  shows "r \<noteq> Returned None \<and> (\<exists>t. length (txs w) \<le> t \<and>
    transaction (units w' ! length (units w)) = Some t \<and> tx_state (txs w' ! t) = TxRolledBack)"
proof -
  have pre: "work_grows pre" using assms(1) by (simp add: respectful_def)
  note wg = around_grows [OF pre assms(2,3)]
  have "isRollbackOnly (length (units w)) v0 \<or> panic_of r0 \<noteq> None"
    if "st_unit (the (ctx_status c)) = Some (length (units w))" "ctx_status c \<noteq> None"
      "has_unit (length (units w)) v" "transaction (units v ! length (units w)) \<noteq> None"
      "\<not> isCompleted (length (units w)) v" "around pre step post c v = (r0, v0)" for c v r0 v0
    using around_doomed [OF pre assms(2-4) that(1-5)] that(6) by simp
  then show ?thesis
    using tx_client.runNew_doomed [OF respectful_client [OF assms(1)] wg
        assms(6) [unfolded outermost_Run [OF assms(5)]]] assms(7)
    unfolding begin_failed_def by blast
qed

lemma MarkRollbackOnly_dooms: "dooms (\<lambda>c v. (Returned None, snd (MarkRollbackOnly c v)))"
  by (auto simp: dooms_def MarkRollbackOnly_def markRollbackOnly_def isRollbackOnly_def
      isCompleted_def has_unit_def upd_unit_def)

lemma failing_join_dooms:
  fixes exec :: "('cb, 'db) interp"
  assumes "tx_client exec m" "work_grows inner"
    and join: "d_propagation (newDefinition opts) \<in> {Required, Supports, Mandatory}"
      "0 \<le> d_timeout (newDefinition opts)" "d_isolation (newDefinition opts) = level_default"
      "\<not> d_readOnly (newDefinition opts)"
    and fails: "\<And>c v. \<exists>e. fst (inner c v) = Returned (Some e) \<and> shouldRollback (newDefinition opts) (Some e)"
  shows "dooms (\<lambda>c. Run exec m c inner opts)"
  unfolding dooms_def
proof (intro allI impI)
  fix c u and v :: "('cb, 'db) world"
  assume v: "fromContext c v = Some u" "has_unit u v" "\<not> isCompleted u v"
  let ?d = "newDefinition opts" and ?w = "snd (Run exec m c inner opts v)"
  have run: "Run exec m c inner opts v = participate c u inner ?d v"
    by (rule Run_joins [OF v(1) join(1,2)])
  have valid: "validateJoin ?d (units v ! u) = None" using join by (simp add: validateJoin_def)
  have grows: "world_grows v ?w" by (rule tx_client.Run_grows [OF assms(1,2)])
  let ?bound = "withStatus c \<lparr>st_unit = Some u, st_name = d_name ?d,
                               st_newTransaction = False, st_savepoint = False\<rparr>"
  obtain e where e: "fst (inner ?bound v) = Returned (Some e)" "shouldRollback ?d (Some e)"
    using fails by blast
  then have "fst (participate c u inner ?d v) = Returned (Some e)"
    using valid by (auto simp: participate_def split: prod.splits)
  then have "participate c u inner ?d v = (Returned (Some e), ?w)" by (simp add: run prod_eq_iff)
  then show "isRollbackOnly u ?w"
    using participate_dooms [OF _ e(2) valid has_unit_le [OF grows v(2)]] completed_le [OF grows v(2)] v(3)
    by blast
qed

text \<open>C5: a joining \<open>Run\<close> that fails with an error the rollback rules treat as fatal dooms
  the outermost one even when the caller swallows that error: whatever happens before and after,
  the outermost \<open>Run\<close> does not return nil and its transaction is rolled back.\<close>

theorem swallowed_join_failure_dooms_the_outermost_Run:
  assumes "respectful exec m pre" "work_grows inner" "work_grows post" "outermost ctx opts w"
    and "d_propagation (newDefinition opts2) \<in> {Required, Supports, Mandatory}"
    and "0 \<le> d_timeout (newDefinition opts2)" "d_isolation (newDefinition opts2) = level_default"
    and "\<not> d_readOnly (newDefinition opts2)"
    and "\<And>c v. \<exists>e. fst (inner c v) = Returned (Some e) \<and> shouldRollback (newDefinition opts2) (Some e)"
    and "Run exec m ctx (around pre (\<lambda>c. Run exec m c inner opts2) post) opts w = (r, w')"
    and "\<not> begin_failed r"
  shows "r \<noteq> Returned None \<and> (\<exists>t. length (txs w) \<le> t \<and>
    transaction (units w' ! length (units w)) = Some t \<and> tx_state (txs w' ! t) = TxRolledBack)"
proof (rule doomed_Run [OF assms(1) _ assms(3) failing_join_dooms assms(4,10,11)])
  show "work_grows (\<lambda>c. Run exec m c inner opts2)"
    using tx_client.Run_grows [OF respectful_client [OF assms(1)] assms(2)]
    by (simp add: work_grows_def action_grows_def)
qed (use assms respectful_client [OF assms(1)] in auto)

definition silent_work :: "('cb, 'db) work" where
  "silent_work c v = (Returned None, v)"

definition failing_work :: "('cb, 'db) work" where
  "failing_work c v = (Returned (Some app_error), v)"

lemma demo_works_grow: "work_grows silent_work" "work_grows failing_work"
  by (simp_all add: work_grows_def action_grows_def silent_work_def failing_work_def)

definition demo_swallow :: "outcome \<times> (program, string list) world" where
  "demo_swallow = Run (run_program 9 log_driver) (NewManager log_driver []) background
     (around silent_work (\<lambda>c. Run (run_program 9 log_driver) (NewManager log_driver []) c failing_work [])
        silent_work) [] (empty_world [])"

theorem swallowed_join_failure_dooms_the_outermost_Run_witness:
  "\<exists>r w'. demo_swallow = (r, w') \<and> (begin_failed r \<or> r \<noteq> Returned None \<and>
     (\<exists>t. tx_state (txs w' ! t) = TxRolledBack))"
proof -
  obtain r w' where run: "demo_swallow = (r, w')" by fastforce
  have "respectful (run_program 9 log_driver) (NewManager log_driver []) silent_work"
    by (simp add: respectful_def programs_grow NewManager_grows demo_works_grow)
  moreover have "\<exists>e. fst (failing_work c v) = Returned (Some e) \<and>
      shouldRollback (newDefinition []) (Some e)" for c and v :: "(program, string list) world"
    by (simp add: failing_work_def)
  moreover have "d_propagation (newDefinition []) = Required" "d_timeout (newDefinition []) = 0"
    "d_isolation (newDefinition []) = level_default" "\<not> d_readOnly (newDefinition [])"
    by (simp_all add: newDefinition_def)
  ultimately show ?thesis
    using swallowed_join_failure_dooms_the_outermost_Run [OF _ demo_works_grow(2,1)
        outermost_background _ _ _ _ _ run [unfolded demo_swallow_def]] run by fastforce
qed

text \<open>C6: \<open>MarkRollbackOnly\<close> called while the work runs vetoes the commit: the outermost
  \<open>Run\<close> rolls back and reports an error even when the work returns nil.\<close>

theorem mark_during_work_vetoes_the_commit:
  assumes "respectful exec m pre" "work_grows post" "outermost ctx opts w"
    and "Run exec m ctx (around pre (\<lambda>c v. (Returned None, snd (MarkRollbackOnly c v))) post) opts w = (r, w')"
    and "\<not> begin_failed r"
  shows "r \<noteq> Returned None \<and> (\<exists>t. length (txs w) \<le> t \<and>
    transaction (units w' ! length (units w)) = Some t \<and> tx_state (txs w' ! t) = TxRolledBack)"
  by (rule doomed_Run [OF assms(1) _ assms(2) MarkRollbackOnly_dooms assms(3-5)])
     (simp add: work_grows_def action_grows_def preserves)

definition demo_mark :: "outcome \<times> (program, string list) world" where
  "demo_mark = Run (run_program 9 log_driver) (NewManager log_driver []) background
     (around silent_work (\<lambda>c v. (Returned None, snd (MarkRollbackOnly c v))) silent_work)
     [] (empty_world [])"

theorem mark_during_work_vetoes_the_commit_witness:
  "\<exists>r w'. demo_mark = (r, w') \<and> (begin_failed r \<or> r \<noteq> Returned None \<and>
     (\<exists>t. tx_state (txs w' ! t) = TxRolledBack))"
proof -
  obtain r w' where run: "demo_mark = (r, w')" by fastforce
  have "respectful (run_program 9 log_driver) (NewManager log_driver []) silent_work"
    by (simp add: respectful_def programs_grow NewManager_grows demo_works_grow)
  then show ?thesis
    using mark_during_work_vetoes_the_commit [OF _ demo_works_grow(1) outermost_background
        run [unfolded demo_mark_def]] run by fastforce
qed

end
