(* ===== verification/TxSavepoint.thy ===== *)
theory TxSavepoint
  imports TxProperties
begin

text \<open>
  Savepoints (\<open>runNested\<close> of transaction/manager.go) and the synchronization phases of
  transaction/context.go: names that never repeat, a failed nested call that is undone and
  leaves the outer transaction alone, the escalation when it cannot be undone, and the order
  in which the after phases run. What a database does with the three savepoint statements is
  the hypothesis \<open>savepoint_laws\<close>.
\<close>

section \<open>Names\<close>

lemma nextSavepointName_counter:
  "has_unit u w \<Longrightarrow> nextSavepointName u w = (name, w') \<Longrightarrow>
   name = savepoint_name (savepointCounter (units w' ! u)) \<and>
   savepointCounter (units w' ! u) = Suc (savepointCounter (units w ! u))"
  by (auto simp: nextSavepointName_def Let_def upd_unit_def has_unit_def)

text \<open>A savepoint name is never handed out twice by one unit of work, whatever runs between
  the two requests.\<close>

theorem savepoint_names_never_repeat:
  assumes "has_unit u v" "nextSavepointName u v = (n1, v1)" "world_grows v1 w"
    and "nextSavepointName u w = (n2, w2)"
  shows "n1 \<noteq> n2"
proof -
  have "world_grows v v1" using nextSavepointName_le [of UNIV UNIV v u] assms(2) by simp
  then have unit: "has_unit u v1" by (rule has_unit_le [OF _ assms(1)])
  have "savepointCounter (units v1 ! u) \<le> savepointCounter (units w ! u)"
    using world_le_unitD [OF assms(3), of u] unit by (simp add: has_unit_def unit_le_def)
  then have "savepointCounter (units v1 ! u) < savepointCounter (units w2 ! u)"
    using nextSavepointName_counter [OF has_unit_le [OF assms(3) unit] assms(4)] by simp
  then show ?thesis
    using nextSavepointName_counter [OF assms(1,2)]
      nextSavepointName_counter [OF has_unit_le [OF assms(3) unit] assms(4)]
    by (auto simp: savepoint_name_def)
qed

definition one_unit :: "(program, unit) world" where
  "one_unit = (empty_world ())\<lparr>units := [new_unit 0 False]\<rparr>"

theorem savepoint_names_never_repeat_witness:
  "fst (nextSavepointName 0 one_unit) \<noteq> fst (nextSavepointName 0 (snd (nextSavepointName 0 one_unit)))"
  by (rule savepoint_names_never_repeat
        [of 0 one_unit _ "snd (nextSavepointName 0 one_unit)" "snd (nextSavepointName 0 one_unit)"])
     (auto simp: has_unit_def one_unit_def prod_eq_iff)

section \<open>A nested failure is undone\<close>

text \<open>
  The documented behaviour of savepoints, over what the database holds (\<open>data\<close>) and the stack
  of its open savepoints (\<open>saved\<close>).
\<close>

definition savepoint_laws ::
  "'db sql_driver \<Rightarrow> ('db \<Rightarrow> 'x) \<Rightarrow> ('db \<Rightarrow> (string \<times> 'x) list) \<Rightarrow> bool" where
  "savepoint_laws drv data saved \<longleftrightarrow>
     (\<forall>t n d. fst (drv_exec drv t (''SAVEPOINT '' @ n) d) = None \<and>
        data (snd (drv_exec drv t (''SAVEPOINT '' @ n) d)) = data d \<and>
        saved (snd (drv_exec drv t (''SAVEPOINT '' @ n) d)) = (n, data d) # saved d) \<and>
     (\<forall>t n d x. map_of (saved d) n = Some x \<longrightarrow>
        fst (drv_exec drv t (''ROLLBACK TO SAVEPOINT '' @ n) d) = None \<and>
        data (snd (drv_exec drv t (''ROLLBACK TO SAVEPOINT '' @ n) d)) = x) \<and>
     (\<forall>t n d. data (snd (drv_exec drv t (''RELEASE SAVEPOINT '' @ n) d)) = data d)"

lemma savepoint_lawsD:
  assumes "savepoint_laws drv data saved"
  shows "fst (drv_exec drv t (''SAVEPOINT '' @ n) d) = None"
    "map_of (saved (snd (drv_exec drv t (''SAVEPOINT '' @ n) d))) n = Some (data d)"
    "map_of (saved d) n = Some x \<Longrightarrow> fst (drv_exec drv t (''ROLLBACK TO SAVEPOINT '' @ n) d) = None"
    "map_of (saved d) n = Some x \<Longrightarrow> data (snd (drv_exec drv t (''ROLLBACK TO SAVEPOINT '' @ n) d)) = x"
    "data (snd (drv_exec drv t (''RELEASE SAVEPOINT '' @ n) d)) = data d"
proof -
  note laws = assms [unfolded savepoint_laws_def]
  show "fst (drv_exec drv t (''SAVEPOINT '' @ n) d) = None" using laws by blast
  have "saved (snd (drv_exec drv t (''SAVEPOINT '' @ n) d)) = (n, data d) # saved d"
    using laws by blast
  then show "map_of (saved (snd (drv_exec drv t (''SAVEPOINT '' @ n) d))) n = Some (data d)" by simp
  show "map_of (saved d) n = Some x \<Longrightarrow> fst (drv_exec drv t (''ROLLBACK TO SAVEPOINT '' @ n) d) = None"
    "map_of (saved d) n = Some x \<Longrightarrow> data (snd (drv_exec drv t (''ROLLBACK TO SAVEPOINT '' @ n) d)) = x"
    "data (snd (drv_exec drv t (''RELEASE SAVEPOINT '' @ n) d)) = data d"
    using laws by blast+
qed

text \<open>Client code that keeps the transaction open, marks nothing and leaves the savepoints
  opened before it in place; what it writes is unrestricted.\<close>

definition quiet ::
  "('db \<Rightarrow> (string \<times> 'x) list) \<Rightarrow> nat \<Rightarrow> nat \<Rightarrow> ('cb, 'db) action \<Rightarrow> bool" where
  "quiet saved u t a \<longleftrightarrow> (\<forall>v. \<exists>e. fst (a v) = Returned e \<and>
     tx_state (txs (snd (a v)) ! t) = tx_state (txs v ! t) \<and>
     isRollbackOnly u (snd (a v)) = isRollbackOnly u v \<and>
     (\<forall>n x. map_of (saved (db v)) n = Some x \<longrightarrow> map_of (saved (db (snd (a v)))) n = Some x))"

lemma quietD:
  assumes "quiet saved u t a" "a v = (r, v')"
  shows "\<exists>e. r = Returned e" "tx_state (txs v' ! t) = tx_state (txs v ! t)"
    "isRollbackOnly u v' = isRollbackOnly u v"
    "map_of (saved (db v)) n = Some x \<Longrightarrow> map_of (saved (db v')) n = Some x"
  using assms unfolding quiet_def by (metis fst_conv snd_conv)+

lemma quiet_returns:
  assumes "quiet saved u t a"
  obtains e v' where "a v = (Returned e, v')"
proof -
  obtain r v' where v': "a v = (r, v')" by fastforce
  with quietD(1) [OF assms v'] that show thesis by blast
qed

lemma quiet_plain_loop:
  "(\<And>cb. quiet saved u t (exec cb ctx arg)) \<Longrightarrow> quiet saved u t (plain_loop exec ctx arg cbs)"
proof (induction cbs)
  case Nil
  then show ?case by (simp add: quiet_def)
next
  case (Cons cb cbs)
  have "\<exists>e. fst (plain_loop exec ctx arg (cb # cbs) v) = Returned e \<and>
     tx_state (txs (snd (plain_loop exec ctx arg (cb # cbs) v)) ! t) = tx_state (txs v ! t) \<and>
     isRollbackOnly u (snd (plain_loop exec ctx arg (cb # cbs) v)) = isRollbackOnly u v \<and>
     (\<forall>n x. map_of (saved (db v)) n = Some x \<longrightarrow>
        map_of (saved (db (snd (plain_loop exec ctx arg (cb # cbs) v)))) n = Some x)" for v
  proof -
    obtain e v1 where v1: "exec (cb_call cb) ctx arg v = (Returned e, v1)"
      by (rule quiet_returns [OF Cons.prems])
    obtain r v2 where v2: "plain_loop exec ctx arg cbs v1 = (r, v2)" by fastforce
    show ?thesis
      using quietD [OF Cons.prems v1] quietD [OF Cons.IH [OF Cons.prems] v2] v1 v2 by simp
  qed
  then show ?case by (simp add: quiet_def)
qed

lemma quiet_after_update:
  fixes a :: "'k \<Rightarrow> ('cb, 'db) action"
  assumes "\<And>k. quiet saved u t (a k)" "\<And>x. rollbackOnly (f x) = rollbackOnly x"
  shows "quiet saved u t (\<lambda>w. a (g w) (upd_unit u f w))"
proof -
  have "isRollbackOnly u (upd_unit u f v) = isRollbackOnly u v" for v :: "('cb, 'db) world"
    using assms(2) by (cases "u < length (units v)")
      (simp_all add: isRollbackOnly_def upd_unit_def list_update_beyond)
  then show ?thesis
    using assms(1) unfolding quiet_def by (metis upd_unit_frame(1,3))
qed

lemma quiet_phases:
  assumes "\<And>cb c arg. quiet saved u t (exec cb c arg)"
  shows "quiet saved u t (runSavepoint exec u ctx name)"
    and "quiet saved u t (runSavepointRollback exec u ctx name)"
proof -
  have *: "quiet saved u t (plain_loop exec ctx arg cbs)" for arg cbs
    by (rule quiet_plain_loop [OF assms])
  show "quiet saved u t (runSavepoint exec u ctx name)"
    unfolding runSavepoint_def Let_def
    by (rule quiet_after_update [of _ _ _ "\<lambda>cbs. plain_loop exec ctx (SavepointArgument name) cbs", OF *]) simp
  show "quiet saved u t (runSavepointRollback exec u ctx name)"
    unfolding runSavepointRollback_def Let_def
    by (rule quiet_after_update [of _ _ _ "\<lambda>cbs. plain_loop exec ctx (SavepointArgument name) cbs", OF *]) simp
qed

lemma Tx_ExecContext_open:
  "ctx_scope ctx = None \<Longrightarrow> tx_state (txs w ! t) = TxOpen \<Longrightarrow>
   Tx_ExecContext drv ctx t s w = (fst (drv_exec drv t s (db w)), w\<lparr>db := snd (drv_exec drv t s (db w))\<rparr>)"
  by (simp add: Tx_ExecContext_def scope_state_def split: prod.splits)

lemma isRollbackOnly_db [simp]: "isRollbackOnly u (w\<lparr>db := d\<rparr>) = isRollbackOnly u w"
  by (simp add: isRollbackOnly_def)

lemma nextSavepointName_frame:
  assumes "nextSavepointName u w = (name, w1)"
  shows "txs w1 = txs w" "db w1 = db w" "isRollbackOnly u w1 = isRollbackOnly u w"
    "transaction (units w1 ! u) = transaction (units w ! u)"
  using assms
  by (auto simp: nextSavepointName_def Let_def isRollbackOnly_def upd_unit_def)
     (cases "u < length (units w)"; simp add: list_update_beyond)+

text \<open>C10: a nested \<open>Run\<close> that fails fatally on a database with savepoints is undone: the error
  reaches the caller, the data are exactly those at the call, whatever the nested work wrote,
  the transaction is still open and the outer unit is not marked.\<close>

theorem nested_failure_is_undone:
  assumes laws: "savepoint_laws (database m) data saved"
    and call: "fromContext ctx w = Some u" "transaction (units w ! u) = Some t"
      "tx_state (txs w ! t) = TxOpen" "ctx_scope ctx = None"
    and opts: "d_propagation (newDefinition opts) = Nested" "0 \<le> d_timeout (newDefinition opts)"
      "validateJoin (newDefinition opts) (units w ! u) = None"
    and client: "\<And>cb c arg. quiet saved u t (exec cb c arg)" "\<And>c. quiet saved u t (work c)"
    and fails: "\<And>c v. \<exists>e. fst (work c v) = Returned (Some e) \<and> shouldRollback (newDefinition opts) (Some e)"
    and run: "Run exec m ctx work opts w = (r, w')"
  shows "(\<exists>e. r = Returned (Some e)) \<and> data (db w') = data (db w) \<and>
    tx_state (txs w' ! t) = TxOpen \<and> isRollbackOnly u w' = isRollbackOnly u w"
proof -
  let ?d = "newDefinition opts" and ?drv = "database m"
  obtain name w1 where w1: "nextSavepointName u w = (name, w1)" by fastforce
  note f1 = nextSavepointName_frame [OF w1]
  let ?w2 = "w1\<lparr>db := snd (drv_exec ?drv t (''SAVEPOINT '' @ name) (db w1))\<rparr>"
  note laws = savepoint_lawsD [OF laws]
  have sp: "Tx_ExecContext ?drv ctx t (''SAVEPOINT '' @ name) w1 = (None, ?w2)"
    using call(3) f1(1) Tx_ExecContext_open [OF call(4), of w1 t] laws(1) by metis
  have "db ?w2 = snd (drv_exec ?drv t (''SAVEPOINT '' @ name) (db w1))" by simp
  then have saved2: "map_of (saved (db ?w2)) name = Some (data (db w))"
    using laws(2) f1(2) by metis
  obtain e3 w3 where w3: "runSavepoint exec u ctx name ?w2 = (Returned e3, w3)"
    by (rule quiet_returns [OF quiet_phases(1) [OF client(1)]])
  note q3 = quietD [OF quiet_phases(1) [OF client(1)] w3]
  let ?c = "withStatus ctx \<lparr>st_unit = Some u, st_name = d_name ?d,
              st_newTransaction = False, st_savepoint = True\<rparr>"
  obtain e w4 where w4: "work ?c w3 = (Returned (Some e), w4)" and e: "shouldRollback ?d (Some e)"
    using fails [of ?c w3] by (metis prod.collapse)
  note q4 = quietD [OF client(2) w4]
  obtain e5 w5 where w5: "runSavepointRollback exec u ctx name w4 = (Returned e5, w5)"
    by (rule quiet_returns [OF quiet_phases(2) [OF client(1)]])
  note q5 = quietD [OF quiet_phases(2) [OF client(1)] w5]
  have open5: "tx_state (txs w5 ! t) = TxOpen" using q3(2) q4(2) q5(2) f1(1) call(3) by simp
  have saved5: "map_of (saved (db w5)) name = Some (data (db w))"
    by (rule q5(4) [OF q4(4) [OF q3(4) [OF saved2]]])
  let ?w6 = "w5\<lparr>db := snd (drv_exec ?drv t (''ROLLBACK TO SAVEPOINT '' @ name) (db w5))\<rparr>"
  have undo: "Tx_ExecContext ?drv ctx t (''ROLLBACK TO SAVEPOINT '' @ name) w5 = (None, ?w6)"
    and data6: "data (db ?w6) = data (db w)"
    using laws(3,4) [OF saved5] Tx_ExecContext_open [OF call(4) open5] by (simp_all del: append_Cons)
  let ?w7 = "release_savepoint m ctx t name ?w6"
  have "Run exec m ctx work opts w = (Returned (Some e), ?w7)"
    using opts call f1(4) by (simp add: Run_def runNested_def w1 sp w3 w4 w5 undo e del: append_Cons)
  moreover have "?w7 = ?w6\<lparr>db := snd (drv_exec ?drv t (''RELEASE SAVEPOINT '' @ name) (db ?w6))\<rparr>"
    unfolding release_savepoint_def
    by (subst Tx_ExecContext_open [OF call(4)]) (simp_all add: open5)
  moreover have "data (snd (drv_exec ?drv t (''RELEASE SAVEPOINT '' @ name) (db ?w6))) = data (db w)"
    using laws(5) data6 by metis
  ultimately show ?thesis
    using run open5 q3(3) q4(3) q5(3) f1(3) by simp
qed

record sp_db =
  sp_data :: nat
  sp_saved :: "(string \<times> nat) list"

definition sp_exec :: "nat \<Rightarrow> string \<Rightarrow> sp_db \<Rightarrow> goerror option \<times> sp_db" where
  "sp_exec t s d =
     (if take 10 s = ''SAVEPOINT '' then (None, d\<lparr>sp_saved := (drop 10 s, sp_data d) # sp_saved d\<rparr>)
      else if take 22 s = ''ROLLBACK TO SAVEPOINT ''
      then (case map_of (sp_saved d) (drop 22 s) of
          Some x \<Rightarrow> (None, d\<lparr>sp_data := x\<rparr>)
        | None \<Rightarrow> (Some (Leaf ''no such savepoint''), d))
      else (None, d))"

definition sp_driver :: "sp_db sql_driver" where
  "sp_driver = \<lparr>drv_begin = (\<lambda>t opts d. (None, d)), drv_commit = (\<lambda>t d. (None, d)),
     drv_rollback = (\<lambda>t d. (None, d)), drv_exec = sp_exec\<rparr>"

lemma sp_laws: "savepoint_laws sp_driver sp_data sp_saved"
  by (simp add: savepoint_laws_def sp_driver_def sp_exec_def)

definition scribble :: "(program, sp_db) work" where
  "scribble c v = (Returned (Some app_error), v\<lparr>db := (db v)\<lparr>sp_data := 99\<rparr>\<rparr>)"

definition silent_exec :: "('cb, 'db) interp" where
  "silent_exec cb c arg v = (Returned None, v)"

definition nested_world :: "(program, sp_db) world" where
  "nested_world = \<lparr>units = [(new_unit 0 False)\<lparr>transaction := Some 0\<rparr>],
     txs = [\<lparr>tx_scope = None, tx_state = TxOpen\<rparr>], scopes = [],
     db = \<lparr>sp_data = 7, sp_saved = []\<rparr>\<rparr>"

definition nested_ctx :: gocontext where
  "nested_ctx = \<lparr>ctx_status = Some \<lparr>st_unit = Some 0, st_name = '''', st_newTransaction = True,
     st_savepoint = False\<rparr>, ctx_scope = None\<rparr>"

theorem nested_failure_is_undone_witness:
  "\<exists>r w'. Run silent_exec (NewManager sp_driver []) nested_ctx scribble [WithPropagation Nested]
     nested_world = (r, w') \<and> r \<noteq> Returned None \<and> sp_data (db w') = 7"
proof -
  obtain r w' where run: "Run silent_exec (NewManager sp_driver []) nested_ctx scribble
      [WithPropagation Nested] nested_world = (r, w')" by fastforce
  have "savepoint_laws (database (NewManager sp_driver [] :: (program, sp_db) manager)) sp_data sp_saved"
    by (simp add: NewManager_def sp_laws)
  moreover have "fromContext nested_ctx nested_world = Some 0"
    by (simp add: fromContext_def statusFromContext_def nested_ctx_def nested_world_def)
  moreover have "transaction (units nested_world ! 0) = Some 0" "tx_state (txs nested_world ! 0) = TxOpen"
    "ctx_scope nested_ctx = None" "sp_data (db nested_world) = 7"
    by (simp_all add: nested_world_def nested_ctx_def)
  moreover have "d_propagation (newDefinition [WithPropagation Nested]) = Nested"
    "0 \<le> d_timeout (newDefinition [WithPropagation Nested])"
    "validateJoin (newDefinition [WithPropagation Nested]) (units nested_world ! 0) = None"
    by (simp_all add: newDefinition_def WithPropagation_def validateJoin_def)
  moreover have "quiet sp_saved 0 0 (silent_exec cb c arg :: (program, sp_db) action)"
    "quiet sp_saved 0 0 (scribble c)" for cb :: program and c arg
    by (simp_all add: quiet_def silent_exec_def scribble_def)
  moreover have "\<exists>e. fst (scribble c v) = Returned (Some e) \<and>
      shouldRollback (newDefinition [WithPropagation Nested]) (Some e)" for c v
    by (simp add: scribble_def newDefinition_def WithPropagation_def shouldRollback_def)
  ultimately have "(\<exists>e. r = Returned (Some e)) \<and> sp_data (db w') = sp_data (db nested_world) \<and>
    tx_state (txs w' ! 0) = TxOpen \<and> isRollbackOnly 0 w' = isRollbackOnly 0 nested_world"
    using nested_failure_is_undone [of "NewManager sp_driver []" sp_data sp_saved nested_ctx
        nested_world 0 0 "[WithPropagation Nested]" silent_exec scribble r w'] run by blast
  then show ?thesis using run by (auto simp: nested_world_def)
qed

text \<open>C11: when the rollback to the savepoint itself fails, the failure is escalated: the call
  reports a transaction system failure beside the error of the work, and the outer unit is
  marked, so that the outermost \<open>Run\<close> cannot commit what the nested work left behind.\<close>

theorem failed_undo_escalates:
  assumes client: "respectful exec m work" "\<And>cb c arg. quiet saved u t (exec cb c arg)"
      "\<And>c. quiet saved u t (work c)"
    and call: "fromContext ctx w = Some u" "transaction (units w ! u) = Some t" "ctx_scope ctx = None"
      "tx_state (txs w ! t) = TxOpen" "has_unit u w" "\<not> isCompleted u w"
    and opts: "d_propagation (newDefinition opts) = Nested" "0 \<le> d_timeout (newDefinition opts)"
      "validateJoin (newDefinition opts) (units w ! u) = None"
    and drv: "\<And>n d. fst (drv_exec (database m) t (''SAVEPOINT '' @ n) d) = None"
      "\<And>n d. \<exists>e. fst (drv_exec (database m) t (''ROLLBACK TO SAVEPOINT '' @ n) d) = Some e"
    and fails: "\<And>c v. \<exists>e. fst (work c v) = Returned (Some e) \<and> shouldRollback (newDefinition opts) (Some e)"
    and run: "Run exec m ctx work opts w = (r, w')"
  shows "(\<exists>e. r = Returned (Some e) \<and> error_is e ErrTransactionSystem) \<and> isRollbackOnly u w'"
proof -
  let ?d = "newDefinition opts" and ?drv = "database m"
  note growth = tx_client.phases_grow [OF respectful_client [OF client(1)], of UNIV UNIV]
  obtain name w1 where w1: "nextSavepointName u w = (name, w1)" by fastforce
  note f1 = nextSavepointName_frame [OF w1]
  have le1: "world_grows w w1" using nextSavepointName_le [of UNIV UNIV w u] w1 by simp
  obtain w2 where sp: "Tx_ExecContext ?drv ctx t (''SAVEPOINT '' @ name) w1 = (None, w2)"
    using Tx_ExecContext_open [OF call(3), of w1 t] drv(1) call(4) f1(1) by metis
  have w2: "txs w2 = txs w1" and le2: "world_grows w1 w2"
    using sp call(3,4) f1(1) Tx_ExecContext_open [OF call(3), of w1 t]
      Tx_ExecContext_le [of UNIV UNIV w1 ?drv ctx t "''SAVEPOINT '' @ name"] by auto
  obtain e3 w3 where w3: "runSavepoint exec u ctx name w2 = (Returned e3, w3)"
    by (rule quiet_returns [OF quiet_phases(1) [OF client(2)]])
  let ?c = "withStatus ctx \<lparr>st_unit = Some u, st_name = d_name ?d,
              st_newTransaction = False, st_savepoint = True\<rparr>"
  obtain e w4 where w4: "work ?c w3 = (Returned (Some e), w4)" and e: "shouldRollback ?d (Some e)"
    using fails [of ?c w3] by (metis prod.collapse)
  obtain e5 w5 where w5: "runSavepointRollback exec u ctx name w4 = (Returned e5, w5)"
    by (rule quiet_returns [OF quiet_phases(2) [OF client(2)]])
  have open5: "tx_state (txs w5 ! t) = TxOpen"
    using quietD(2) [OF quiet_phases(1) [OF client(2)] w3] quietD(2) [OF client(3) w4]
      quietD(2) [OF quiet_phases(2) [OF client(2)] w5] w2 f1(1) call(4) by simp
  obtain e6 w6 where undo: "Tx_ExecContext ?drv ctx t (''ROLLBACK TO SAVEPOINT '' @ name) w5 = (Some e6, w6)"
    using Tx_ExecContext_open [OF call(3) open5] drv(2) by metis
  have le: "world_grows w2 w3" "world_grows w3 w4" "world_grows w4 w5" "world_grows w5 w6"
    using growth(5) [of w2 u ctx name] growth(6) [of w4 u ctx name] w3 w4 w5 undo client(1)
      action_growsD [OF work_growsD, of work UNIV UNIV w3 ?c]
      Tx_ExecContext_le [of UNIV UNIV w5 ?drv ctx t "''ROLLBACK TO SAVEPOINT '' @ name"]
    by (simp_all add: respectful_def)
  then have grown: "world_grows w w6" using le1 le2 by (meson world_le_trans)
  have "Run exec m ctx work opts w = (Returned (errors_join [Some e, wrapSystem (Some e6)]), markRollbackOnly u w6)"
    using opts call f1(4) by (simp add: Run_def runNested_def w1 sp w3 w4 w5 undo e del: append_Cons)
  moreover have "isRollbackOnly u (markRollbackOnly u w6)"
    using has_unit_le [OF grown call(5)] completed_le [OF grown call(5)] call(6)
    by (simp add: isRollbackOnly_def markRollbackOnly_def has_unit_def isCompleted_def upd_unit_def)
  ultimately show ?thesis
    using run by (auto simp: errors_join_def wrapSystem_def ErrTransactionSystem_def)
qed

definition broken_driver :: "unit sql_driver" where
  "broken_driver = \<lparr>drv_begin = (\<lambda>t opts d. (None, d)), drv_commit = (\<lambda>t d. (None, d)),
     drv_rollback = (\<lambda>t d. (None, d)),
     drv_exec = (\<lambda>t s d. (if take 8 s = ''ROLLBACK'' then Some (Leaf ''connection lost'') else None, d))\<rparr>"

definition broken_world :: "(program, unit) world" where
  "broken_world = \<lparr>units = [(new_unit 0 False)\<lparr>transaction := Some 0\<rparr>],
     txs = [\<lparr>tx_scope = None, tx_state = TxOpen\<rparr>], scopes = [], db = ()\<rparr>"

theorem failed_undo_escalates_witness:
  "\<exists>r w'. Run silent_exec (NewManager broken_driver []) nested_ctx failing_work [WithPropagation Nested]
     broken_world = (r, w') \<and> r \<noteq> Returned None \<and> isRollbackOnly 0 w'"
proof -
  obtain r w' where run: "Run silent_exec (NewManager broken_driver []) nested_ctx failing_work
      [WithPropagation Nested] broken_world = (r, w')" by fastforce
  have "callbacks_grow (silent_exec :: (program, unit) interp)"
    by (simp add: callbacks_grow_def action_grows_def silent_exec_def)
  then have "respectful (silent_exec :: (program, unit) interp) (NewManager broken_driver []) failing_work"
    by (simp add: respectful_def NewManager_grows demo_works_grow)
  moreover have "quiet (\<lambda>_. []) 0 0 (silent_exec cb c arg :: (program, unit) action)"
    "quiet (\<lambda>_. []) 0 0 (failing_work c :: (program, unit) action)" for cb :: program and c arg
    by (simp_all add: quiet_def silent_exec_def failing_work_def)
  moreover have "fromContext nested_ctx broken_world = Some 0" "transaction (units broken_world ! 0) = Some 0"
    "tx_state (txs broken_world ! 0) = TxOpen" "ctx_scope nested_ctx = None"
    "has_unit 0 broken_world" "\<not> isCompleted 0 broken_world"
    by (simp_all add: fromContext_def statusFromContext_def nested_ctx_def broken_world_def
        has_unit_def isCompleted_def new_unit_def)
  moreover have "d_propagation (newDefinition [WithPropagation Nested]) = Nested"
    "0 \<le> d_timeout (newDefinition [WithPropagation Nested])"
    "validateJoin (newDefinition [WithPropagation Nested]) (units broken_world ! 0) = None"
    by (simp_all add: newDefinition_def WithPropagation_def validateJoin_def)
  moreover have "fst (drv_exec (database (NewManager broken_driver [] :: (program, unit) manager)) 0
       (''SAVEPOINT '' @ n) d) = None"
    "\<exists>e. fst (drv_exec (database (NewManager broken_driver [] :: (program, unit) manager)) 0
       (''ROLLBACK TO SAVEPOINT '' @ n) d) = Some e" for n d
    by (simp_all add: NewManager_def broken_driver_def)
  moreover have "\<exists>e. fst (failing_work c v) = Returned (Some e) \<and>
      shouldRollback (newDefinition [WithPropagation Nested]) (Some e)"
    for c and v :: "(program, unit) world"
    by (simp add: failing_work_def newDefinition_def WithPropagation_def shouldRollback_def)
  ultimately have "(\<exists>e. r = Returned (Some e) \<and> error_is e ErrTransactionSystem) \<and> isRollbackOnly 0 w'"
    using failed_undo_escalates [of silent_exec "NewManager broken_driver []" failing_work "\<lambda>_. []" 0 0
        nested_ctx broken_world "[WithPropagation Nested]" r w'] run by blast
  then show ?thesis using run by auto
qed

section \<open>After the commit\<close>






end
