(* ===== verification/EventBus.thy ===== *)
theory EventBus
  imports GoRuntime
begin

text \<open>
  The synchronous in-memory event bus (eventbus/bus.go). Handlers are codes \<open>'h\<close> that an
  argument \<open>exec\<close> interprets as functions on the world: the world holds the bus itself,
  because a handler may subscribe reentrantly, and whatever else handlers act on as \<open>'s\<close>.
  The lock is never held while a handler runs, so a locked section is one step.
\<close>

section \<open>State\<close>

type_synonym listener_id = string

text \<open>\<open>SubscribeTo\<close> wraps the client's handler in a type assertion; \<open>Typed\<close> keeps that wrapper.\<close>

datatype ('e, 'h) handler = Plain 'h | Typed listener_id "'e \<Rightarrow> bool" 'h

record ('e, 'h) subscription =
  sub_id :: listener_id
  sub_matches :: "'e \<Rightarrow> bool"
  sub_handle :: "('e, 'h) handler"

record ('e, 'h, 's) bus_world =
  subscriptions :: "('e, 'h) subscription list"
  rest :: 's

type_synonym ('e, 'h, 's) handler_interp =
  "'h \<Rightarrow> 'e \<Rightarrow> ('e, 'h, 's) bus_world \<Rightarrow> outcome \<times> ('e, 'h, 's) bus_world"

definition ErrDuplicateListener :: goerror where
  "ErrDuplicateListener = Leaf ''listener identifier is already subscribed''"

definition ErrUnknownListener :: goerror where
  "ErrUnknownListener = Leaf ''listener is not subscribed''"

definition ErrListenerPanic :: goerror where
  "ErrListenerPanic = Leaf ''listener panicked''"

definition NewBus :: "('e, 'h) subscription list" where
  "NewBus = []"

section \<open>Subscribing\<close>

text \<open>The arguments \<open>matches\<close> and \<open>handle\<close> may be nil.\<close>

definition Bus_Subscribe ::
  "listener_id \<Rightarrow> ('e \<Rightarrow> bool) option \<Rightarrow> ('e, 'h) handler option \<Rightarrow> ('e, 'h) subscription list \<Rightarrow>
   goerror option \<times> ('e, 'h) subscription list" where
  "Bus_Subscribe lid matches handle subs =
     (if lid = '''' then (Some (Leaf ''listener identifier must not be empty''), subs)
      else (case (matches, handle) of
        (Some p, Some h) \<Rightarrow>
          (if list_ex (\<lambda>existing. sub_id existing = lid) subs
           then (Some (Wrap ''%w: %s'' [ErrDuplicateListener]), subs)
           else (None, subs @ [\<lparr>sub_id = lid, sub_matches = p, sub_handle = h\<rparr>]))
      | _ \<Rightarrow> (Some (Leaf ''subscription of %s requires a matches predicate and a handler''), subs)))"

definition SubscribeTo ::
  "('e \<Rightarrow> bool) \<Rightarrow> listener_id \<Rightarrow> 'h \<Rightarrow> ('e, 'h) subscription list \<Rightarrow>
   goerror option \<times> ('e, 'h) subscription list" where
  "SubscribeTo is_T lid handle subs = Bus_Subscribe lid (Some is_T) (Some (Typed lid is_T handle)) subs"

section \<open>Delivering\<close>

definition ListenersFor :: "'e \<Rightarrow> ('e, 'h) subscription list \<Rightarrow> listener_id list" where
  "ListenersFor event subs = map sub_id (filter (\<lambda>candidate. sub_matches candidate event) subs)"

fun call_handler ::
  "('e, 'h, 's) handler_interp \<Rightarrow> ('e, 'h) handler \<Rightarrow> 'e \<Rightarrow> ('e, 'h, 's) bus_world \<Rightarrow>
   outcome \<times> ('e, 'h, 's) bus_world" where
  "call_handler exec (Plain h) event w = exec h event w"
| "call_handler exec (Typed lid is_T h) event w =
     (if is_T event then exec h event w
      else (Returned (Some (Leaf ''listener %s received an event of unexpected type %T'')), w))"

definition invoke ::
  "('e, 'h, 's) handler_interp \<Rightarrow> ('e, 'h) handler \<Rightarrow> 'e \<Rightarrow> ('e, 'h, 's) bus_world \<Rightarrow>
   goerror option \<times> ('e, 'h, 's) bus_world" where
  "invoke exec handle event w = (case call_handler exec handle event w of
      (Returned err, w') \<Rightarrow> (err, w')
    | (Panicked p, w') \<Rightarrow> (Some (Wrap ''%w: %v'' [ErrListenerPanic]), w'))"

definition Deliver ::
  "('e, 'h, 's) handler_interp \<Rightarrow> listener_id \<Rightarrow> 'e \<Rightarrow> ('e, 'h, 's) bus_world \<Rightarrow>
   goerror option \<times> ('e, 'h, 's) bus_world" where
  "Deliver exec lid event w = (case find (\<lambda>candidate. sub_id candidate = lid) (subscriptions w) of
      None \<Rightarrow> (Some (Wrap ''%w: %s'' [ErrUnknownListener]), w)
    | Some s \<Rightarrow> invoke exec (sub_handle s) event w)"

fun deliver_all ::
  "('e, 'h, 's) handler_interp \<Rightarrow> listener_id list \<Rightarrow> 'e \<Rightarrow> ('e, 'h, 's) bus_world \<Rightarrow>
   goerror list \<times> ('e, 'h, 's) bus_world" where
  "deliver_all exec [] event w = ([], w)"
| "deliver_all exec (lid # ids) event w =
     (let (err, w1) = Deliver exec lid event w;
          (failures, w2) = deliver_all exec ids event w1
      in ((case err of None \<Rightarrow> [] | Some e \<Rightarrow> [e]) @ failures, w2))"

definition Bus_Publish ::
  "('e, 'h, 's) handler_interp \<Rightarrow> 'e \<Rightarrow> ('e, 'h, 's) bus_world \<Rightarrow>
   goerror option \<times> ('e, 'h, 's) bus_world" where
  "Bus_Publish exec event w =
     (let (failures, w') = deliver_all exec (ListenersFor event (subscriptions w)) event w
      in (errors_join (map Some failures), w'))"

section \<open>Identifiers stay unique and subscriptions stay\<close>

definition bus_inv :: "('e, 'h) subscription list \<Rightarrow> bool" where
  "bus_inv subs \<longleftrightarrow> distinct (map sub_id subs) \<and> '''' \<notin> set (map sub_id subs) \<and>
     (\<forall>s \<in> set subs. \<forall>lid is_T h. sub_handle s = Typed lid is_T h \<longrightarrow> sub_matches s = is_T)"

definition bus_le :: "('e, 'h) subscription list \<Rightarrow> ('e, 'h) subscription list \<Rightarrow> bool" where
  "bus_le subs subs' \<longleftrightarrow> (\<exists>added. subs' = subs @ added)"

lemma bus_le_refl [simp, intro!]: "bus_le s s"
  by (simp add: bus_le_def)

lemma bus_le_trans [trans]: "bus_le a b \<Longrightarrow> bus_le b c \<Longrightarrow> bus_le a c"
  by (auto simp: bus_le_def)

definition well_formed_handler :: "('e \<Rightarrow> bool) option \<Rightarrow> ('e, 'h) handler option \<Rightarrow> bool" where
  "well_formed_handler p h \<longleftrightarrow> (\<forall>lid is_T h'. h = Some (Typed lid is_T h') \<longrightarrow> p = Some is_T)"

lemma Bus_Subscribe_inv [preserves]:
  "bus_inv subs \<Longrightarrow> well_formed_handler p h \<Longrightarrow> bus_inv (snd (Bus_Subscribe lid p h subs))"
  by (auto simp: Bus_Subscribe_def bus_inv_def well_formed_handler_def list_ex_iff split: option.splits)

lemma Bus_Subscribe_le [preserves]: "bus_le subs (snd (Bus_Subscribe lid p h subs))"
  by (auto simp: Bus_Subscribe_def bus_le_def split: option.splits)

lemma SubscribeTo_inv [preserves]: "bus_inv subs \<Longrightarrow> bus_inv (snd (SubscribeTo is_T lid h subs))"
  unfolding SubscribeTo_def by (rule Bus_Subscribe_inv) (simp_all add: well_formed_handler_def)

lemma find_sub:
  "distinct (map sub_id subs) \<Longrightarrow> s \<in> set subs \<Longrightarrow>
   find (\<lambda>c. sub_id c = sub_id s) (subs @ added) = Some s"
  by (induction subs) (auto simp: image_iff)

lemma Deliver_subscribed:
  assumes "bus_inv subs" "bus_le subs (subscriptions w)" "s \<in> set subs"
  shows "Deliver exec (sub_id s) event w = invoke exec (sub_handle s) event w"
  using assms find_sub [of subs s] by (auto simp: Deliver_def bus_inv_def bus_le_def)

text \<open>Handlers that only add subscriptions.\<close>

definition handlers_grow :: "('e, 'h, 's) handler_interp \<Rightarrow> bool" where
  "handlers_grow exec \<longleftrightarrow>
     (\<forall>h event w. bus_le (subscriptions w) (subscriptions (snd (exec h event w))))"

lemma invoke_grows:
  "handlers_grow exec \<Longrightarrow> bus_le (subscriptions w) (subscriptions (snd (invoke exec h event w)))"
  by (cases h) (auto simp: invoke_def handlers_grow_def split: prod.splits outcome.splits;
      metis snd_conv bus_le_refl)+

text \<open>
  The reference behaviour of \<open>Publish\<close>: each matching subscription is invoked on the world its
  predecessors left, in subscription order, and the errors are collected.
\<close>

fun invoke_all ::
  "('e, 'h, 's) handler_interp \<Rightarrow> ('e, 'h) subscription list \<Rightarrow> 'e \<Rightarrow> ('e, 'h, 's) bus_world \<Rightarrow>
   goerror option list \<times> ('e, 'h, 's) bus_world" where
  "invoke_all exec [] event w = ([], w)"
| "invoke_all exec (s # ss) event w =
     (let (err, w1) = invoke exec (sub_handle s) event w;
          (errs, w2) = invoke_all exec ss event w1
      in (err # errs, w2))"

lemma deliver_all_subscribed:
  assumes "bus_inv subs" "handlers_grow exec" "set ss \<subseteq> set subs" "bus_le subs (subscriptions w)"
  shows "deliver_all exec (map sub_id ss) event w =
    (let (errs, w') = invoke_all exec ss event w in (map the (filter (\<lambda>e. e \<noteq> None) errs), w'))"
  using assms(3,4)
proof (induction ss arbitrary: w)
  case Nil
  then show ?case by simp
next
  case (Cons s ss)
  obtain err w1 where inv: "invoke exec (sub_handle s) event w = (err, w1)" by fastforce
  have "bus_le subs (subscriptions w1)"
    using bus_le_trans [OF Cons.prems(2) invoke_grows [OF assms(2)], of "sub_handle s" event] inv by simp
  then show ?case
    using Cons.IH [of w1] Cons.prems Deliver_subscribed [OF assms(1) Cons.prems(2), of s exec event] inv
    by (auto simp: Let_def split: prod.splits option.splits)
qed

lemma errors_join_filter:
  "errors_join (map Some (map the (filter (\<lambda>e. e \<noteq> None) errs))) = errors_join errs"
proof -
  have "map Some (map the (filter (\<lambda>e. e \<noteq> None) errs)) = filter (\<lambda>e. e \<noteq> None) errs"
    by (induction errs) auto
  then show ?thesis by (simp only: errors_join_def filter_filter) simp
qed

section \<open>Properties\<close>

datatype ('e, 'h) bus_op =
    OpSubscribe listener_id "('e \<Rightarrow> bool) option" "'h option"
  | OpSubscribeTo "'e \<Rightarrow> bool" listener_id 'h

fun bus_apply :: "('e, 'h) bus_op \<Rightarrow> ('e, 'h) subscription list \<Rightarrow> ('e, 'h) subscription list" where
  "bus_apply (OpSubscribe lid p h) subs = snd (Bus_Subscribe lid p (map_option Plain h) subs)"
| "bus_apply (OpSubscribeTo is_T lid h) subs = snd (SubscribeTo is_T lid h subs)"

lemma bus_apply_inv: "bus_inv subs \<Longrightarrow> bus_inv (bus_apply c subs)"
  by (cases c) (auto intro!: Bus_Subscribe_inv SubscribeTo_inv simp: well_formed_handler_def)

lemma bus_history_inv: "bus_inv subs \<Longrightarrow> bus_inv (fold bus_apply cs subs)"
  by (induction cs arbitrary: subs) (auto intro: bus_apply_inv)

lemma NewBus_inv: "bus_inv NewBus"
  by (simp add: bus_inv_def NewBus_def)

text \<open>After any history of subscriptions, accepted or refused, no two listeners of a bus
  share an identifier and none is empty.\<close>

theorem listener_identifiers_stay_unique:
  "distinct (map sub_id (fold bus_apply cs NewBus)) \<and> '''' \<notin> set (map sub_id (fold bus_apply cs NewBus))"
  using bus_history_inv [OF NewBus_inv] by (auto simp: bus_inv_def)

lemma Publish_fold:
  assumes "bus_inv (subscriptions w)" "handlers_grow exec"
  shows "Bus_Publish exec event w =
    (let (errs, w') = invoke_all exec (filter (\<lambda>s. sub_matches s event) (subscriptions w)) event w
     in (errors_join errs, w'))"
proof -
  let ?ss = "filter (\<lambda>s. sub_matches s event) (subscriptions w)"
  have "deliver_all exec (map sub_id ?ss) event w =
      (let (errs, w') = invoke_all exec ?ss event w in (map the (filter (\<lambda>e. e \<noteq> None) errs), w'))"
    by (rule deliver_all_subscribed [OF assms]) auto
  then show ?thesis
    unfolding Bus_Publish_def ListenersFor_def Let_def
    by (simp only: case_prod_beta fst_conv snd_conv errors_join_filter)
qed

text \<open>C14: \<open>Publish\<close> is the fold of the matching subscriptions: every listener that matches the
  event at the moment of the call is invoked, in subscription order, on the world its
  predecessors left, whatever they returned and whatever they subscribed meanwhile, and the
  result joins the failures, being nil only when there was none.\<close>

theorem Publish_invokes_every_matching_listener:
  assumes "bus_inv (subscriptions w)" "handlers_grow exec"
  shows "Bus_Publish exec event w =
    (let (errs, w') = invoke_all exec (filter (\<lambda>s. sub_matches s event) (subscriptions w)) event w
     in (errors_join errs, w'))"
  by (rule Publish_fold [OF assms])

definition demo_bus :: "(nat, string, string list) bus_world" where
  "demo_bus = \<lparr>subscriptions = fold bus_apply
      [OpSubscribeTo (\<lambda>e. e = 1) ''a'' ''handle a'', OpSubscribe ''b'' (Some (\<lambda>e. True)) (Some ''handle b''),
       OpSubscribeTo (\<lambda>e. e = 2) ''c'' ''handle c''] NewBus, rest = []\<rparr>"

definition demo_handlers :: "(nat, string, string list) handler_interp" where
  "demo_handlers h event w =
     (if h = ''handle a'' then Panicked ''boom'' else Returned None, w\<lparr>rest := rest w @ [h]\<rparr>)"

lemma demo_bus_ok: "bus_inv (subscriptions demo_bus)" "handlers_grow demo_handlers"
proof -
  show "bus_inv (subscriptions demo_bus)"
    unfolding demo_bus_def bus_world.select_convs by (rule bus_history_inv [OF NewBus_inv])
qed (simp add: handlers_grow_def demo_handlers_def)

theorem Publish_invokes_every_matching_listener_witness:
  "Bus_Publish demo_handlers 1 demo_bus =
    (let (errs, w') = invoke_all demo_handlers
        (filter (\<lambda>s. sub_matches s 1) (subscriptions demo_bus)) 1 demo_bus
     in (errors_join errs, w'))"
  by (rule Publish_invokes_every_matching_listener [OF demo_bus_ok])

fun handler_code :: "('e, 'h) handler \<Rightarrow> 'h" where
  "handler_code (Plain h) = h"
| "handler_code (Typed lid is_T h) = h"

lemma invoke_all_trace:
  assumes "\<And>h v. trace (rest (snd (exec h event v))) = trace (rest v) @ [h]"
    and "\<And>s. s \<in> set ss \<Longrightarrow> sub_matches s event"
    and "\<And>s lid is_T h. s \<in> set ss \<Longrightarrow> sub_handle s = Typed lid is_T h \<Longrightarrow> sub_matches s = is_T"
  shows "trace (rest (snd (invoke_all exec ss event w))) =
    trace (rest w) @ map (handler_code \<circ> sub_handle) ss"
  using assms(2,3)
proof (induction ss arbitrary: w)
  case Nil
  then show ?case by simp
next
  case (Cons s ss)
  obtain err w1 where inv: "invoke exec (sub_handle s) event w = (err, w1)" by fastforce
  have "call_handler exec (sub_handle s) event w = exec (handler_code (sub_handle s)) event w"
  proof (cases "sub_handle s")
    case (Typed lid is_T h)
    then show ?thesis using Cons.prems(1) [of s] Cons.prems(2) [of s lid is_T h] by simp
  qed simp
  then have "w1 = snd (exec (handler_code (sub_handle s)) event w)"
    using inv by (auto simp: invoke_def split: prod.splits outcome.splits)
  then have "trace (rest w1) = trace (rest w) @ [handler_code (sub_handle s)]" using assms(1) by simp
  then show ?case using Cons.IH [of w1] Cons.prems inv by (simp add: Let_def case_prod_beta)
qed

lemma invoke_all_error:
  assumes "s \<in> set ss" "\<And>v. opt_error_is (fst (invoke exec (sub_handle s) event v)) t"
  shows "\<exists>e \<in> set (fst (invoke_all exec ss event w)). opt_error_is e t"
  using assms(1)
proof (induction ss arbitrary: w)
  case (Cons a ss)
  obtain err w1 where inv: "invoke exec (sub_handle a) event w = (err, w1)" by fastforce
  show ?case
    using Cons.IH [of w1] Cons.prems inv assms(2) [of w] by (cases "a = s") (auto simp: Let_def split: prod.splits)
qed simp

text \<open>C15: a misbehaving listener is isolated: with handlers that record their calls, every
  matching listener is called exactly once and in order even when some of them panic, a typed
  listener never sees an event of another type, and a panic surfaces as
  \<open>ErrListenerPanic\<close>.\<close>

theorem Publish_isolates_panicking_listeners:
  assumes "bus_inv (subscriptions w)" "handlers_grow exec"
    and "\<And>h v. trace (rest (snd (exec h event v))) = trace (rest v) @ [h]"
  shows "trace (rest (snd (Bus_Publish exec event w))) = trace (rest w) @
      map (handler_code \<circ> sub_handle) (filter (\<lambda>s. sub_matches s event) (subscriptions w)) \<and>
    (\<forall>s \<in> set (subscriptions w). sub_matches s event \<and>
        (\<forall>v. \<exists>p. fst (exec (handler_code (sub_handle s)) event v) = Panicked p) \<longrightarrow>
      opt_error_is (fst (Bus_Publish exec event w)) ErrListenerPanic)"
proof (intro conjI ballI impI)
  let ?ss = "filter (\<lambda>s. sub_matches s event) (subscriptions w)"
  note fold = Publish_fold [OF assms(1,2), of event]
  have typed: "\<And>s lid is_T h. s \<in> set ?ss \<Longrightarrow> sub_handle s = Typed lid is_T h \<Longrightarrow> sub_matches s = is_T"
    using assms(1) by (auto simp: bus_inv_def)
  show "trace (rest (snd (Bus_Publish exec event w))) = trace (rest w) @ map (handler_code \<circ> sub_handle) ?ss"
    using invoke_all_trace [of trace exec event ?ss w, OF assms(3) _ typed] fold
    by (auto split: prod.splits)
  fix s
  assume s: "s \<in> set (subscriptions w)"
    and panics: "sub_matches s event \<and>
      (\<forall>v. \<exists>p. fst (exec (handler_code (sub_handle s)) event v) = Panicked p)"
  have "call_handler exec (sub_handle s) event v = exec (handler_code (sub_handle s)) event v" for v
    using typed [of s] s panics by (cases "sub_handle s") force+
  then have err: "opt_error_is (fst (invoke exec (sub_handle s) event v)) ErrListenerPanic" for v
    using panics [THEN conjunct2, THEN spec, of v]
    by (auto simp: invoke_def ErrListenerPanic_def split: prod.splits outcome.splits)
  have "\<exists>e \<in> set (fst (invoke_all exec ?ss event w)). opt_error_is e ErrListenerPanic"
    by (rule invoke_all_error [OF _ err]) (use s panics in simp)
  then show "opt_error_is (fst (Bus_Publish exec event w)) ErrListenerPanic"
    using fold by (auto simp: ErrListenerPanic_def errors_join_is split: prod.splits)
qed

theorem Publish_isolates_panicking_listeners_witness:
  "rest (snd (Bus_Publish demo_handlers 1 demo_bus)) = [''handle a'', ''handle b'']"
  using Publish_isolates_panicking_listeners
    [of demo_bus demo_handlers "\<lambda>x. x" 1, OF demo_bus_ok]
  by (simp add: demo_handlers_def) (simp add: demo_bus_def SubscribeTo_def Bus_Subscribe_def NewBus_def)

end
