(* ===== verification/BrokerConfig.thy ===== *)
theory BrokerConfig
  imports EventBus
begin

text \<open>
  The broker contract's configuration (eventbus/broker.go): consumer options, the default
  backoff schedule with its wrap-around arithmetic, and the contract a retry policy meets,
  shared with the SQL bridge (sqlbus/bridge.go), whose default is the same loop. Durations are
  64-bit nanosecond counts.
\<close>

section \<open>Configuration\<close>

type_synonym ordering = string

definition OrderingFIFO :: ordering where
  "OrderingFIFO = ''FIFO''"

definition OrderingUnordered :: ordering where
  "OrderingUnordered = ''UNORDERED''"

definition second :: int where
  "second = 1000000000"

definition minute :: int where
  "minute = 60 * second"

definition defaultConsumerMaximumAttempts :: int where
  "defaultConsumerMaximumAttempts = 5"

definition defaultConsumerWorkers :: int where
  "defaultConsumerWorkers = 8"

definition defaultInitialRetryDelay :: int where
  "defaultInitialRetryDelay = 5 * second"

definition defaultMaximumRetryDelay :: int where
  "defaultMaximumRetryDelay = 5 * minute"

lemmas delay_defs [go_defs] =
  second_def minute_def defaultInitialRetryDelay_def defaultMaximumRetryDelay_def

text \<open>\<open>delay *= 2\<close> is a 64-bit multiplication.\<close>

function backoff_loop :: "int \<Rightarrow> int \<Rightarrow> int \<Rightarrow> int" where
  "backoff_loop attempt n delay =
     (if n < attempt
      then (let delay' = wrap64 (delay * 2)
            in if delay' \<ge> defaultMaximumRetryDelay then defaultMaximumRetryDelay
               else backoff_loop attempt (n + 1) delay')
      else delay)"
  by auto
termination by (relation "measure (\<lambda>(attempt, n, delay). nat (attempt - n))") auto

declare backoff_loop.simps [simp del]

definition defaultConsumerRetryDelay :: "int \<Rightarrow> int" where
  "defaultConsumerRetryDelay attempt = backoff_loop attempt 1 defaultInitialRetryDelay"

record consumer_configuration =
  Ordering :: ordering
  MaximumAttempts :: int
  RetryDelay :: "int \<Rightarrow> int"
  Workers :: int
  Broadcast :: bool

definition DefaultConsumerConfiguration :: consumer_configuration where
  "DefaultConsumerConfiguration = \<lparr>Ordering = OrderingFIFO,
     MaximumAttempts = defaultConsumerMaximumAttempts, RetryDelay = defaultConsumerRetryDelay,
     Workers = defaultConsumerWorkers, Broadcast = False\<rparr>"

type_synonym consumer_option = "consumer_configuration \<Rightarrow> consumer_configuration"

definition WithUnorderedDelivery :: consumer_option where
  "WithUnorderedDelivery c = c\<lparr>Ordering := OrderingUnordered\<rparr>"

definition WithMaximumAttempts :: "int \<Rightarrow> consumer_option" where
  "WithMaximumAttempts attempts c = (if attempts > 0 then c\<lparr>MaximumAttempts := attempts\<rparr> else c)"

definition WithRetryDelay :: "(int \<Rightarrow> int) option \<Rightarrow> consumer_option" where
  "WithRetryDelay delay c = (case delay of None \<Rightarrow> c | Some f \<Rightarrow> c\<lparr>RetryDelay := f\<rparr>)"

definition WithWorkers :: "int \<Rightarrow> consumer_option" where
  "WithWorkers workers c = (if workers > 0 then c\<lparr>Workers := workers\<rparr> else c)"

definition WithBroadcastDelivery :: consumer_option where
  "WithBroadcastDelivery c = c\<lparr>Broadcast := True\<rparr>"

record ('e, 'h) consumer_registration =
  ID :: listener_id
  Matches :: "('e \<Rightarrow> bool) option"
  Probe :: 'e
  Handle :: "('e, 'h) handler option"
  Configuration :: consumer_configuration

text \<open>The registration \<open>Consume\<close> assembles from its type parameter (its type assertion and its zero value)
  and its options.\<close>

definition Consume ::
  "('e \<Rightarrow> bool) \<Rightarrow> 'e \<Rightarrow> listener_id \<Rightarrow> 'h \<Rightarrow> consumer_option list \<Rightarrow> ('e, 'h) consumer_registration" where
  "Consume is_T probe lid handle options =
     \<lparr>ID = lid, Matches = Some is_T, Probe = probe, Handle = Some (Typed lid is_T handle),
      Configuration = fold (\<lambda>f c. f c) options DefaultConsumerConfiguration\<rparr>"

section \<open>What a retry policy promises\<close>

locale retry_policy =
  fixes delay :: "int \<Rightarrow> int" and shortest longest :: int
  assumes shortest_pos: "0 < shortest"
    and lower: "shortest \<le> delay attempt"
    and upper: "delay attempt \<le> longest"
    and increasing: "1 \<le> a \<Longrightarrow> a \<le> b \<Longrightarrow> delay a \<le> delay b"
begin

definition total_wait :: "nat \<Rightarrow> int" where
  "total_wait attempts = (\<Sum>a = 1..<attempts. delay (int a))"

lemma delay_pos: "0 < delay attempt"
  using shortest_pos lower [of attempt] by simp

lemma total_wait_bounds:
  "int (attempts - 1) * shortest \<le> total_wait attempts \<and> total_wait attempts \<le> int (attempts - 1) * longest"
  unfolding total_wait_def
  using sum_bounded_below [of "{1..<attempts}" shortest "\<lambda>a. delay (int a)"]
    sum_bounded_above [of "{1..<attempts}" "\<lambda>a. delay (int a)" longest] lower upper
  by simp

end

lemma backoff_loop_closed:
  "0 < delay \<Longrightarrow> delay < defaultMaximumRetryDelay \<Longrightarrow>
   backoff_loop attempt n delay = min (delay * 2 ^ nat (attempt - n)) defaultMaximumRetryDelay"
proof (induction attempt n delay rule: backoff_loop.induct)
  case (1 attempt n delay)
  show ?case
  proof (cases "n < attempt")
    case False
    then show ?thesis using 1(3) by (simp add: backoff_loop.simps)
  next
    case True
    have fits: "wrap64 (delay * 2) = delay * 2"
      using 1(2,3) by (intro wrap64_id) (simp_all add: delay_defs)
    have step: "nat (attempt - n) = Suc (nat (attempt - (n + 1)))" using True by simp
    have double: "delay * 2 ^ nat (attempt - n) = delay * 2 * 2 ^ nat (attempt - (n + 1))"
      by (simp add: step)
    show ?thesis
    proof (cases "defaultMaximumRetryDelay \<le> delay * 2")
      case large: True
      have "delay * 2 * 1 \<le> delay * 2 * 2 ^ nat (attempt - (n + 1))"
        using 1(2) by (intro mult_left_mono) simp_all
      then have "defaultMaximumRetryDelay \<le> delay * 2 ^ nat (attempt - n)"
        unfolding double using large by linarith
      with True large fits show ?thesis by (subst backoff_loop.simps) simp
    next
      case False
      with True 1(1) [OF True refl] 1(2) fits double show ?thesis
        by (subst backoff_loop.simps) simp
    qed
  qed
qed

lemma defaultConsumerRetryDelay_closed:
  "defaultConsumerRetryDelay attempt =
     min (defaultInitialRetryDelay * 2 ^ nat (attempt - 1)) defaultMaximumRetryDelay"
  unfolding defaultConsumerRetryDelay_def
  by (rule backoff_loop_closed) (simp_all add: delay_defs)

interpretation consumer_retry:
  retry_policy defaultConsumerRetryDelay defaultInitialRetryDelay defaultMaximumRetryDelay
proof
  show "0 < defaultInitialRetryDelay" by (simp add: delay_defs)
  show "defaultInitialRetryDelay \<le> defaultConsumerRetryDelay attempt" for attempt
    by (simp add: defaultConsumerRetryDelay_closed delay_defs)
  show "defaultConsumerRetryDelay attempt \<le> defaultMaximumRetryDelay" for attempt
    by (simp add: defaultConsumerRetryDelay_closed)
  show "defaultConsumerRetryDelay a \<le> defaultConsumerRetryDelay b" if "1 \<le> a" "a \<le> b" for a b
  proof -
    have "defaultInitialRetryDelay * 2 ^ nat (a - 1) \<le> defaultInitialRetryDelay * 2 ^ nat (b - 1)"
      using that by (intro mult_left_mono power_increasing) (auto simp: delay_defs)
    then show ?thesis by (auto simp: defaultConsumerRetryDelay_closed)
  qed
qed

section \<open>Properties\<close>

text \<open>The default backoff doubles from five seconds and saturates at five minutes for every
  attempt number, without the 64-bit product ever wrapping around; the delays are positive
  and never decrease.\<close>

theorem default_backoff_doubles_up_to_the_maximum:
  "defaultConsumerRetryDelay attempt =
     min (defaultInitialRetryDelay * 2 ^ nat (attempt - 1)) defaultMaximumRetryDelay \<and>
   0 < defaultConsumerRetryDelay attempt \<and>
   defaultConsumerRetryDelay attempt \<le> defaultConsumerRetryDelay (max 1 attempt + 1)"
proof -
  have "defaultConsumerRetryDelay attempt = defaultConsumerRetryDelay (max 1 attempt)"
    by (simp add: defaultConsumerRetryDelay_closed max_def)
  then show ?thesis
    using consumer_retry.delay_pos [of attempt] consumer_retry.increasing [of "max 1 attempt" "max 1 attempt + 1"]
      defaultConsumerRetryDelay_closed by simp
qed

definition consumer_options :: "consumer_option set" where
  "consumer_options = range WithMaximumAttempts \<union> range WithWorkers \<union> range WithRetryDelay \<union>
     {WithUnorderedDelivery, WithBroadcastDelivery}"

lemma consumer_option_positive:
  "0 < MaximumAttempts c \<and> 0 < Workers c \<Longrightarrow> f \<in> consumer_options \<Longrightarrow>
   0 < MaximumAttempts (f c) \<and> 0 < Workers (f c)"
  by (auto simp: consumer_options_def WithMaximumAttempts_def WithWorkers_def WithRetryDelay_def
      WithUnorderedDelivery_def WithBroadcastDelivery_def split: option.splits)

lemma Consume_positive:
  assumes "set options \<subseteq> consumer_options"
  shows "0 < MaximumAttempts (Configuration (Consume is_T probe lid handle options)) \<and>
    0 < Workers (Configuration (Consume is_T probe lid handle options))"
proof -
  have "0 < MaximumAttempts (fold (\<lambda>f c. f c) options c) \<and> 0 < Workers (fold (\<lambda>f c. f c) options c)"
    if "0 < MaximumAttempts c \<and> 0 < Workers c" for c
    using assms that consumer_option_positive by (induction options arbitrary: c) auto
  then show ?thesis
    by (simp add: Consume_def DefaultConsumerConfiguration_def defaultConsumerMaximumAttempts_def
        defaultConsumerWorkers_def)
qed

end
