(* ===== verification/MemoryBroker.thy ===== *)
theory MemoryBroker
  imports BrokerConfig
begin

text \<open>
  The in-process broker (eventbus/broker_memory.go) as a step relation. A state holds the
  broker's fields, the queue and the workers of every consumer with the point each worker
  goroutine has reached, the retry goroutines waiting out a backoff (\<open>mc_timers\<close>), and the
  calls of \<open>Publish\<close> and \<open>Resubmit\<close> that have left the broker's critical section but have
  not reached the consumer's queue yet (\<open>mb_pending\<close>). Each step is one critical section or
  one scheduling event; between them everything interleaves. The result of a handler is any
  error the bus delivered. Dates are the publication times in nanoseconds; the dead-letter
  sequence is a natural number, the code's 64-bit counter before it could wrap.
\<close>

section \<open>State\<close>

record 'e memory_delivery =
  md_event :: 'e
  md_attempts :: int
  md_date :: int

datatype 'e worker =
    Awaiting
  | Popped "'e memory_delivery"
  | Running "'e memory_delivery"
  | Sleeping "'e memory_delivery"
  | Exited

record 'e memory_consumer =
  mc_configuration :: consumer_configuration
  mc_queue :: "'e memory_delivery list"
  mc_stopped :: bool
  mc_workers :: "'e worker list"
  mc_timers :: "'e memory_delivery list"

record 'e dead_letter =
  dl_reference :: string
  dl_listener :: listener_id
  dl_event :: 'e
  dl_attempts :: int
  dl_error :: goerror
  dl_date :: int

record ('e, 'h) memory_broker =
  mb_bus :: "('e, 'h) subscription list"
  mb_consumers :: "listener_id \<Rightarrow> 'e memory_consumer option"
  mb_deadLetters :: "'e dead_letter list"
  mb_sequence :: nat
  mb_stopped :: bool
  mb_cancelled :: bool
  mb_pending :: "(listener_id \<times> 'e memory_delivery) list"

definition ErrBrokerStopped :: goerror where
  "ErrBrokerStopped = Leaf ''memory broker is stopped''"

definition NewMemoryBroker :: "('e, 'h) memory_broker" where
  "NewMemoryBroker = \<lparr>mb_bus = NewBus, mb_consumers = Map.empty, mb_deadLetters = [], mb_sequence = 0,
     mb_stopped = False, mb_cancelled = False, mb_pending = []\<rparr>"

definition newMemoryConsumer :: "consumer_configuration \<Rightarrow> nat \<Rightarrow> 'e memory_consumer" where
  "newMemoryConsumer config workers = \<lparr>mc_configuration = config, mc_queue = [], mc_stopped = False,
     mc_workers = replicate workers Awaiting, mc_timers = []\<rparr>"

definition upd_consumer ::
  "listener_id \<Rightarrow> ('e memory_consumer \<Rightarrow> 'e memory_consumer) \<Rightarrow> ('e, 'h) memory_broker \<Rightarrow>
   ('e, 'h) memory_broker" where
  "upd_consumer lid f b = b\<lparr>mb_consumers := (mb_consumers b)(lid := map_option f (mb_consumers b lid))\<rparr>"

section \<open>One consumer\<close>

fun enqueue_position :: "'e memory_delivery \<Rightarrow> 'e memory_delivery list \<Rightarrow> nat \<Rightarrow> nat" where
  "enqueue_position delivery queue 0 = 0"
| "enqueue_position delivery queue (Suc position) =
     (if md_date delivery < md_date (queue ! position) then enqueue_position delivery queue position
      else Suc position)"

definition enqueue :: "'e memory_delivery \<Rightarrow> 'e memory_consumer \<Rightarrow> 'e memory_consumer" where
  "enqueue delivery c = c\<lparr>mc_queue :=
     insert_at (enqueue_position delivery (mc_queue c) (length (mc_queue c))) delivery (mc_queue c)\<rparr>"

definition set_worker :: "nat \<Rightarrow> 'e worker \<Rightarrow> 'e memory_consumer \<Rightarrow> 'e memory_consumer" where
  "set_worker k x c = c\<lparr>mc_workers := (mc_workers c)[k := x]\<rparr>"

text \<open>\<open>await\<close> is blocked while it leaves the consumer as it is.\<close>

definition await :: "nat \<Rightarrow> 'e memory_consumer \<Rightarrow> 'e memory_consumer" where
  "await k c =
     (if mc_stopped c then set_worker k Exited c
      else (case mc_queue c of
        [] \<Rightarrow> c
      | head # tail \<Rightarrow> set_worker k (Popped head) (c\<lparr>mc_queue := tail\<rparr>)))"

definition stop :: "'e memory_consumer \<Rightarrow> 'e memory_consumer" where
  "stop c = c\<lparr>mc_stopped := True\<rparr>"

definition next_attempt :: "'e memory_delivery \<Rightarrow> 'e memory_delivery" where
  "next_attempt d = d\<lparr>md_attempts := md_attempts d + 1\<rparr>"

text \<open>The cancellation check of \<open>work\<close> and the start of \<open>process\<close>.\<close>

definition start_processing ::
  "bool \<Rightarrow> nat \<Rightarrow> 'e memory_delivery \<Rightarrow> 'e memory_consumer \<Rightarrow> 'e memory_consumer" where
  "start_processing cancelled k d c =
     set_worker k (if cancelled then Exited else Running (next_attempt d)) c"

section \<open>The broker's operations\<close>

definition Broker_Subscribe ::
  "('e, 'h) consumer_registration \<Rightarrow> ('e, 'h) memory_broker \<Rightarrow> goerror option \<times> ('e, 'h) memory_broker" where
  "Broker_Subscribe registration b =
     (let workers = (if Ordering (Configuration registration) = OrderingUnordered
                     then nat (Workers (Configuration registration)) else 1)
      in if mb_stopped b then (Some (Wrap ''subscribe %s: %w'' [ErrBrokerStopped]), b)
         else (case Bus_Subscribe (ID registration) (Matches registration) (Handle registration) (mb_bus b) of
            (Some err, subs) \<Rightarrow> (Some err, b)
          | (None, subs) \<Rightarrow> (None, b\<lparr>mb_bus := subs, mb_consumers := (mb_consumers b)
              (ID registration \<mapsto> newMemoryConsumer (Configuration registration) workers)\<rparr>)))"

definition publish_targets :: "'e \<Rightarrow> ('e, 'h) memory_broker \<Rightarrow> listener_id list" where
  "publish_targets event b =
     filter (\<lambda>lid. mb_consumers b lid \<noteq> None) (ListenersFor event (mb_bus b))"

definition Broker_Publish ::
  "'e \<Rightarrow> int \<Rightarrow> ('e, 'h) memory_broker \<Rightarrow> goerror option \<times> ('e, 'h) memory_broker" where
  "Broker_Publish event now b =
     (if mb_stopped b then (Some ErrBrokerStopped, b)
      else (None, b\<lparr>mb_pending := mb_pending b @
        map (\<lambda>lid. (lid, \<lparr>md_event = event, md_attempts = 0, md_date = now\<rparr>)) (publish_targets event b)\<rparr>))"

definition park ::
  "listener_id \<Rightarrow> 'e memory_delivery \<Rightarrow> goerror \<Rightarrow> ('e, 'h) memory_broker \<Rightarrow> ('e, 'h) memory_broker" where
  "park lid d cause b = b\<lparr>mb_sequence := Suc (mb_sequence b),
     mb_deadLetters := mb_deadLetters b @ [\<lparr>dl_reference = show_nat (Suc (mb_sequence b)),
       dl_listener = lid, dl_event = md_event d, dl_attempts = md_attempts d, dl_error = cause,
       dl_date = md_date d\<rparr>]\<rparr>"

text \<open>What \<open>process\<close> does with the result of an attempt: settle, park, hand the delivery to a
  retry goroutine (\<open>scheduleRetry\<close>), or sleep in the worker.\<close>

definition settle_attempt ::
  "listener_id \<Rightarrow> nat \<Rightarrow> 'e memory_delivery \<Rightarrow> goerror option \<Rightarrow> ('e, 'h) memory_broker \<Rightarrow>
   ('e, 'h) memory_broker" where
  "settle_attempt lid k d err b = (case (err, mb_consumers b lid) of
      (Some cause, Some c) \<Rightarrow>
        (if md_attempts d \<ge> MaximumAttempts (mc_configuration c)
         then upd_consumer lid (set_worker k Awaiting) (park lid d cause b)
         else if Ordering (mc_configuration c) = OrderingUnordered
         then upd_consumer lid (\<lambda>c. set_worker k Awaiting (c\<lparr>mc_timers := mc_timers c @ [d]\<rparr>)) b
         else upd_consumer lid (set_worker k (Sleeping d)) b)
    | _ \<Rightarrow> upd_consumer lid (set_worker k Awaiting) b)"

text \<open>The goroutine of \<open>scheduleRetry\<close> when its backoff elapsed.\<close>

definition retry_due :: "nat \<Rightarrow> 'e memory_consumer \<Rightarrow> 'e memory_consumer" where
  "retry_due i c = enqueue (mc_timers c ! i) (c\<lparr>mc_timers := remove_at i (mc_timers c)\<rparr>)"

definition FindExhausted :: "int \<Rightarrow> ('e, 'h) memory_broker \<Rightarrow> 'e dead_letter list" where
  "FindExhausted limit b =
     (let all = mb_deadLetters b;
          n = (if limit > 0 \<and> limit < int (length all) then nat limit else length all)
      in take n all)"

text \<open>\<open>Resubmit\<close>: its critical section, with the delivery it goes on to enqueue.\<close>

definition Resubmit ::
  "string \<Rightarrow> ('e, 'h) memory_broker \<Rightarrow> (bool \<times> goerror option) \<times> ('e, 'h) memory_broker" where
  "Resubmit reference b =
     (if mb_stopped b then ((False, Some ErrBrokerStopped), b)
      else (case find_index (\<lambda>letter. dl_reference letter = reference) (mb_deadLetters b) of
        None \<Rightarrow> ((False, None), b)
      | Some i \<Rightarrow>
          (let letter = mb_deadLetters b ! i;
               b' = b\<lparr>mb_deadLetters := remove_at i (mb_deadLetters b)\<rparr>
           in if mb_consumers b (dl_listener letter) = None then ((False, None), b')
              else ((True, None), b'\<lparr>mb_pending := mb_pending b' @ [(dl_listener letter,
                     \<lparr>md_event = dl_event letter, md_attempts = 0, md_date = dl_date letter\<rparr>)]\<rparr>))))"

definition arrive :: "nat \<Rightarrow> ('e, 'h) memory_broker \<Rightarrow> ('e, 'h) memory_broker" where
  "arrive i b = (let (lid, d) = mb_pending b ! i
                 in upd_consumer lid (enqueue d) (b\<lparr>mb_pending := remove_at i (mb_pending b)\<rparr>))"

text \<open>\<open>Stop\<close>: the flag, the cancellation of the workers' context, and one \<open>stop\<close> per consumer.\<close>

definition Stop_mark :: "('e, 'h) memory_broker \<Rightarrow> ('e, 'h) memory_broker" where
  "Stop_mark b = b\<lparr>mb_stopped := True\<rparr>"

definition Stop_cancel :: "('e, 'h) memory_broker \<Rightarrow> ('e, 'h) memory_broker" where
  "Stop_cancel b = b\<lparr>mb_cancelled := True\<rparr>"

section \<open>Steps\<close>

text \<open>A label says what a step meant to the deliveries: accepted, completed, dropped because
  the broker stopped, or nothing.\<close>

datatype 'e mb_label =
    LSubscribe "goerror option"
  | LPublish "listener_id list" 'e int
  | LComplete listener_id 'e int
  | LDrop listener_id 'e int
  | LResubmit string bool
  | LInternal

inductive mb_step :: "('e, 'h) memory_broker \<Rightarrow> 'e mb_label \<Rightarrow> ('e, 'h) memory_broker \<Rightarrow> bool" where
  do_subscribe: "Broker_Subscribe r b = (err, b') \<Longrightarrow>
    well_formed_handler (Matches r) (Handle r) \<Longrightarrow> mb_step b (LSubscribe err) b'"
| do_publish: "Broker_Publish e now b = (None, b') \<Longrightarrow>
    mb_step b (LPublish (publish_targets e b) e now) b'"
| do_arrive: "i < length (mb_pending b) \<Longrightarrow> mb_step b LInternal (arrive i b)"
| do_await: "mb_consumers b lid = Some c \<Longrightarrow> k < length (mc_workers c) \<Longrightarrow> mc_workers c ! k = Awaiting \<Longrightarrow>
    mb_step b LInternal (upd_consumer lid (await k) b)"
| do_start: "mb_consumers b lid = Some c \<Longrightarrow> k < length (mc_workers c) \<Longrightarrow> mc_workers c ! k = Popped d \<Longrightarrow>
    mb_step b (if mb_cancelled b then LDrop lid (md_event d) (md_date d) else LInternal)
      (upd_consumer lid (start_processing (mb_cancelled b) k d) b)"
| do_settle: "mb_consumers b lid = Some c \<Longrightarrow> k < length (mc_workers c) \<Longrightarrow> mc_workers c ! k = Running d \<Longrightarrow>
    mb_step b (if err = None then LComplete lid (md_event d) (md_date d) else LInternal)
      (settle_attempt lid k d err b)"
| do_wake: "mb_consumers b lid = Some c \<Longrightarrow> k < length (mc_workers c) \<Longrightarrow> mc_workers c ! k = Sleeping d \<Longrightarrow>
    mb_step b LInternal (upd_consumer lid (set_worker k (Running (next_attempt d))) b)"
| do_interrupt: "mb_consumers b lid = Some c \<Longrightarrow> k < length (mc_workers c) \<Longrightarrow>
    mc_workers c ! k = Sleeping d \<Longrightarrow> mb_cancelled b \<Longrightarrow>
    mb_step b (LDrop lid (md_event d) (md_date d)) (upd_consumer lid (set_worker k Awaiting) b)"
| do_retry: "mb_consumers b lid = Some c \<Longrightarrow> i < length (mc_timers c) \<Longrightarrow>
    mb_step b LInternal (upd_consumer lid (retry_due i) b)"
| do_drop_retry: "mb_consumers b lid = Some c \<Longrightarrow> i < length (mc_timers c) \<Longrightarrow> mb_cancelled b \<Longrightarrow>
    mb_step b (LDrop lid (md_event (mc_timers c ! i)) (md_date (mc_timers c ! i)))
      (upd_consumer lid (\<lambda>c. c\<lparr>mc_timers := remove_at i (mc_timers c)\<rparr>) b)"
| do_resubmit: "Resubmit ref b = ((ok, err), b') \<Longrightarrow> mb_step b (LResubmit ref ok) b'"
| do_stop: "mb_step b LInternal (Stop_mark b)"
| do_cancel: "mb_stopped b \<Longrightarrow> mb_step b LInternal (Stop_cancel b)"
| do_stop_consumer: "mb_cancelled b \<Longrightarrow> mb_step b LInternal (upd_consumer lid stop b)"

inductive mb_run :: "'e mb_label list \<Rightarrow> ('e, 'h) memory_broker \<Rightarrow> bool" where
  run_start: "mb_run [] NewMemoryBroker"
| run_step: "mb_run ls b \<Longrightarrow> mb_step b l b' \<Longrightarrow> mb_run (ls @ [l]) b'"

section \<open>The queue\<close>

lemma enqueue_position_le: "enqueue_position d q n \<le> n"
  by (induction n) auto

lemma enqueue_position_before: "i < enqueue_position d q n \<Longrightarrow> sorted (map md_date (take n q)) \<Longrightarrow>
  n \<le> length q \<Longrightarrow> md_date (q ! i) \<le> md_date d"
proof (induction n)
  case (Suc n)
  show ?case
  proof (cases "md_date d < md_date (q ! n)")
    case True
    have "sorted (map md_date (take n q))"
      using Suc.prems(2,3) by (simp add: take_Suc_conv_app_nth sorted_append)
    with Suc True show ?thesis by simp
  next
    case False
    have "\<forall>x \<in> set (take n q). md_date x \<le> md_date (q ! n)"
      using Suc.prems(2,3) by (simp add: take_Suc_conv_app_nth sorted_append)
    moreover have "i < n \<Longrightarrow> q ! i \<in> set (take n q)"
      using Suc.prems(3) by (auto simp: in_set_conv_nth)
    ultimately show ?thesis
      using False Suc.prems(1) by (cases "i = n") (auto simp: less_Suc_eq)
  qed
qed simp

lemma enqueue_position_after: "enqueue_position d q n \<le> i \<Longrightarrow> i < n \<Longrightarrow> md_date d < md_date (q ! i)"
  by (induction n) (auto split: if_splits simp: less_Suc_eq)

lemma insert_at_sorted:
  assumes "sorted (map md_date q)"
  shows "sorted (map md_date (insert_at (enqueue_position d q (length q)) d q))"
proof -
  let ?n = "enqueue_position d q (length q)"
  have n: "?n \<le> length q" by (rule enqueue_position_le)
  have "md_date x \<le> md_date d" if "x \<in> set (take ?n q)" for x
    using that enqueue_position_before [of _ d q "length q"] assms n by (auto simp: in_set_conv_nth)
  moreover have "md_date d \<le> md_date x" if x: "x \<in> set (drop ?n q)" for x
  proof -
    obtain j where "j < length (drop ?n q)" "x = drop ?n q ! j" using x unfolding in_set_conv_nth by blast
    then show ?thesis using enqueue_position_after [of d q "length q" "?n + j"] n by force
  qed
  moreover have "sorted (map md_date (take ?n q))" "sorted (map md_date (drop ?n q))"
    using assms by (simp_all add: take_map [symmetric] drop_map [symmetric] sorted_wrt_take sorted_wrt_drop)
  moreover have "md_date x \<le> md_date y" if "x \<in> set (take ?n q)" "y \<in> set (drop ?n q)" for x y
    using calculation(1) [OF that(1)] calculation(2) [OF that(2)] by simp
  ultimately show ?thesis by (simp add: insert_at_def sorted_append)
qed

section \<open>The invariant\<close>

definition budget :: "'e memory_consumer \<Rightarrow> int" where
  "budget c = max 1 (MaximumAttempts (mc_configuration c))"

fun worker_ok :: "int \<Rightarrow> 'e worker \<Rightarrow> bool" where
  "worker_ok most (Popped d) = (0 \<le> md_attempts d \<and> md_attempts d < most)"
| "worker_ok most (Running d) = (1 \<le> md_attempts d \<and> md_attempts d \<le> most)"
| "worker_ok most (Sleeping d) = (1 \<le> md_attempts d \<and> md_attempts d < most)"
| "worker_ok most x = True"

definition consumer_ok :: "'e memory_consumer \<Rightarrow> bool" where
  "consumer_ok c \<longleftrightarrow> sorted (map md_date (mc_queue c)) \<and>
     (\<forall>d \<in> set (mc_queue c) \<union> set (mc_timers c). 0 \<le> md_attempts d \<and> md_attempts d < budget c) \<and>
     (\<forall>x \<in> set (mc_workers c). worker_ok (budget c) x) \<and>
     (Ordering (mc_configuration c) \<noteq> OrderingUnordered \<longrightarrow> length (mc_workers c) = 1 \<and> mc_timers c = [])"

definition letter_ok :: "('e, 'h) memory_broker \<Rightarrow> 'e dead_letter \<Rightarrow> bool" where
  "letter_ok b l \<longleftrightarrow> (\<exists>c. mb_consumers b (dl_listener l) = Some c \<and> dl_attempts l = budget c) \<and>
     (\<exists>n \<ge> 1. n \<le> mb_sequence b \<and> dl_reference l = show_nat n)"

definition pending_ok :: "('e, 'h) memory_broker \<Rightarrow> listener_id \<times> 'e memory_delivery \<Rightarrow> bool" where
  "pending_ok b p \<longleftrightarrow> md_attempts (snd p) = 0 \<and> mb_consumers b (fst p) \<noteq> None"

definition subscribed :: "('e, 'h) memory_broker \<Rightarrow> bool" where
  "subscribed b \<longleftrightarrow> (\<forall>lid. mb_consumers b lid \<noteq> None \<longleftrightarrow> lid \<in> set (map sub_id (mb_bus b)))"

definition mb_inv :: "('e, 'h) memory_broker \<Rightarrow> bool" where
  "mb_inv b \<longleftrightarrow> bus_inv (mb_bus b) \<and> subscribed b \<and>
     (\<forall>lid c. mb_consumers b lid = Some c \<longrightarrow> consumer_ok c) \<and>
     (\<forall>p \<in> set (mb_pending b). pending_ok b p) \<and>
     (\<forall>l \<in> set (mb_deadLetters b). letter_ok b l) \<and>
     distinct (map dl_reference (mb_deadLetters b))"

lemma upd_consumer_frame [simp]:
  "mb_bus (upd_consumer lid f b) = mb_bus b" "mb_deadLetters (upd_consumer lid f b) = mb_deadLetters b"
  "mb_sequence (upd_consumer lid f b) = mb_sequence b" "mb_stopped (upd_consumer lid f b) = mb_stopped b"
  "mb_cancelled (upd_consumer lid f b) = mb_cancelled b" "mb_pending (upd_consumer lid f b) = mb_pending b"
  "mb_consumers (upd_consumer lid f b) = (mb_consumers b)(lid := map_option f (mb_consumers b lid))"
  by (simp_all add: upd_consumer_def)

lemma upd_consumer_inv:
  assumes "mb_inv b"
    and "\<And>c. mb_consumers b lid = Some c \<Longrightarrow> consumer_ok (f c) \<and> mc_configuration (f c) = mc_configuration c"
  shows "mb_inv (upd_consumer lid f b)"
proof -
  have "letter_ok (upd_consumer lid f b) l" if "letter_ok b l" for l
    using that assms(2) by (auto simp: letter_ok_def budget_def)
  moreover have "pending_ok (upd_consumer lid f b) p" if "pending_ok b p" for p
    using that by (auto simp: pending_ok_def)
  moreover have "subscribed (upd_consumer lid f b)" if "subscribed b"
    using that by (auto simp: subscribed_def)
  ultimately show ?thesis
    using assms unfolding mb_inv_def by (auto split: if_splits)
qed

lemma set_worker_ok:
  "consumer_ok c \<Longrightarrow> worker_ok (budget c) x \<Longrightarrow> consumer_ok (set_worker k x c)"
  by (auto simp: consumer_ok_def set_worker_def budget_def dest: set_update_subset_insert [THEN subsetD])

lemma set_worker_config [simp]: "mc_configuration (set_worker k x c) = mc_configuration c"
  by (simp add: set_worker_def)

lemma enqueue_ok:
  "consumer_ok c \<Longrightarrow> 0 \<le> md_attempts d \<Longrightarrow> md_attempts d < budget c \<Longrightarrow> consumer_ok (enqueue d c)"
  by (auto simp: consumer_ok_def enqueue_def budget_def insert_at_sorted set_insert_at)

lemma enqueue_config [simp]: "mc_configuration (enqueue d c) = mc_configuration c"
  by (simp add: enqueue_def)

lemma await_ok: "consumer_ok c \<Longrightarrow> consumer_ok (await k c) \<and> mc_configuration (await k c) = mc_configuration c"
proof -
  assume ok: "consumer_ok c"
  have "consumer_ok (c\<lparr>mc_queue := tail\<rparr>)" "0 \<le> md_attempts head" "md_attempts head < budget c"
    if "mc_queue c = head # tail" for head tail
    using ok that by (auto simp: consumer_ok_def budget_def)
  then show ?thesis
    using ok by (auto simp: await_def budget_def intro!: set_worker_ok split: list.split)
qed

lemma remove_timer_ok: "consumer_ok c \<Longrightarrow> consumer_ok (c\<lparr>mc_timers := remove_at i (mc_timers c)\<rparr>)"
  using set_remove_at_subset [of i "mc_timers c"]
  by (auto simp: consumer_ok_def budget_def remove_at_def)

lemma consumer_of: "mb_inv b \<Longrightarrow> mb_consumers b lid = Some c \<Longrightarrow> consumer_ok c"
  by (auto simp: mb_inv_def)

lemma worker_of:
  "consumer_ok c \<Longrightarrow> k < length (mc_workers c) \<Longrightarrow> worker_ok (budget c) (mc_workers c ! k)"
  by (auto simp: consumer_ok_def)

lemma Broker_Subscribe_inv:
  assumes "mb_inv b" "Broker_Subscribe r b = (err, b')" "well_formed_handler (Matches r) (Handle r)"
  shows "mb_inv b'"
proof (cases "err = None")
  case False
  then show ?thesis
    using assms(1,2) by (auto simp: Broker_Subscribe_def Let_def split: if_splits prod.splits option.splits)
next
  case True
  then obtain subs workers where subs: "Bus_Subscribe (ID r) (Matches r) (Handle r) (mb_bus b) = (None, subs)"
    and b': "b' = b\<lparr>mb_bus := subs, mb_consumers := (mb_consumers b)
      (ID r \<mapsto> newMemoryConsumer (Configuration r) workers)\<rparr>"
    and workers: "Ordering (Configuration r) \<noteq> OrderingUnordered \<longrightarrow> workers = 1"
    using assms(2) by (auto simp: Broker_Subscribe_def Let_def split: if_splits prod.splits option.splits)
  have new: "ID r \<notin> set (map sub_id (mb_bus b))" "map sub_id subs = map sub_id (mb_bus b) @ [ID r]"
    using subs by (auto simp: Bus_Subscribe_def list_ex_iff split: if_splits option.splits)
  have "bus_inv subs"
    using Bus_Subscribe_inv [OF _ assms(3), of "mb_bus b" "ID r"] assms(1) subs by (simp add: mb_inv_def)
  moreover have "consumer_ok (newMemoryConsumer (Configuration r) workers)"
    using workers by (auto simp: consumer_ok_def newMemoryConsumer_def)
  moreover have absent: "mb_consumers b (ID r) = None"
    using assms(1) new(1) unfolding mb_inv_def subscribed_def by blast
  moreover have "letter_ok b' l" if "letter_ok b l" for l
    using that absent by (auto simp: letter_ok_def b')
  moreover have "pending_ok b' p" if "pending_ok b p" for p
    using that by (auto simp: pending_ok_def b')
  moreover have "subscribed b'" if "subscribed b"
    using that new(2) by (auto simp: subscribed_def b')
  ultimately show ?thesis
    using assms(1) unfolding mb_inv_def by (auto simp: b' split: if_splits)
qed

text \<open>Steps that leave the bus and the consumers alone.\<close>

lemma mb_inv_frame:
  assumes "mb_inv b" "mb_consumers b' = mb_consumers b" "mb_bus b' = mb_bus b"
    and "mb_sequence b \<le> mb_sequence b'"
    and "\<And>p. p \<in> set (mb_pending b') \<Longrightarrow> p \<in> set (mb_pending b) \<or> pending_ok b p"
    and "\<And>l. l \<in> set (mb_deadLetters b') \<Longrightarrow> l \<in> set (mb_deadLetters b) \<or> letter_ok b' l"
    and "distinct (map dl_reference (mb_deadLetters b'))"
  shows "mb_inv b'"
proof -
  have same: "subscribed b' = subscribed b" "pending_ok b' = pending_ok b"
    using assms(2,3) by (simp_all add: subscribed_def pending_ok_def fun_eq_iff)
  have letter: "letter_ok b' l" if "letter_ok b l" for l
    using that assms(2,4) by (auto simp: letter_ok_def intro: order_trans)
  have "\<forall>p \<in> set (mb_pending b'). pending_ok b' p"
    using assms(1,5) unfolding mb_inv_def same by blast
  moreover have "\<forall>l \<in> set (mb_deadLetters b'). letter_ok b' l"
    using assms(1,6) letter unfolding mb_inv_def by blast
  ultimately show ?thesis using assms(1,2,3,7) unfolding mb_inv_def same by simp
qed

lemma park_inv:
  assumes "mb_inv b" "mb_consumers b lid = Some c" "md_attempts d = budget c"
  shows "mb_inv (park lid d cause b)"
proof (rule mb_inv_frame [OF assms(1)])
  have "show_nat (Suc (mb_sequence b)) \<noteq> dl_reference l" if l: "l \<in> set (mb_deadLetters b)" for l
  proof -
    obtain n where "n \<le> mb_sequence b" "dl_reference l = show_nat n"
      using assms(1) l unfolding mb_inv_def letter_ok_def by blast
    then show ?thesis by simp
  qed
  moreover have "distinct (map dl_reference (mb_deadLetters b))" using assms(1) by (simp add: mb_inv_def)
  ultimately show "distinct (map dl_reference (mb_deadLetters (park lid d cause b)))"
    by (auto simp: park_def)
  show "l \<in> set (mb_deadLetters b) \<or> letter_ok (park lid d cause b) l"
    if "l \<in> set (mb_deadLetters (park lid d cause b))" for l
    using that assms(2,3) by (auto simp: park_def letter_ok_def)
qed (simp_all add: park_def)

lemma settle_attempt_inv:
  assumes "mb_inv b" "mb_consumers b lid = Some c" "k < length (mc_workers c)" "mc_workers c ! k = Running d"
  shows "mb_inv (settle_attempt lid k d err b)"
proof -
  note ok = consumer_of [OF assms(1,2)]
  have att: "1 \<le> md_attempts d" "md_attempts d \<le> budget c"
    using worker_of [OF ok assms(3)] assms(4) by simp_all
  have timers: "consumer_ok (c\<lparr>mc_timers := mc_timers c @ [d]\<rparr>)"
    if "Ordering (mc_configuration c) = OrderingUnordered" "md_attempts d < MaximumAttempts (mc_configuration c)"
    using ok att that by (auto simp: consumer_ok_def budget_def)
  have "mb_inv (upd_consumer lid (set_worker k Awaiting) (park lid d cause b))"
    if "MaximumAttempts (mc_configuration c) \<le> md_attempts d" for cause
  proof (rule upd_consumer_inv [OF park_inv [OF assms(1,2)]])
    show "md_attempts d = budget c" using att that by (auto simp: budget_def)
  qed (use assms(2) ok in \<open>auto simp: park_def intro: set_worker_ok\<close>)
  then show ?thesis
    using assms(1,2) ok att timers unfolding settle_attempt_def
    by (cases err) (auto intro!: upd_consumer_inv set_worker_ok simp: budget_def)
qed

lemma Resubmit_inv:
  assumes "mb_inv b" "Resubmit ref b = ((ok, err), b')"
  shows "mb_inv b'"
proof (cases "mb_stopped b \<or> find_index (\<lambda>letter. dl_reference letter = ref) (mb_deadLetters b) = None")
  case True
  then show ?thesis using assms by (auto simp: Resubmit_def split: if_splits)
next
  case False
  then obtain i where i: "find_index (\<lambda>letter. dl_reference letter = ref) (mb_deadLetters b) = Some i"
    "\<not> mb_stopped b" by auto
  then have len: "i < length (mb_deadLetters b)" by (simp add: find_index_SomeD)
  then obtain c where c: "mb_consumers b (dl_listener (mb_deadLetters b ! i)) = Some c"
    using assms(1) unfolding mb_inv_def letter_ok_def by (metis nth_mem)
  define l where "l = mb_deadLetters b ! i"
  have b': "b' = b\<lparr>mb_deadLetters := remove_at i (mb_deadLetters b),
      mb_pending := mb_pending b @ [(dl_listener l,
        \<lparr>md_event = dl_event l, md_attempts = 0, md_date = dl_date l\<rparr>)]\<rparr>"
    using assms(2) i c by (simp add: Resubmit_def Let_def l_def)
  have "distinct (map dl_reference (remove_at i (mb_deadLetters b)))"
    using distinct_remove_at [of "map dl_reference (mb_deadLetters b)" i] assms(1)
    by (simp add: mb_inv_def remove_at_def take_map drop_map)
  then show ?thesis
    using c set_remove_at_subset [of i "mb_deadLetters b"]
    by (intro mb_inv_frame [OF assms(1)]) (auto simp: b' pending_ok_def l_def)
qed

lemma arrive_inv:
  assumes "mb_inv b" "i < length (mb_pending b)"
  shows "mb_inv (arrive i b)"
proof -
  obtain lid d where p: "mb_pending b ! i = (lid, d)" by fastforce
  then have "pending_ok b (lid, d)" using assms unfolding mb_inv_def by (metis nth_mem)
  then have d: "md_attempts d = 0" by (simp add: pending_ok_def)
  have "distinct (map dl_reference (mb_deadLetters b))" using assms(1) by (simp add: mb_inv_def)
  then have "mb_inv (b\<lparr>mb_pending := remove_at i (mb_pending b)\<rparr>)"
    using set_remove_at_subset [of i "mb_pending b"]
    by (intro mb_inv_frame [OF assms(1)]) auto
  then show ?thesis
    using assms(1) d unfolding arrive_def p Let_def prod.case
    by (intro upd_consumer_inv) (auto intro!: enqueue_ok dest: consumer_of simp: budget_def)
qed

lemma Broker_Publish_inv:
  assumes "mb_inv b" "Broker_Publish e now b = (err, b')"
  shows "mb_inv b'"
proof -
  have "distinct (map dl_reference (mb_deadLetters b))" using assms(1) by (simp add: mb_inv_def)
  then show ?thesis
    using assms(2) by (intro mb_inv_frame [OF assms(1)])
      (auto simp: Broker_Publish_def pending_ok_def publish_targets_def split: if_splits)
qed

lemma flags_inv:
  assumes "mb_inv b"
  shows "mb_inv (Stop_mark b)" "mb_inv (Stop_cancel b)"
proof -
  have "distinct (map dl_reference (mb_deadLetters b))" using assms(1) by (simp add: mb_inv_def)
  then show "mb_inv (Stop_mark b)" "mb_inv (Stop_cancel b)"
    by (auto intro!: mb_inv_frame [OF assms] simp: Stop_mark_def Stop_cancel_def)
qed

lemma stop_ok: "consumer_ok c \<Longrightarrow> consumer_ok (stop c) \<and> mc_configuration (stop c) = mc_configuration c"
  by (simp add: consumer_ok_def stop_def budget_def)

lemma mb_step_inv: "mb_step b l b' \<Longrightarrow> mb_inv b \<Longrightarrow> mb_inv b'"
proof (induction rule: mb_step.induct)
  case (do_subscribe r b err b')
  then show ?case using Broker_Subscribe_inv by blast
next
  case (do_publish e now b b')
  show ?case by (rule Broker_Publish_inv [OF do_publish(2,1)])
next
  case (do_arrive i b)
  then show ?case using arrive_inv by blast
next
  case (do_await b lid c k)
  then show ?case by (intro upd_consumer_inv) (auto dest: consumer_of await_ok)
next
  case (do_start b lid c k d)
  then have "worker_ok (budget c) (if mb_cancelled b then Exited else Running (next_attempt d))"
    using worker_of [OF consumer_of, of b lid c k] by (auto simp: next_attempt_def)
  with do_start show ?case
    by (intro upd_consumer_inv) (auto simp: start_processing_def intro!: set_worker_ok dest: consumer_of)
next
  case (do_settle b lid c k d err)
  then show ?case using settle_attempt_inv by blast
next
  case (do_wake b lid c k d)
  then have "worker_ok (budget c) (Running (next_attempt d))"
    using worker_of [OF consumer_of, of b lid c k] by (auto simp: next_attempt_def)
  with do_wake show ?case by (intro upd_consumer_inv) (auto intro!: set_worker_ok dest: consumer_of)
next
  case (do_interrupt b lid c k d)
  then show ?case by (intro upd_consumer_inv) (auto intro!: set_worker_ok dest: consumer_of)
next
  case (do_retry b lid c i)
  then have ok: "consumer_ok c" by (auto dest: consumer_of)
  then have "0 \<le> md_attempts (mc_timers c ! i) \<and> md_attempts (mc_timers c ! i) < budget c"
    using do_retry(2) by (auto simp: consumer_ok_def)
  with do_retry ok show ?case
    by (intro upd_consumer_inv)
       (auto simp: retry_due_def budget_def intro!: enqueue_ok remove_timer_ok)
next
  case (do_drop_retry b lid c i)
  then show ?case by (intro upd_consumer_inv) (auto intro!: remove_timer_ok dest: consumer_of)
next
  case (do_resubmit ref b ok err b')
  then show ?case using Resubmit_inv by blast
next
  case (do_stop b)
  then show ?case by (rule flags_inv)
next
  case (do_cancel b)
  then show ?case by (blast intro: flags_inv)
next
  case (do_stop_consumer b lid)
  then show ?case by (intro upd_consumer_inv) (auto dest: consumer_of stop_ok)
qed

lemma mb_run_inv: "mb_run ls b \<Longrightarrow> mb_inv b"
proof (induction rule: mb_run.induct)
  case run_start
  then show ?case
    by (simp add: mb_inv_def NewMemoryBroker_def NewBus_inv subscribed_def) (simp add: NewBus_def)
next
  case (run_step ls b l b')
  then show ?case using mb_step_inv by blast
qed

section \<open>Conservation of deliveries\<close>

text \<open>Where a delivery can be: in a queue, in a worker, in a retry goroutine, on its way to a
  queue, or parked. It is identified by its event and publication date.\<close>

definition key :: "'e memory_delivery \<Rightarrow> 'e \<times> int" where
  "key d = (md_event d, md_date d)"

fun held :: "'e worker \<Rightarrow> 'e memory_delivery list" where
  "held (Popped d) = [d]"
| "held (Running d) = [d]"
| "held (Sleeping d) = [d]"
| "held x = []"

definition held_all :: "'e worker list \<Rightarrow> ('e \<times> int) multiset" where
  "held_all ws = image_mset key (mset (concat (map held ws)))"

definition load :: "'e memory_consumer \<Rightarrow> ('e \<times> int) multiset" where
  "load c = image_mset key (mset (mc_queue c)) + held_all (mc_workers c) + image_mset key (mset (mc_timers c))"

definition load_of :: "listener_id \<Rightarrow> ('e, 'h) memory_broker \<Rightarrow> ('e \<times> int) multiset" where
  "load_of lid b = (case mb_consumers b lid of None \<Rightarrow> {#} | Some c \<Rightarrow> load c)"

definition waiting :: "listener_id \<Rightarrow> ('e, 'h) memory_broker \<Rightarrow> ('e \<times> int) multiset" where
  "waiting lid b = image_mset (key \<circ> snd) (filter_mset (\<lambda>p. fst p = lid) (mset (mb_pending b)))"

definition parked :: "listener_id \<Rightarrow> ('e, 'h) memory_broker \<Rightarrow> ('e \<times> int) multiset" where
  "parked lid b = image_mset (\<lambda>l. (dl_event l, dl_date l))
     (filter_mset (\<lambda>l. dl_listener l = lid) (mset (mb_deadLetters b)))"

definition outstanding :: "listener_id \<Rightarrow> ('e, 'h) memory_broker \<Rightarrow> ('e \<times> int) multiset" where
  "outstanding lid b = load_of lid b + waiting lid b + parked lid b"

fun accepted :: "listener_id \<Rightarrow> 'e mb_label \<Rightarrow> ('e \<times> int) multiset" where
  "accepted lid (LPublish targets e now) = (if lid \<in> set targets then {#(e, now)#} else {#})"
| "accepted lid l = {#}"

fun completed_by :: "listener_id \<Rightarrow> 'e mb_label \<Rightarrow> ('e \<times> int) multiset" where
  "completed_by lid (LComplete lid' e now) = (if lid' = lid then {#(e, now)#} else {#})"
| "completed_by lid l = {#}"

fun dropped_by :: "listener_id \<Rightarrow> 'e mb_label \<Rightarrow> ('e \<times> int) multiset" where
  "dropped_by lid (LDrop lid' e now) = (if lid' = lid then {#(e, now)#} else {#})"
| "dropped_by lid l = {#}"

definition total :: "(listener_id \<Rightarrow> 'e mb_label \<Rightarrow> ('e \<times> int) multiset) \<Rightarrow> listener_id \<Rightarrow>
   'e mb_label list \<Rightarrow> ('e \<times> int) multiset" where
  "total f lid ls = sum_list (map (f lid) ls)"

lemma total_snoc [simp]: "total f lid (ls @ [l]) = total f lid ls + f lid l"
  by (simp add: total_def)

lemma total_Nil [simp]: "total f lid [] = {#}"
  by (simp add: total_def)

lemma held_all_update:
  "k < length ws \<Longrightarrow> held_all (ws[k := x]) + image_mset key (mset (held (ws ! k))) =
     held_all ws + image_mset key (mset (held x))"
  using mset_concat_update [of k ws held x] unfolding held_all_def
  by (metis image_mset_union)

lemma load_set_worker:
  "k < length (mc_workers c) \<Longrightarrow>
   load (set_worker k x c) + image_mset key (mset (held (mc_workers c ! k))) =
   load c + image_mset key (mset (held x))"
  using held_all_update [of k "mc_workers c" x] by (simp add: load_def set_worker_def add_ac)

lemma load_enqueue: "load (enqueue d c) = add_mset (key d) (load c)"
  by (simp add: load_def enqueue_def mset_insert_at)

lemma load_remove_timer:
  assumes "i < length (mc_timers c)"
  shows "load c = add_mset (key (mc_timers c ! i)) (load (c\<lparr>mc_timers := remove_at i (mc_timers c)\<rparr>))"
proof -
  have "mset (mc_timers c) = add_mset (mc_timers c ! i) (mset (remove_at i (mc_timers c)))"
    using mset_remove_at [OF assms] by simp
  then show ?thesis by (simp add: load_def)
qed

lemma load_of_upd:
  "mb_consumers b lid = Some c \<Longrightarrow> load_of lid' (upd_consumer lid f b) =
     (if lid' = lid then load (f c) else load_of lid' b)"
  by (simp add: load_of_def)

lemma outstanding_upd:
  assumes "mb_consumers b lid = Some c"
  shows "outstanding lid' (upd_consumer lid f b) + (if lid' = lid then load c else {#}) =
    outstanding lid' b + (if lid' = lid then load (f c) else {#})"
  using assms by (simp add: outstanding_def load_of_upd waiting_def parked_def load_of_def)

lemma mset_exchange:
  assumes "a + (if P then l else {#}) = b + (if P then l' else {#})" "l' + h = l + (x :: 'a multiset)"
  shows "a + (if P then h else {#}) = b + (if P then x else {#})"
proof (cases P)
  case True
  then have eq: "a + l = b + l'" using assms(1) by simp
  have "a + h + l = (a + l) + h" by (simp only: add_ac)
  also have "\<dots> = b + (l' + h)" by (simp only: eq add_ac)
  also have "\<dots> = b + (l + x)" by (simp only: assms(2))
  also have "\<dots> = b + x + l" by (simp only: add_ac)
  finally show ?thesis using True by simp
qed (use assms in simp)

lemma outstanding_worker:
  assumes "mb_consumers b lid = Some c" "k < length (mc_workers c)"
  shows "outstanding lid' (upd_consumer lid (set_worker k x) b) +
      (if lid' = lid then image_mset key (mset (held (mc_workers c ! k))) else {#}) =
    outstanding lid' b + (if lid' = lid then image_mset key (mset (held x)) else {#})"
  by (rule mset_exchange [OF outstanding_upd [OF assms(1), of lid' "set_worker k x"]
        load_set_worker [OF assms(2), of x]])

lemma ListenersFor_distinct: "bus_inv subs \<Longrightarrow> distinct (ListenersFor event subs)"
  by (auto simp: ListenersFor_def bus_inv_def distinct_map_filter)

lemma one_target:
  "distinct ts \<Longrightarrow> filter_mset (\<lambda>p. fst p = lid) (mset (map (\<lambda>t. (t, d)) ts)) =
     (if lid \<in> set ts then {#(lid, d)#} else {#})"
  by (induction ts) auto

lemma outstanding_frame:
  "mb_consumers b' = mb_consumers b \<Longrightarrow> mb_pending b' = mb_pending b \<Longrightarrow>
   mb_deadLetters b' = mb_deadLetters b \<Longrightarrow> outstanding lid b' = outstanding lid b"
  by (simp add: outstanding_def load_of_def waiting_def parked_def)

lemma load_new [simp]: "load (newMemoryConsumer config workers) = {#}"
  by (induction workers) (simp_all add: load_def newMemoryConsumer_def held_all_def)

lemma conserve_subscribe:
  assumes "Broker_Subscribe r b = (err, b')" "mb_inv b"
  shows "outstanding lid b' = outstanding lid b"
proof (cases "err = None")
  case False
  then show ?thesis
    using assms(1) by (auto simp: Broker_Subscribe_def Let_def split: if_splits prod.splits option.splits)
next
  case True
  then obtain subs workers where subs: "Bus_Subscribe (ID r) (Matches r) (Handle r) (mb_bus b) = (None, subs)"
    and b': "b' = b\<lparr>mb_bus := subs, mb_consumers := (mb_consumers b)
      (ID r \<mapsto> newMemoryConsumer (Configuration r) workers)\<rparr>"
    using assms(1) by (auto simp: Broker_Subscribe_def Let_def split: if_splits prod.splits option.splits)
  have "ID r \<notin> set (map sub_id (mb_bus b))"
    using subs by (auto simp: Bus_Subscribe_def list_ex_iff split: if_splits option.splits)
  then have "mb_consumers b (ID r) = None"
    using assms(2) unfolding mb_inv_def subscribed_def by blast
  then show ?thesis
    by (simp add: outstanding_def load_of_def waiting_def parked_def b')
qed

lemma conserve_publish:
  assumes "Broker_Publish e now b = (None, b')" "mb_inv b"
  shows "outstanding lid b' = outstanding lid b + accepted lid (LPublish (publish_targets e b) e now)"
proof -
  have "distinct (publish_targets e b)"
    using assms(2) ListenersFor_distinct [of "mb_bus b" e] by (simp add: publish_targets_def mb_inv_def)
  from one_target [OF this, of lid "\<lparr>md_event = e, md_attempts = 0, md_date = now\<rparr>"] assms(1)
  show ?thesis
    by (auto simp: Broker_Publish_def outstanding_def load_of_def waiting_def parked_def key_def
        split: if_splits)
qed

lemma conserve_arrive:
  assumes "i < length (mb_pending b)" "mb_inv b"
  shows "outstanding lid (arrive i b) = outstanding lid b"
proof -
  obtain lid' d where p: "mb_pending b ! i = (lid', d)" by fastforce
  have "pending_ok b (lid', d)" using assms p unfolding mb_inv_def by (metis nth_mem)
  then obtain c where c: "mb_consumers b lid' = Some c" by (auto simp: pending_ok_def)
  have "mset (mb_pending b) = add_mset (lid', d) (mset (remove_at i (mb_pending b)))"
    using mset_remove_at [OF assms(1)] p by simp
  then show ?thesis
    using c by (auto simp: arrive_def p outstanding_def load_of_def waiting_def parked_def load_enqueue)
qed

lemma conserve_settle:
  assumes "mb_consumers b lid = Some c" "k < length (mc_workers c)" "mc_workers c ! k = Running d"
  shows "outstanding lid' (settle_attempt lid k d err b) +
    (if err = None \<and> lid' = lid then {#key d#} else {#}) = outstanding lid' b"
proof (cases err)
  case None
  then show ?thesis
    using outstanding_worker [OF assms(1,2), of lid' Awaiting] assms(3)
    by (auto simp: settle_attempt_def split: if_splits)
next
  case (Some cause)
  consider (park) "md_attempts d \<ge> MaximumAttempts (mc_configuration c)"
    | (retry) "md_attempts d < MaximumAttempts (mc_configuration c)"
        "Ordering (mc_configuration c) = OrderingUnordered"
    | (sleep) "md_attempts d < MaximumAttempts (mc_configuration c)"
        "Ordering (mc_configuration c) \<noteq> OrderingUnordered" by linarith
  then show ?thesis
  proof cases
    case park
    have "outstanding lid' (park lid d cause b) =
        outstanding lid' b + (if lid' = lid then {#key d#} else {#})"
      by (simp add: outstanding_def load_of_def waiting_def parked_def park_def key_def)
    moreover have "mb_consumers (park lid d cause b) lid = Some c" using assms(1) by (simp add: park_def)
    ultimately show ?thesis
      using outstanding_worker [of "park lid d cause b" lid c k lid' Awaiting] assms park Some
      by (simp add: settle_attempt_def split: if_splits)
  next
    case retry
    let ?f = "\<lambda>c. set_worker k Awaiting (c\<lparr>mc_timers := mc_timers c @ [d]\<rparr>)"
    have "load (?f c) = load c"
      using load_set_worker [of k "c\<lparr>mc_timers := mc_timers c @ [d]\<rparr>" Awaiting] assms(2,3)
      by (simp add: load_def)
    then show ?thesis
      using outstanding_upd [OF assms(1), of lid' ?f] retry Some assms(1) by (simp add: settle_attempt_def split: if_splits)
  next
    case sleep
    then show ?thesis
      using outstanding_worker [OF assms(1,2), of lid' "Sleeping d"] assms Some
      by (simp add: settle_attempt_def split: if_splits)
  qed
qed

lemma conserve_resubmit:
  assumes "Resubmit ref b = ((ok, err), b')" "mb_inv b"
  shows "outstanding lid b' = outstanding lid b"
proof (cases "mb_stopped b \<or> find_index (\<lambda>letter. dl_reference letter = ref) (mb_deadLetters b) = None")
  case True
  then show ?thesis using assms by (auto simp: Resubmit_def split: if_splits)
next
  case False
  then obtain i where i: "find_index (\<lambda>letter. dl_reference letter = ref) (mb_deadLetters b) = Some i"
    "\<not> mb_stopped b" by auto
  then have len: "i < length (mb_deadLetters b)" by (simp add: find_index_SomeD)
  then obtain c where c: "mb_consumers b (dl_listener (mb_deadLetters b ! i)) = Some c"
    using assms(2) unfolding mb_inv_def letter_ok_def by (metis nth_mem)
  have "mset (mb_deadLetters b) = add_mset (mb_deadLetters b ! i) (mset (remove_at i (mb_deadLetters b)))"
    using mset_remove_at [OF len] by simp
  then show ?thesis
    using assms(1) i c
    by (auto simp: Resubmit_def Let_def outstanding_def load_of_def waiting_def parked_def key_def)
qed

lemma start_processing_eta:
  "start_processing cancelled k d = set_worker k (if cancelled then Exited else Running (next_attempt d))"
  by (rule ext) (simp add: start_processing_def)

lemma mb_step_conserves:
  "mb_step b l b' \<Longrightarrow> mb_inv b \<Longrightarrow>
   outstanding lid b + accepted lid l = outstanding lid b' + completed_by lid l + dropped_by lid l"
proof (induction rule: mb_step.induct)
  case (do_subscribe r b err b')
  then show ?case using conserve_subscribe [OF do_subscribe(1)] by simp
next
  case (do_publish e now b b')
  then show ?case using conserve_publish [OF do_publish] by simp
next
  case (do_arrive i b)
  then show ?case using conserve_arrive [OF do_arrive] by simp
next
  case (do_await b lid' c k)
  have "load (await k c) = load c"
  proof (cases "mc_queue c")
    case (Cons head tail)
    have "load c = add_mset (key head) (load (c\<lparr>mc_queue := tail\<rparr>))" using Cons by (simp add: load_def)
    moreover have "load (set_worker k (Popped head) (c\<lparr>mc_queue := tail\<rparr>)) =
        load (c\<lparr>mc_queue := tail\<rparr>) + {#key head#}"
      using load_set_worker [of k "c\<lparr>mc_queue := tail\<rparr>" "Popped head"] do_await(2,3) by simp
    ultimately show ?thesis
      using load_set_worker [of k c Exited] do_await(2,3) Cons by (simp add: await_def)
  qed (use load_set_worker [of k c Exited] do_await(2,3) in \<open>simp add: await_def\<close>)
  then show ?case using outstanding_upd [OF do_await(1), of lid "await k"] by (simp split: if_splits)
next
  case (do_start b lid' c k d)
  then show ?case
    using outstanding_worker [OF do_start(1,2), of lid "if mb_cancelled b then Exited else Running (next_attempt d)"]
    by (auto simp: start_processing_eta key_def next_attempt_def split: if_splits)
next
  case (do_settle b lid' c k d err)
  then show ?case using conserve_settle [OF do_settle(1-3), of lid err] by (auto simp: key_def)
next
  case (do_wake b lid' c k d)
  then show ?case
    using outstanding_worker [OF do_wake(1,2), of lid "Running (next_attempt d)"]
    by (auto simp: key_def next_attempt_def split: if_splits)
next
  case (do_interrupt b lid' c k d)
  then show ?case
    using outstanding_worker [OF do_interrupt(1,2), of lid Awaiting] by (auto simp: key_def split: if_splits)
next
  case (do_retry b lid' c i)
  have "load (retry_due i c) = load c"
    using load_remove_timer [OF do_retry(2)] by (simp add: retry_due_def load_enqueue)
  then show ?case using outstanding_upd [OF do_retry(1), of lid "retry_due i"] by (simp split: if_splits)
next
  case (do_drop_retry b lid' c i)
  then show ?case
    using outstanding_upd [OF do_drop_retry(1), of lid "\<lambda>c. c\<lparr>mc_timers := remove_at i (mc_timers c)\<rparr>"]
      load_remove_timer [OF do_drop_retry(2)] by (auto simp: key_def split: if_splits)
next
  case (do_resubmit ref b ok err b')
  then show ?case using conserve_resubmit [OF do_resubmit(1)] by simp
next
  case (do_stop b)
  have "outstanding lid (Stop_mark b) = outstanding lid b" by (rule outstanding_frame) (simp_all add: Stop_mark_def)
  then show ?case by simp
next
  case (do_cancel b)
  have "outstanding lid (Stop_cancel b) = outstanding lid b" by (rule outstanding_frame) (simp_all add: Stop_cancel_def)
  then show ?case by simp
next
  case (do_stop_consumer b lid')
  show ?case
  proof (cases "mb_consumers b lid'")
    case None
    then show ?thesis by (simp add: outstanding_def load_of_def waiting_def parked_def)
  next
    case (Some c)
    then show ?thesis
      using outstanding_upd [OF Some, of lid stop] by (simp add: load_def stop_def split: if_splits)
  qed
qed

lemma mb_step_flags:
  "mb_step b l b' \<Longrightarrow> (mb_cancelled b \<longrightarrow> mb_cancelled b') \<and> (mb_cancelled b' \<longrightarrow> mb_cancelled b \<or> mb_stopped b) \<and>
     (mb_stopped b \<longrightarrow> mb_stopped b') \<and> (dropped_by lid l \<noteq> {#} \<longrightarrow> mb_cancelled b)"
  by (induction rule: mb_step.induct)
     (auto simp: Broker_Subscribe_def Broker_Publish_def arrive_def settle_attempt_def park_def Resubmit_def
        Stop_mark_def Stop_cancel_def Let_def split: if_splits option.splits prod.splits)

section \<open>Properties\<close>

lemma mb_run_conserves:
  "mb_run ls b \<Longrightarrow> total accepted lid ls = outstanding lid b + total completed_by lid ls + total dropped_by lid ls \<and>
     (total dropped_by lid ls \<noteq> {#} \<longrightarrow> mb_cancelled b) \<and> (mb_cancelled b \<longrightarrow> mb_stopped b)"
proof (induction rule: mb_run.induct)
  case run_start
  then show ?case
    by (simp add: NewMemoryBroker_def outstanding_def load_of_def waiting_def parked_def)
next
  case (run_step ls b l b')
  have "outstanding lid b + accepted lid l = outstanding lid b' + completed_by lid l + dropped_by lid l"
    by (rule mb_step_conserves [OF run_step(2) mb_run_inv [OF run_step(1)]])
  moreover have "total accepted lid (ls @ [l]) =
      (outstanding lid b + accepted lid l) + total completed_by lid ls + total dropped_by lid ls"
    using run_step(3) by (simp add: add_ac)
  ultimately have "total accepted lid (ls @ [l]) =
      outstanding lid b' + total completed_by lid (ls @ [l]) + total dropped_by lid (ls @ [l])"
    by (simp add: add_ac)
  then show ?case using mb_step_flags [OF run_step(2), of lid] run_step(3) by auto
qed

definition demo_broker :: "nat \<Rightarrow> (nat, string) memory_broker" where
  "demo_broker n = (let b1 = snd (Broker_Subscribe (Consume (\<lambda>e. e = 1) 0 ''c'' ''h'' [WithMaximumAttempts 1]) NewMemoryBroker);
     b2 = snd (Broker_Publish 1 7 b1); b3 = arrive 0 b2; b4 = upd_consumer ''c'' (await 0) b3;
     d = \<lparr>md_event = 1, md_attempts = 0, md_date = 7\<rparr>;
     b5 = upd_consumer ''c'' (start_processing False 0 d) b4
   in [NewMemoryBroker, b1, b2, b3, b4, b5, settle_attempt ''c'' 0 (next_attempt d) None b5,
       settle_attempt ''c'' 0 (next_attempt d) (Some (Leaf ''failure'')) b5] ! n)"

lemmas demo_broker_simps =
  demo_broker_def Let_def Broker_Subscribe_def Consume_def DefaultConsumerConfiguration_def
  OrderingFIFO_def OrderingUnordered_def Bus_Subscribe_def NewMemoryBroker_def NewBus_def
  newMemoryConsumer_def Broker_Publish_def publish_targets_def ListenersFor_def arrive_def upd_consumer_def
  enqueue_def insert_at_def remove_at_def await_def set_worker_def start_processing_def next_attempt_def
  settle_attempt_def park_def WithMaximumAttempts_def

lemma demo_run:
  "mb_run [LSubscribe None, LPublish [''c''] 1 7, LInternal, LInternal, LInternal, LComplete ''c'' 1 7]
     (demo_broker 6)"
  and demo_run_parked:
  "mb_run [LSubscribe None, LPublish [''c''] 1 7, LInternal, LInternal, LInternal, LInternal] (demo_broker 7)"
proof -
  have s1: "mb_step (demo_broker 0) (LSubscribe None) (demo_broker 1)"
    by (rule do_subscribe [of "Consume (\<lambda>e. e = 1) 0 ''c'' ''h'' [WithMaximumAttempts 1]"])
       (simp_all add: demo_broker_simps well_formed_handler_def)
  have "mb_step (demo_broker 1) (LPublish (publish_targets 1 (demo_broker 1)) 1 7) (demo_broker 2)"
    by (rule do_publish) (simp add: demo_broker_simps)
  moreover have "publish_targets 1 (demo_broker 1) = [''c'']" by (simp add: demo_broker_simps)
  ultimately have s2: "mb_step (demo_broker 1) (LPublish [''c''] 1 7) (demo_broker 2)" by simp
  have "mb_step (demo_broker 2) LInternal (arrive 0 (demo_broker 2))"
    by (rule do_arrive) (simp add: demo_broker_simps)
  moreover have "arrive 0 (demo_broker 2) = demo_broker 3" by (simp add: demo_broker_def Let_def)
  ultimately have s3: "mb_step (demo_broker 2) LInternal (demo_broker 3)" by simp
  have "\<exists>c. mb_consumers (demo_broker 3) ''c'' = Some c \<and> 0 < length (mc_workers c) \<and> mc_workers c ! 0 = Awaiting"
    by (simp add: demo_broker_simps)
  then have "mb_step (demo_broker 3) LInternal (upd_consumer ''c'' (await 0) (demo_broker 3))"
    by (elim exE conjE) (rule do_await)
  moreover have "upd_consumer ''c'' (await 0) (demo_broker 3) = demo_broker 4"
    by (simp add: demo_broker_def Let_def)
  ultimately have s4: "mb_step (demo_broker 3) LInternal (demo_broker 4)" by simp
  let ?d = "\<lparr>md_event = 1 :: nat, md_attempts = 0, md_date = 7\<rparr>"
  have "\<exists>c. mb_consumers (demo_broker 4) ''c'' = Some c \<and> 0 < length (mc_workers c) \<and> mc_workers c ! 0 = Popped ?d"
    by (simp add: demo_broker_simps)
  then have "mb_step (demo_broker 4)
      (if mb_cancelled (demo_broker 4) then LDrop ''c'' (md_event ?d) (md_date ?d) else LInternal)
      (upd_consumer ''c'' (start_processing (mb_cancelled (demo_broker 4)) 0 ?d) (demo_broker 4))"
    by (elim exE conjE) (rule do_start)
  moreover have "\<not> mb_cancelled (demo_broker 4)" by (simp add: demo_broker_simps)
  moreover have "upd_consumer ''c'' (start_processing False 0 ?d) (demo_broker 4) = demo_broker 5"
    by (simp add: demo_broker_def Let_def)
  ultimately have s5: "mb_step (demo_broker 4) LInternal (demo_broker 5)" by simp
  let ?r = "next_attempt ?d"
  have "\<exists>c. mb_consumers (demo_broker 5) ''c'' = Some c \<and> 0 < length (mc_workers c) \<and> mc_workers c ! 0 = Running ?r"
    by (simp add: demo_broker_simps)
  then have settle: "mb_step (demo_broker 5) (if err = None
      then LComplete ''c'' (md_event ?r) (md_date ?r) else LInternal)
      (settle_attempt ''c'' 0 ?r err (demo_broker 5))" for err
    by (elim exE conjE) (rule do_settle)
  have "settle_attempt ''c'' 0 ?r None (demo_broker 5) = demo_broker 6"
    "settle_attempt ''c'' 0 ?r (Some (Leaf ''failure'')) (demo_broker 5) = demo_broker 7"
    by (simp_all add: demo_broker_def Let_def)
  then have s6: "mb_step (demo_broker 5) (LComplete ''c'' 1 7) (demo_broker 6)"
    and s7: "mb_step (demo_broker 5) LInternal (demo_broker 7)"
    using settle [of None] settle [of "Some (Leaf ''failure'')"] by (simp_all add: next_attempt_def)
  have "demo_broker 0 = NewMemoryBroker" by (simp add: demo_broker_def Let_def)
  then have "mb_run [] (demo_broker 0)" by (simp add: run_start)
  note five = run_step [OF run_step [OF run_step [OF run_step [OF run_step [OF this s1] s2] s3] s4] s5]
  show "mb_run [LSubscribe None, LPublish [''c''] 1 7, LInternal, LInternal, LInternal, LComplete ''c'' 1 7]
     (demo_broker 6)"
    using run_step [OF five s6] by simp
  show "mb_run [LSubscribe None, LPublish [''c''] 1 7, LInternal, LInternal, LInternal, LInternal] (demo_broker 7)"
    using run_step [OF five s7] by simp
qed

text \<open>C17: the memory broker neither loses nor duplicates a delivery. In every interleaving, for
  every consumer, the deliveries accepted by \<open>Publish\<close> are exactly those still outstanding
  (queued, in a worker, waiting for a retry, on their way to the queue, or parked as dead
  letters), plus those completed, plus those dropped; and nothing is dropped before \<open>Stop\<close>.\<close>

theorem memory_broker_accounts_for_every_delivery:
  assumes "mb_run ls b"
  shows "total accepted lid ls = outstanding lid b + total completed_by lid ls + total dropped_by lid ls \<and>
    (\<not> mb_stopped b \<longrightarrow> total dropped_by lid ls = {#})"
  using mb_run_conserves [OF assms, of lid] by auto

theorem memory_broker_accounts_for_every_delivery_witness:
  "\<exists>ls b. mb_run ls (b :: (nat, string) memory_broker) \<and> total completed_by ''c'' ls = {#(1, 7)#} \<and>
    total accepted ''c'' ls = outstanding ''c'' b + total completed_by ''c'' ls + total dropped_by ''c'' ls"
  using memory_broker_accounts_for_every_delivery [OF demo_run, of "''c''"] demo_run
  by (force simp: total_def)

text \<open>C18: a FIFO consumer handles one event at a time and in publication order: it has exactly
  one worker and no retry goroutine, so a delivery that runs or sleeps keeps its successors
  in the queue, and the queue is sorted by publication date, resubmitted events included.\<close>

theorem FIFO_consumers_are_sequential_and_ordered:
  assumes "mb_run ls b" "mb_consumers b lid = Some c"
    and "Ordering (mc_configuration c) \<noteq> OrderingUnordered"
  shows "(\<exists>x. mc_workers c = [x]) \<and> mc_timers c = [] \<and> sorted (map md_date (mc_queue c))"
  using consumer_of [OF mb_run_inv [OF assms(1)] assms(2)] assms(3)
  by (auto simp: consumer_ok_def length_Suc_conv)

theorem FIFO_consumers_are_sequential_and_ordered_witness:
  "\<exists>c. mb_consumers (demo_broker 6) ''c'' = Some c \<and> (\<exists>x. mc_workers c = [x]) \<and>
     sorted (map md_date (mc_queue c))"
proof -
  have "\<exists>c. mb_consumers (demo_broker 6) ''c'' = Some c \<and> Ordering (mc_configuration c) \<noteq> OrderingUnordered"
    by (simp add: demo_broker_simps)
  then obtain c where c: "mb_consumers (demo_broker 6) ''c'' = Some c"
    "Ordering (mc_configuration c) \<noteq> OrderingUnordered" by blast
  with FIFO_consumers_are_sequential_and_ordered [OF demo_run c] show ?thesis by blast
qed

text \<open>C19: a dead letter is evidence of a spent budget: every one found consumed exactly its
  consumer's maximum attempts (at least one), and no two share a reference.\<close>

theorem dead_letters_spent_exactly_their_budget:
  assumes "mb_run ls b"
  shows "(\<forall>l \<in> set (FindExhausted limit b). \<exists>c. mb_consumers b (dl_listener l) = Some c \<and>
      dl_attempts l = max 1 (MaximumAttempts (mc_configuration c))) \<and>
    distinct (map dl_reference (FindExhausted limit b))"
proof -
  have inv: "mb_inv b" by (rule mb_run_inv [OF assms])
  have "set (FindExhausted limit b) \<subseteq> set (mb_deadLetters b)"
    by (auto simp: FindExhausted_def Let_def dest: in_set_takeD)
  moreover have "\<exists>c. mb_consumers b (dl_listener l) = Some c \<and>
      dl_attempts l = max 1 (MaximumAttempts (mc_configuration c))" if "l \<in> set (mb_deadLetters b)" for l
    using inv that unfolding mb_inv_def letter_ok_def budget_def by blast
  moreover have "distinct (map dl_reference (FindExhausted limit b))"
    using inv unfolding mb_inv_def FindExhausted_def Let_def take_map [symmetric] by simp
  ultimately show ?thesis by blast
qed

theorem dead_letters_spent_exactly_their_budget_witness:
  "map dl_attempts (FindExhausted 10 (demo_broker 7)) = [1] \<and>
   distinct (map dl_reference (FindExhausted 10 (demo_broker 7)))"
  using dead_letters_spent_exactly_their_budget [OF demo_run_parked, of 10]
  by (simp add: FindExhausted_def Let_def) (simp add: demo_broker_simps)

text \<open>C8: a dead letter is revived once, with a fresh budget: on a running broker \<open>Resubmit\<close> of
  any parked reference succeeds, takes the letter out and hands its consumer the same event
  with its original publication date and no attempts spent; the same reference is unknown
  afterwards.\<close>

theorem Resubmit_revives_a_dead_letter_once:
  assumes "mb_run ls b" "\<not> mb_stopped b" "l \<in> set (mb_deadLetters b)"
  shows "\<exists>b'. Resubmit (dl_reference l) b = ((True, None), b') \<and>
    fst (Resubmit (dl_reference l) b') = (False, None) \<and>
    mb_pending b' = mb_pending b @ [(dl_listener l, \<lparr>md_event = dl_event l, md_attempts = 0, md_date = dl_date l\<rparr>)]"
proof -
  let ?P = "\<lambda>letter. dl_reference letter = dl_reference l"
  have inv: "mb_inv b" by (rule mb_run_inv [OF assms(1)])
  have dist: "distinct (map dl_reference (mb_deadLetters b))" using inv by (simp add: mb_inv_def)
  obtain i where i: "find_index ?P (mb_deadLetters b) = Some i"
    using assms(3) find_index_None_iff [of ?P "mb_deadLetters b"] by blast
  then have len: "i < length (mb_deadLetters b)" and ref: "dl_reference (mb_deadLetters b ! i) = dl_reference l"
    using find_index_SomeD by blast+
  have here: "mb_deadLetters b ! i = l"
    using dist len ref assms(3) by (metis (mono_tags, lifting) distinct_map inj_on_def nth_mem)
  obtain c where c: "mb_consumers b (dl_listener l) = Some c"
    using inv assms(3) unfolding mb_inv_def letter_ok_def by blast
  define b' where "b' = snd (Resubmit (dl_reference l) b)"
  have res: "Resubmit (dl_reference l) b = ((True, None), b')" and dead: "mb_deadLetters b' = remove_at i (mb_deadLetters b)"
    and pending: "mb_pending b' = mb_pending b @ [(dl_listener l, \<lparr>md_event = dl_event l, md_attempts = 0, md_date = dl_date l\<rparr>)]"
    and running: "\<not> mb_stopped b'"
    using i here c assms(2) by (simp_all add: b'_def Resubmit_def Let_def)
  have "mset (map dl_reference (mb_deadLetters b)) =
      add_mset (dl_reference l) (mset (map dl_reference (remove_at i (mb_deadLetters b))))"
    using mset_remove_at [OF len] here by (metis image_mset_add_mset mset_map)
  then have "dl_reference l \<notin> set (map dl_reference (remove_at i (mb_deadLetters b)))"
    using dist by (metis distinct.simps(2) mset.simps(2) mset_eq_imp_distinct_iff)
  then have "find_index ?P (mb_deadLetters b') = None"
    unfolding dead find_index_None_iff by (metis imageI list.set_map)
  with res pending running show ?thesis by (auto simp: Resubmit_def)
qed

theorem Resubmit_revives_a_dead_letter_once_witness:
  "\<exists>b'. Resubmit (show_nat 1) (demo_broker 7) = ((True, None), b') \<and>
    fst (Resubmit (show_nat 1) b') = (False, None)"
proof -
  have "\<not> mb_stopped (demo_broker 7)" by (simp add: demo_broker_simps)
  moreover have "mb_deadLetters (demo_broker 7) = [\<lparr>dl_reference = show_nat 1, dl_listener = ''c'',
      dl_event = 1, dl_attempts = 1, dl_error = Leaf ''failure'', dl_date = 7\<rparr>]"
    by (simp add: demo_broker_simps)
  ultimately show ?thesis
    using Resubmit_revives_a_dead_letter_once [OF demo_run_parked, of "hd (mb_deadLetters (demo_broker 7))"]
    by auto
qed

end
