(* ===== verification/Timestamp.thy ===== *)
theory Timestamp
  imports GoRuntime "HOL-Library.List_Lexorder" "HOL-Library.Char_ord"
begin

text \<open>
  Timestamps as both SQL stores keep them (\<open>timeLayout\<close>, \<open>formatTime\<close> and \<open>parseTime\<close> of
  outbox/store_sql.go and sqlbus/store_sql.go): UTC text of fixed width, compared as text inside
  SQL. An instant is its UTC calendar reading, ordered field by field, which is chronological
  order; what is modelled of \<open>time\<close> is the rendering under the layout and the parsing of
  RFC 3339 text whose zone is \<open>Z\<close>, the only zone the stores write.
\<close>

section \<open>Instants\<close>

datatype instant = Instant (year: nat) (month: nat) (day: nat) (hour: nat) (minute_of: nat)
  (second_of: nat) (nano: nat)

fun fields :: "instant \<Rightarrow> nat list" where
  "fields (Instant y mo d h mi s n) = [y, mo, d, h, mi, s, n]"

lemma fields_inj [simp]: "fields a = fields b \<longleftrightarrow> a = b"
  by (cases a; cases b) simp

instantiation instant :: linorder
begin

definition less_eq_instant :: "instant \<Rightarrow> instant \<Rightarrow> bool" where
  "a \<le> b \<longleftrightarrow> fields a \<le> fields b"

definition less_instant :: "instant \<Rightarrow> instant \<Rightarrow> bool" where
  "a < b \<longleftrightarrow> fields a < fields b"

instance
  by intro_classes (auto simp: less_eq_instant_def less_instant_def order.strict_iff_order)

end

definition leap :: "nat \<Rightarrow> bool" where
  "leap y \<longleftrightarrow> y mod 4 = 0 \<and> (y mod 100 \<noteq> 0 \<or> y mod 400 = 0)"

definition days_in :: "nat \<Rightarrow> nat \<Rightarrow> nat" where
  "days_in y mo = (if mo = 2 then (if leap y then 29 else 28)
                   else if mo \<in> {4, 6, 9, 11} then 30 else 31)"

fun valid :: "instant \<Rightarrow> bool" where
  "valid (Instant y mo d h mi s n) \<longleftrightarrow> y < 10000 \<and> 1 \<le> mo \<and> mo \<le> 12 \<and> 1 \<le> d \<and> d \<le> days_in y mo \<and>
     h < 24 \<and> mi < 60 \<and> s < 60 \<and> n < 1000000000"

section \<open>Rendering\<close>

fun pad :: "nat \<Rightarrow> nat \<Rightarrow> string" where
  "pad 0 n = []"
| "pad (Suc w) n = pad w (n div 10) @ [digit_char (n mod 10)]"

definition render_year :: "nat \<Rightarrow> string" where
  "render_year y = (if y < 10000 then pad 4 y else show_nat y)"

fun formatTime :: "instant \<Rightarrow> string" where
  "formatTime (Instant y mo d h mi s n) =
     render_year y @ ''-'' @ pad 2 mo @ ''-'' @ pad 2 d @ ''T'' @ pad 2 h @ '':'' @ pad 2 mi @
     '':'' @ pad 2 s @ ''.'' @ pad 9 n @ ''Z''"

fun nullableTimeValue :: "instant option \<Rightarrow> string option" where
  "nullableTimeValue value = map_option formatTime value"

lemma length_pad [simp]: "length (pad w n) = w"
  by (induction w arbitrary: n) auto

lemma digit_char_less: "a < 10 \<Longrightarrow> b < 10 \<Longrightarrow> digit_char a < digit_char b \<longleftrightarrow> a < b"
  by (simp add: digit_char_def less_char_def of_char_of)

lemma append_less:
  fixes xs :: "'a::linorder list"
  shows "length xs = length xs' \<Longrightarrow> xs @ ys < xs' @ ys' \<longleftrightarrow> xs < xs' \<or> xs = xs' \<and> ys < ys'"
  by (induction xs xs' rule: list_induct2) auto

lemma decimal_less:
  "r < 10 \<Longrightarrow> r' < 10 \<Longrightarrow> (q < q' \<or> q = q' \<and> r < r') \<longleftrightarrow> 10 * q + r < 10 * q' + (r' :: nat)"
  by auto

lemma pad_less: "m < 10 ^ w \<Longrightarrow> n < 10 ^ w \<Longrightarrow> pad w m < pad w n \<longleftrightarrow> m < n"
  and pad_eq: "m < 10 ^ w \<Longrightarrow> n < 10 ^ w \<Longrightarrow> pad w m = pad w n \<longleftrightarrow> m = n"
proof (induction w arbitrary: m n)
  case (Suc w)
  have small: "m div 10 < 10 ^ w" "n div 10 < 10 ^ w" if "m < 10 ^ Suc w" "n < 10 ^ Suc w" for m n :: nat
    using that by auto
  have eq: "pad (Suc w) m = pad (Suc w) n \<longleftrightarrow> m = n" if "m < 10 ^ Suc w" "n < 10 ^ Suc w" for m n :: nat
  proof -
    have "pad (Suc w) m = pad (Suc w) n \<longleftrightarrow> m div 10 = n div 10 \<and> digit_char (m mod 10) = digit_char (n mod 10)"
      using Suc.IH(2) [of "m div 10" "n div 10"] that by auto
    also have "\<dots> \<longleftrightarrow> m div 10 = n div 10 \<and> m mod 10 = n mod 10"
      using digit_char_inj [of "m mod 10" "n mod 10"] by auto
    also have "\<dots> \<longleftrightarrow> m = n" by (metis div_mult_mod_eq)
    finally show ?thesis .
  qed
  {
    case (1 m n)
    have "pad (Suc w) m < pad (Suc w) n \<longleftrightarrow>
        m div 10 < n div 10 \<or> m div 10 = n div 10 \<and> m mod 10 < n mod 10"
      using Suc.IH [of "m div 10" "n div 10"] small [OF 1] digit_char_less [of "m mod 10" "n mod 10"]
      by (simp add: append_less)
    also have "\<dots> \<longleftrightarrow> m < n"
      using decimal_less [of "m mod 10" "n mod 10" "m div 10" "n div 10"] by simp
    finally show ?case .
  next
    case (2 m n)
    then show ?case by (rule eq)
  }
qed simp_all

lemmas pad_order = pad_less pad_eq

lemma formatTime_order:
  assumes "valid a" "valid b"
  shows "(formatTime a < formatTime b \<longleftrightarrow> a < b) \<and> length (formatTime a) = length (formatTime b)"
proof -
  obtain y mo d h mi s n where a: "a = Instant y mo d h mi s n" by (cases a)
  obtain y' mo' d' h' mi' s' n' where b: "b = Instant y' mo' d' h' mi' s' n'" by (cases b)
  have "d \<le> 31" "d' \<le> 31" using assms by (auto simp: a b days_in_def split: if_splits)
  then have r: "y < 10 ^ 4" "y' < 10 ^ 4" "mo < 10 ^ 2" "mo' < 10 ^ 2" "d < 10 ^ 2" "d' < 10 ^ 2"
    "h < 10 ^ 2" "h' < 10 ^ 2" "mi < 10 ^ 2" "mi' < 10 ^ 2" "s < 10 ^ 2" "s' < 10 ^ 2"
    "n < 10 ^ 9" "n' < 10 ^ 9"
    using assms by (simp_all add: a b)
  note order = pad_order [OF r(1,2)] pad_order [OF r(3,4)] pad_order [OF r(5,6)] pad_order [OF r(7,8)]
    pad_order [OF r(9,10)] pad_order [OF r(11,12)] pad_order [OF r(13,14)]
  have years: "render_year y = pad 4 y" "render_year y' = pad 4 y'"
    using r(1,2) by (simp_all add: render_year_def)
  show ?thesis
    unfolding a b formatTime.simps years less_instant_def fields.simps
    by (simp add: append_less order del: pad.simps)
qed

text \<open>C21: comparing stored timestamps as text is comparing them in time: for every pair of
  instants up to the year 9999 the rendered texts have the same length and their lexicographic
  order is the chronological one.\<close>

theorem stored_text_order_is_chronological:
  assumes "valid a" "valid b"
  shows "(formatTime a < formatTime b \<longleftrightarrow> a < b) \<and> length (formatTime a) = length (formatTime b)"
  by (rule formatTime_order [OF assms])

theorem stored_text_order_is_chronological_witness:
  "formatTime (Instant 2024 2 29 23 59 59 999999999) < formatTime (Instant 2024 3 1 0 0 0 0)"
  using stored_text_order_is_chronological
    [of "Instant 2024 2 29 23 59 59 999999999" "Instant 2024 3 1 0 0 0 0"]
  by (simp add: days_in_def leap_def less_instant_def del: formatTime.simps)

section \<open>Parsing\<close>

definition digit_of :: "char \<Rightarrow> nat option" where
  "digit_of ch = (let n = of_char ch in if 48 \<le> n \<and> n \<le> 57 then Some (n - 48) else None)"

fun parse_fixed :: "nat \<Rightarrow> nat \<Rightarrow> string \<Rightarrow> (nat \<times> string) option" where
  "parse_fixed 0 acc s = Some (acc, s)"
| "parse_fixed (Suc w) acc [] = None"
| "parse_fixed (Suc w) acc (ch # s) = (case digit_of ch of
      None \<Rightarrow> None
    | Some d \<Rightarrow> parse_fixed w (10 * acc + d) s)"

fun expect :: "char \<Rightarrow> string \<Rightarrow> string option" where
  "expect ch [] = None"
| "expect ch (x # s) = (if x = ch then Some s else None)"

text \<open>The optional fraction: any number of digits, the first nine of which count.\<close>

fun digits_prefix :: "string \<Rightarrow> nat list \<times> string" where
  "digits_prefix [] = ([], [])"
| "digits_prefix (ch # s) = (case digit_of ch of
      None \<Rightarrow> ([], ch # s)
    | Some d \<Rightarrow> (let (ds, r) = digits_prefix s in (d # ds, r)))"

definition parse_fraction :: "string \<Rightarrow> (nat \<times> string) option" where
  "parse_fraction s = (case expect (CHR ''.'') s of
      None \<Rightarrow> Some (0, s)
    | Some s' \<Rightarrow> (let (ds, r) = digits_prefix s'
        in if ds = [] then None
           else Some (digits_value 0 (take 9 (ds @ replicate 9 0)), r)))"

text \<open>\<open>parseTime\<close>: a result out of the calendar is an error.\<close>

definition parseTime :: "string \<Rightarrow> instant option" where
  "parseTime s =
     Option.bind (parse_fixed 4 0 s) (\<lambda>(y, s). Option.bind (expect (CHR ''-'') s) (\<lambda>s.
     Option.bind (parse_fixed 2 0 s) (\<lambda>(mo, s). Option.bind (expect (CHR ''-'') s) (\<lambda>s.
     Option.bind (parse_fixed 2 0 s) (\<lambda>(d, s). Option.bind (expect (CHR ''T'') s) (\<lambda>s.
     Option.bind (parse_fixed 2 0 s) (\<lambda>(h, s). Option.bind (expect (CHR '':'') s) (\<lambda>s.
     Option.bind (parse_fixed 2 0 s) (\<lambda>(mi, s). Option.bind (expect (CHR '':'') s) (\<lambda>s.
     Option.bind (parse_fixed 2 0 s) (\<lambda>(sec, s). Option.bind (parse_fraction s) (\<lambda>(n, s).
       if s = ''Z'' \<and> valid (Instant y mo d h mi sec n) then Some (Instant y mo d h mi sec n)
       else None))))))))))))"

fun parseNullableTime :: "string option \<Rightarrow> instant option option" where
  "parseNullableTime None = Some None"
| "parseNullableTime (Some s) = map_option Some (parseTime s)"

lemma digit_of_char [simp]: "d < 10 \<Longrightarrow> digit_of (digit_char d) = Some d"
  by (simp add: digit_of_def digit_char_def of_char_of Let_def)

lemma parse_fixed_append:
  "parse_fixed (v + w) acc s = Option.bind (parse_fixed v acc s) (\<lambda>(a, r). parse_fixed w a r)"
  by (induction v acc s rule: parse_fixed.induct) (auto split: option.splits)

lemma parse_fixed_pad:
  "n < 10 ^ w \<Longrightarrow> parse_fixed w acc (pad w n @ s) = Some (10 ^ w * acc + n, s)"
proof (induction w arbitrary: n s)
  case (Suc w)
  have "n div 10 < 10 ^ w" using Suc.prems by auto
  from Suc.IH [OF this, of "digit_char (n mod 10) # s"]
  show ?case
    using parse_fixed_append [of w 1 acc "pad (Suc w) n @ s"] by (simp add: algebra_simps)
qed simp

lemma digits_prefix_digits:
  "\<forall>d \<in> set ds. d < 10 \<Longrightarrow> digits_prefix (map digit_char ds @ ''Z'') = (ds, ''Z'')"
  by (induction ds) (auto simp: digit_of_def of_char_of Let_def digit_char_def)

fun pad_digits :: "nat \<Rightarrow> nat \<Rightarrow> nat list" where
  "pad_digits 0 n = []"
| "pad_digits (Suc w) n = pad_digits w (n div 10) @ [n mod 10]"

lemma pad_digits: "pad w n = map digit_char (pad_digits w n)" "length (pad_digits w n) = w"
  "\<forall>d \<in> set (pad_digits w n). d < 10"
  by (induction w arbitrary: n) auto

lemma pad_digits_value: "n < 10 ^ w \<Longrightarrow> digits_value 0 (pad_digits w n) = n"
proof (induction w arbitrary: n)
  case (Suc w)
  then have "n div 10 < 10 ^ w" by auto
  with Suc.IH show ?case by (simp add: digits_value_append)
qed simp

lemma parse_fraction_pad: "n < 10 ^ 9 \<Longrightarrow> parse_fraction (''.'' @ pad 9 n @ ''Z'') = Some (n, ''Z'')"
  using digits_prefix_digits [OF pad_digits(3), of 9 n] pad_digits_value [of n 9] pad_digits(2) [of 9 n]
  by (auto simp: parse_fraction_def pad_digits(1))

lemma parseTime_formatTime:
  assumes "valid t"
  shows "parseTime (formatTime t) = Some t"
proof -
  obtain y mo d h mi s n where t: "t = Instant y mo d h mi s n" by (cases t)
  have "d \<le> 31" using assms by (auto simp: t days_in_def split: if_splits)
  then have r: "y < 10 ^ 4" "mo < 10 ^ 2" "d < 10 ^ 2" "h < 10 ^ 2" "mi < 10 ^ 2" "s < 10 ^ 2" "n < 10 ^ 9"
    using assms by (simp_all add: t)
  then have "render_year y = pad 4 y" by (simp add: render_year_def)
  moreover note parse = parse_fixed_pad [OF r(1), of 0] parse_fixed_pad [OF r(2), of 0]
    parse_fixed_pad [OF r(3), of 0] parse_fixed_pad [OF r(4), of 0] parse_fixed_pad [OF r(5), of 0]
    parse_fixed_pad [OF r(6), of 0] parse_fraction_pad [OF r(7)]
  ultimately show ?thesis
    using assms parse unfolding t formatTime.simps parseTime_def
    by (simp del: pad.simps parse_fixed.simps valid.simps)
qed

text \<open>C22: reading a stored timestamp gives back the instant that was written, and reading a nullable
  column gives back the optional instant that was written, \<open>NULL\<close> for none.\<close>

theorem stored_timestamps_round_trip:
  assumes "valid t" "\<And>t'. date = Some t' \<Longrightarrow> valid t'"
  shows "parseTime (formatTime t) = Some t \<and> parseNullableTime (nullableTimeValue date) = Some date"
  using assms by (cases date) (simp_all add: parseTime_formatTime)

theorem stored_timestamps_round_trip_witness:
  "parseTime (formatTime (Instant 2024 2 29 12 30 0 5)) = Some (Instant 2024 2 29 12 30 0 5) \<and>
   parseNullableTime (nullableTimeValue (Some (Instant 1970 1 1 0 0 0 0))) = Some (Some (Instant 1970 1 1 0 0 0 0))"
  by (rule stored_timestamps_round_trip) (auto simp: days_in_def leap_def)

end
