(* ===== verification/OutboxStore.thy ===== *)
theory OutboxStore
  imports Timestamp
begin

text \<open>
  The outbox store (outbox/publication.go, outbox/store.go, outbox/store_sql.go). The two tables
  are lists of rows whose columns hold what the code binds, dates as text. A statement is atomic
  and reports the rows it affected; an environment decides, statement by statement, whether it
  fails (leaving the tables alone), what the clock reads, and what other sessions commit just
  before it runs. Publication identifiers are the opaque type \<open>'id\<close>: the code parses back the
  text \<open>uuid.UUID.String\<close> wrote. Rows of equal publication date come back in table order.
\<close>

section \<open>Publications and rows\<close>

type_synonym status = string

definition StatusPublished :: status where
  "StatusPublished = ''PUBLISHED''"

definition StatusProcessing :: status where
  "StatusProcessing = ''PROCESSING''"

definition StatusCompleted :: status where
  "StatusCompleted = ''COMPLETED''"

definition StatusFailed :: status where
  "StatusFailed = ''FAILED''"

definition StatusResubmitted :: status where
  "StatusResubmitted = ''RESUBMITTED''"

lemmas status_defs =
  StatusPublished_def StatusProcessing_def StatusCompleted_def StatusFailed_def StatusResubmitted_def

record ('id, 'e) publication =
  p_id :: 'id
  p_listener :: string
  p_type :: string
  p_payload :: string
  p_event :: "'e option"
  p_date :: instant
  p_completed :: "instant option"
  p_status :: status
  p_attempts :: int
  p_resubmitted :: "instant option"

record 'id row =
  r_id :: 'id
  r_listener :: string
  r_type :: string
  r_payload :: string
  r_date :: string
  r_completed :: "string option"
  r_status :: status
  r_attempts :: int
  r_resubmitted :: "string option"

record 'id outbox_db =
  publications :: "'id row list"
  archived :: "'id row list"
  ticks :: nat

record 'id environment =
  env_fails :: "nat \<Rightarrow> goerror option"
  env_now :: "nat \<Rightarrow> instant"
  env_others :: "nat \<Rightarrow> 'id row list \<Rightarrow> 'id row list"

datatype completion_mode = CompletionModeUpdate | CompletionModeDelete | CompletionModeArchive

type_synonym ('id, 'a) store_op = "'id outbox_db \<Rightarrow> (goerror + 'a) \<times> 'id outbox_db"

section \<open>Statements\<close>

definition tick :: "'id outbox_db \<Rightarrow> 'id outbox_db" where
  "tick d = d\<lparr>ticks := Suc (ticks d)\<rparr>"

definition Now :: "'id environment \<Rightarrow> 'id outbox_db \<Rightarrow> instant \<times> 'id outbox_db" where
  "Now env d = (env_now env (ticks d), tick d)"

text \<open>\<open>execute\<close>: the other sessions act, then the statement runs or fails.\<close>

definition execute :: "'id environment \<Rightarrow> ('id outbox_db \<Rightarrow> 'a \<times> 'id outbox_db) \<Rightarrow> ('id, 'a) store_op" where
  "execute env statement d =
     (let d' = tick (d\<lparr>publications := env_others env (ticks d) (publications d)\<rparr>)
      in case env_fails env (ticks d) of
          Some err \<Rightarrow> (Inl err, d')
        | None \<Rightarrow> (case statement d' of (a, d'') \<Rightarrow> (Inr a, d'')))"

definition update_rows :: "('id row \<Rightarrow> bool) \<Rightarrow> ('id row \<Rightarrow> 'id row) \<Rightarrow> 'id row list \<Rightarrow> nat \<times> 'id row list" where
  "update_rows P f rows = (length (filter P rows), map (\<lambda>r. if P r then f r else r) rows)"

definition delete_rows :: "('id row \<Rightarrow> bool) \<Rightarrow> 'id row list \<Rightarrow> nat \<times> 'id row list" where
  "delete_rows P rows = (length (filter P rows), filter (\<lambda>r. \<not> P r) rows)"

text \<open>\<open>executeSettling\<close>: did the statement affect a row.\<close>

definition executeSettling ::
  "'id environment \<Rightarrow> ('id row list \<Rightarrow> nat \<times> 'id row list) \<Rightarrow> ('id, bool) store_op" where
  "executeSettling env statement =
     execute env (\<lambda>d. case statement (publications d) of (n, rows) \<Rightarrow> (0 < n, d\<lparr>publications := rows\<rparr>))"

definition wrap :: "string \<Rightarrow> (goerror + 'a) \<Rightarrow> goerror + 'a" where
  "wrap fmt r = (case r of Inl err \<Rightarrow> Inl (Wrap fmt [err]) | Inr a \<Rightarrow> Inr a)"

section \<open>The guarded transitions\<close>

definition generationCondition :: "'id \<Rightarrow> status \<Rightarrow> int \<Rightarrow> 'id row \<Rightarrow> bool" where
  "generationCondition pid status attempts r \<longleftrightarrow>
     r_id r = pid \<and> r_status r = status \<and> r_attempts r = attempts"

definition row_of :: "('id, 'e) publication \<Rightarrow> 'id row" where
  "row_of p = \<lparr>r_id = p_id p, r_listener = p_listener p, r_type = p_type p, r_payload = p_payload p,
     r_date = formatTime (p_date p), r_completed = None, r_status = p_status p,
     r_attempts = p_attempts p, r_resubmitted = nullableTimeValue (p_resubmitted p)\<rparr>"

definition unique_violation :: goerror where
  "unique_violation = Leaf ''unique constraint violated''"

definition insert_row :: "'id row \<Rightarrow> 'id outbox_db \<Rightarrow> goerror option \<times> 'id outbox_db" where
  "insert_row r d =
     (if list_ex (\<lambda>x. r_id x = r_id r) (publications d) then (Some unique_violation, d)
      else (None, d\<lparr>publications := publications d @ [r]\<rparr>))"

definition Create :: "'id environment \<Rightarrow> ('id, 'e) publication \<Rightarrow> 'id outbox_db \<Rightarrow> goerror option \<times> 'id outbox_db" where
  "Create env p d = (case execute env (insert_row (row_of p)) d of
      (Inl err, d') \<Rightarrow> (Some (Wrap ''persist publication %s: %w'' [err]), d')
    | (Inr (Some err), d') \<Rightarrow> (Some (Wrap ''persist publication %s: %w'' [err]), d')
    | (Inr None, d') \<Rightarrow> (None, d'))"

definition claim_statement :: "'id \<Rightarrow> int \<Rightarrow> instant \<Rightarrow> 'id row list \<Rightarrow> nat \<times> 'id row list" where
  "claim_statement pid attempts now = update_rows
     (\<lambda>r. r_id r = pid \<and> r_status r \<in> {StatusPublished, StatusResubmitted} \<and> r_attempts r = attempts)
     (\<lambda>r. r\<lparr>r_status := StatusProcessing, r_resubmitted := Some (formatTime now)\<rparr>)"

definition ClaimProcessing :: "'id environment \<Rightarrow> 'id \<Rightarrow> int \<Rightarrow> ('id, bool) store_op" where
  "ClaimProcessing env pid attempts d =
     (let (now, d1) = Now env d;
          (r, d2) = executeSettling env (claim_statement pid attempts now) d1
      in (wrap ''claim publication %s: %w'' r, d2))"

definition fail_statement :: "'id \<Rightarrow> int \<Rightarrow> 'id row list \<Rightarrow> nat \<times> 'id row list" where
  "fail_statement pid attempts = update_rows (generationCondition pid StatusProcessing attempts)
     (\<lambda>r. r\<lparr>r_status := StatusFailed\<rparr>)"

definition MarkFailed :: "'id environment \<Rightarrow> 'id \<Rightarrow> int \<Rightarrow> ('id, bool) store_op" where
  "MarkFailed env pid attempts d =
     (let (r, d1) = executeSettling env (fail_statement pid attempts) d
      in (wrap ''mark publication %s as failed: %w'' r, d1))"

definition complete_statement :: "'id \<Rightarrow> int \<Rightarrow> instant \<Rightarrow> 'id row list \<Rightarrow> nat \<times> 'id row list" where
  "complete_statement pid attempts date =
     update_rows (generationCondition pid StatusProcessing attempts)
       (\<lambda>r. r\<lparr>r_status := StatusCompleted, r_completed := Some (formatTime date)\<rparr>)"

definition delete_statement :: "'id \<Rightarrow> int \<Rightarrow> 'id row list \<Rightarrow> nat \<times> 'id row list" where
  "delete_statement pid attempts = delete_rows (generationCondition pid StatusProcessing attempts)"

definition scanPublication :: "'id row \<Rightarrow> goerror + ('id, 'e) publication" where
  "scanPublication r =
     (case parseTime (r_date r) of
        None \<Rightarrow> Inl (Leaf ''parse publication date of %s: %w'')
      | Some date \<Rightarrow> (case parseNullableTime (r_completed r) of
          None \<Rightarrow> Inl (Leaf ''parse completion date of %s: %w'')
        | Some completed \<Rightarrow> (case parseNullableTime (r_resubmitted r) of
            None \<Rightarrow> Inl (Leaf ''parse resubmission date of %s: %w'')
          | Some resubmitted \<Rightarrow> Inr \<lparr>p_id = r_id r, p_listener = r_listener r, p_type = r_type r,
              p_payload = r_payload r, p_event = None, p_date = date, p_completed = completed,
              p_status = r_status r, p_attempts = r_attempts r, p_resubmitted = resubmitted\<rparr>)))"

definition archive_row :: "instant \<Rightarrow> ('id, 'e) publication \<Rightarrow> 'id row" where
  "archive_row date p = (row_of p)\<lparr>r_status := StatusCompleted, r_completed := Some (formatTime date)\<rparr>"

text \<open>\<open>INSERT ... ON CONFLICT DO NOTHING\<close>.\<close>

definition insert_archive :: "'id row \<Rightarrow> 'id row list \<Rightarrow> 'id row list" where
  "insert_archive r rows = (if list_ex (\<lambda>x. r_id x = r_id r) rows then rows else rows @ [r])"

text \<open>
  \<open>archive\<close>: begin, read, insert, delete, commit, each of which may fail or find that another
  session moved the row on. What the transaction wrote becomes visible with its commit: the
  deleted row is locked from the delete to the commit, so the two writes are applied there. The
  deferred rollback joins its own failure to the error; after a commit or a failed commit the
  transaction is done and it reports nothing.
\<close>

definition rollback_failure ::
  "'id environment \<Rightarrow> goerror option \<Rightarrow> 'id outbox_db \<Rightarrow> goerror option \<times> 'id outbox_db" where
  "rollback_failure env err d = (case env_fails env (ticks d) of
      None \<Rightarrow> (err, tick d)
    | Some e \<Rightarrow> (errors_join [err, Some (Wrap ''archive publication %s: rollback: %w'' [e])], tick d))"

definition archive_end ::
  "'id environment \<Rightarrow> goerror option \<Rightarrow> 'id outbox_db \<Rightarrow> (goerror + bool) \<times> 'id outbox_db" where
  "archive_end env err d = (case rollback_failure env err d of
      (None, d') \<Rightarrow> (Inr False, d') | (Some e, d') \<Rightarrow> (Inl e, d'))"

definition archive_move ::
  "'id environment \<Rightarrow> 'id \<Rightarrow> int \<Rightarrow> instant \<Rightarrow> goerror + ('id, 'e) publication \<Rightarrow> ('id, bool) store_op" where
  "archive_move env pid attempts date scanned d =
     (case scanned of
        Inl err \<Rightarrow> archive_end env (Some (Wrap ''archive publication %s: read: %w'' [err])) d
      | Inr p \<Rightarrow>
         (case execute env (\<lambda>d. ((), d)) d of
            (Inl err, d3) \<Rightarrow> archive_end env (Some (Wrap ''archive publication %s: write archive entry: %w'' [err])) d3
          | (Inr _, d3) \<Rightarrow>
           (case execute env (\<lambda>d. (fst (delete_statement pid attempts (publications d)), d)) d3 of
              (Inl err, d4) \<Rightarrow> archive_end env (Some (Wrap ''archive publication %s: delete source row: %w'' [err])) d4
            | (Inr n, d4) \<Rightarrow>
                if n = 0 then archive_end env None d4
                else (case env_fails env (ticks d4) of
                    Some err \<Rightarrow> (Inl (Wrap ''archive publication %s: commit: %w'' [err]), tick d4)
                  | None \<Rightarrow> (Inr True, tick (d4\<lparr>publications := snd (delete_statement pid attempts (publications d4)),
                      archived := insert_archive (archive_row date p) (archived d4)\<rparr>))))))"

definition archive :: "'id environment \<Rightarrow> 'id \<Rightarrow> int \<Rightarrow> instant \<Rightarrow> ('id, bool) store_op" where
  "archive env pid attempts date d =
     (case execute env (\<lambda>d. ((), d)) d of
        (Inl err, d1) \<Rightarrow> (Inl (Wrap ''archive publication %s: begin transaction: %w'' [err]), d1)
      | (Inr _, d1) \<Rightarrow>
       (case execute env (\<lambda>d. (find (generationCondition pid StatusProcessing attempts) (publications d), d)) d1 of
          (Inl err, d2) \<Rightarrow> archive_end env (Some (Wrap ''archive publication %s: read: %w'' [err])) d2
        | (Inr None, d2) \<Rightarrow> archive_end env None d2
        | (Inr (Some r), d2) \<Rightarrow> archive_move env pid attempts date (scanPublication r :: goerror + ('id, unit) publication) d2))"

fun MarkCompleted ::
  "completion_mode \<Rightarrow> 'id environment \<Rightarrow> 'id \<Rightarrow> int \<Rightarrow> instant \<Rightarrow> ('id, bool) store_op" where
  "MarkCompleted CompletionModeDelete env pid attempts date d =
     (let (r, d1) = executeSettling env (delete_statement pid attempts) d
      in (wrap ''delete completed publication %s: %w'' r, d1))"
| "MarkCompleted CompletionModeArchive env pid attempts date d = archive env pid attempts date d"
| "MarkCompleted CompletionModeUpdate env pid attempts date d =
     (let (r, d1) = executeSettling env (complete_statement pid attempts date) d
      in (wrap ''mark publication %s as completed: %w'' r, d1))"

definition resubmit_statement :: "'id \<Rightarrow> int \<Rightarrow> instant \<Rightarrow> 'id row list \<Rightarrow> nat \<times> 'id row list" where
  "resubmit_statement pid attempts date = update_rows
     (\<lambda>r. r_id r = pid \<and> r_status r \<in> {StatusPublished, StatusProcessing, StatusFailed} \<and> r_attempts r = attempts)
     (\<lambda>r. r\<lparr>r_status := StatusResubmitted, r_attempts := attempts + 1, r_resubmitted := Some (formatTime date)\<rparr>)"

text \<open>The new attempt count, or \<open>None\<close> when another caller was first.\<close>

definition MarkResubmitted :: "'id environment \<Rightarrow> 'id \<Rightarrow> int \<Rightarrow> instant \<Rightarrow> ('id, int option) store_op" where
  "MarkResubmitted env pid attempts date d =
     (case executeSettling env (resubmit_statement pid attempts date) d of
        (Inl err, d1) \<Rightarrow> (Inl (Wrap ''mark publication %s as resubmitted: %w'' [err]), d1)
      | (Inr False, d1) \<Rightarrow> (Inr None, d1)
      | (Inr True, d1) \<Rightarrow> (Inr (Some (attempts + 1)), d1))"

section \<open>Reading\<close>

fun scan_all :: "'id row list \<Rightarrow> goerror + ('id, 'e) publication list" where
  "scan_all [] = Inr []"
| "scan_all (r # rs) = (case scanPublication r of
      Inl err \<Rightarrow> Inl err
    | Inr p \<Rightarrow> (case scan_all rs of Inl err \<Rightarrow> Inl err | Inr ps \<Rightarrow> Inr (p # ps)))"

definition collect ::
  "'id environment \<Rightarrow> ('id row \<Rightarrow> bool) \<Rightarrow> ('id, ('id, 'e) publication list) store_op" where
  "collect env P d =
     (case execute env (\<lambda>d. (sort_key r_date (filter P (publications d)), d)) d of
        (Inl err, d1) \<Rightarrow> (Inl (Wrap ''find incomplete publications: %w'' [err]), d1)
      | (Inr rows, d1) \<Rightarrow> (scan_all rows, d1))"

definition FindIncomplete :: "'id environment \<Rightarrow> ('id, ('id, 'e) publication list) store_op" where
  "FindIncomplete env = collect env (\<lambda>r. r_status r \<noteq> StatusCompleted)"

definition latestAttempt :: "'id row \<Rightarrow> string" where
  "latestAttempt r = (case r_resubmitted r of Some s \<Rightarrow> s | None \<Rightarrow> r_date r)"

definition FindIncompletePublishedBefore ::
  "'id environment \<Rightarrow> instant \<Rightarrow> ('id, ('id, 'e) publication list) store_op" where
  "FindIncompletePublishedBefore env reference =
     collect env (\<lambda>r. r_status r \<noteq> StatusCompleted \<and> latestAttempt r < formatTime reference)"

section \<open>Facts about the statements\<close>

definition unique_ids :: "'id row list \<Rightarrow> bool" where
  "unique_ids rows \<longleftrightarrow> distinct (map r_id rows)"

definition lookup :: "'id \<Rightarrow> 'id row list \<Rightarrow> 'id row option" where
  "lookup pid rows = find (\<lambda>r. r_id r = pid) rows"

lemma find_holds: "find P xs = Some x \<Longrightarrow> x \<in> set xs \<and> P x"
  by (induction xs) (auto split: if_splits)

lemma lookup_update:
  assumes "\<And>r. r_id (f r) = r_id r" "\<And>r. P r \<Longrightarrow> r_id r = pid'"
  shows "lookup pid (snd (update_rows P f rows)) =
    (if pid = pid' then map_option (\<lambda>r. if P r then f r else r) (lookup pid rows) else lookup pid rows)"
  using assms by (induction rows) (auto simp: lookup_def update_rows_def)

lemma lookup_iff: "unique_ids rows \<Longrightarrow> lookup pid rows = Some r \<longleftrightarrow> r \<in> set rows \<and> r_id r = pid"
  by (induction rows) (auto simp: lookup_def unique_ids_def image_iff)

lemma update_affected:
  assumes "unique_ids rows" "\<And>r. P r \<Longrightarrow> r_id r = pid"
  shows "0 < fst (update_rows P f rows) \<longleftrightarrow> (\<exists>r. lookup pid rows = Some r \<and> P r)"
proof -
  have "0 < fst (update_rows P f rows) \<longleftrightarrow> (\<exists>r \<in> set rows. P r)"
    by (auto simp: update_rows_def filter_empty_conv)
  then show ?thesis using assms(2) unfolding lookup_iff [OF assms(1)] by blast
qed

lemma update_unique [preserves]:
  "(\<And>r. r_id (f r) = r_id r) \<Longrightarrow> unique_ids rows \<Longrightarrow> unique_ids (snd (update_rows P f rows))"
proof -
  assume "\<And>r. r_id (f r) = r_id r" "unique_ids rows"
  moreover have "map r_id (snd (update_rows P f rows)) = map r_id rows"
    using calculation(1) by (simp add: update_rows_def)
  ultimately show ?thesis by (simp add: unique_ids_def)
qed

lemma delete_unique [preserves]: "unique_ids rows \<Longrightarrow> unique_ids (snd (delete_rows P rows))"
  by (simp add: unique_ids_def delete_rows_def distinct_map_filter)

lemma lookup_delete:
  assumes "unique_ids rows"
  shows "lookup pid (snd (delete_rows P rows)) = (case lookup pid rows of
      None \<Rightarrow> None | Some r \<Rightarrow> if P r then None else Some r)"
  using assms by (induction rows) (auto simp: lookup_def delete_rows_def unique_ids_def image_iff find_None_iff
      split: option.splits dest!: find_holds)

lemma insert_unique [preserves]: "unique_ids (publications d) \<Longrightarrow> unique_ids (publications (snd (insert_row r d)))"
  by (auto simp: unique_ids_def insert_row_def list_ex_iff)

end
