(* ===== verification/OutboxProtocol.thy ===== *)
theory OutboxProtocol
  imports OutboxStore
begin

text \<open>
  Concurrent dispatchers on one outbox (the interleaved view of \<open>dispatch\<close> and \<open>resubmit\<close> of
  outbox/registry.go over the statements of outbox/store_sql.go). An agent is one goroutine of
  any application instance that handles one publication: it has read the row in a resubmission
  pass (\<open>Observed\<close>), is about to claim it under the generation it holds (\<open>Holding\<close>), is running
  the listener (\<open>Delivering\<close>), or is about to settle the outcome (\<open>Delivered\<close>). Each step is one
  statement; agents interleave freely and may crash at any point. The lists of granted claims
  and effective settlements are history, read by no step.
\<close>

datatype 'id agent =
    Observed 'id status int
  | Holding 'id int
  | Delivering 'id int
  | Delivered 'id int bool
  | Done

record 'id protocol =
  px_rows :: "'id row list"
  px_archive :: "'id row list"
  px_agents :: "'id agent list"
  px_created :: "'id list"
  px_claims :: "('id \<times> int) list"
  px_settled :: "('id \<times> int \<times> bool) list"

definition px_empty :: "'id protocol" where
  "px_empty = \<lparr>px_rows = [], px_archive = [], px_agents = [], px_created = [], px_claims = [], px_settled = []\<rparr>"

definition set_agent :: "nat \<Rightarrow> 'id agent \<Rightarrow> 'id protocol \<Rightarrow> 'id protocol" where
  "set_agent i a s = s\<lparr>px_agents := (px_agents s)[i := a]\<rparr>"

section \<open>Steps of one agent\<close>

definition act_resubmit :: "instant \<Rightarrow> nat \<Rightarrow> 'id \<Rightarrow> status \<Rightarrow> int \<Rightarrow> 'id protocol \<Rightarrow> 'id protocol" where
  "act_resubmit now i pid st n s =
     (if st = StatusResubmitted then set_agent i (Holding pid n) s
      else (case resubmit_statement pid n now (px_rows s) of (affected, rows) \<Rightarrow>
        if 0 < affected then set_agent i (Holding pid (n + 1)) (s\<lparr>px_rows := rows\<rparr>)
        else set_agent i Done s))"

definition act_claim :: "instant \<Rightarrow> nat \<Rightarrow> 'id \<Rightarrow> int \<Rightarrow> 'id protocol \<Rightarrow> 'id protocol" where
  "act_claim now i pid n s =
     (case claim_statement pid n now (px_rows s) of (affected, rows) \<Rightarrow>
        if 0 < affected
        then set_agent i (Delivering pid n) (s\<lparr>px_rows := rows, px_claims := px_claims s @ [(pid, n)]\<rparr>)
        else set_agent i Done s)"

definition act_fail :: "nat \<Rightarrow> 'id \<Rightarrow> int \<Rightarrow> 'id protocol \<Rightarrow> 'id protocol" where
  "act_fail i pid n s =
     (case fail_statement pid n (px_rows s) of (affected, rows) \<Rightarrow>
        set_agent i Done (if 0 < affected
          then s\<lparr>px_rows := rows, px_settled := px_settled s @ [(pid, n, False)]\<rparr> else s))"

text \<open>The settlement of a success, by completion mode; archiving reads the row, copies it and
  deletes it in one transaction.\<close>

definition act_complete :: "completion_mode \<Rightarrow> instant \<Rightarrow> nat \<Rightarrow> 'id \<Rightarrow> int \<Rightarrow> 'id protocol \<Rightarrow> 'id protocol" where
  "act_complete mode now i pid n s =
     (let settled = px_settled s @ [(pid, n, True)]
      in case mode of
        CompletionModeUpdate \<Rightarrow> (case complete_statement pid n now (px_rows s) of (affected, rows) \<Rightarrow>
          set_agent i Done (if 0 < affected then s\<lparr>px_rows := rows, px_settled := settled\<rparr> else s))
      | CompletionModeDelete \<Rightarrow> (case delete_statement pid n (px_rows s) of (affected, rows) \<Rightarrow>
          set_agent i Done (if 0 < affected then s\<lparr>px_rows := rows, px_settled := settled\<rparr> else s))
      | CompletionModeArchive \<Rightarrow>
         (case find (generationCondition pid StatusProcessing n) (px_rows s) of
            None \<Rightarrow> set_agent i Done s
          | Some r \<Rightarrow> (case (scanPublication r :: goerror + ('id, unit) publication) of
              Inl err \<Rightarrow> set_agent i Done s
            | Inr p \<Rightarrow> set_agent i Done (s\<lparr>px_rows := snd (delete_statement pid n (px_rows s)),
                px_archive := insert_archive (archive_row now p) (px_archive s),
                px_settled := settled\<rparr>))))"

definition act :: "completion_mode \<Rightarrow> instant \<Rightarrow> bool \<Rightarrow> nat \<Rightarrow> 'id protocol \<Rightarrow> 'id protocol" where
  "act mode now outcome i s = (case px_agents s ! i of
      Observed pid st n \<Rightarrow> act_resubmit now i pid st n s
    | Holding pid n \<Rightarrow> act_claim now i pid n s
    | Delivering pid n \<Rightarrow> set_agent i (Delivered pid n outcome) s
    | Delivered pid n True \<Rightarrow> act_complete mode now i pid n s
    | Delivered pid n False \<Rightarrow> act_fail i pid n s
    | Done \<Rightarrow> s)"

inductive px_step :: "completion_mode \<Rightarrow> 'id protocol \<Rightarrow> 'id protocol \<Rightarrow> bool" for mode where
  create: "r_id r \<notin> set (px_created s) \<Longrightarrow> r_status r = StatusPublished \<Longrightarrow> r_attempts r = 1 \<Longrightarrow>
    px_step mode s (s\<lparr>px_rows := px_rows s @ [r], px_created := px_created s @ [r_id r],
      px_agents := px_agents s @ [Holding (r_id r) 1]\<rparr>)"
| observe: "r \<in> set (px_rows s) \<Longrightarrow> r_status r \<noteq> StatusCompleted \<Longrightarrow>
    px_step mode s (s\<lparr>px_agents := px_agents s @ [Observed (r_id r) (r_status r) (r_attempts r)]\<rparr>)"
| agent: "i < length (px_agents s) \<Longrightarrow> px_step mode s (act mode now outcome i s)"
| crash: "i < length (px_agents s) \<Longrightarrow> px_step mode s (set_agent i Done s)"

abbreviation px_reachable :: "completion_mode \<Rightarrow> 'id protocol \<Rightarrow> bool" where
  "px_reachable mode \<equiv> reach (\<lambda>s. s = px_empty) (px_step mode)"

section \<open>The invariant\<close>

text \<open>What the row of a publication says about the generations claimed and settled so far.\<close>

definition row_inv :: "'id protocol \<Rightarrow> 'id row \<Rightarrow> bool" where
  "row_inv s r \<longleftrightarrow> r_id r \<in> set (px_created s) \<and>
     (r_status r \<in> {StatusProcessing, StatusFailed, StatusCompleted} \<longrightarrow>
        (r_id r, r_attempts r) \<in> set (px_claims s)) \<and>
     (\<forall>n. (r_id r, n) \<in> set (px_claims s) \<longrightarrow> n < r_attempts r \<or>
        n = r_attempts r \<and> r_status r \<in> {StatusProcessing, StatusFailed, StatusCompleted}) \<and>
     (\<forall>n. (r_id r, n, False) \<in> set (px_settled s) \<longrightarrow> n < r_attempts r \<or>
        n = r_attempts r \<and> r_status r = StatusFailed) \<and>
     (\<forall>n. (r_id r, n, True) \<in> set (px_settled s) \<longrightarrow> n = r_attempts r \<and> r_status r = StatusCompleted) \<and>
     r_id r \<notin> r_id ` set (px_archive s)"

definition history_inv :: "'id protocol \<Rightarrow> bool" where
  "history_inv s \<longleftrightarrow> distinct (px_claims s) \<and> fst ` set (px_claims s) \<subseteq> set (px_created s) \<and>
     distinct (map (\<lambda>(pid, n, ok). (pid, n)) (px_settled s)) \<and>
     (\<forall>(pid, n, ok) \<in> set (px_settled s). (pid, n) \<in> set (px_claims s)) \<and>
     r_id ` set (px_archive s) \<subseteq> set (px_created s)"

definition px_inv :: "'id protocol \<Rightarrow> bool" where
  "px_inv s \<longleftrightarrow> unique_ids (px_rows s) \<and> (\<forall>r \<in> set (px_rows s). row_inv s r) \<and> history_inv s"

lemma set_agent_frame [simp]:
  "px_rows (set_agent i a s) = px_rows s" "px_archive (set_agent i a s) = px_archive s"
  "px_created (set_agent i a s) = px_created s" "px_claims (set_agent i a s) = px_claims s"
  "px_settled (set_agent i a s) = px_settled s" "length (px_agents (set_agent i a s)) = length (px_agents s)"
  by (simp_all add: set_agent_def)

lemma px_inv_agents [simp]: "px_inv (s\<lparr>px_agents := as\<rparr>) = px_inv s"
  by (simp add: px_inv_def row_inv_def history_inv_def)

lemma px_inv_set_agent [simp]: "px_inv (set_agent i a s) = px_inv s"
  by (simp add: set_agent_def)

lemma status_distinct [simp]:
  "StatusPublished \<noteq> StatusProcessing" "StatusPublished \<noteq> StatusFailed" "StatusPublished \<noteq> StatusCompleted"
  "StatusResubmitted \<noteq> StatusProcessing" "StatusResubmitted \<noteq> StatusFailed"
  "StatusResubmitted \<noteq> StatusCompleted" "StatusProcessing \<noteq> StatusFailed"
  "StatusProcessing \<noteq> StatusCompleted" "StatusFailed \<noteq> StatusCompleted"
  "StatusProcessing \<noteq> StatusPublished" "StatusFailed \<noteq> StatusPublished" "StatusCompleted \<noteq> StatusPublished"
  "StatusProcessing \<noteq> StatusResubmitted" "StatusFailed \<noteq> StatusResubmitted"
  "StatusCompleted \<noteq> StatusResubmitted" "StatusFailed \<noteq> StatusProcessing"
  "StatusCompleted \<noteq> StatusProcessing" "StatusCompleted \<noteq> StatusFailed"
  by (simp_all add: status_defs)

text \<open>A guarded statement: it names one publication, and when it affects a row, that row is the
  only one it changes.\<close>

lemma guarded_update:
  assumes "unique_ids rows" "\<And>r. P r \<Longrightarrow> r_id r = pid" "\<And>r. r_id (f r) = r_id r"
    and "update_rows P f rows = (affected, rows')" "0 < affected"
  shows "\<exists>r0 \<in> set rows. r_id r0 = pid \<and> P r0 \<and> unique_ids rows' \<and>
    (\<forall>r \<in> set rows'. r = f r0 \<or> r \<in> set rows \<and> r_id r \<noteq> pid)"
proof -
  obtain r0 where r0: "r0 \<in> set rows" "P r0"
    using assms(4,5) by (auto simp: update_rows_def filter_empty_conv)
  have rows': "rows' = map (\<lambda>r. if P r then f r else r) rows" using assms(4) by (simp add: update_rows_def)
  have "r = f r0 \<or> r \<in> set rows \<and> r_id r \<noteq> pid" if r: "r \<in> set rows'" for r
  proof -
    obtain x where x: "x \<in> set rows" "r = (if P x then f x else x)" using r rows' by auto
    show ?thesis
    proof (cases "r_id x = pid")
      case True
      then have "x = r0"
        using x(1) r0 assms(1,2) by (auto simp: unique_ids_def distinct_map inj_on_def)
      with x r0 show ?thesis by simp
    qed (use x assms(2) in auto)
  qed
  moreover have "unique_ids rows'" using update_unique [OF assms(3,1), of P] assms(4) by simp
  ultimately show ?thesis using r0 assms(2) by blast
qed

lemma px_inv_row:
  assumes "px_inv s" "r \<in> set (px_rows s)"
  shows "row_inv s r"
  using assms by (simp add: px_inv_def)

lemma row_inv_rows [simp]: "row_inv (s\<lparr>px_rows := rows\<rparr>) r = row_inv s r"
  by (simp add: row_inv_def)

lemma row_invD:
  assumes "row_inv s r"
  shows "(r_id r, n) \<in> set (px_claims s) \<Longrightarrow> n < r_attempts r \<or>
      n = r_attempts r \<and> r_status r \<in> {StatusProcessing, StatusFailed, StatusCompleted}"
    and "(r_id r, n, False) \<in> set (px_settled s) \<Longrightarrow> n < r_attempts r \<or> n = r_attempts r \<and> r_status r = StatusFailed"
    and "(r_id r, n, True) \<in> set (px_settled s) \<Longrightarrow> n = r_attempts r \<and> r_status r = StatusCompleted"
  using assms unfolding row_inv_def by blast+

lemma row_inv_resubmit:
  assumes "row_inv s r" "r_status r \<in> {StatusPublished, StatusProcessing, StatusFailed}" "r_attempts r = n"
  shows "row_inv s (r\<lparr>r_status := StatusResubmitted, r_attempts := n + 1, r_resubmitted := d\<rparr>)"
proof -
  have "m < n + 1" if "(r_id r, m) \<in> set (px_claims s)" for m
    using row_invD(1) [OF assms(1) that] assms(3) by auto
  moreover have "m < n + 1" if "(r_id r, m, False) \<in> set (px_settled s)" for m
    using row_invD(2) [OF assms(1) that] assms(3) by auto
  moreover have "(r_id r, m, True) \<notin> set (px_settled s)" for m
    using assms(1,2) by (auto simp: row_inv_def)
  ultimately show ?thesis using assms(1) by (simp add: row_inv_def)
qed

lemma act_resubmit_inv:
  assumes "px_inv s"
  shows "px_inv (act_resubmit now i pid st n s)"
proof (cases "st \<noteq> StatusResubmitted \<and> 0 < fst (resubmit_statement pid n now (px_rows s))")
  case False
  then show ?thesis using assms by (auto simp: act_resubmit_def split: prod.splits)
next
  case True
  obtain affected rows where st: "resubmit_statement pid n now (px_rows s) = (affected, rows)" by fastforce
  have uniq: "unique_ids (px_rows s)" using assms by (simp add: px_inv_def)
  have aff: "0 < affected" using True st by simp
  have "\<exists>r0 \<in> set (px_rows s). r_id r0 = pid \<and> (r_id r0 = pid \<and>
      r_status r0 \<in> {StatusPublished, StatusProcessing, StatusFailed} \<and> r_attempts r0 = n) \<and>
    unique_ids rows \<and> (\<forall>r \<in> set rows. r = r0\<lparr>r_status := StatusResubmitted, r_attempts := n + 1,
        r_resubmitted := Some (formatTime now)\<rparr> \<or> r \<in> set (px_rows s) \<and> r_id r \<noteq> pid)"
    by (rule guarded_update [OF uniq _ _ st [unfolded resubmit_statement_def] aff]) simp_all
  then obtain r0 where r0: "r0 \<in> set (px_rows s)" "r_id r0 = pid" "r_attempts r0 = n"
    "r_status r0 \<in> {StatusPublished, StatusProcessing, StatusFailed}" "unique_ids rows"
    and new: "\<forall>r \<in> set rows. r = r0\<lparr>r_status := StatusResubmitted, r_attempts := n + 1,
        r_resubmitted := Some (formatTime now)\<rparr> \<or> r \<in> set (px_rows s) \<and> r_id r \<noteq> pid"
    by blast
  have "row_inv (s\<lparr>px_rows := rows\<rparr>) r" if "r \<in> set rows" for r
    using bspec [OF new that] px_inv_row [OF assms, of r]
      row_inv_resubmit [OF px_inv_row [OF assms r0(1)] r0(4,3), of "Some (formatTime now)"]
    by auto
  then have "px_inv (s\<lparr>px_rows := rows\<rparr>)" using assms r0(5) by (simp add: px_inv_def history_inv_def)
  then show ?thesis using st True by (simp add: act_resubmit_def)
qed

text \<open>A statement with history: only the row of \<open>pid\<close> and its history change.\<close>

lemma px_inv_change:
  assumes "px_inv s" "unique_ids (px_rows s')" "history_inv s'" "px_created s' = px_created s"
    and "set (px_claims s) \<subseteq> set (px_claims s')" "set (px_claims s') - set (px_claims s) \<subseteq> {pid} \<times> UNIV"
    and "set (px_settled s') - set (px_settled s) \<subseteq> {pid} \<times> UNIV"
    and "r_id ` set (px_archive s') \<subseteq> insert pid (r_id ` set (px_archive s))"
    and "\<And>r. r \<in> set (px_rows s') \<Longrightarrow> r_id r = pid \<Longrightarrow> row_inv s' r"
    and "\<And>r. r \<in> set (px_rows s') \<Longrightarrow> r_id r \<noteq> pid \<Longrightarrow> r \<in> set (px_rows s)"
  shows "px_inv s'"
proof -
  have "row_inv s' r" if r: "r \<in> set (px_rows s')" "r_id r \<noteq> pid" for r
  proof -
    have "row_inv s r" using assms(1) assms(10) [OF r] by (simp add: px_inv_def)
    moreover have "(r_id r, n) \<in> set (px_claims s') \<longleftrightarrow> (r_id r, n) \<in> set (px_claims s)" for n
      using assms(5,6) r(2) by blast
    moreover have "(r_id r, n, ok) \<in> set (px_settled s') \<Longrightarrow> (r_id r, n, ok) \<in> set (px_settled s)" for n ok
      using assms(7) r(2) by blast
    moreover have "r_id r \<in> r_id ` set (px_archive s') \<Longrightarrow> r_id r \<in> r_id ` set (px_archive s)"
      using assms(8) r(2) by blast
    ultimately show ?thesis unfolding row_inv_def assms(4) by blast
  qed
  then show ?thesis using assms(2,3,9) by (auto simp: px_inv_def)
qed

lemma act_claim_inv:
  assumes "px_inv s"
  shows "px_inv (act_claim now i pid n s)"
proof (cases "0 < fst (claim_statement pid n now (px_rows s))")
  case False
  then show ?thesis using assms by (auto simp: act_claim_def split: prod.splits)
next
  case True
  obtain affected rows where st: "claim_statement pid n now (px_rows s) = (affected, rows)" by fastforce
  have aff: "0 < affected" using True st by simp
  have uniq: "unique_ids (px_rows s)" using assms by (simp add: px_inv_def)
  have "\<exists>r0 \<in> set (px_rows s). r_id r0 = pid \<and> (r_id r0 = pid \<and>
      r_status r0 \<in> {StatusPublished, StatusResubmitted} \<and> r_attempts r0 = n) \<and>
    unique_ids rows \<and> (\<forall>r \<in> set rows. r = r0\<lparr>r_status := StatusProcessing, r_resubmitted := Some (formatTime now)\<rparr> \<or>
      r \<in> set (px_rows s) \<and> r_id r \<noteq> pid)"
    by (rule guarded_update [OF uniq _ _ st [unfolded claim_statement_def] aff]) simp_all
  then obtain r0 where r0: "r0 \<in> set (px_rows s)" "r_id r0 = pid" "r_attempts r0 = n"
    "r_status r0 \<in> {StatusPublished, StatusResubmitted}" "unique_ids rows"
    and new: "\<forall>r \<in> set rows. r = r0\<lparr>r_status := StatusProcessing, r_resubmitted := Some (formatTime now)\<rparr> \<or>
      r \<in> set (px_rows s) \<and> r_id r \<noteq> pid"
    by blast
  note inv0 = px_inv_row [OF assms r0(1), unfolded row_inv_def]
  have fresh: "(pid, n) \<notin> set (px_claims s)" using inv0 r0(2-4) by auto
  let ?s = "s\<lparr>px_rows := rows, px_claims := px_claims s @ [(pid, n)]\<rparr>"
  have "row_inv ?s (r0\<lparr>r_status := StatusProcessing, r_resubmitted := Some (formatTime now)\<rparr>)"
  proof -
    note row = row_invD [OF px_inv_row [OF assms r0(1)], unfolded r0(2,3)]
    have "m \<le> n" if "(pid, m) \<in> set (px_claims s)" for m using row(1) [OF that] by auto
    moreover have "m < n" if "(pid, m, False) \<in> set (px_settled s)" for m using row(2) [OF that] r0(4) by auto
    moreover have "(pid, m, True) \<notin> set (px_settled s)" for m using inv0 r0(2-4) by auto
    ultimately show ?thesis using inv0 r0(2,3) by (force simp: row_inv_def)
  qed
  moreover have "history_inv ?s"
    using assms fresh inv0 r0(2) by (auto simp: px_inv_def history_inv_def)
  ultimately have "px_inv ?s"
    using r0(2,5) new by (intro px_inv_change [OF assms, of ?s pid]) auto
  then show ?thesis using st aff by (simp add: act_claim_def)
qed

text \<open>Every settlement starts from a row in processing under the settled generation.\<close>

lemma settle_inv:
  assumes inv: "px_inv s"
    and r0: "r0 \<in> set (px_rows s)" "r_id r0 = pid" "r_status r0 = StatusProcessing" "r_attempts r0 = n"
    and rows: "unique_ids rows"
      "\<And>r. r \<in> set rows \<Longrightarrow> r_id r = pid \<Longrightarrow> r_attempts r = n \<and> pid \<notin> r_id ` set arch \<and>
         r_status r = (if ok then StatusCompleted else StatusFailed)"
      "\<And>r. r \<in> set rows \<Longrightarrow> r_id r \<noteq> pid \<Longrightarrow> r \<in> set (px_rows s)"
    and arch: "r_id ` set arch \<subseteq> insert pid (r_id ` set (px_archive s))"
  shows "px_inv (s\<lparr>px_rows := rows, px_archive := arch, px_settled := px_settled s @ [(pid, n, ok)]\<rparr>)"
proof -
  let ?s = "s\<lparr>px_rows := rows, px_archive := arch, px_settled := px_settled s @ [(pid, n, ok)]\<rparr>"
  note inv0 = px_inv_row [OF inv r0(1), unfolded row_inv_def]
  have claimed: "(pid, n) \<in> set (px_claims s)" and known: "pid \<in> set (px_created s)"
    using inv0 r0(2-4) by auto
  have lost: "m < n" if "(pid, m, False) \<in> set (px_settled s)" for m using inv0 r0(2-4) that by force
  have won: "(pid, m, True) \<notin> set (px_settled s)" for m using inv0 r0(2-4) by auto
  have claims: "m < n \<or> m = n" if "(pid, m) \<in> set (px_claims s)" for m using inv0 r0(2-4) that by force
  have "(pid, n, k) \<notin> set (px_settled s)" for k using lost won by (cases k) auto
  then have fresh: "(pid, n) \<notin> (\<lambda>(pid, n, ok). (pid, n)) ` set (px_settled s)" by auto
  have "row_inv ?s r" if "r \<in> set rows" "r_id r = pid" for r
  proof -
    have st: "r_attempts r = n" "pid \<notin> r_id ` set arch" "r_status r = (if ok then StatusCompleted else StatusFailed)"
      using rows(2) [OF that] by auto
    show ?thesis
    proof (cases ok)
      case True
      have "\<forall>m. (pid, m, False) \<in> set (px_settled s) \<longrightarrow> m < n" using lost by blast
      with True show ?thesis
        unfolding row_inv_def using st that(2) claimed known won claims by simp
    next
      case False
      have "\<forall>m. (pid, m, False) \<in> set (px_settled ?s) \<longrightarrow> m < n \<or> m = n" using lost by auto
      with False show ?thesis
        unfolding row_inv_def using st that(2) claimed known won claims by simp
    qed
  qed
  moreover have "r_id ` set (px_archive s) \<subseteq> set (px_created s)"
    using inv by (simp add: px_inv_def history_inv_def)
  then have sub: "r_id ` set arch \<subseteq> set (px_created s)" using order_trans [OF arch] known by simp
  have "history_inv s" using inv by (simp add: px_inv_def)
  then have "history_inv ?s"
    using fresh claimed sub unfolding history_inv_def by simp
  ultimately show ?thesis
  proof (intro px_inv_change [OF inv, of ?s pid])
    show "set (px_settled ?s) - set (px_settled s) \<subseteq> {pid} \<times> UNIV" by auto
  qed (use rows(1,3) arch in \<open>simp_all\<close>)
qed

lemma settled_row:
  assumes "\<forall>r \<in> set rows'. r = r1 \<or> r \<in> set rows \<and> r_id r \<noteq> pid" "r_id r1 = pid" "r \<in> set rows'"
  shows "r_id r = pid \<Longrightarrow> r = r1" "r_id r \<noteq> pid \<Longrightarrow> r \<in> set rows"
  using assms by auto

lemma act_fail_inv:
  assumes "px_inv s"
  shows "px_inv (act_fail i pid n s)"
proof (cases "0 < fst (fail_statement pid n (px_rows s))")
  case False
  then show ?thesis using assms by (auto simp: act_fail_def split: prod.splits)
next
  case True
  obtain affected rows where st: "fail_statement pid n (px_rows s) = (affected, rows)" by fastforce
  have aff: "0 < affected" using True st by simp
  have uniq: "unique_ids (px_rows s)" using assms by (simp add: px_inv_def)
  have "\<exists>r0 \<in> set (px_rows s). r_id r0 = pid \<and> generationCondition pid StatusProcessing n r0 \<and>
    unique_ids rows \<and> (\<forall>r \<in> set rows. r = r0\<lparr>r_status := StatusFailed\<rparr> \<or> r \<in> set (px_rows s) \<and> r_id r \<noteq> pid)"
    by (rule guarded_update [OF uniq _ _ st [unfolded fail_statement_def] aff])
       (simp_all add: generationCondition_def)
  then obtain r0 where r0: "r0 \<in> set (px_rows s)" "generationCondition pid StatusProcessing n r0"
    "unique_ids rows"
    "\<forall>r \<in> set rows. r = r0\<lparr>r_status := StatusFailed\<rparr> \<or> r \<in> set (px_rows s) \<and> r_id r \<noteq> pid"
    by blast
  have absent: "pid \<notin> r_id ` set (px_archive s)"
    using px_inv_row [OF assms r0(1)] r0(2) by (auto simp: row_inv_def generationCondition_def)
  have "px_inv (s\<lparr>px_rows := rows, px_archive := px_archive s, px_settled := px_settled s @ [(pid, n, False)]\<rparr>)"
  proof (rule settle_inv [OF assms r0(1)])
    fix r
    assume r: "r \<in> set rows"
    show "r_id r \<noteq> pid \<Longrightarrow> r \<in> set (px_rows s)"
      using settled_row(2) [OF r0(4) _ r] r0(2) by (simp add: generationCondition_def)
    assume "r_id r = pid"
    then have "r = r0\<lparr>r_status := StatusFailed\<rparr>"
      using settled_row(1) [OF r0(4) _ r] r0(2) by (simp add: generationCondition_def)
    then show "r_attempts r = n \<and> pid \<notin> r_id ` set (px_archive s) \<and>
        r_status r = (if False then StatusCompleted else StatusFailed)"
      using absent r0(2) by (simp add: generationCondition_def)
  qed (use r0(2,3) in \<open>auto simp: generationCondition_def\<close>)
  then show ?thesis using st aff by (simp add: act_fail_def)
qed

lemma delete_affected:
  assumes "delete_statement pid n rows = (affected, rows')"
  shows "0 < affected \<longleftrightarrow> (\<exists>r \<in> set rows. generationCondition pid StatusProcessing n r)"
    "rows' = filter (\<lambda>r. \<not> generationCondition pid StatusProcessing n r) rows"
  using assms by (auto simp: delete_statement_def delete_rows_def filter_empty_conv)

lemma deleted_rows:
  assumes "unique_ids rows" "r0 \<in> set rows" "generationCondition pid StatusProcessing n r0"
    and "delete_statement pid n rows = (affected, rows')"
  shows "unique_ids rows'" "r \<in> set rows' \<Longrightarrow> r \<in> set rows \<and> r_id r \<noteq> pid"
proof -
  show "unique_ids rows'"
    using assms(1) delete_affected(2) [OF assms(4)] by (simp add: unique_ids_def distinct_map_filter)
  assume "r \<in> set rows'"
  then have r: "r \<in> set rows" "\<not> generationCondition pid StatusProcessing n r"
    using delete_affected(2) [OF assms(4)] by simp_all
  have "r_id r \<noteq> r_id r0"
    using assms(1-3) r inj_onD [of r_id "set rows" r r0] by (auto simp: unique_ids_def distinct_map)
  then show "r \<in> set rows \<and> r_id r \<noteq> pid" using r(1) assms(3) by (simp add: generationCondition_def)
qed

lemma act_complete_inv:
  assumes "px_inv s"
  shows "px_inv (act_complete mode now i pid n s)"
proof (cases mode)
  case CompletionModeUpdate
  obtain affected rows where st: "complete_statement pid n now (px_rows s) = (affected, rows)" by fastforce
  show ?thesis
  proof (cases "0 < affected")
    case False
    then show ?thesis using assms st CompletionModeUpdate by (simp add: act_complete_def)
  next
    case True
    have uniq: "unique_ids (px_rows s)" using assms by (simp add: px_inv_def)
    let ?f = "\<lambda>r. r\<lparr>r_status := StatusCompleted, r_completed := Some (formatTime now)\<rparr>"
    have "\<exists>r0 \<in> set (px_rows s). r_id r0 = pid \<and> generationCondition pid StatusProcessing n r0 \<and>
      unique_ids rows \<and> (\<forall>r \<in> set rows. r = ?f r0 \<or> r \<in> set (px_rows s) \<and> r_id r \<noteq> pid)"
      by (rule guarded_update [OF uniq _ _ st [unfolded complete_statement_def] True])
         (simp_all add: generationCondition_def)
    then obtain r0 where r0: "r0 \<in> set (px_rows s)" "generationCondition pid StatusProcessing n r0"
      "unique_ids rows" "\<forall>r \<in> set rows. r = ?f r0 \<or> r \<in> set (px_rows s) \<and> r_id r \<noteq> pid"
      by blast
    have absent: "pid \<notin> r_id ` set (px_archive s)"
      using px_inv_row [OF assms r0(1)] r0(2) by (auto simp: row_inv_def generationCondition_def)
    have "px_inv (s\<lparr>px_rows := rows, px_archive := px_archive s, px_settled := px_settled s @ [(pid, n, True)]\<rparr>)"
    proof (rule settle_inv [OF assms r0(1)])
    fix r
    assume r: "r \<in> set rows"
    show "r_id r \<noteq> pid \<Longrightarrow> r \<in> set (px_rows s)"
      using settled_row(2) [OF r0(4) _ r] r0(2) by (simp add: generationCondition_def)
    assume "r_id r = pid"
    then have "r = ?f r0"
      using settled_row(1) [OF r0(4) _ r] r0(2) by (simp add: generationCondition_def)
    then show "r_attempts r = n \<and> pid \<notin> r_id ` set (px_archive s) \<and>
        r_status r = (if True then StatusCompleted else StatusFailed)"
      using absent r0(2) by (simp add: generationCondition_def)
  qed (use r0(2,3) in \<open>auto simp: generationCondition_def\<close>)
    then show ?thesis using st True CompletionModeUpdate by (simp add: act_complete_def)
  qed
next
  case CompletionModeDelete
  obtain affected rows where st: "delete_statement pid n (px_rows s) = (affected, rows)" by fastforce
  show ?thesis
  proof (cases "0 < affected")
    case False
    then show ?thesis using assms st CompletionModeDelete by (simp add: act_complete_def)
  next
    case True
    then obtain r0 where r0: "r0 \<in> set (px_rows s)" "generationCondition pid StatusProcessing n r0"
      using delete_affected(1) [OF st] by blast
    have uniq: "unique_ids (px_rows s)" using assms by (simp add: px_inv_def)
    have "px_inv (s\<lparr>px_rows := rows, px_archive := px_archive s, px_settled := px_settled s @ [(pid, n, True)]\<rparr>)"
      by (rule settle_inv [OF assms r0(1)])
         (use r0(2) deleted_rows [OF uniq r0 st] in \<open>auto simp: generationCondition_def\<close>)
    then show ?thesis using st True CompletionModeDelete by (simp add: act_complete_def)
  qed
next
  case CompletionModeArchive
  show ?thesis
  proof (cases "find (generationCondition pid StatusProcessing n) (px_rows s)")
    case None
    then show ?thesis using assms CompletionModeArchive by (simp add: act_complete_def)
  next
    case (Some r0)
    note r0 = find_holds [OF Some, THEN conjunct1] find_holds [OF Some, THEN conjunct2]
    obtain affected rows where st: "delete_statement pid n (px_rows s) = (affected, rows)" by fastforce
    have uniq: "unique_ids (px_rows s)" using assms by (simp add: px_inv_def)
    show ?thesis
    proof (cases "scanPublication r0 :: goerror + ('a, unit) publication")
      case (Inl err)
      then show ?thesis using assms CompletionModeArchive Some by (simp add: act_complete_def)
    next
      case (Inr p)
      have "p_id p = r_id r0"
        using Inr by (auto simp: scanPublication_def split: option.splits)
      then have pid: "r_id (archive_row now p) = pid"
        using r0(2) by (simp add: archive_row_def row_of_def generationCondition_def)
      have "px_inv (s\<lparr>px_rows := rows, px_archive := insert_archive (archive_row now p) (px_archive s),
          px_settled := px_settled s @ [(pid, n, True)]\<rparr>)"
        by (rule settle_inv [OF assms r0(1)])
           (use r0(2) deleted_rows [OF uniq r0 st] pid in
             \<open>auto simp: generationCondition_def insert_archive_def\<close>)
      then show ?thesis using st Some Inr CompletionModeArchive by (simp add: act_complete_def)
    qed
  qed
qed

lemma px_step_inv: "px_step mode s s' \<Longrightarrow> px_inv s \<Longrightarrow> px_inv s'"
proof (induction rule: px_step.induct)
  case (create r s)
  have fresh: "r_id r \<notin> fst ` set (px_claims s)" "r_id r \<notin> r_id ` set (px_archive s)"
    "\<forall>x \<in> set (px_rows s). r_id x \<noteq> r_id r"
    using create by (auto simp: px_inv_def history_inv_def row_inv_def)
  moreover have "(r_id r, n, ok) \<notin> set (px_settled s)" for n ok
    using create fresh(1) unfolding px_inv_def history_inv_def by force
  ultimately have "row_inv (s\<lparr>px_rows := px_rows s @ [r], px_created := px_created s @ [r_id r],
      px_agents := px_agents s @ [Holding (r_id r) 1]\<rparr>) r"
    using create by (auto simp: row_inv_def image_iff)
  then show ?case
    using create fresh by (auto simp: px_inv_def history_inv_def unique_ids_def row_inv_def)
next
  case (observe r s)
  then show ?case by simp
next
  case (agent i s now outcome)
  then show ?case
    by (auto simp: act_def act_resubmit_inv act_claim_inv act_fail_inv act_complete_inv split: agent.split bool.split)
next
  case (crash i s)
  then show ?case by simp
qed

lemma px_reachable_inv: "px_reachable mode s \<Longrightarrow> px_inv s"
proof (erule reach_invariant)
  show "px_inv s" if "s = px_empty" for s :: "'a protocol"
    by (simp add: that px_empty_def px_inv_def history_inv_def unique_ids_def)
  show "px_inv t" if "px_inv s" "px_step mode s t" for s t :: "'a protocol"
    using px_step_inv [OF that(2,1)] .
qed

section \<open>Properties\<close>

fun generation_of :: "'id agent \<Rightarrow> ('id \<times> int) list" where
  "generation_of (Delivering pid n) = [(pid, n)]"
| "generation_of (Delivered pid n ok) = [(pid, n)]"
| "generation_of a = []"

definition agents_inv :: "'id protocol \<Rightarrow> bool" where
  "agents_inv s \<longleftrightarrow> mset (concat (map generation_of (px_agents s))) \<subseteq># mset (px_claims s)"

lemma agents_set:
  assumes "agents_inv s" "i < length (px_agents s)" "generation_of a = [] \<or> generation_of a = generation_of (px_agents s ! i)"
  shows "agents_inv (set_agent i a s)"
proof -
  have "mset (concat (map generation_of ((px_agents s)[i := a]))) + mset (generation_of (px_agents s ! i)) =
      mset (concat (map generation_of (px_agents s))) + mset (generation_of a)"
    by (rule mset_concat_update [OF assms(2)])
  then have "mset (concat (map generation_of ((px_agents s)[i := a]))) \<subseteq># mset (concat (map generation_of (px_agents s)))"
    using assms(3) by (metis add.right_neutral add_right_cancel mset.simps(1) mset_subset_eq_add_left subset_mset.order_refl)
  then show ?thesis using assms(1) unfolding agents_inv_def set_agent_def by simp
qed

lemma agents_rest:
  "px_agents s' = px_agents s \<Longrightarrow> px_claims s' = px_claims s \<Longrightarrow> agents_inv s' = agents_inv s"
  by (simp add: agents_inv_def)

lemma act_agents_inv:
  assumes "agents_inv s" "i < length (px_agents s)"
  shows "agents_inv (act mode now outcome i s)"
proof (cases "px_agents s ! i")
  case (Observed pid st n)
  then show ?thesis
    using agents_set [OF assms, of Done] agents_set [OF assms, of "Holding pid m" for m]
      agents_set [of "s\<lparr>px_rows := rows\<rparr>" i "Holding pid m" for rows m] assms
    by (auto simp: act_def act_resubmit_def agents_rest [of "s\<lparr>px_rows := rows\<rparr>" s for rows] split: prod.splits)
next
  case (Holding pid n)
  obtain affected rows where st: "claim_statement pid n now (px_rows s) = (affected, rows)" by fastforce
  let ?s = "s\<lparr>px_rows := rows, px_claims := px_claims s @ [(pid, n)]\<rparr>"
  have "mset (concat (map generation_of ((px_agents s)[i := Delivering pid n]))) =
      mset (concat (map generation_of (px_agents s))) + {#(pid, n)#}"
    using mset_concat_update [OF assms(2), of generation_of "Delivering pid n"] Holding by simp
  then have "agents_inv (set_agent i (Delivering pid n) ?s)"
    using assms(1) by (simp add: agents_inv_def set_agent_def)
  then show ?thesis
    using agents_set [OF assms, of Done] st Holding by (simp add: act_def act_claim_def)
next
  case (Delivering pid n)
  then show ?thesis using agents_set [OF assms] by (simp add: act_def)
next
  case (Delivered pid n ok)
  have finish: "agents_inv (set_agent i Done s')"
    if "px_agents s' = px_agents s" "px_claims s' = px_claims s" for s' :: "'a protocol"
    using agents_set [of s' i Done] agents_rest [OF that] that assms by simp
  show ?thesis
    using Delivered
    by (auto simp: act_def act_fail_def act_complete_def Let_def intro!: finish
        split: bool.split completion_mode.split prod.split option.split sum.split)
next
  case Done
  then show ?thesis using assms by (simp add: act_def)
qed

lemma px_reachable_agents: "px_reachable mode s \<Longrightarrow> agents_inv s"
proof (erule reach_invariant)
  show "agents_inv t" if "agents_inv s" "px_step mode s t" for s t :: "'a protocol"
    using that(2,1)
  proof (induction rule: px_step.induct)
    case (crash i s)
    then show ?case using agents_set [of s i Done] by simp
  qed (auto simp: agents_inv_def act_agents_inv [unfolded agents_inv_def])
qed (simp add: agents_inv_def px_empty_def)

lemma distinct_concat_disjoint:
  "distinct (concat (map g xs)) \<Longrightarrow> i < j \<Longrightarrow> j < length xs \<Longrightarrow> set (g (xs ! i)) \<inter> set (g (xs ! j)) = {}"
proof (induction xs arbitrary: i j)
  case (Cons x xs)
  show ?case
  proof (cases i)
    case 0
    then obtain k where "j = Suc k" "k < length xs" using Cons.prems by (cases j) auto
    then show ?thesis using 0 Cons.prems(1) by (force dest: nth_mem)
  next
    case (Suc m)
    then obtain k where "j = Suc k" using Cons.prems(2) by (cases j) auto
    then show ?thesis using Suc Cons by simp
  qed
qed simp

text \<open>C23: a delivery generation has one dispatcher. In every interleaving of any number of
  dispatchers, resubmission passes and crashes, each (publication, attempt) is claimed at most
  once, and no two agents are ever delivering or settling the same one.\<close>

theorem each_generation_has_one_dispatcher:
  assumes "px_reachable mode s"
  shows "distinct (px_claims s) \<and>
    (\<forall>i j. i < length (px_agents s) \<and> j < length (px_agents s) \<and> i \<noteq> j \<longrightarrow>
       set (generation_of (px_agents s ! i)) \<inter> set (generation_of (px_agents s ! j)) = {})"
proof (intro conjI allI impI)
  show claims: "distinct (px_claims s)"
    using px_reachable_inv [OF assms] by (simp add: px_inv_def history_inv_def)
  obtain more where "mset (px_claims s) = mset (concat (map generation_of (px_agents s)) @ more)"
    using px_reachable_agents [OF assms] ex_mset unfolding agents_inv_def
    by (metis mset_append subset_mset.le_iff_add)
  then have "distinct (concat (map generation_of (px_agents s)))"
    using claims mset_eq_imp_distinct_iff by (metis distinct_append)
  then show "set (generation_of (px_agents s ! i)) \<inter> set (generation_of (px_agents s ! j)) = {}"
    if "i < length (px_agents s) \<and> j < length (px_agents s) \<and> i \<noteq> j" for i j
    using that distinct_concat_disjoint [of generation_of "px_agents s"]
    by (cases "i < j") (simp, metis Int_commute linorder_neqE_nat)
qed

definition demo_row :: "nat row" where
  "demo_row = \<lparr>r_id = 1, r_listener = ''l'', r_type = ''t'', r_payload = ''p'',
     r_date = formatTime (Instant 2024 1 1 0 0 0 0), r_completed = None, r_status = StatusPublished,
     r_attempts = 1, r_resubmitted = Some (formatTime (Instant 2024 1 1 0 0 0 0))\<rparr>"

primrec demo_px :: "nat \<Rightarrow> nat protocol" where
  "demo_px 0 = px_empty\<lparr>px_rows := [demo_row], px_created := [1], px_agents := [Holding 1 1]\<rparr>"
| "demo_px (Suc k) = act CompletionModeArchive (Instant 2024 1 1 0 0 5 0) True 0 (demo_px k)"

lemma demo_px_reachable: "px_reachable CompletionModeArchive (demo_px k)"
proof (induction k)
  case 0
  have "px_step CompletionModeArchive px_empty
      (px_empty\<lparr>px_rows := px_rows px_empty @ [demo_row], px_created := px_created px_empty @ [r_id demo_row],
        px_agents := px_agents px_empty @ [Holding (r_id demo_row) 1]\<rparr>)"
    by (rule px_step.create) (simp_all add: px_empty_def demo_row_def)
  then have "px_step CompletionModeArchive px_empty (demo_px 0)"
    by (simp add: px_empty_def demo_row_def)
  moreover have "px_reachable CompletionModeArchive px_empty" by (rule reach_init) simp
  ultimately show ?case by (rule reach_step [rotated])
next
  case (Suc k)
  have "length (px_agents (act mode now ok i s)) = length (px_agents s)" for mode now ok i and s :: "nat protocol"
    by (auto simp: act_def act_resubmit_def act_claim_def act_fail_def act_complete_def Let_def
        split: agent.split bool.split completion_mode.split prod.split option.split sum.split)
  then have "length (px_agents (demo_px k)) = 1"
    by (induction k) simp_all
  then have "px_step CompletionModeArchive (demo_px k)
      (act CompletionModeArchive (Instant 2024 1 1 0 0 5 0) True 0 (demo_px k))"
    by (intro px_step.agent) simp
  then have "px_step CompletionModeArchive (demo_px k) (demo_px (Suc k))"
    by simp
  with Suc show ?case by (rule reach_step)
qed

lemmas demo_px_simps =
  Let_def act_def act_claim_def claim_statement_def update_rows_def set_agent_def
  px_empty_def demo_row_def act_complete_def generationCondition_def delete_statement_def
  delete_rows_def insert_archive_def archive_row_def row_of_def status_defs

theorem each_generation_has_one_dispatcher_witness:
  "px_claims (demo_px (Suc 0)) = [(1, 1)] \<and> distinct (px_claims (demo_px (Suc 0)))"
  using each_generation_has_one_dispatcher [OF demo_px_reachable, of "Suc 0"]
  by (simp add: demo_px_simps del: formatTime.simps)

lemma act_frames [simp]:
  "px_settled (act_resubmit now i pid st n s) = px_settled s"
  "px_claims (act_resubmit now i pid st n s) = px_claims s"
  "px_settled (act_claim now i pid n s) = px_settled s"
  "px_claims (act_fail i pid n s) = px_claims s"
  "px_claims (act_complete mode now i pid n s) = px_claims s"
  by (simp_all add: act_resubmit_def act_claim_def act_fail_def act_complete_def Let_def
      split: prod.split completion_mode.split option.split sum.split)

lemma act_settled: "set (px_settled s) \<subseteq> set (px_settled (act mode now ok i s))"
proof -
  have "set (px_settled s) \<subseteq> set (px_settled (act_fail i pid n s))" for pid n
    by (simp add: act_fail_def split: prod.split) blast
  moreover have "set (px_settled s) \<subseteq> set (px_settled (act_complete mode now i pid n s))" for pid n
    by (simp add: act_complete_def Let_def split: prod.split completion_mode.split option.split sum.split) blast
  ultimately show ?thesis by (simp add: act_def split: agent.split bool.split)
qed

lemma settled_step: "px_step mode s s' \<Longrightarrow> set (px_settled s) \<subseteq> set (px_settled s')"
  by (induction rule: px_step.induct) (simp_all add: act_settled)

lemma update_hit: "0 < fst (update_rows P f rows) \<longleftrightarrow> (\<exists>r \<in> set rows. P r)"
  by (auto simp: update_rows_def filter_empty_conv)

lemma claims_step:
  assumes "px_step mode s s'" "px_inv s" "(pid, n, True) \<in> set (px_settled s)"
  shows "(pid, m) \<in> set (px_claims s') \<longleftrightarrow> (pid, m) \<in> set (px_claims s)"
  using assms
proof (induction rule: px_step.induct)
  case (agent i s now outcome)
  show ?case
  proof (cases "px_agents s ! i")
    case (Holding p k)
    obtain affected rows where st: "claim_statement p k now (px_rows s) = (affected, rows)" by fastforce
    have "affected = 0" if here: "p = pid"
    proof (rule ccontr)
      assume "affected \<noteq> 0"
      then have "0 < fst (claim_statement p k now (px_rows s))" using st by simp
      then obtain r where r: "r \<in> set (px_rows s)" "r_id r = pid" "r_status r \<in> {StatusPublished, StatusResubmitted}"
        unfolding claim_statement_def update_hit using here by blast
      have "\<forall>n. (r_id r, n, True) \<in> set (px_settled s) \<longrightarrow> n = r_attempts r \<and> r_status r = StatusCompleted"
        using px_inv_row [OF agent(2) r(1)] by (simp add: row_inv_def)
      then have "r_status r = StatusCompleted" using agent(3) r(2) by blast
      then show False using r(3) by simp
    qed
    then show ?thesis using Holding st by (cases "p = pid") (auto simp: act_def act_claim_def)
  qed (simp_all add: act_def split: bool.split)
qed auto

text \<open>C24: completion is final. Once the success of a publication has been settled, no
  interleaving claims it again: its listener is never started anew, and its row is gone or
  stays completed.\<close>

theorem completion_is_final:
  assumes "px_reachable mode s" "(pid, n, True) \<in> set (px_settled s)" "(px_step mode)\<^sup>*\<^sup>* s s'"
  shows "{m. (pid, m) \<in> set (px_claims s')} = {m. (pid, m) \<in> set (px_claims s)} \<and>
    (\<forall>r. lookup pid (px_rows s') = Some r \<longrightarrow> r_status r = StatusCompleted)"
proof -
  have "px_inv s' \<and> (pid, n, True) \<in> set (px_settled s') \<and>
      (\<forall>m. (pid, m) \<in> set (px_claims s') \<longleftrightarrow> (pid, m) \<in> set (px_claims s))"
    using assms(3)
  proof (induction rule: rtranclp_induct)
    case base
    then show ?case using px_reachable_inv [OF assms(1)] assms(2) by simp
  next
    case (step t u)
    then have "px_inv t" "(pid, n, True) \<in> set (px_settled t)" by blast+
    with step show ?case
      using px_step_inv [OF step(2)] settled_step [OF step(2)] claims_step [OF step(2)] by blast
  qed
  moreover have "r_status r = StatusCompleted" if "lookup pid (px_rows s') = Some r" "px_inv s'"
    "(pid, n, True) \<in> set (px_settled s')" for r
  proof -
    have "r \<in> set (px_rows s')" "r_id r = pid" using find_holds [OF that(1) [unfolded lookup_def]] by simp_all
    then show ?thesis using px_inv_row [OF that(2)] that(3) by (auto simp: row_inv_def)
  qed
  ultimately show ?thesis by blast
qed

lemma demo_settled: "(1, 1, True) \<in> set (px_settled (demo_px (Suc (Suc (Suc 0)))))"
proof -
  have p: "parseTime (formatTime (Instant 2024 1 1 0 0 m 0)) = Some (Instant 2024 1 1 0 0 m 0)" if "m < 60" for m
    by (rule parseTime_formatTime) (simp add: days_in_def that)
  let ?t = "formatTime (Instant 2024 1 1 0 0 5 0)"
  have "px_rows (demo_px (Suc (Suc 0))) = [demo_row\<lparr>r_status := StatusProcessing, r_resubmitted := Some ?t\<rparr>]"
    "px_agents (demo_px (Suc (Suc 0))) = [Delivered 1 1 True]"
    by (simp_all add: demo_px_simps del: formatTime.simps)
  moreover have "\<exists>q. (scanPublication (demo_row\<lparr>r_status := StatusProcessing, r_resubmitted := Some ?t\<rparr>)
      :: goerror + (nat, unit) publication) = Inr q"
    using p [of 0] p [of 5] by (simp add: scanPublication_def demo_row_def del: formatTime.simps)
  ultimately show ?thesis
    by (auto simp: act_def act_complete_def Let_def generationCondition_def demo_row_def set_agent_def)
qed

theorem completion_is_final_witness:
  "(case lookup 1 (px_rows (demo_px (Suc (Suc (Suc 0))))) of None \<Rightarrow> True | Some r \<Rightarrow> r_status r = StatusCompleted)"
  using completion_is_final [OF demo_px_reachable demo_settled rtranclp.rtrancl_refl] by (simp split: option.split)

text \<open>A dispatcher has lost its publication when a later generation of it was claimed, when its own was
  settled, when the row carries another generation or has left processing, or when it is gone.\<close>

definition superseded :: "'id protocol \<Rightarrow> 'id \<Rightarrow> int \<Rightarrow> bool" where
  "superseded s pid n \<longleftrightarrow> (\<exists>n'. (pid, n') \<in> set (px_claims s) \<and> n < n') \<or> (\<exists>ok. (pid, n, ok) \<in> set (px_settled s)) \<or>
     (\<forall>r \<in> set (px_rows s). r_id r = pid \<longrightarrow> r_attempts r \<noteq> n \<or> r_status r \<noteq> StatusProcessing)"

lemma superseded_misses:
  assumes "px_inv s" "superseded s pid n" "r \<in> set (px_rows s)"
  shows "\<not> generationCondition pid StatusProcessing n r"
proof
  assume hit: "generationCondition pid StatusProcessing n r"
  then have r: "r_id r = pid" "r_attempts r = n" "r_status r = StatusProcessing" by (simp_all add: generationCondition_def)
  note inv = px_inv_row [OF assms(1,3), unfolded row_inv_def r]
  from assms(2) consider n' where "(pid, n') \<in> set (px_claims s)" "n < n'" | ok where "(pid, n, ok) \<in> set (px_settled s)"
    using assms(3) r unfolding superseded_def by blast
  then show False
  proof cases
    case 1
    then show False using inv by fastforce
  next
    case 2
    then show False using inv by (cases ok) auto
  qed
qed

text \<open>A settlement whose condition no row satisfies changes nothing; one whose row is there takes effect.\<close>

lemma settlement_misses:
  assumes "\<And>r. r \<in> set (px_rows s) \<Longrightarrow> \<not> generationCondition pid StatusProcessing n r" "px_agents s ! i = Delivered pid n ok"
  shows "act mode now outcome i s = set_agent i Done s"
proof -
  have "fst (fail_statement pid n (px_rows s)) = 0" "fst (complete_statement pid n now (px_rows s)) = 0"
    "fst (delete_statement pid n (px_rows s)) = 0" "find (generationCondition pid StatusProcessing n) (px_rows s) = None"
    using assms(1) by (auto simp: fail_statement_def complete_statement_def delete_statement_def update_rows_def
        delete_rows_def find_None_iff filter_empty_conv)
  then show ?thesis
    using assms(2) by (auto simp: act_def act_fail_def act_complete_def Let_def
        split: bool.split completion_mode.split prod.split)
qed

lemma settlement_hits:
  assumes "r \<in> set (px_rows s)" "generationCondition pid StatusProcessing n r" "px_agents s ! i = Delivered pid n ok"
    and "mode \<noteq> CompletionModeArchive \<or> \<not> ok"
  shows "px_settled (act mode now outcome i s) = px_settled s @ [(pid, n, ok)]"
proof -
  have "0 < fst (fail_statement pid n (px_rows s))" "0 < fst (complete_statement pid n now (px_rows s))"
    "0 < fst (delete_statement pid n (px_rows s))"
    using assms(1,2) by (auto simp: fail_statement_def complete_statement_def delete_statement_def update_rows_def
        delete_rows_def filter_empty_conv)
  then show ?thesis
    using assms(3,4) by (cases mode) (auto simp: act_def act_fail_def act_complete_def Let_def split: bool.split prod.split)
qed

text \<open>C25: a dispatcher that lost its publication is fenced out. If a later generation was claimed, or the
  agent's own generation was settled, or the row is gone, carries another generation or has left
  processing, the agent's settlement changes no row, no archive entry and no history; a dispatcher whose
  row is still in processing under its generation does settle it (archiving apart, which first has to read
  the row); and every settlement that took effect was of a claimed generation, at most one per generation.\<close>

theorem settlements_are_fenced:
  assumes "px_reachable mode s"
  shows "(\<forall>i pid n ok. px_agents s ! i = Delivered pid n ok \<and>
       ((\<exists>n'. (pid, n') \<in> set (px_claims s) \<and> n < n') \<or> (\<exists>ok'. (pid, n, ok') \<in> set (px_settled s)) \<or>
        (\<forall>r \<in> set (px_rows s). r_id r = pid \<longrightarrow> r_attempts r \<noteq> n \<or> r_status r \<noteq> StatusProcessing)) \<longrightarrow>
       act mode now outcome i s = set_agent i Done s) \<and>
    (\<forall>i pid n ok. px_agents s ! i = Delivered pid n ok \<and> (mode \<noteq> CompletionModeArchive \<or> \<not> ok) \<and>
       (\<exists>r \<in> set (px_rows s). r_id r = pid \<and> r_attempts r = n \<and> r_status r = StatusProcessing) \<longrightarrow>
       px_settled (act mode now outcome i s) = px_settled s @ [(pid, n, ok)]) \<and>
    (\<forall>pid n ok. (pid, n, ok) \<in> set (px_settled s) \<longrightarrow> (pid, n) \<in> set (px_claims s)) \<and>
    distinct (map (\<lambda>(pid, n, ok). (pid, n)) (px_settled s))"
proof (intro conjI)
  have inv: "px_inv s" by (rule px_reachable_inv [OF assms])
  show "\<forall>i pid n ok. px_agents s ! i = Delivered pid n ok \<and>
       ((\<exists>n'. (pid, n') \<in> set (px_claims s) \<and> n < n') \<or> (\<exists>ok'. (pid, n, ok') \<in> set (px_settled s)) \<or>
        (\<forall>r \<in> set (px_rows s). r_id r = pid \<longrightarrow> r_attempts r \<noteq> n \<or> r_status r \<noteq> StatusProcessing)) \<longrightarrow>
       act mode now outcome i s = set_agent i Done s"
    by (intro allI impI, elim conjE, rule settlement_misses, rule superseded_misses [OF inv]) (simp_all add: superseded_def)
  show "\<forall>i pid n ok. px_agents s ! i = Delivered pid n ok \<and> (mode \<noteq> CompletionModeArchive \<or> \<not> ok) \<and>
       (\<exists>r \<in> set (px_rows s). r_id r = pid \<and> r_attempts r = n \<and> r_status r = StatusProcessing) \<longrightarrow>
       px_settled (act mode now outcome i s) = px_settled s @ [(pid, n, ok)]"
    by (intro allI impI, elim conjE bexE, rule settlement_hits) (simp_all add: generationCondition_def)
  have "history_inv s" using inv by (simp add: px_inv_def)
  then show "distinct (map (\<lambda>(pid, n, ok). (pid, n)) (px_settled s))"
    "\<forall>pid n ok. (pid, n, ok) \<in> set (px_settled s) \<longrightarrow> (pid, n) \<in> set (px_claims s)"
    by (auto simp: history_inv_def)
qed

theorem settlements_are_fenced_witness:
  "(1, 1) \<in> set (px_claims (demo_px (Suc (Suc (Suc 0)))))"
  using settlements_are_fenced [OF demo_px_reachable, of "Suc (Suc (Suc 0))"] demo_settled by blast

section \<open>Nothing is lost\<close>

definition kept :: "completion_mode \<Rightarrow> 'id protocol \<Rightarrow> 'id \<Rightarrow> bool" where
  "kept mode s pid \<longleftrightarrow> pid \<in> r_id ` set (px_rows s) \<or>
     (\<exists>n. (pid, n, True) \<in> set (px_settled s)) \<and> mode \<noteq> CompletionModeUpdate \<and>
     (mode = CompletionModeArchive \<longrightarrow> pid \<in> r_id ` set (px_archive s))"

lemma update_ids:
  assumes "\<And>r. r_id (f r) = r_id r"
  shows "r_id ` set (snd (update_rows P f rows)) = r_id ` set rows"
proof -
  have "map r_id (snd (update_rows P f rows)) = map r_id rows" using assms by (simp add: update_rows_def)
  from arg_cong [OF this, of set] show ?thesis by simp
qed

lemma kept_agent [simp]: "kept mode (set_agent i a s) pid = kept mode s pid"
  by (simp add: kept_def)

lemma statement_ids [simp]:
  "r_id ` set (snd (resubmit_statement pid n now rows)) = r_id ` set rows"
  "r_id ` set (snd (claim_statement pid n now rows)) = r_id ` set rows"
  "r_id ` set (snd (fail_statement pid n rows)) = r_id ` set rows"
  "r_id ` set (snd (complete_statement pid n now rows)) = r_id ` set rows"
  by (simp_all add: resubmit_statement_def claim_statement_def fail_statement_def complete_statement_def
      update_ids)

lemma delete_ids: "r_id ` set rows \<subseteq> insert pid (r_id ` set (snd (delete_statement pid n rows)))"
  by (auto simp: delete_statement_def delete_rows_def generationCondition_def)

lemma archive_holds: "r_id r \<in> r_id ` set (insert_archive r rows)" "r_id ` set rows \<subseteq> r_id ` set (insert_archive r rows)"
  by (auto simp: insert_archive_def list_ex_iff) (metis imageI)

lemma kept_mono:
  "kept mode s pid \<Longrightarrow> r_id ` set (px_rows s) \<subseteq> r_id ` set (px_rows s') \<Longrightarrow>
   set (px_settled s) \<subseteq> set (px_settled s') \<Longrightarrow> r_id ` set (px_archive s) \<subseteq> r_id ` set (px_archive s') \<Longrightarrow>
   kept mode s' pid"
  unfolding kept_def by blast

lemma act_complete_kept:
  assumes "kept mode s pid'"
  shows "kept mode (act_complete mode now i pid n s) pid'"
proof (cases mode)
  case CompletionModeUpdate
  then show ?thesis
    using assms by (auto simp: act_complete_def Let_def case_prod_beta intro: kept_mono)
next
  case CompletionModeDelete
  then show ?thesis
    using assms delete_ids [of "px_rows s" pid n]
    by (auto simp: act_complete_def Let_def case_prod_beta kept_def)
next
  case CompletionModeArchive
  show ?thesis
  proof (cases "find (generationCondition pid StatusProcessing n) (px_rows s)")
    case None
    then show ?thesis using assms CompletionModeArchive by (simp add: act_complete_def)
  next
    case (Some r)
    show ?thesis
    proof (cases "scanPublication r :: goerror + ('a, unit) publication")
      case (Inl e)
      then show ?thesis using assms CompletionModeArchive Some by (simp add: act_complete_def)
    next
      case (Inr p)
      have "p_id p = r_id r" using Inr by (auto simp: scanPublication_def split: option.splits)
      then have "r_id (archive_row now p) = pid"
        using find_holds [OF Some] by (simp add: archive_row_def row_of_def generationCondition_def)
      then have "pid \<in> r_id ` set (insert_archive (archive_row now p) (px_archive s))"
        using archive_holds(1) by metis
      then show ?thesis
        using assms CompletionModeArchive Some Inr delete_ids [of "px_rows s" pid n]
          archive_holds(2) [of "px_archive s" "archive_row now p"]
        by (auto simp: act_complete_def kept_def)
    qed
  qed
qed

lemma act_kept: "kept mode s pid \<Longrightarrow> kept mode (act mode now ok i s) pid"
proof (cases "px_agents s ! i")
  case (Delivered p n k)
  assume "kept mode s pid"
  then show ?thesis
    using Delivered act_complete_kept [of mode s pid]
    by (cases k) (auto simp: act_def act_fail_def case_prod_beta intro: kept_mono)
qed (auto simp: act_def act_resubmit_def act_claim_def case_prod_beta intro: kept_mono)

text \<open>C26: nothing is lost. Every publication ever created is in the publication table until its
  success has been settled; a completed one stays there in update mode, and in archive mode
  it is in the archive table, so at every moment it is in exactly one of the two.\<close>

theorem publications_are_never_lost:
  assumes "px_reachable mode s" "pid \<in> set (px_created s)"
  shows "kept mode s pid \<and> \<not> (pid \<in> r_id ` set (px_rows s) \<and> pid \<in> r_id ` set (px_archive s))"
proof
  have "\<forall>pid \<in> set (px_created s). kept mode s pid"
    using assms(1)
  proof (rule reach_invariant)
    show "\<forall>pid \<in> set (px_created t). kept mode t pid"
      if "\<forall>pid \<in> set (px_created s). kept mode s pid" "px_step mode s t" for s t :: "'a protocol"
      using that(2,1)
    proof (induction rule: px_step.induct)
      case (agent i s now outcome)
      have "px_created (act mode now outcome i s) = px_created s"
        by (auto simp: act_def act_resubmit_def act_claim_def act_fail_def act_complete_def Let_def
            split: agent.split bool.split completion_mode.split prod.split option.split sum.split)
      then show ?case using agent act_kept by metis
    qed (auto simp: kept_def)
  qed (simp add: px_empty_def)
  then show "kept mode s pid" using assms(2) by blast
  show "\<not> (pid \<in> r_id ` set (px_rows s) \<and> pid \<in> r_id ` set (px_archive s))"
    using px_reachable_inv [OF assms(1)] by (auto simp: px_inv_def row_inv_def)
qed

theorem publications_are_never_lost_witness:
  "kept CompletionModeArchive (demo_px (Suc (Suc (Suc 0)))) 1"
proof -
  have "px_created (demo_px k) = [1]" for k
    by (induction k)
       (auto simp: act_def act_resubmit_def act_claim_def act_fail_def act_complete_def Let_def
            split: agent.split bool.split completion_mode.split prod.split option.split sum.split)
  then show ?thesis using publications_are_never_lost [OF demo_px_reachable, of 1] by (metis list.set_intros(1))
qed

end
