(* ===== verification/OutboxRegistry.thy ===== *)
theory OutboxRegistry
  imports OutboxStore EventBus
begin

text \<open>
  The outbox registry, publisher and serializer (outbox/registry.go, outbox/serializer.go). As in
  the code, the registry reaches its store, bus and serializer through interfaces: a record of
  operations on a state \<open>'d\<close>, each of which may change that state in any way. \<open>sql_registry\<close>
  plugs in the SQL store and the synchronous bus. Fresh identifiers and the clock are
  operations too.
\<close>

section \<open>The interfaces of the registry\<close>

record ('id, 'e, 'd) registry =
  store_create :: "('id, 'e) publication \<Rightarrow> 'd \<Rightarrow> goerror option \<times> 'd"
  store_claim :: "'id \<Rightarrow> int \<Rightarrow> 'd \<Rightarrow> (goerror + bool) \<times> 'd"
  store_completed :: "'id \<Rightarrow> int \<Rightarrow> instant \<Rightarrow> 'd \<Rightarrow> (goerror + bool) \<times> 'd"
  store_failed :: "'id \<Rightarrow> int \<Rightarrow> 'd \<Rightarrow> (goerror + bool) \<times> 'd"
  store_resubmitted :: "'id \<Rightarrow> int \<Rightarrow> instant \<Rightarrow> 'd \<Rightarrow> (goerror + int option) \<times> 'd"
  store_incomplete :: "'d \<Rightarrow> (goerror + ('id, 'e) publication list) \<times> 'd"
  store_incomplete_before :: "instant \<Rightarrow> 'd \<Rightarrow> (goerror + ('id, 'e) publication list) \<times> 'd"
  bus_listeners :: "'e \<Rightarrow> 'd \<Rightarrow> string list"
  bus_deliver :: "string \<Rightarrow> 'e option \<Rightarrow> 'd \<Rightarrow> goerror option \<times> 'd"
  serialize :: "'e \<Rightarrow> goerror + (string \<times> string)"
  deserialize :: "string \<Rightarrow> string \<Rightarrow> goerror + 'e"
  clock_now :: "'d \<Rightarrow> instant \<times> 'd"
  clock_before :: "int \<Rightarrow> 'd \<Rightarrow> instant \<times> 'd"
  fresh_id :: "'d \<Rightarrow> (goerror + 'id) \<times> 'd"

section \<open>Publishing\<close>

definition new_publication :: "'id \<Rightarrow> string \<Rightarrow> string \<Rightarrow> string \<Rightarrow> 'e \<Rightarrow> instant \<Rightarrow> ('id, 'e) publication" where
  "new_publication pid listener etype payload event now =
     \<lparr>p_id = pid, p_listener = listener, p_type = etype, p_payload = payload, p_event = Some event,
      p_date = now, p_completed = None, p_status = StatusPublished, p_attempts = 1,
      p_resubmitted = Some now\<rparr>"

fun publish_all ::
  "('id, 'e, 'd) registry \<Rightarrow> string list \<Rightarrow> string \<Rightarrow> string \<Rightarrow> 'e \<Rightarrow> instant \<Rightarrow> 'd \<Rightarrow>
   (goerror + ('id, 'e) publication list) \<times> 'd" where
  "publish_all R [] etype payload event now d = (Inr [], d)"
| "publish_all R (listener # others) etype payload event now d =
     (case fresh_id R d of
        (Inl err, d1) \<Rightarrow> (Inl (Wrap ''generate publication identifier: %w'' [err]), d1)
      | (Inr pid, d1) \<Rightarrow>
         (let p = new_publication pid listener etype payload event now
          in (case store_create R p d1 of
              (Some err, d2) \<Rightarrow> (Inl err, d2)
            | (None, d2) \<Rightarrow> (case publish_all R others etype payload event now d2 of
                (Inl err, d3) \<Rightarrow> (Inl err, d3)
              | (Inr ps, d3) \<Rightarrow> (Inr (p # ps), d3)))))"

definition Registry_Publish ::
  "('id, 'e, 'd) registry \<Rightarrow> 'e \<Rightarrow> 'd \<Rightarrow> (goerror + ('id, 'e) publication list) \<times> 'd" where
  "Registry_Publish R event d =
     (let listeners = bus_listeners R event d
      in if listeners = [] then (Inr [], d)
         else (case serialize R event of
            Inl err \<Rightarrow> (Inl err, d)
          | Inr (etype, payload) \<Rightarrow>
              (let (now, d1) = clock_now R d in publish_all R listeners etype payload event now d1)))"

section \<open>Dispatching\<close>

text \<open>A fenced settlement is only reported to the log.\<close>

definition dispatch :: "('id, 'e, 'd) registry \<Rightarrow> ('id, 'e) publication \<Rightarrow> 'd \<Rightarrow> goerror option \<times> 'd" where
  "dispatch R p d =
     (case store_claim R (p_id p) (p_attempts p) d of
        (Inl err, d1) \<Rightarrow> (Some err, d1)
      | (Inr False, d1) \<Rightarrow> (None, d1)
      | (Inr True, d1) \<Rightarrow>
         (case bus_deliver R (p_listener p) (p_event p) d1 of
            (Some err, d2) \<Rightarrow>
              (let deliveryError = Wrap ''deliver %s to %s: %w'' [err]
               in (case store_failed R (p_id p) (p_attempts p) d2 of
                    (Inl markError, d3) \<Rightarrow> (errors_join [Some deliveryError, Some markError], d3)
                  | (Inr settled, d3) \<Rightarrow> (Some deliveryError, d3)))
          | (None, d2) \<Rightarrow>
              (let (now, d3) = clock_now R d2
               in (case store_completed R (p_id p) (p_attempts p) now d3 of
                    (Inl err, d4) \<Rightarrow> (Some err, d4)
                  | (Inr settled, d4) \<Rightarrow> (None, d4)))))"

text \<open>The loop \<open>Dispatch\<close> and \<open>ResubmitIncomplete\<close> share: collect the failures.\<close>

fun collect_failures :: "('p \<Rightarrow> 'd \<Rightarrow> goerror option \<times> 'd) \<Rightarrow> 'p list \<Rightarrow> 'd \<Rightarrow> goerror option list \<times> 'd" where
  "collect_failures f [] d = ([], d)"
| "collect_failures f (p # ps) d =
     (let (err, d1) = f p d; (errs, d2) = collect_failures f ps d1
      in (if err = None then errs else err # errs, d2))"

definition Dispatch :: "('id, 'e, 'd) registry \<Rightarrow> ('id, 'e) publication list \<Rightarrow> 'd \<Rightarrow> goerror option \<times> 'd" where
  "Dispatch R ps d = (let (errs, d') = collect_failures (dispatch R) ps d in (errors_join errs, d'))"

section \<open>Resubmission\<close>

definition resubmit :: "('id, 'e, 'd) registry \<Rightarrow> ('id, 'e) publication \<Rightarrow> 'd \<Rightarrow> goerror option \<times> 'd" where
  "resubmit R p d =
     (case deserialize R (p_type p) (p_payload p) of
        Inl err \<Rightarrow> (Some err, d)
      | Inr event \<Rightarrow>
         (let p' = p\<lparr>p_event := Some event\<rparr>
          in if p_status p' = StatusResubmitted then dispatch R p' d
             else (let (now, d1) = clock_now R d
               in (case store_resubmitted R (p_id p') (p_attempts p') now d1 of
                    (Inl err, d2) \<Rightarrow> (Some err, d2)
                  | (Inr None, d2) \<Rightarrow> (None, d2)
                  | (Inr (Some attempts), d2) \<Rightarrow> dispatch R (p'\<lparr>p_attempts := attempts\<rparr>) d2))))"

definition ResubmitIncomplete :: "('id, 'e, 'd) registry \<Rightarrow> int \<Rightarrow> 'd \<Rightarrow> goerror option \<times> 'd" where
  "ResubmitIncomplete R olderThan d =
     (let (found, d1) = (if olderThan > 0
            then (let (reference, d') = clock_before R olderThan d in store_incomplete_before R reference d')
            else store_incomplete R d)
      in (case found of
            Inl err \<Rightarrow> (Some err, d1)
          | Inr ps \<Rightarrow> (let (errs, d2) = collect_failures (resubmit R) ps d1 in (errors_join errs, d2))))"

section \<open>The JSON serializer\<close>

text \<open>
  Event types are the codes \<open>'t\<close>, \<open>type_of\<close> is \<open>reflect.TypeOf\<close> (\<open>None\<close> for nil), and
  \<open>marshal\<close> and \<open>unmarshal\<close> stand for encoding/json at one type. A factory remembers the
  type it was registered for.
\<close>

record 't json_serializer =
  names :: "'t \<Rightarrow> string option"
  factories :: "string \<Rightarrow> 't option"

definition ErrUnknownEventType :: goerror where
  "ErrUnknownEventType = Leaf ''event type is not registered''"

definition ErrConflictingRegistration :: goerror where
  "ErrConflictingRegistration = Leaf ''conflicting event type registration''"

definition NewJSONSerializer :: "'t json_serializer" where
  "NewJSONSerializer = \<lparr>names = Map.empty, factories = Map.empty\<rparr>"

definition RegisterEventType :: "'t \<Rightarrow> string \<Rightarrow> 't json_serializer \<Rightarrow> goerror option \<times> 't json_serializer" where
  "RegisterEventType t name s =
     (if name = '''' then (Some (Leaf ''event type name must not be empty''), s)
      else if names s t \<noteq> None \<and> names s t \<noteq> Some name
      then (Some (Wrap ''%w: %s is already registered as %s'' [ErrConflictingRegistration]), s)
      else if factories s name \<noteq> None \<and> names s t \<noteq> Some name
      then (Some (Wrap ''%w: name %s is already bound to another type'' [ErrConflictingRegistration]), s)
      else (None, s\<lparr>names := (names s)(t \<mapsto> name), factories := (factories s)(name \<mapsto> t)\<rparr>))"

definition Serialize ::
  "('e \<Rightarrow> 't option) \<Rightarrow> ('e \<Rightarrow> goerror + string) \<Rightarrow> 't json_serializer \<Rightarrow> 'e \<Rightarrow> goerror + (string \<times> string)" where
  "Serialize type_of marshal s event =
     (case Option.bind (type_of event) (names s) of
        None \<Rightarrow> Inl (Wrap ''%w: %T'' [ErrUnknownEventType])
      | Some name \<Rightarrow> (case marshal event of
          Inl err \<Rightarrow> Inl (Wrap ''serialize %s: %w'' [err])
        | Inr payload \<Rightarrow> Inr (name, payload)))"

definition Deserialize ::
  "('t \<Rightarrow> string \<Rightarrow> goerror + 'e) \<Rightarrow> 't json_serializer \<Rightarrow> string \<Rightarrow> string \<Rightarrow> goerror + 'e" where
  "Deserialize unmarshal s etype payload =
     (case factories s etype of
        None \<Rightarrow> Inl (Wrap ''%w: %s'' [ErrUnknownEventType])
      | Some t \<Rightarrow> (case unmarshal t payload of
          Inl err \<Rightarrow> Inl (Wrap ''deserialize %s: %w'' [err])
        | Inr event \<Rightarrow> Inr event))"

definition serializer_inv :: "'t json_serializer \<Rightarrow> bool" where
  "serializer_inv s \<longleftrightarrow> (\<forall>t name. names s t = Some name \<longleftrightarrow> factories s name = Some t)"

lemma RegisterEventType_inv [preserves]:
  assumes "serializer_inv s"
  shows "serializer_inv (snd (RegisterEventType t name s))"
proof -
  have inv: "names s t = Some name \<longleftrightarrow> factories s name = Some t" for t name
    using assms by (simp add: serializer_inv_def)
  show ?thesis
  proof (cases "RegisterEventType t name s = (None, s\<lparr>names := (names s)(t \<mapsto> name), factories := (factories s)(name \<mapsto> t)\<rparr>)")
    case True
    then have free: "names s t = None \<or> names s t = Some name" "factories s name = None \<or> names s t = Some name"
      by (auto simp: RegisterEventType_def split: if_splits)
    have "names s t' \<noteq> Some name" if "t' \<noteq> t" for t' using that free inv by auto
    moreover have "factories s name' \<noteq> Some t" if "name' \<noteq> name" for name' using that free inv [of t name'] by auto
    ultimately show ?thesis unfolding True by (auto simp: serializer_inv_def inv)
  next
    case False
    then have "snd (RegisterEventType t name s) = s" by (auto simp: RegisterEventType_def)
    then show ?thesis using assms by simp
  qed
qed

definition register_all :: "('t \<times> string) list \<Rightarrow> 't json_serializer" where
  "register_all rs = fold (\<lambda>(t, name) s. snd (RegisterEventType t name s)) rs NewJSONSerializer"

lemma register_all_inv: "serializer_inv (register_all rs)"
proof -
  have "serializer_inv s \<Longrightarrow> serializer_inv (fold (\<lambda>(t, name) s. snd (RegisterEventType t name s)) rs s)" for s
    by (induction rs arbitrary: s) (auto intro: RegisterEventType_inv)
  then show ?thesis by (simp add: register_all_def NewJSONSerializer_def serializer_inv_def)
qed

text \<open>After any history of registrations, accepted or refused, event types and persistent
  names are in one-to-one correspondence, so what is serialized under a name is read back by
  the factory of the same type: with a JSON codec that reads back what it writes, deserializing
  a serialized event yields the event.\<close>

theorem serialized_events_read_back:
  assumes "\<And>e t p. type_of e = Some t \<Longrightarrow> marshal e = Inr p \<Longrightarrow> unmarshal t p = Inr e"
    and "Serialize type_of marshal (register_all rs) e = Inr (name, payload)"
  shows "Deserialize unmarshal (register_all rs) name payload = Inr e \<and>
    (\<forall>t t'. names (register_all rs) t = Some name \<and> names (register_all rs) t' = Some name \<longrightarrow> t = t')"
proof -
  obtain t where t: "type_of e = Some t" "names (register_all rs) t = Some name" "marshal e = Inr payload"
    using assms(2) by (auto simp: Serialize_def split: option.splits sum.splits bind_splits)
  have "factories (register_all rs) name = Some t" using register_all_inv [of rs] t(2) by (auto simp: serializer_inv_def)
  moreover have "unmarshal t payload = Inr e" using assms(1) t by blast
  moreover have "x = y" if "names (register_all rs) x = Some name" "names (register_all rs) y = Some name" for x y
    using register_all_inv [of rs] that unfolding serializer_inv_def by (metis option.inject)
  ultimately show ?thesis by (simp add: Deserialize_def)
qed

theorem serialized_events_read_back_witness:
  "Deserialize (\<lambda>t p. if p = ''42'' then Inr (42 :: nat) else Inl (Leaf ''bad''))
     (register_all [(''nat'', ''number''), (''nat'', ''other''), (''int'', ''number'')]) ''number'' ''42'' = Inr 42"
  by (rule serialized_events_read_back [THEN conjunct1,
        of "\<lambda>e. Some ''nat''" "\<lambda>e. if e = 42 then Inr ''42'' else Inl (Leaf ''bad'')"])
     (auto simp: Serialize_def register_all_def RegisterEventType_def NewJSONSerializer_def split: if_splits)

end
