(* ===== verification/OutboxService.thy ===== *)
theory OutboxService
  imports OutboxRegistry
begin

text \<open>
  The registry of outbox/registry.go on its real collaborators: the SQL store of
  outbox/store_sql.go, the bus of eventbus/bus.go and the JSON serializer. The world is the bus
  with the database beside it, so handlers may publish and subscribe while they run. The locale
  \<open>publication_store\<close> states what the registry relies on, over the generation (status and
  attempt counter) of each publication; its clients' lemmas are about \<open>dispatch\<close> and
  \<open>Dispatch\<close>, and \<open>sql_registry\<close> interprets it when no other session writes.
\<close>

section \<open>The collaborators\<close>

record ('id, 's) outbox_world =
  ow_db :: "'id outbox_db"
  ow_ids :: nat
  ow_rest :: 's

type_synonym ('id, 'e, 'h, 's) service = "('e, 'h, ('id, 's) outbox_world) bus_world"

definition on_db :: "('id outbox_db \<Rightarrow> 'a \<times> 'id outbox_db) \<Rightarrow> ('id, 'e, 'h, 's) service \<Rightarrow> 'a \<times> ('id, 'e, 'h, 's) service" where
  "on_db f w = (let (a, db) = f (ow_db (rest w)) in (a, w\<lparr>rest := (rest w)\<lparr>ow_db := db\<rparr>\<rparr>))"

definition db_of :: "('id, 'e, 'h, 's) service \<Rightarrow> 'id outbox_db" where
  "db_of w = ow_db (rest w)"

lemma on_db_parts [simp]:
  "fst (on_db f w) = fst (f (db_of w))"
  "db_of (snd (on_db f w)) = snd (f (db_of w))"
  "subscriptions (snd (on_db f w)) = subscriptions w"
  by (simp_all add: on_db_def db_of_def Let_def case_prod_beta)

text \<open>\<open>sc_uuid\<close> is the source of identifiers, read one after the other, \<open>sc_nil\<close> the nil event, \<open>sc_minus\<close>
  is \<open>time.Time.Add\<close> of a negative duration.\<close>

record ('id, 'e, 'h, 's, 't) service_config =
  sc_mode :: completion_mode
  sc_env :: "'id environment"
  sc_exec :: "('e, 'h, ('id, 's) outbox_world) handler_interp"
  sc_nil :: 'e
  sc_uuid :: "nat \<Rightarrow> goerror + 'id"
  sc_minus :: "instant \<Rightarrow> int \<Rightarrow> instant"
  sc_serializer :: "'t json_serializer"
  sc_type_of :: "'e \<Rightarrow> 't option"
  sc_marshal :: "'e \<Rightarrow> goerror + string"
  sc_unmarshal :: "'t \<Rightarrow> string \<Rightarrow> goerror + 'e"

definition next_id :: "(nat \<Rightarrow> goerror + 'id) \<Rightarrow> ('id, 'e, 'h, 's) service \<Rightarrow> (goerror + 'id) \<times> ('id, 'e, 'h, 's) service" where
  "next_id uuid w = (uuid (ow_ids (rest w)), w\<lparr>rest := (rest w)\<lparr>ow_ids := Suc (ow_ids (rest w))\<rparr>\<rparr>)"

lemma next_id_parts [simp]:
  "db_of (snd (next_id uuid w)) = db_of w"
  "fst (next_id uuid w) = uuid (ow_ids (rest w))"
  by (simp_all add: next_id_def db_of_def)

definition sql_registry ::
  "('id, 'e, 'h, 's, 't) service_config \<Rightarrow> ('id, 'e, ('id, 'e, 'h, 's) service) registry" where
  "sql_registry c = \<lparr>
     store_create = (\<lambda>p. on_db (Create (sc_env c) p)),
     store_claim = (\<lambda>pid n. on_db (ClaimProcessing (sc_env c) pid n)),
     store_completed = (\<lambda>pid n date. on_db (MarkCompleted (sc_mode c) (sc_env c) pid n date)),
     store_failed = (\<lambda>pid n. on_db (MarkFailed (sc_env c) pid n)),
     store_resubmitted = (\<lambda>pid n date. on_db (MarkResubmitted (sc_env c) pid n date)),
     store_incomplete = on_db (FindIncomplete (sc_env c)),
     store_incomplete_before = (\<lambda>t. on_db (FindIncompletePublishedBefore (sc_env c) t)),
     bus_listeners = (\<lambda>event w. ListenersFor event (subscriptions w)),
     bus_deliver = (\<lambda>lid event. Deliver (sc_exec c) lid (case event of Some e \<Rightarrow> e | None \<Rightarrow> sc_nil c)),
     serialize = Serialize (sc_type_of c) (sc_marshal c) (sc_serializer c),
     deserialize = Deserialize (sc_unmarshal c) (sc_serializer c),
     clock_now = on_db (Now (sc_env c)),
     clock_before = (\<lambda>age w. case on_db (Now (sc_env c)) w of (now, w') \<Rightarrow> (sc_minus c now age, w')),
     fresh_id = next_id (sc_uuid c)\<rparr>"

section \<open>The contract of the store\<close>

type_synonym generation = "status \<times> int"

definition claimable :: "int \<Rightarrow> generation option \<Rightarrow> bool" where
  "claimable n g \<longleftrightarrow> g = Some (StatusPublished, n) \<or> g = Some (StatusResubmitted, n)"

definition incomplete :: "generation option \<Rightarrow> bool" where
  "incomplete g \<longleftrightarrow> (\<exists>st n. g = Some (st, n) \<and> st \<noteq> StatusCompleted)"

text \<open>A settling operation: a fault changes no generation, otherwise it reports whether the
  generation admitted the transition, and only the publication it settles moves.\<close>

definition settles ::
  "('d \<Rightarrow> 'id \<Rightarrow> generation option) \<Rightarrow> 'id \<Rightarrow> (generation option \<Rightarrow> bool) \<Rightarrow> generation option set \<Rightarrow>
   'd \<Rightarrow> (goerror + bool) \<times> 'd \<Rightarrow> bool" where
  "settles gen pid admits results d res \<longleftrightarrow> (case res of
      (Inl err, d') \<Rightarrow> gen d' = gen d
    | (Inr b, d') \<Rightarrow> b = admits (gen d pid) \<and>
        (if b then gen d' pid \<in> results \<and> (\<forall>q. q \<noteq> pid \<longrightarrow> gen d' q = gen d q) else gen d' = gen d))"

locale publication_store =
  fixes R :: "('id, 'e, 'd) registry" and gen :: "'d \<Rightarrow> 'id \<Rightarrow> generation option" and sound :: "'d \<Rightarrow> bool"
  assumes claim: "sound d \<Longrightarrow> settles gen pid (claimable n) {Some (StatusProcessing, n)} d (store_claim R pid n d)"
    and failed: "sound d \<Longrightarrow>
      settles gen pid (\<lambda>g. g = Some (StatusProcessing, n)) {Some (StatusFailed, n)} d (store_failed R pid n d)"
    and completed: "sound d \<Longrightarrow>
      settles gen pid (\<lambda>g. g = Some (StatusProcessing, n)) {None, Some (StatusCompleted, n)} d
        (store_completed R pid n date d)"
    and keeps_sound: "sound d \<Longrightarrow> sound (snd (store_claim R pid n d))"
      "sound d \<Longrightarrow> sound (snd (store_failed R pid n d))"
      "sound d \<Longrightarrow> sound (snd (store_completed R pid n date d))"
      "sound d \<Longrightarrow> sound (snd (clock_now R d))"
    and clock: "gen (snd (clock_now R d)) = gen d"
begin

lemma dispatch_unclaimable:
  assumes "sound d" "\<not> claimable (p_attempts p) (gen d (p_id p))" "dispatch R p d = (err, d')"
  shows "gen d' = gen d \<and> sound d' \<and> d' = snd (store_claim R (p_id p) (p_attempts p) d)"
  using claim [OF assms(1), of "p_id p" "p_attempts p"] keeps_sound(1) [OF assms(1)] assms(2,3)
  by (auto simp: dispatch_def settles_def split: prod.splits sum.splits bool.splits if_splits; metis snd_conv)

lemma dispatch_outcome:
  assumes neutral: "\<And>l e d. sound d \<Longrightarrow> sound (snd (bus_deliver R l e d)) \<and> gen (snd (bus_deliver R l e d)) = gen d"
    and "sound d" "claimable (p_attempts p) (gen d (p_id p))" "dispatch R p d = (err, d')"
  shows "sound d' \<and> (\<forall>q. q \<noteq> p_id p \<longrightarrow> gen d' q = gen d q) \<and> (err \<noteq> None \<longleftrightarrow> incomplete (gen d' (p_id p))) \<and>
    (err = None \<longrightarrow> fst (bus_deliver R (p_listener p) (p_event p) (snd (store_claim R (p_id p) (p_attempts p) d))) = None)"
proof -
  let ?n = "p_attempts p" and ?pid = "p_id p"
  obtain r d1 where claimed: "store_claim R ?pid ?n d = (r, d1)" by fastforce
  obtain delivery d2 where delivered: "bus_deliver R (p_listener p) (p_event p) d1 = (delivery, d2)" by fastforce
  have s1: "sound d1" "settles gen ?pid (claimable ?n) {Some (StatusProcessing, ?n)} d (r, d1)"
    using claim [OF assms(2)] keeps_sound(1) [OF assms(2)] claimed by (metis snd_conv)+
  have s2: "sound d2" "gen d2 = gen d1" using neutral [OF s1(1)] delivered by (metis snd_conv)+
  note status = incomplete_def claimable_def StatusCompleted_def StatusProcessing_def StatusFailed_def
    StatusPublished_def StatusResubmitted_def
  show ?thesis
  proof (cases r)
    case (Inl e)
    then show ?thesis using assms(3,4) claimed s1 by (auto simp: dispatch_def settles_def status)
  next
    case (Inr b)
    then have b: b and g1: "gen d1 ?pid = Some (StatusProcessing, ?n)" "\<forall>q. q \<noteq> ?pid \<longrightarrow> gen d1 q = gen d q"
      using s1(2) assms(3) by (auto simp: settles_def)
    show ?thesis
    proof (cases delivery)
      case (Some e)
      obtain m d3 where m: "store_failed R ?pid ?n d2 = (m, d3)" by fastforce
      have "sound d3" "settles gen ?pid (\<lambda>g. g = Some (StatusProcessing, ?n)) {Some (StatusFailed, ?n)} d2 (m, d3)"
        using failed [OF s2(1), of ?pid ?n] keeps_sound(2) [OF s2(1), of ?pid ?n] m by simp_all
      then show ?thesis
        using assms(4) claimed delivered Some m Inr b g1 s2
        by (auto simp: dispatch_def settles_def status errors_join_def split: sum.splits if_splits)
    next
      case None
      obtain now d3 where c: "clock_now R d2 = (now, d3)" by fastforce
      have s3: "sound d3" "gen d3 = gen d1" using keeps_sound(4) [OF s2(1)] clock [of d2] c s2(2) by simp_all
      obtain m d4 where m: "store_completed R ?pid ?n now d3 = (m, d4)" by fastforce
      have "sound d4"
        "settles gen ?pid (\<lambda>g. g = Some (StatusProcessing, ?n)) {None, Some (StatusCompleted, ?n)} d3 (m, d4)"
        using completed [OF s3(1), of ?pid ?n now] keeps_sound(3) [OF s3(1), of ?pid ?n now] m by simp_all
      then show ?thesis
        using assms(4) claimed delivered None c m Inr b g1 s3
        by (auto simp: dispatch_def settles_def status split: sum.splits if_splits)
    qed
  qed
qed

lemma Dispatch_outcome:
  assumes neutral: "\<And>l e d. sound d \<Longrightarrow> sound (snd (bus_deliver R l e d)) \<and> gen (snd (bus_deliver R l e d)) = gen d"
    and "sound d" "distinct (map p_id ps)" "\<And>p. p \<in> set ps \<Longrightarrow> claimable (p_attempts p) (gen d (p_id p))"
    and "collect_failures (dispatch R) ps d = (errs, d')"
  shows "sound d' \<and> (\<forall>q. q \<notin> p_id ` set ps \<longrightarrow> gen d' q = gen d q) \<and> None \<notin> set errs \<and>
    length errs = length (filter (\<lambda>p. incomplete (gen d' (p_id p))) ps)"
  using assms(2-)
proof (induction ps arbitrary: d errs d')
  case Nil
  then show ?case by simp
next
  case (Cons p ps)
  obtain err d1 where p: "dispatch R p d = (err, d1)" by fastforce
  obtain errs1 d2 where ps: "collect_failures (dispatch R) ps d1 = (errs1, d2)" by fastforce
  have one: "sound d1" "\<forall>q. q \<noteq> p_id p \<longrightarrow> gen d1 q = gen d q" "err \<noteq> None \<longleftrightarrow> incomplete (gen d1 (p_id p))"
    using dispatch_outcome [OF neutral Cons.prems(1) Cons.prems(3) p] by simp_all
  have "claimable (p_attempts q) (gen d1 (p_id q))" if "q \<in> set ps" for q
    using Cons.prems(2,3) that one(2) by (metis distinct.simps(2) image_eqI list.set_map list.simps(9) list.set_intros(2))
  then have all: "sound d2" "\<forall>q. q \<notin> p_id ` set ps \<longrightarrow> gen d2 q = gen d1 q" "None \<notin> set errs1"
    "length errs1 = length (filter (\<lambda>p. incomplete (gen d2 (p_id p))) ps)"
    using Cons.IH [OF one(1) _ _ ps] Cons.prems(2) by simp_all
  moreover have "gen d2 (p_id p) = gen d1 (p_id p)" using all(2) Cons.prems(2) by auto
  moreover have "d' = d2" "errs = (if err = None then errs1 else err # errs1)"
    using Cons.prems(4) p ps by (simp_all add: Let_def)
  ultimately show ?case using one by auto
qed

end

section \<open>The SQL store meets the contract\<close>

text \<open>No other session writes; statements still fail as the environment says.\<close>

definition alone :: "('id, 'e, 'h, 's, 't) service_config \<Rightarrow> ('id, 'e, 'h, 's, 't) service_config" where
  "alone c = c\<lparr>sc_env := (sc_env c)\<lparr>env_others := \<lambda>_ rows. rows\<rparr>\<rparr>"

definition row_generation :: "'id row list \<Rightarrow> 'id \<Rightarrow> generation option" where
  "row_generation rows pid = map_option (\<lambda>r. (r_status r, r_attempts r)) (lookup pid rows)"

definition db_settles where
  "db_settles pid admits results d res \<longleftrightarrow>
     settles (\<lambda>d. row_generation (publications d)) pid admits results d res \<and>
     (unique_ids (publications d) \<longrightarrow> unique_ids (publications (snd res)))"

lemma executeSettling_alone:
  assumes "env_others env = (\<lambda>_ rows. rows)" "unique_ids (publications d)"
    and "\<And>rows. unique_ids rows \<Longrightarrow> unique_ids (snd (st rows))"
    and "\<And>rows. unique_ids rows \<Longrightarrow> 0 < fst (st rows) \<longleftrightarrow> admits (row_generation rows pid)"
    and "\<And>rows. unique_ids rows \<Longrightarrow> admits (row_generation rows pid) \<Longrightarrow> row_generation (snd (st rows)) pid \<in> results"
    and "\<And>rows. unique_ids rows \<Longrightarrow> \<not> admits (row_generation rows pid) \<Longrightarrow> row_generation (snd (st rows)) pid = row_generation rows pid"
    and "\<And>rows q. unique_ids rows \<Longrightarrow> q \<noteq> pid \<Longrightarrow> row_generation (snd (st rows)) q = row_generation rows q"
  shows "db_settles pid admits results d (let (r, d') = executeSettling env st d in (wrap fmt r, d'))"
proof -
  have "row_generation (snd (st (publications d))) = row_generation (publications d)"
    if "\<not> admits (row_generation (publications d) pid)"
    using assms(6,7) [OF assms(2)] that by (intro ext) metis
  then show ?thesis
    using assms(2) assms(3-5,7) [OF assms(2)]
    by (auto simp: db_settles_def settles_def executeSettling_def execute_def tick_def wrap_def Let_def assms(1)
        split: option.splits prod.splits sum.splits)
qed

lemma update_settles:
  assumes "env_others env = (\<lambda>_ rows. rows)" "unique_ids (publications d)"
    and "\<And>r. r_id (f r) = r_id r" "\<And>r. P r \<longleftrightarrow> r_id r = pid \<and> admits (Some (r_status r, r_attempts r))"
    and "\<not> admits None" "\<And>r. P r \<Longrightarrow> Some (r_status (f r), r_attempts (f r)) \<in> results"
  shows "db_settles pid admits results d (let (r, d') = executeSettling env (update_rows P f) d in (wrap fmt r, d'))"
proof (rule executeSettling_alone [OF assms(1,2)])
  fix rows :: "'a row list" assume u: "unique_ids rows"
  have here: "r_id r = q" if "lookup q rows = Some r" for q r using that lookup_iff [OF u] by blast
  have upd: "lookup q (snd (update_rows P f rows)) =
      (if q = pid then map_option (\<lambda>r. if P r then f r else r) (lookup q rows) else lookup q rows)" for q
    by (rule lookup_update) (use assms(3,4) in blast)+
  note gen = row_generation_def upd
  show "unique_ids (snd (update_rows P f rows))" by (rule update_unique [OF assms(3) u])
  have "0 < fst (update_rows P f rows) \<longleftrightarrow> (\<exists>r. lookup pid rows = Some r \<and> P r)"
    by (rule update_affected [OF u]) (use assms(4) in blast)
  also have "\<dots> \<longleftrightarrow> admits (row_generation rows pid)"
    using here [of pid] assms(4,5) by (cases "lookup pid rows") (auto simp: row_generation_def)
  finally show "0 < fst (update_rows P f rows) \<longleftrightarrow> admits (row_generation rows pid)" .
  show "row_generation (snd (update_rows P f rows)) pid \<in> results" if "admits (row_generation rows pid)"
    using that here [of pid] assms(4-6) by (cases "lookup pid rows") (auto simp: gen)
  show "row_generation (snd (update_rows P f rows)) pid = row_generation rows pid" if "\<not> admits (row_generation rows pid)"
    using that here [of pid] assms(4,5) by (cases "lookup pid rows") (auto simp: gen)
  show "row_generation (snd (update_rows P f rows)) q = row_generation rows q" if "q \<noteq> pid" for q
    using that assms(4) by (auto simp: gen)
qed

lemma delete_settles:
  assumes "env_others env = (\<lambda>_ rows. rows)" "unique_ids (publications d)" "None \<in> results"
    and "\<And>r. P r \<longleftrightarrow> r_id r = pid \<and> admits (Some (r_status r, r_attempts r))" "\<not> admits None"
  shows "db_settles pid admits results d (let (r, d') = executeSettling env (delete_rows P) d in (wrap fmt r, d'))"
proof (rule executeSettling_alone [OF assms(1,2)])
  fix rows :: "'a row list" assume u: "unique_ids rows"
  have here: "r_id r = q" if "lookup q rows = Some r" for q r using that lookup_iff [OF u] by blast
  note gen = row_generation_def lookup_delete [OF u]
  show "unique_ids (snd (delete_rows P rows))" by (rule delete_unique [OF u])
  have "0 < fst (delete_rows P rows) \<longleftrightarrow> (\<exists>r \<in> set rows. P r)" by (auto simp: delete_rows_def filter_empty_conv)
  also have "\<dots> \<longleftrightarrow> (\<exists>r. lookup pid rows = Some r \<and> P r)" using assms(4) unfolding lookup_iff [OF u] by blast
  also have "\<dots> \<longleftrightarrow> admits (row_generation rows pid)"
    using here [of pid] assms(4,5) by (cases "lookup pid rows") (auto simp: row_generation_def)
  finally show "0 < fst (delete_rows P rows) \<longleftrightarrow> admits (row_generation rows pid)" .
  show "row_generation (snd (delete_rows P rows)) pid \<in> results" if "admits (row_generation rows pid)"
    using that here [of pid] assms(3-5) by (cases "lookup pid rows") (auto simp: gen)
  show "row_generation (snd (delete_rows P rows)) pid = row_generation rows pid" if "\<not> admits (row_generation rows pid)"
    using that here [of pid] assms(4,5) by (cases "lookup pid rows") (auto simp: gen)
  show "row_generation (snd (delete_rows P rows)) q = row_generation rows q" if "q \<noteq> pid" for q
    using that assms(4) here [of q] by (cases "lookup q rows") (auto simp: gen)
qed

lemma db_settles_tick [simp]: "db_settles pid admits results (tick d) res = db_settles pid admits results d res"
  by (cases res; cases "fst res") (simp_all add: db_settles_def settles_def tick_def)

lemma ClaimProcessing_settles:
  assumes "env_others env = (\<lambda>_ rows. rows)" "unique_ids (publications d)"
  shows "db_settles pid (claimable n) {Some (StatusProcessing, n)} d (ClaimProcessing env pid n d)"
proof -
  have "db_settles pid (claimable n) {Some (StatusProcessing, n)} (tick d)
      (let (r, d') = executeSettling env (claim_statement pid n (env_now env (ticks d))) (tick d)
       in (wrap ''claim publication %s: %w'' r, d'))"
    unfolding claim_statement_def
    by (rule update_settles) (use assms in \<open>auto simp: claimable_def tick_def\<close>)
  then show ?thesis by (simp add: ClaimProcessing_def Now_def)
qed

lemma MarkFailed_settles:
  assumes "env_others env = (\<lambda>_ rows. rows)" "unique_ids (publications d)"
  shows "db_settles pid (\<lambda>g. g = Some (StatusProcessing, n)) {Some (StatusFailed, n)} d (MarkFailed env pid n d)"
  unfolding MarkFailed_def fail_statement_def
  by (rule update_settles) (use assms in \<open>auto simp: generationCondition_def\<close>)

text \<open>Archiving deletes the row with the generation condition or leaves the table alone.\<close>

lemma archive_end_table [simp]:
  "publications (snd (archive_end env err d)) = publications d"
  "err = Some e \<Longrightarrow> \<exists>e'. fst (archive_end env err d) = Inl e'"
  "fst (archive_end env err d) \<noteq> Inr True"
  by (auto simp: archive_end_def rollback_failure_def errors_join_def tick_def split: option.splits prod.splits)

lemma execute_read:
  "env_others env = (\<lambda>_ rows. rows) \<Longrightarrow> execute env (\<lambda>d. (f d, d)) d =
    (case env_fails env (ticks d) of Some err \<Rightarrow> (Inl err, tick d) | None \<Rightarrow> (Inr (f (tick d)), tick d))"
  by (simp add: execute_def tick_def Let_def split: option.split)

definition archive_outcome :: "'id \<Rightarrow> int \<Rightarrow> 'id row list \<Rightarrow> (goerror + bool) \<times> 'id outbox_db \<Rightarrow> bool" where
  "archive_outcome pid n rows res \<longleftrightarrow> (case fst res of
      Inl e \<Rightarrow> publications (snd res) = rows
    | Inr False \<Rightarrow> publications (snd res) = rows \<and> fst (delete_statement pid n rows) = 0
    | Inr True \<Rightarrow> publications (snd res) = snd (delete_statement pid n rows) \<and> 0 < fst (delete_statement pid n rows))"

lemma archive_outcome_simps [simp]:
  "archive_outcome pid n rows (Inl e, d') \<longleftrightarrow> publications d' = rows"
  "archive_outcome pid n rows (Inr False, d') \<longleftrightarrow> publications d' = rows \<and> fst (delete_statement pid n rows) = 0"
  "archive_outcome pid n rows (Inr True, d') \<longleftrightarrow>
     publications d' = snd (delete_statement pid n rows) \<and> 0 < fst (delete_statement pid n rows)"
  by (simp_all add: archive_outcome_def)

lemma publications_tick [simp]: "publications (tick d) = publications d"
  by (simp add: tick_def)

lemma archive_end_outcome:
  assumes "publications d = rows" "err = None \<Longrightarrow> fst (delete_statement pid n rows) = 0"
  shows "archive_outcome pid n rows (archive_end env err d)"
  using assms by (cases err) (auto simp: archive_end_def rollback_failure_def errors_join_def split: option.splits)

lemma archive_move_outcome:
  assumes "env_others env = (\<lambda>_ rows. rows)" "publications d = rows"
  shows "archive_outcome pid n rows (archive_move env pid n date scanned d)"
  using assms
  by (auto simp: archive_move_def execute_read split: sum.splits option.splits intro!: archive_end_outcome)

lemma archive_archive_outcome:
  assumes "env_others env = (\<lambda>_ rows. rows)"
  shows "archive_outcome pid n (publications d) (archive env pid n date d)"
  using assms
  by (auto simp: archive_def execute_read split: sum.splits option.splits
      intro!: archive_end_outcome archive_move_outcome)
     (auto simp: delete_statement_def delete_rows_def find_None_iff filter_empty_conv)

lemma archive_settles:
  assumes "env_others env = (\<lambda>_ rows. rows)" "unique_ids (publications d)"
  shows "db_settles pid (\<lambda>g. g = Some (StatusProcessing, n)) {None, Some (StatusCompleted, n)} d (archive env pid n date d)"
proof -
  define env' :: "'a environment" where "env' = env\<lparr>env_fails := \<lambda>_. None\<rparr>"
  let ?n = "fst (delete_statement pid n (publications d))" and ?rows = "snd (delete_statement pid n (publications d))"
  have "db_settles pid (\<lambda>g. g = Some (StatusProcessing, n)) {None, Some (StatusCompleted, n)} d
      (let (r, d') = executeSettling env' (delete_statement pid n) d in (wrap fmt r, d'))" for fmt
    unfolding delete_statement_def
    by (rule delete_settles) (use assms in \<open>auto simp: generationCondition_def env'_def\<close>)
  then have st: "settles row_generation pid (\<lambda>g. g = Some (StatusProcessing, n)) {None, Some (StatusCompleted, n)}
      (publications d) (Inr (0 < ?n), ?rows)" "unique_ids (publications d) \<longrightarrow> unique_ids ?rows"
    by (simp_all add: db_settles_def settles_def executeSettling_def execute_def wrap_def env'_def assms(1) case_prod_beta tick_def
        split: sum.splits if_splits)
  obtain r d' where ar: "archive env pid n date d = (r, d')" by fastforce
  from archive_archive_outcome [OF assms(1), of pid n d date] show ?thesis
    using st by (cases r; cases "projr r") (auto simp: db_settles_def settles_def ar)
qed

lemma MarkCompleted_settles:
  assumes "env_others env = (\<lambda>_ rows. rows)" "unique_ids (publications d)"
  shows "db_settles pid (\<lambda>g. g = Some (StatusProcessing, n)) {None, Some (StatusCompleted, n)} d
    (MarkCompleted mode env pid n date d)"
proof (cases mode)
  case CompletionModeUpdate
  then show ?thesis
    unfolding complete_statement_def
    by (simp only: MarkCompleted.simps complete_statement_def)
       (rule update_settles; use assms in \<open>auto simp: generationCondition_def\<close>)
next
  case CompletionModeDelete
  then show ?thesis
    by (simp only: MarkCompleted.simps delete_statement_def)
       (rule delete_settles; use assms in \<open>auto simp: generationCondition_def\<close>)
next
  case CompletionModeArchive
  then show ?thesis using archive_settles [OF assms] by simp

qed

definition service_generation :: "('id, 'e, 'h, 's) service \<Rightarrow> 'id \<Rightarrow> generation option" where
  "service_generation w = row_generation (publications (db_of w))"

definition service_sound :: "('id, 'e, 'h, 's) service \<Rightarrow> bool" where
  "service_sound w \<longleftrightarrow> unique_ids (publications (db_of w))"

lemma on_db_settles:
  assumes "service_sound w" "db_settles pid admits results (db_of w) (f (db_of w))"
  shows "settles service_generation pid admits results w (on_db f w) \<and> service_sound (snd (on_db f w))"
  using assms
  by (cases "f (db_of w)"; cases "fst (f (db_of w))")
     (auto simp: db_settles_def settles_def service_generation_def service_sound_def on_db_def db_of_def)

lemma alone_others [simp]: "env_others (sc_env (alone c)) = (\<lambda>_ rows. rows)"
  by (simp add: alone_def)

interpretation sql_store: publication_store "sql_registry (alone c)" service_generation service_sound
  for c :: "('id, 'e, 'h, 's, 't) service_config"
proof
  fix d :: "('id, 'e, 'h, 's) service" and pid n date
  assume sound: "service_sound d"
  then have u: "unique_ids (publications (db_of d))" by (simp add: service_sound_def)
  note cl = on_db_settles [where f = "ClaimProcessing (sc_env (alone c)) pid n", OF sound ClaimProcessing_settles [OF alone_others u, of pid n c]]
  note fa = on_db_settles [where f = "MarkFailed (sc_env (alone c)) pid n", OF sound MarkFailed_settles [OF alone_others u, of pid n c]]
  note co = on_db_settles [where f = "MarkCompleted (sc_mode (alone c)) (sc_env (alone c)) pid n date", OF sound MarkCompleted_settles [OF alone_others u, of pid n "sc_mode (alone c)" c date]]
  show "settles service_generation pid (claimable n) {Some (StatusProcessing, n)} d (store_claim (sql_registry (alone c)) pid n d)"
    "service_sound (snd (store_claim (sql_registry (alone c)) pid n d))"
    using cl by (simp_all add: sql_registry_def)
  show "settles service_generation pid (\<lambda>g. g = Some (StatusProcessing, n)) {Some (StatusFailed, n)} d (store_failed (sql_registry (alone c)) pid n d)"
    "service_sound (snd (store_failed (sql_registry (alone c)) pid n d))"
    using fa by (simp_all add: sql_registry_def)
  show "settles service_generation pid (\<lambda>g. g = Some (StatusProcessing, n)) {None, Some (StatusCompleted, n)} d
      (store_completed (sql_registry (alone c)) pid n date d)"
    "service_sound (snd (store_completed (sql_registry (alone c)) pid n date d))"
    using co by (simp_all add: sql_registry_def)
  show "service_sound (snd (clock_now (sql_registry (alone c)) d))"
    using u by (simp add: sql_registry_def Now_def service_sound_def)
next
  show "service_generation (snd (clock_now (sql_registry (alone c)) d)) = service_generation d"
    for d :: "('id, 'e, 'h, 's) service"
    by (simp add: sql_registry_def Now_def service_generation_def)
qed

section \<open>Properties\<close>

definition handlers_keep_outbox :: "('e, 'h, ('id, 's) outbox_world) handler_interp \<Rightarrow> bool" where
  "handlers_keep_outbox exec \<longleftrightarrow> (\<forall>h event w. db_of (snd (exec h event w)) = db_of w)"

lemma invoke_keeps:
  "handlers_keep_outbox exec \<Longrightarrow> db_of (snd (invoke exec h event w)) = db_of w"
  by (cases h) (auto simp: invoke_def handlers_keep_outbox_def split: prod.splits outcome.splits; metis snd_conv)+

lemma deliver_neutral:
  assumes "handlers_keep_outbox (sc_exec c)" "service_sound w"
  shows "service_sound (snd (bus_deliver (sql_registry (alone c)) l e w)) \<and>
    service_generation (snd (bus_deliver (sql_registry (alone c)) l e w)) = service_generation w"
proof -
  have "db_of (snd (bus_deliver (sql_registry (alone c)) l e w)) = db_of w"
    using invoke_keeps [OF assms(1)]
    by (auto simp: sql_registry_def alone_def Deliver_def split: option.splits)
  then show ?thesis using assms(2) by (simp add: service_sound_def service_generation_def)
qed

text \<open>C28: what \<open>Dispatch\<close> reports is what the table says. On the SQL store, with any faults but
  no other session, dispatching claimable publications leaves every other row alone; each
  publication ends completed (or deleted, or archived) or incomplete, the returned error joins
  exactly one failure per incomplete one, and it is nil only when all of them completed.\<close>

theorem Dispatch_reports_exactly_the_incomplete:
  assumes "handlers_keep_outbox (sc_exec c)" "service_sound w" "distinct (map p_id ps)"
    and "\<And>p. p \<in> set ps \<Longrightarrow> claimable (p_attempts p) (service_generation w (p_id p))"
    and "Dispatch (sql_registry (alone c)) ps w = (err, w')"
  shows "(\<forall>q. q \<notin> p_id ` set ps \<longrightarrow> service_generation w' q = service_generation w q) \<and>
    (let left = filter (\<lambda>p. incomplete (service_generation w' (p_id p))) ps
     in (if left = [] then err = None else \<exists>es. err = Some (Joined es) \<and> length es = length left))"
proof -
  obtain errs w1 where c: "collect_failures (dispatch (sql_registry (alone c))) ps w = (errs, w1)" by fastforce
  note sql_store.Dispatch_outcome [where c = c, OF deliver_neutral [OF assms(1)] assms(2-4) c]
  moreover have "errors_join errs = err" "w1 = w'" using assms(5) c by (simp_all add: Dispatch_def Let_def)
  moreover have "filter (\<lambda>e. e \<noteq> None) errs = errs" if "None \<notin> set errs"
    using that by (intro filter_True) (metis)
  ultimately show ?thesis by (auto simp: errors_join_def Let_def)
qed

definition demo_service_config :: "(nat, nat, string, unit, string) service_config" where
  "demo_service_config = \<lparr>sc_mode = CompletionModeDelete,
     sc_env = \<lparr>env_fails = \<lambda>_. None, env_now = \<lambda>k. Instant 2024 1 1 0 0 k 0, env_others = \<lambda>_ rows. rows\<rparr>,
     sc_exec = \<lambda>h event w. (Returned (if h = ''bad'' then Some (Leaf ''refused'') else None), w),
     sc_nil = 0, sc_uuid = Inr, sc_minus = \<lambda>t age. t,
     sc_serializer = snd (RegisterEventType ''nat'' ''number'' NewJSONSerializer),
     sc_type_of = \<lambda>e. Some ''nat'', sc_marshal = \<lambda>e. Inr ''7'', sc_unmarshal = \<lambda>t p. Inr 7\<rparr>"

definition demo_listeners :: "(nat, string) subscription list" where
  "demo_listeners = fold bus_apply
     [OpSubscribeTo (\<lambda>e. e = 7) ''a'' ''good'', OpSubscribeTo (\<lambda>e. True) ''b'' ''bad''] NewBus"

definition demo_publications :: "(nat, nat) publication list" where
  "demo_publications = [new_publication 0 ''a'' ''number'' ''7'' 7 (Instant 2024 1 1 0 0 0 0),
     new_publication 1 ''b'' ''number'' ''7'' 7 (Instant 2024 1 1 0 0 0 0)]"

definition demo_service :: "nat \<Rightarrow> (nat, nat, string, unit) service" where
  "demo_service k = \<lparr>subscriptions = demo_listeners, rest = \<lparr>ow_db = \<lparr>publications = map row_of (take k demo_publications),
     archived = [], ticks = 0\<rparr>, ow_ids = 0, ow_rest = ()\<rparr>\<rparr>"

lemmas demo_service_simps =
  demo_service_def demo_publications_def new_publication_def row_of_def service_generation_def
  service_sound_def db_of_def row_generation_def lookup_def unique_ids_def claimable_def status_defs

theorem Dispatch_reports_exactly_the_incomplete_witness:
  "let w' = snd (Dispatch (sql_registry (alone demo_service_config)) demo_publications (demo_service 2))
   in (\<forall>q. q \<notin> {0, 1} \<longrightarrow> service_generation w' q = service_generation (demo_service 2) q)"
proof -
  let ?R = "sql_registry (alone demo_service_config)"
  have "\<forall>q. q \<notin> p_id ` set demo_publications \<longrightarrow>
      service_generation (snd (Dispatch ?R demo_publications (demo_service 2))) q = service_generation (demo_service 2) q"
    by (rule Dispatch_reports_exactly_the_incomplete [THEN conjunct1, OF _ _ _ _ prod.collapse [symmetric]])
       (auto simp: demo_service_simps handlers_keep_outbox_def demo_service_config_def numeral_2_eq_2 simp del: formatTime.simps)
  then show ?thesis by (simp add: demo_publications_def new_publication_def)
qed

section \<open>Publishing on the SQL store\<close>

definition stored_prefix where
  "stored_prefix listeners etype payload event now before after r \<longleftrightarrow>
     (\<exists>ps ls. after = before @ map row_of ps \<and> listeners = map p_listener ps @ ls \<and>
       (\<forall>p \<in> set ps. p_status p = StatusPublished \<and> p_attempts p = 1 \<and> p_type p = etype \<and> p_payload p = payload \<and>
          p_event p = Some event \<and> p_date p = now \<and> p_completed p = None \<and> p_resubmitted p = Some now) \<and>
       (case r of Inl err \<Rightarrow> ls \<noteq> [] | Inr qs \<Rightarrow> qs = ps \<and> ls = []))"

text \<open>What publishing relies on, over the rows the caller's session sees: a row is appended or the
  call fails, and neither the clock nor the source of identifiers touches them.\<close>

locale publication_log =
  fixes R :: "('id, 'e, 'd) registry" and rows :: "'d \<Rightarrow> 'id row list"
  assumes create_appends: "store_create R p d = (err, d') \<Longrightarrow> rows d' = rows d @ (if err = None then [row_of p] else [])"
    and fresh_keeps: "fresh_id R d = (i, d') \<Longrightarrow> rows d' = rows d"
    and clock_keeps: "clock_now R d = (now, d') \<Longrightarrow> rows d' = rows d"
begin

lemma publish_all_appends:
  "publish_all R listeners etype payload event now d = (r, d') \<Longrightarrow>
   stored_prefix listeners etype payload event now (rows d) (rows d') r"
proof (induction listeners arbitrary: d d' r)
  case Nil
  then show ?case by (auto simp: stored_prefix_def intro!: exI [of _ "[]"])
next
  case (Cons l ls)
  obtain i d1 where i: "fresh_id R d = (i, d1)" by fastforce
  note d1 = fresh_keeps [OF i]
  show ?case
  proof (cases i)
    case (Inl e)
    then show ?thesis using Cons.prems i d1 by (auto simp: stored_prefix_def intro!: exI [of _ "[]"])
  next
    case (Inr pid)
    let ?p = "new_publication pid l etype payload event now"
    obtain err d2 where c: "store_create R ?p d1 = (err, d2)" by fastforce
    note d2 = create_appends [OF c]
    show ?thesis
    proof (cases err)
      case (Some e)
      then show ?thesis using Cons.prems i d1 Inr c d2
        by (auto simp: stored_prefix_def Let_def intro!: exI [of _ "[]"])
    next
      case None
      obtain r' d3 where p: "publish_all R ls etype payload event now d2 = (r', d3)" by fastforce
      from Cons.IH [OF p] obtain ps ms where ih:
        "rows d3 = rows d2 @ map row_of ps" "ls = map p_listener ps @ ms"
        "\<forall>p \<in> set ps. p_status p = StatusPublished \<and> p_attempts p = 1 \<and> p_type p = etype \<and> p_payload p = payload \<and>
          p_event p = Some event \<and> p_date p = now \<and> p_completed p = None \<and> p_resubmitted p = Some now"
        "case r' of Inl err \<Rightarrow> ms \<noteq> [] | Inr qs \<Rightarrow> qs = ps \<and> ms = []"
        unfolding stored_prefix_def by blast
      have "d' = d3" "r = (case r' of Inl e \<Rightarrow> Inl e | Inr qs \<Rightarrow> Inr (?p # qs))"
        using Cons.prems i Inr c None p by (auto simp: Let_def split: sum.splits)
      then show ?thesis
        using ih d1 d2 None unfolding stored_prefix_def
        by (intro exI [of _ "?p # ps"] exI [of _ ms]) (auto simp: new_publication_def split: sum.splits)
    qed
  qed
qed

lemma Publish_appends:
  assumes "Registry_Publish R event d = (r, d')"
  shows "let listeners = bus_listeners R event d in
    if listeners = [] then r = Inr [] \<and> d' = d
    else (case serialize R event of
        Inl err \<Rightarrow> r = Inl err \<and> d' = d
      | Inr (etype, payload) \<Rightarrow> \<exists>now. stored_prefix listeners etype payload event now (rows d) (rows d') r)"
proof -
  obtain now d1 where c: "clock_now R d = (now, d1)" by fastforce
  show ?thesis
    using assms c publish_all_appends [where d = d1 and d' = d' and now = now and event = event] clock_keeps [OF c]
    by (auto simp: Registry_Publish_def Let_def split: if_splits sum.splits prod.splits; blast)
qed

end

lemma store_create_sql:
  assumes "store_create (sql_registry (alone c)) p w = (err, w')"
  shows "publications (db_of w') = publications (db_of w) @ (if err = None then [row_of p] else [])"
  using assms
  by (auto simp: sql_registry_def on_db_def db_of_def Create_def execute_def tick_def insert_row_def Let_def alone_def
      split: option.splits sum.splits prod.splits if_splits)

interpretation sql_log: publication_log "sql_registry (alone c)" "\<lambda>w. publications (db_of w)"
  for c :: "('id, 'e, 'h, 's, 't) service_config"
  by unfold_locales
    (auto simp: store_create_sql, auto simp: sql_registry_def next_id_def on_db_def Now_def tick_def db_of_def)

text \<open>Publishing writes one row per listener. The rows \<open>Publish\<close> adds belong to the
  listeners that match the event at that moment, in order, each \<open>PUBLISHED\<close> with its first
  attempt counted and both dates set to the same instant; a nil error means one row for every
  listener and exactly those publications returned, an error leaves a proper prefix in the
  caller's transaction, and an event nobody listens to is not even serialized.\<close>

theorem Publish_stores_one_row_per_listener:
  assumes "Registry_Publish (sql_registry (alone c)) event w = (r, w')"
  shows "let listeners = ListenersFor event (subscriptions w) in
    if listeners = [] then r = Inr [] \<and> w' = w
    else (case Serialize (sc_type_of c) (sc_marshal c) (sc_serializer c) event of
        Inl err \<Rightarrow> r = Inl err \<and> w' = w
      | Inr (etype, payload) \<Rightarrow> \<exists>now. stored_prefix listeners etype payload event now
          (publications (db_of w)) (publications (db_of w')) r)"
proof -
  have parts: "bus_listeners (sql_registry (alone c)) event w = ListenersFor event (subscriptions w)"
    "serialize (sql_registry (alone c)) event = Serialize (sc_type_of c) (sc_marshal c) (sc_serializer c) event"
    by (simp_all add: sql_registry_def alone_def)
  show ?thesis using sql_log.Publish_appends [OF assms] unfolding parts .
qed

theorem Publish_stores_one_row_per_listener_witness:
  "let listeners = ListenersFor 7 demo_listeners;
       (r, w') = Registry_Publish (sql_registry (alone demo_service_config)) 7 (demo_service 0)
   in listeners = [''a'', ''b''] \<and> (\<exists>now. stored_prefix listeners ''number'' ''7'' 7 now [] (publications (db_of w')) r)"
proof -
  have "ListenersFor 7 demo_listeners = [''a'', ''b'']"
    by (simp add: demo_listeners_def SubscribeTo_def Bus_Subscribe_def NewBus_def ListenersFor_def)
  moreover have "Serialize (sc_type_of demo_service_config) (sc_marshal demo_service_config) (sc_serializer demo_service_config) 7 =
      Inr (''number'', ''7'')"
    by (simp add: demo_service_config_def Serialize_def RegisterEventType_def NewJSONSerializer_def)
  ultimately show ?thesis
    using Publish_stores_one_row_per_listener [of demo_service_config 7 "demo_service 0", OF prod.collapse [symmetric]]
    by (simp add: demo_service_def case_prod_beta db_of_def Let_def)
qed


end
