(* ===== verification/BusStore.thy ===== *)
theory BusStore
  imports Timestamp "HOL-Library.Product_Lexorder"
begin

text \<open>
  The store of the distributed bus (sqlbus/message.go, sqlbus/store.go, sqlbus/store_sql.go). The
  four tables are lists of rows with the columns of the migration scripts, dates as text; the
  type \<open>'id\<close> of message identifiers is ordered as their text is. A statement is a function on the
  tables; \<open>run\<close> lets other sessions commit just before it and decides whether it fails, which
  leaves the tables alone. A comparison with a NULL column does not hold.
\<close>

section \<open>The data of the package\<close>

type_synonym node_id = string
type_synonym delivery_mode = string
type_synonym bus_ordering = string
type_synonym delivery_status = string

definition DeliveryModeCompeting :: delivery_mode where
  "DeliveryModeCompeting = ''COMPETING''"

definition DeliveryModeBroadcast :: delivery_mode where
  "DeliveryModeBroadcast = ''BROADCAST''"

definition BusUnordered :: bus_ordering where
  "BusUnordered = ''UNORDERED''"

definition BusFIFO :: bus_ordering where
  "BusFIFO = ''FIFO''"

definition DeliveryPending :: delivery_status where
  "DeliveryPending = ''PENDING''"

definition DeliveryProcessing :: delivery_status where
  "DeliveryProcessing = ''PROCESSING''"

definition DeliveryCompleted :: delivery_status where
  "DeliveryCompleted = ''COMPLETED''"

definition DeliveryFailed :: delivery_status where
  "DeliveryFailed = ''FAILED''"

definition DeliveryExhausted :: delivery_status where
  "DeliveryExhausted = ''EXHAUSTED''"

lemmas delivery_status_defs = DeliveryPending_def DeliveryProcessing_def DeliveryCompleted_def
  DeliveryFailed_def DeliveryExhausted_def

lemma delivery_status_distinct [simp]:
  "DeliveryPending \<noteq> DeliveryProcessing" "DeliveryPending \<noteq> DeliveryCompleted" "DeliveryPending \<noteq> DeliveryFailed"
  "DeliveryPending \<noteq> DeliveryExhausted" "DeliveryProcessing \<noteq> DeliveryPending" "DeliveryProcessing \<noteq> DeliveryCompleted"
  "DeliveryProcessing \<noteq> DeliveryFailed" "DeliveryProcessing \<noteq> DeliveryExhausted" "DeliveryCompleted \<noteq> DeliveryPending"
  "DeliveryCompleted \<noteq> DeliveryProcessing" "DeliveryCompleted \<noteq> DeliveryFailed" "DeliveryCompleted \<noteq> DeliveryExhausted"
  "DeliveryFailed \<noteq> DeliveryPending" "DeliveryFailed \<noteq> DeliveryProcessing" "DeliveryFailed \<noteq> DeliveryCompleted"
  "DeliveryFailed \<noteq> DeliveryExhausted" "DeliveryExhausted \<noteq> DeliveryPending" "DeliveryExhausted \<noteq> DeliveryProcessing"
  "DeliveryExhausted \<noteq> DeliveryCompleted" "DeliveryExhausted \<noteq> DeliveryFailed"
  by (simp_all add: delivery_status_defs)

record 'id bus_message =
  m_id :: 'id
  m_type :: string
  m_payload :: string
  m_node :: node_id
  m_date :: instant

record 'id delivery_key =
  k_message :: 'id
  k_listener :: string
  k_instance :: string

record 'id bus_delivery =
  d_key :: "'id delivery_key"
  d_status :: delivery_status
  d_attempts :: int
  d_token :: string
  d_claim :: "instant option"
  d_next :: "instant option"
  d_completion :: "instant option"
  d_error :: string

record 'id due_delivery =
  due_delivery :: "'id bus_delivery"
  due_message :: "'id bus_message"

record consumer_key =
  ck_listener :: string
  ck_instance :: string
  ck_type :: string

record bus_consumer =
  c_listener :: string
  c_instance :: string
  c_type :: string
  c_mode :: delivery_mode
  c_start :: instant
  c_frontier :: instant
  c_registration :: instant
  c_heartbeat :: instant

definition Consumer_Key :: "bus_consumer \<Rightarrow> consumer_key" where
  "Consumer_Key c = \<lparr>ck_listener = c_listener c, ck_instance = c_instance c, ck_type = c_type c\<rparr>"

section \<open>The tables\<close>

record 'id message_row =
  mr_id :: 'id
  mr_type :: string
  mr_payload :: string
  mr_node :: string
  mr_date :: string

record listener_row =
  lr_listener :: string
  lr_mode :: string
  lr_ordering :: string

record consumer_row =
  cr_key :: consumer_key
  cr_mode :: string
  cr_start :: string
  cr_frontier :: string
  cr_registration :: string
  cr_heartbeat :: string

record 'id delivery_row =
  dr_key :: "'id delivery_key"
  dr_status :: string
  dr_attempts :: int
  dr_token :: string
  dr_claim :: "string option"
  dr_next :: "string option"
  dr_completion :: "string option"
  dr_error :: string

record 'id bus_db =
  t_messages :: "'id message_row list"
  t_listeners :: "listener_row list"
  t_consumers :: "consumer_row list"
  t_deliveries :: "'id delivery_row list"
  t_ticks :: nat

record 'id bus_env =
  be_fails :: "nat \<Rightarrow> goerror option"
  be_now :: "nat \<Rightarrow> instant"
  be_others :: "nat \<Rightarrow> 'id bus_db \<Rightarrow> 'id bus_db"

section \<open>Running statements\<close>

type_synonym ('id, 'a) statement = "'id bus_db \<Rightarrow> 'a \<times> 'id bus_db"
type_synonym ('id, 'a) store_call = "'id bus_db \<Rightarrow> (goerror + 'a) \<times> 'id bus_db"

definition run :: "'id bus_env \<Rightarrow> string \<Rightarrow> ('id, 'a) statement \<Rightarrow> ('id, 'a) store_call" where
  "run env fmt st d =
     (let d' = (be_others env (t_ticks d) d)\<lparr>t_ticks := Suc (t_ticks d)\<rparr>
      in case be_fails env (t_ticks d) of
          Some err \<Rightarrow> (Inl (Wrap fmt [err]), d')
        | None \<Rightarrow> (case st d' of (a, d'') \<Rightarrow> (Inr a, d'')))"

definition update_deliveries ::
  "('id delivery_row \<Rightarrow> bool) \<Rightarrow> ('id delivery_row \<Rightarrow> 'id delivery_row) \<Rightarrow> ('id, nat) statement" where
  "update_deliveries P f d =
     (length (filter P (t_deliveries d)), d\<lparr>t_deliveries := map (\<lambda>r. if P r then f r else r) (t_deliveries d)\<rparr>)"

definition update_consumers :: "(consumer_row \<Rightarrow> bool) \<Rightarrow> (consumer_row \<Rightarrow> consumer_row) \<Rightarrow> ('id, nat) statement" where
  "update_consumers P f d =
     (length (filter P (t_consumers d)), d\<lparr>t_consumers := map (\<lambda>r. if P r then f r else r) (t_consumers d)\<rparr>)"

text \<open>\<open>result.RowsAffected() > 0\<close>.\<close>

definition affected :: "('id, nat) statement \<Rightarrow> ('id, bool) statement" where
  "affected st d = (case st d of (n, d') \<Rightarrow> (0 < n, d'))"

definition optional_holds :: "('a \<Rightarrow> bool) \<Rightarrow> 'a option \<Rightarrow> bool" where
  "optional_holds P x = (case x of None \<Rightarrow> False | Some a \<Rightarrow> P a)"

section \<open>Messages and deliveries\<close>

definition message_to_row :: "'id bus_message \<Rightarrow> 'id message_row" where
  "message_to_row m = \<lparr>mr_id = m_id m, mr_type = m_type m, mr_payload = m_payload m, mr_node = m_node m,
     mr_date = formatTime (m_date m)\<rparr>"

definition insert_message :: "'id message_row \<Rightarrow> ('id, goerror option) statement" where
  "insert_message r d =
     (if list_ex (\<lambda>x. mr_id x = mr_id r) (t_messages d) then (Some (Leaf ''unique constraint violated''), d)
      else (None, d\<lparr>t_messages := t_messages d @ [r]\<rparr>))"

definition CreateMessage :: "'id bus_env \<Rightarrow> 'id bus_message \<Rightarrow> 'id bus_db \<Rightarrow> goerror option \<times> 'id bus_db" where
  "CreateMessage env m d = (case run env ''persist message %s: %w'' (insert_message (message_to_row m)) d of
      (Inl err, d') \<Rightarrow> (Some err, d')
    | (Inr (Some err), d') \<Rightarrow> (Some (Wrap ''persist message %s: %w'' [err]), d')
    | (Inr None, d') \<Rightarrow> (None, d'))"

definition pending_row :: "'id delivery_key \<Rightarrow> 'id delivery_row" where
  "pending_row key = \<lparr>dr_key = key, dr_status = DeliveryPending, dr_attempts = 0, dr_token = '''',
     dr_claim = None, dr_next = None, dr_completion = None, dr_error = ''''\<rparr>"

text \<open>\<open>INSERT ... ON CONFLICT DO NOTHING\<close>.\<close>

definition insert_delivery :: "'id delivery_key \<Rightarrow> 'id delivery_row list \<Rightarrow> 'id delivery_row list" where
  "insert_delivery key rows = (if list_ex (\<lambda>x. dr_key x = key) rows then rows else rows @ [pending_row key])"

fun CreateDeliveries :: "'id bus_env \<Rightarrow> 'id delivery_key list \<Rightarrow> 'id bus_db \<Rightarrow> goerror option \<times> 'id bus_db" where
  "CreateDeliveries env [] d = (None, d)"
| "CreateDeliveries env (key # keys) d =
     (case run env ''persist delivery of %s to %s: %w''
        (\<lambda>d. ((), d\<lparr>t_deliveries := insert_delivery key (t_deliveries d)\<rparr>)) d of
        (Inl err, d') \<Rightarrow> (Some err, d')
      | (Inr _, d') \<Rightarrow> CreateDeliveries env keys d')"

section \<open>Registrations\<close>

definition RegisterListenerMode ::
  "'id bus_env \<Rightarrow> string \<Rightarrow> delivery_mode \<Rightarrow> bus_ordering \<Rightarrow> ('id, delivery_mode \<times> bus_ordering) store_call" where
  "RegisterListenerMode env lid mode orderings d =
     (case run env ''register delivery mode of %s: %w''
        (\<lambda>d. ((), if list_ex (\<lambda>x. lr_listener x = lid) (t_listeners d) then d
                  else d\<lparr>t_listeners := t_listeners d @ [\<lparr>lr_listener = lid, lr_mode = mode, lr_ordering = orderings\<rparr>]\<rparr>)) d of
        (Inl err, d1) \<Rightarrow> (Inl err, d1)
      | (Inr _, d1) \<Rightarrow>
         (case run env ''read delivery mode of %s: %w'' (\<lambda>d. (filter (\<lambda>x. lr_listener x = lid) (t_listeners d), d)) d1 of
            (Inl err, d2) \<Rightarrow> (Inl err, d2)
          | (Inr [], d2) \<Rightarrow> (Inl (Leaf ''read delivery mode of %s: registration row is missing''), d2)
          | (Inr (winner # _), d2) \<Rightarrow> (Inr (lr_mode winner, lr_ordering winner), d2)))"

definition consumer_to_row :: "bus_consumer \<Rightarrow> consumer_row" where
  "consumer_to_row c = \<lparr>cr_key = Consumer_Key c, cr_mode = c_mode c, cr_start = formatTime (c_start c),
     cr_frontier = formatTime (c_frontier c), cr_registration = formatTime (c_registration c),
     cr_heartbeat = formatTime (c_heartbeat c)\<rparr>"

definition consumerKeyCondition :: "consumer_key \<Rightarrow> consumer_row \<Rightarrow> bool" where
  "consumerKeyCondition key c \<longleftrightarrow> cr_key c = key"

text \<open>\<open>ON CONFLICT ... DO UPDATE SET heartbeat_date = excluded.heartbeat_date\<close>.\<close>

definition upsert_consumer :: "consumer_row \<Rightarrow> consumer_row list \<Rightarrow> consumer_row list" where
  "upsert_consumer r rows =
     (if list_ex (consumerKeyCondition (cr_key r)) rows
      then map (\<lambda>c. if consumerKeyCondition (cr_key r) c then c\<lparr>cr_heartbeat := cr_heartbeat r\<rparr> else c) rows
      else rows @ [r])"

definition RegisterConsumer :: "'id bus_env \<Rightarrow> bus_consumer \<Rightarrow> ('id, unit) store_call" where
  "RegisterConsumer env c = run env ''register consumer %s/%s for %s: %w''
     (\<lambda>d. ((), d\<lparr>t_consumers := upsert_consumer (consumer_to_row c) (t_consumers d)\<rparr>))"

definition Heartbeat :: "'id bus_env \<Rightarrow> consumer_key \<Rightarrow> instant \<Rightarrow> ('id, bool) store_call" where
  "Heartbeat env key at = run env ''heartbeat consumer %s/%s: %w''
     (affected (update_consumers (consumerKeyCondition key) (\<lambda>c. c\<lparr>cr_heartbeat := formatTime at\<rparr>)))"

definition RemoveListener :: "'id bus_env \<Rightarrow> string \<Rightarrow> ('id, unit) store_call" where
  "RemoveListener env lid d =
     (case run env ''remove consumers of %s: %w''
        (\<lambda>d. ((), d\<lparr>t_consumers := filter (\<lambda>c. ck_listener (cr_key c) \<noteq> lid) (t_consumers d)\<rparr>)) d of
        (Inl err, d1) \<Rightarrow> (Inl err, d1)
      | (Inr _, d1) \<Rightarrow> run env ''remove delivery mode of %s: %w''
          (\<lambda>d. ((), d\<lparr>t_listeners := filter (\<lambda>x. lr_listener x \<noteq> lid) (t_listeners d)\<rparr>)) d1)"

section \<open>Materialization\<close>

definition frontierOf :: "consumer_key \<Rightarrow> 'id bus_db \<Rightarrow> string option" where
  "frontierOf key d = map_option cr_frontier (find (consumerKeyCondition key) (t_consumers d))"

definition delivery_key_of :: "consumer_key \<Rightarrow> 'id \<Rightarrow> 'id delivery_key" where
  "delivery_key_of key mid = \<lparr>k_message = mid, k_listener = ck_listener key, k_instance = ck_instance key\<rparr>"

definition materializable :: "consumer_key \<Rightarrow> 'id bus_db \<Rightarrow> 'id message_row \<Rightarrow> bool" where
  "materializable key d m \<longleftrightarrow> mr_type m = ck_type key \<and>
     optional_holds (\<lambda>frontier. frontier \<le> mr_date m) (frontierOf key d) \<and>
     \<not> list_ex (\<lambda>x. dr_key x = delivery_key_of key (mr_id m)) (t_deliveries d)"

definition materialize :: "consumer_key \<Rightarrow> ('id, nat) statement" where
  "materialize key d = (let missing = filter (materializable key d) (t_messages d)
     in (length missing,
         d\<lparr>t_deliveries := fold (insert_delivery \<circ> delivery_key_of key \<circ> mr_id) missing (t_deliveries d)\<rparr>))"

definition MaterializeDeliveries :: "'id bus_env \<Rightarrow> consumer_key \<Rightarrow> ('id, nat) store_call" where
  "MaterializeDeliveries env key = run env ''materialize deliveries of %s/%s for %s: %w'' (materialize key)"

definition advance :: "consumer_key \<Rightarrow> string \<Rightarrow> ('id, nat) statement" where
  "advance key frontier = update_consumers (\<lambda>c. consumerKeyCondition key c \<and> cr_frontier c < frontier)
     (\<lambda>c. c\<lparr>cr_frontier := frontier\<rparr>)"

definition AdvanceFrontier :: "'id bus_env \<Rightarrow> consumer_key \<Rightarrow> instant \<Rightarrow> ('id, nat) store_call" where
  "AdvanceFrontier env key frontier =
     run env ''advance frontier of %s/%s for %s: %w'' (advance key (formatTime frontier))"

section \<open>Finding and claiming\<close>

definition dueCondition :: "instant \<Rightarrow> instant \<Rightarrow> 'id delivery_row \<Rightarrow> bool" where
  "dueCondition now leaseCutoff r \<longleftrightarrow>
     dr_status r = DeliveryPending \<or>
     dr_status r = DeliveryFailed \<and> optional_holds (\<lambda>t. t \<le> formatTime now) (dr_next r) \<or>
     dr_status r = DeliveryProcessing \<and> optional_holds (\<lambda>t. t < formatTime leaseCutoff) (dr_claim r)"

text \<open>The statuses that are not terminal for the queue; exhausted deliveries do not count.\<close>

definition incompleteStatuses :: "delivery_status set" where
  "incompleteStatuses = {DeliveryPending, DeliveryProcessing, DeliveryFailed}"

definition of_consumer :: "string \<Rightarrow> string \<Rightarrow> 'id delivery_row \<Rightarrow> bool" where
  "of_consumer lid inst r \<longleftrightarrow> k_listener (dr_key r) = lid \<and> k_instance (dr_key r) = inst"

definition earlierIncompleteExists :: "string \<Rightarrow> string \<Rightarrow> string \<Rightarrow> 'id::linorder \<Rightarrow> 'id bus_db \<Rightarrow> bool" where
  "earlierIncompleteExists lid inst before beforeID d \<longleftrightarrow>
     list_ex (\<lambda>r. of_consumer lid inst r \<and> dr_status r \<in> incompleteStatuses \<and>
        list_ex (\<lambda>m. mr_id m = k_message (dr_key r) \<and>
           (mr_date m < before \<or> mr_date m = before \<and> mr_id m < beforeID)) (t_messages d)) (t_deliveries d)"

definition concurrentProcessingExists :: "string \<Rightarrow> string \<Rightarrow> 'id \<Rightarrow> instant \<Rightarrow> 'id bus_db \<Rightarrow> bool" where
  "concurrentProcessingExists lid inst other leaseCutoff d \<longleftrightarrow>
     list_ex (\<lambda>r. of_consumer lid inst r \<and> dr_status r = DeliveryProcessing \<and>
        optional_holds (\<lambda>t. formatTime leaseCutoff \<le> t) (dr_claim r) \<and> k_message (dr_key r) \<noteq> other) (t_deliveries d)"

definition joined :: "'id bus_db \<Rightarrow> ('id delivery_row \<times> 'id message_row) list" where
  "joined d = concat (map (\<lambda>r. map (Pair r) (filter (\<lambda>m. mr_id m = k_message (dr_key r)) (t_messages d))) (t_deliveries d))"

definition in_order :: "('id::linorder delivery_row \<times> 'id message_row) list \<Rightarrow> ('id delivery_row \<times> 'id message_row) list" where
  "in_order = sort_key (\<lambda>(r, m). (mr_date m, mr_id m))"

definition claimable_now :: "consumer_key \<Rightarrow> bus_ordering \<Rightarrow> instant \<Rightarrow> instant \<Rightarrow> 'id::linorder bus_db \<Rightarrow>
   'id delivery_row \<times> 'id message_row \<Rightarrow> bool" where
  "claimable_now key ord now leaseCutoff d = (\<lambda>(r, m).
     of_consumer (ck_listener key) (ck_instance key) r \<and> dueCondition now leaseCutoff r \<and>
     (ord = BusFIFO \<longrightarrow> optional_holds (\<lambda>frontier. mr_date m < frontier) (frontierOf key d) \<and>
        \<not> earlierIncompleteExists (ck_listener key) (ck_instance key) (mr_date m) (mr_id m) d))"

text \<open>Dates are read back with the layout they are written in, whose fraction has nine digits.\<close>

definition parseStoredTime :: "string \<Rightarrow> instant option" where
  "parseStoredTime s = (if length s = 30 then parseTime s else None)"

lemma stored_length: "valid t \<Longrightarrow> length (formatTime t) = 30"
  by (cases t) (simp add: render_year_def length_pad del: pad.simps)

lemma parse_of_format: "valid t \<Longrightarrow> parseStoredTime (formatTime t) = Some t"
  by (simp add: parseStoredTime_def stored_length parseTime_formatTime del: formatTime.simps)

fun parseNullableStoredTime :: "string option \<Rightarrow> instant option option" where
  "parseNullableStoredTime None = Some None"
| "parseNullableStoredTime (Some s) = map_option Some (parseStoredTime s)"

definition scanDueDelivery :: "'id delivery_row \<times> 'id message_row \<Rightarrow> goerror + 'id due_delivery" where
  "scanDueDelivery = (\<lambda>(r, m). case parseStoredTime (mr_date m) of
       None \<Rightarrow> Inl (Leaf ''parse publication date of %s: %w'')
     | Some date \<Rightarrow> (case parseNullableStoredTime (dr_claim r) of
         None \<Rightarrow> Inl (Leaf ''parse claim date of %s: %w'')
       | Some claim \<Rightarrow> (case parseNullableStoredTime (dr_next r) of
           None \<Rightarrow> Inl (Leaf ''parse next attempt date of %s: %w'')
         | Some next_attempt \<Rightarrow> (case parseNullableStoredTime (dr_completion r) of
             None \<Rightarrow> Inl (Leaf ''parse completion date of %s: %w'')
           | Some completion \<Rightarrow> Inr \<lparr>
               due_delivery = \<lparr>d_key = dr_key r, d_status = dr_status r, d_attempts = dr_attempts r, d_token = dr_token r,
                 d_claim = claim, d_next = next_attempt, d_completion = completion, d_error = dr_error r\<rparr>,
               due_message = \<lparr>m_id = mr_id m, m_type = mr_type m, m_payload = mr_payload m, m_node = mr_node m,
                 m_date = date\<rparr>\<rparr>))))"

fun collectDueDeliveries :: "('id delivery_row \<times> 'id message_row) list \<Rightarrow> goerror + 'id due_delivery list" where
  "collectDueDeliveries [] = Inr []"
| "collectDueDeliveries (x # xs) = (case scanDueDelivery x of
      Inl err \<Rightarrow> Inl err
    | Inr due \<Rightarrow> (case collectDueDeliveries xs of Inl err \<Rightarrow> Inl err | Inr dues \<Rightarrow> Inr (due # dues)))"

definition wrapped :: "string \<Rightarrow> (goerror + 'a) \<Rightarrow> goerror + 'a" where
  "wrapped fmt r = (case r of Inl err \<Rightarrow> Inl (Wrap fmt [err]) | Inr a \<Rightarrow> Inr a)"

definition fetch_due :: "'id bus_env \<Rightarrow> string \<Rightarrow> ('id::linorder bus_db \<Rightarrow> 'id delivery_row \<times> 'id message_row \<Rightarrow> bool) \<Rightarrow> int \<Rightarrow>
   ('id, 'id due_delivery list) store_call" where
  "fetch_due env fmt P lim d =
     (case run env fmt (\<lambda>d. (take (nat lim) (in_order (filter (P d) (joined d))), d)) d of
        (Inl err, d') \<Rightarrow> (Inl err, d')
      | (Inr found, d') \<Rightarrow> (wrapped fmt (collectDueDeliveries found), d'))"

definition FindDueDeliveries ::
  "'id bus_env \<Rightarrow> consumer_key \<Rightarrow> bus_ordering \<Rightarrow> instant \<Rightarrow> instant \<Rightarrow> int \<Rightarrow> ('id::linorder, 'id due_delivery list) store_call" where
  "FindDueDeliveries env key ord now leaseCutoff =
     fetch_due env ''find due deliveries of %s/%s: %w'' (claimable_now key ord now leaseCutoff)"

definition FindExhaustedDeliveries :: "'id bus_env \<Rightarrow> int \<Rightarrow> ('id::linorder, 'id due_delivery list) store_call" where
  "FindExhaustedDeliveries env =
     fetch_due env ''find exhausted deliveries: %w'' (\<lambda>d (r, m). dr_status r = DeliveryExhausted)"

definition claimCondition :: "'id delivery_key \<Rightarrow> int \<Rightarrow> instant \<Rightarrow> instant \<Rightarrow> 'id delivery_row \<Rightarrow> bool" where
  "claimCondition key attempts now leaseCutoff r \<longleftrightarrow>
     dr_key r = key \<and> dr_attempts r = attempts \<and> dueCondition now leaseCutoff r"

definition claimed_row :: "string \<Rightarrow> instant \<Rightarrow> int \<Rightarrow> 'id delivery_row \<Rightarrow> 'id delivery_row" where
  "claimed_row token now attempts r = r\<lparr>dr_status := DeliveryProcessing, dr_token := token,
     dr_claim := Some (formatTime now), dr_attempts := attempts + 1\<rparr>"

lemma claimed_row_simps [simp]:
  "dr_key (claimed_row token now n r) = dr_key r" "dr_status (claimed_row token now n r) = DeliveryProcessing"
  "dr_token (claimed_row token now n r) = token" "dr_attempts (claimed_row token now n r) = n + 1"
  "dr_claim (claimed_row token now n r) = Some (formatTime now)"
  by (simp_all add: claimed_row_def)

definition claim_delivery :: "'id delivery_key \<Rightarrow> string \<Rightarrow> instant \<Rightarrow> instant \<Rightarrow> int \<Rightarrow> ('id, nat) statement" where
  "claim_delivery key token now leaseCutoff attempts =
     update_deliveries (claimCondition key attempts now leaseCutoff) (claimed_row token now attempts)"

definition ClaimDelivery ::
  "'id bus_env \<Rightarrow> 'id delivery_key \<Rightarrow> string \<Rightarrow> instant \<Rightarrow> instant \<Rightarrow> int \<Rightarrow> ('id, bool) store_call" where
  "ClaimDelivery env key token now leaseCutoff attempts =
     run env ''claim delivery of %s to %s: %w'' (affected (claim_delivery key token now leaseCutoff attempts))"

definition claim_in_order ::
  "'id delivery_key \<Rightarrow> string \<Rightarrow> instant \<Rightarrow> instant \<Rightarrow> int \<Rightarrow> instant \<Rightarrow> ('id::linorder, nat) statement" where
  "claim_in_order key token now leaseCutoff attempts publicationDate d = update_deliveries
     (\<lambda>r. claimCondition key attempts now leaseCutoff r \<and>
        \<not> earlierIncompleteExists (k_listener key) (k_instance key) (formatTime publicationDate) (k_message key) d \<and>
        \<not> concurrentProcessingExists (k_listener key) (k_instance key) (k_message key) leaseCutoff d)
     (claimed_row token now attempts) d"

definition ClaimDeliveryInOrder ::
  "'id bus_env \<Rightarrow> 'id delivery_key \<Rightarrow> string \<Rightarrow> instant \<Rightarrow> instant \<Rightarrow> int \<Rightarrow> instant \<Rightarrow> ('id::linorder, bool) store_call" where
  "ClaimDeliveryInOrder env key token now leaseCutoff attempts publicationDate =
     run env ''claim delivery of %s to %s in order: %w''
       (affected (claim_in_order key token now leaseCutoff attempts publicationDate))"

section \<open>Settling\<close>

definition settlementCondition :: "'id delivery_key \<Rightarrow> string \<Rightarrow> 'id delivery_row \<Rightarrow> bool" where
  "settlementCondition key token r \<longleftrightarrow> dr_key r = key \<and> dr_status r = DeliveryProcessing \<and> dr_token r = token"

definition complete_delivery :: "'id delivery_key \<Rightarrow> string \<Rightarrow> instant \<Rightarrow> ('id, nat) statement" where
  "complete_delivery key token completionDate = update_deliveries (settlementCondition key token)
     (\<lambda>r. r\<lparr>dr_status := DeliveryCompleted, dr_completion := Some (formatTime completionDate), dr_error := ''''\<rparr>)"

definition CompleteDelivery :: "'id bus_env \<Rightarrow> 'id delivery_key \<Rightarrow> string \<Rightarrow> instant \<Rightarrow> ('id, bool) store_call" where
  "CompleteDelivery env key token completionDate =
     run env ''complete delivery of %s to %s: %w'' (affected (complete_delivery key token completionDate))"

definition fail_delivery ::
  "'id delivery_key \<Rightarrow> string \<Rightarrow> string \<Rightarrow> instant \<Rightarrow> int \<Rightarrow> int \<Rightarrow> ('id, nat) statement" where
  "fail_delivery key token cause nextAttemptDate attempts maximumAttempts =
     (let status = (if attempts \<ge> maximumAttempts then DeliveryExhausted else DeliveryFailed)
      in update_deliveries (settlementCondition key token)
           (\<lambda>r. r\<lparr>dr_status := status, dr_error := cause, dr_next := Some (formatTime nextAttemptDate)\<rparr>))"

definition FailDelivery ::
  "'id bus_env \<Rightarrow> 'id delivery_key \<Rightarrow> string \<Rightarrow> string \<Rightarrow> instant \<Rightarrow> int \<Rightarrow> int \<Rightarrow> ('id, bool) store_call" where
  "FailDelivery env key token cause nextAttemptDate attempts maximumAttempts =
     run env ''fail delivery of %s to %s: %w''
       (affected (fail_delivery key token cause nextAttemptDate attempts maximumAttempts))"

definition resubmit_delivery :: "'id delivery_key \<Rightarrow> ('id, nat) statement" where
  "resubmit_delivery key = update_deliveries
     (\<lambda>r. dr_key r = key \<and> dr_status r \<in> {DeliveryFailed, DeliveryExhausted})
     (\<lambda>r. r\<lparr>dr_status := DeliveryPending, dr_attempts := 0, dr_next := None, dr_error := ''''\<rparr>)"

definition ResubmitDelivery :: "'id bus_env \<Rightarrow> 'id delivery_key \<Rightarrow> ('id, bool) store_call" where
  "ResubmitDelivery env key = run env ''resubmit delivery of %s to %s: %w'' (affected (resubmit_delivery key))"

section \<open>Maintenance\<close>

definition delete_messages :: "('id message_row \<Rightarrow> bool) \<Rightarrow> ('id, nat) statement" where
  "delete_messages P d = (length (filter P (t_messages d)), d\<lparr>t_messages := filter (\<lambda>m. \<not> P m) (t_messages d)\<rparr>)"

definition delete_deliveries :: "('id delivery_row \<Rightarrow> bool) \<Rightarrow> ('id, nat) statement" where
  "delete_deliveries P d =
     (length (filter P (t_deliveries d)), d\<lparr>t_deliveries := filter (\<lambda>r. \<not> P r) (t_deliveries d)\<rparr>)"

definition delete_consumers :: "(consumer_row \<Rightarrow> bool) \<Rightarrow> ('id, nat) statement" where
  "delete_consumers P d = (length (filter P (t_consumers d)), d\<lparr>t_consumers := filter (\<lambda>c. \<not> P c) (t_consumers d)\<rparr>)"

definition expired_broadcast :: "instant \<Rightarrow> consumer_row \<Rightarrow> bool" where
  "expired_broadcast cutoff c \<longleftrightarrow> cr_mode c = DeliveryModeBroadcast \<and> cr_heartbeat c < formatTime cutoff"

definition ExpireBroadcastConsumers :: "'id bus_env \<Rightarrow> instant \<Rightarrow> ('id, nat) store_call" where
  "ExpireBroadcastConsumers env cutoff =
     run env ''expire broadcast consumers: %w'' (delete_consumers (expired_broadcast cutoff))"

definition completed_for :: "consumer_row \<Rightarrow> 'id message_row \<Rightarrow> 'id bus_db \<Rightarrow> bool" where
  "completed_for c m d \<longleftrightarrow> list_ex (\<lambda>r. k_message (dr_key r) = mr_id m \<and> k_listener (dr_key r) = ck_listener (cr_key c) \<and>
     k_instance (dr_key r) = ck_instance (cr_key c) \<and> dr_status r = DeliveryCompleted) (t_deliveries d)"

definition covers :: "consumer_row \<Rightarrow> 'id message_row \<Rightarrow> bool" where
  "covers c m \<longleftrightarrow> ck_type (cr_key c) = mr_type m \<and> cr_start c \<le> mr_date m"

definition settled_message :: "instant \<Rightarrow> 'id bus_db \<Rightarrow> 'id message_row \<Rightarrow> bool" where
  "settled_message olderThan d m \<longleftrightarrow> mr_date m < formatTime olderThan \<and>
     \<not> list_ex (\<lambda>c. covers c m \<and> \<not> completed_for c m d) (t_consumers d)"

definition DeleteSettledMessages :: "'id bus_env \<Rightarrow> instant \<Rightarrow> ('id, nat) store_call" where
  "DeleteSettledMessages env olderThan =
     run env ''delete settled messages: %w'' (\<lambda>d. delete_messages (settled_message olderThan d) d)"

definition DeleteMessagesOlderThan :: "'id bus_env \<Rightarrow> instant \<Rightarrow> ('id, nat) store_call" where
  "DeleteMessagesOlderThan env cutoff =
     run env ''delete messages past the maximum age: %w'' (delete_messages (\<lambda>m. mr_date m < formatTime cutoff))"

definition without_message :: "('id, nat) statement" where
  "without_message d =
     delete_deliveries (\<lambda>r. \<not> list_ex (\<lambda>m. mr_id m = k_message (dr_key r)) (t_messages d)) d"

definition without_consumer :: "('id, nat) statement" where
  "without_consumer d =
     delete_deliveries (\<lambda>r. \<not> list_ex (\<lambda>c. ck_listener (cr_key c) = k_listener (dr_key r) \<and>
        ck_instance (cr_key c) = k_instance (dr_key r)) (t_consumers d)) d"

definition DeleteOrphanDeliveries :: "'id bus_env \<Rightarrow> ('id, nat) store_call" where
  "DeleteOrphanDeliveries env d =
     (case run env ''delete deliveries without a message: %w'' without_message d of
        (Inl err, d1) \<Rightarrow> (Inl err, d1)
      | (Inr n, d1) \<Rightarrow> (case run env ''delete deliveries without a consumer: %w'' without_consumer d1 of
          (Inl err, d2) \<Rightarrow> (Inl err, d2)
        | (Inr k, d2) \<Rightarrow> (Inr (n + k), d2)))"

end
