(* ===== verification/BusProtocol.thy ===== *)
theory BusProtocol
  imports BusStore
begin

text \<open>
  The distributed bus as a cluster runs it (\<open>dispatchDelivery\<close> and \<open>Publish\<close> of sqlbus/bridge.go,
  \<open>processAttachment\<close>, \<open>heartbeat\<close> and \<open>maintain\<close> of sqlbus/dispatcher.go). Any number of nodes
  share one database; an agent is one goroutine of one node, and each step is one statement of
  sqlbus/store_sql.go, so agents interleave freely and may crash anywhere. \<open>fifo\<close> and \<open>budget\<close>
  give the ordering and the attempt budget of each listener, which every node agrees on:
  \<open>RegisterListenerMode\<close> arbitrates the first, the configuration contract asks for the second.
  \<open>bn_floor\<close> is the current time less the materialization grace. The lists of identifiers, tokens,
  granted claims and effective settlements, and the horizon, are history.
\<close>

datatype 'id bus_agent =
    Claiming "'id delivery_key" string int instant
  | Running "'id delivery_key" string int
  | Finished "'id delivery_key" string int bool
  | Materializing consumer_key instant
  | Advancing consumer_key instant
  | Stopped

record 'id bus_net =
  bn_db :: "'id bus_db"
  bn_agents :: "'id bus_agent list"
  bn_floor :: instant
  bn_ids :: "'id list"
  bn_tokens :: "string list"
  bn_claims :: "('id delivery_key \<times> string \<times> int) list"
  bn_settled :: "('id delivery_key \<times> string \<times> bool) list"
  bn_horizon :: string

definition empty_db :: "'id bus_db" where
  "empty_db = \<lparr>t_messages = [], t_listeners = [], t_consumers = [], t_deliveries = [], t_ticks = 0\<rparr>"

definition bus_start :: "instant \<Rightarrow> 'id bus_net" where
  "bus_start t = \<lparr>bn_db = empty_db, bn_agents = [], bn_floor = t, bn_ids = [], bn_tokens = [], bn_claims = [],
     bn_settled = [], bn_horizon = ''''\<rparr>"

definition set_bus_agent :: "nat \<Rightarrow> 'id bus_agent \<Rightarrow> 'id bus_net \<Rightarrow> 'id bus_net" where
  "set_bus_agent i a s = s\<lparr>bn_agents := (bn_agents s)[i := a]\<rparr>"

section \<open>The duties of maintenance and the operator\<close>

datatype 'id duty =
    Beat consumer_key instant
  | Decommission string
  | ExpireBroadcast instant
  | PurgeSettled instant
  | PurgeAged instant
  | SweepWithoutMessage
  | SweepWithoutConsumer
  | Revive "'id delivery_key"

fun perform :: "'id duty \<Rightarrow> 'id bus_db \<Rightarrow> 'id bus_db" where
  "perform (Beat key at) d = snd (update_consumers (consumerKeyCondition key) (\<lambda>c. c\<lparr>cr_heartbeat := formatTime at\<rparr>) d)"
| "perform (Decommission lid) d = d\<lparr>t_consumers := filter (\<lambda>c. ck_listener (cr_key c) \<noteq> lid) (t_consumers d)\<rparr>"
| "perform (ExpireBroadcast cutoff) d = snd (delete_consumers (expired_broadcast cutoff) d)"
| "perform (PurgeSettled olderThan) d = snd (delete_messages (settled_message olderThan d) d)"
| "perform (PurgeAged cutoff) d = snd (delete_messages (\<lambda>m. mr_date m < formatTime cutoff) d)"
| "perform SweepWithoutMessage d = snd (without_message d)"
| "perform SweepWithoutConsumer d = snd (without_consumer d)"
| "perform (Revive key) d = snd (resubmit_delivery key d)"

section \<open>Steps of an agent\<close>

text \<open>What the clock and the listener contribute to a step.\<close>

record stimulus =
  at_now :: instant
  at_cutoff :: instant
  at_next :: instant
  at_succeeds :: bool
  at_cause :: string

definition claim_statement_for ::
  "(string \<Rightarrow> bool) \<Rightarrow> stimulus \<Rightarrow> 'id delivery_key \<Rightarrow> string \<Rightarrow> int \<Rightarrow> instant \<Rightarrow> ('id::linorder, nat) statement" where
  "claim_statement_for fifo x key token attempts date =
     (if fifo (k_listener key) then claim_in_order key token (at_now x) (at_cutoff x) attempts date
      else claim_delivery key token (at_now x) (at_cutoff x) attempts)"

definition bus_claim ::
  "(string \<Rightarrow> bool) \<Rightarrow> stimulus \<Rightarrow> nat \<Rightarrow> 'id delivery_key \<Rightarrow> string \<Rightarrow> int \<Rightarrow> instant \<Rightarrow> 'id::linorder bus_net \<Rightarrow> 'id bus_net" where
  "bus_claim fifo x i key token attempts date s =
     (case claim_statement_for fifo x key token attempts date (bn_db s) of (n, db) \<Rightarrow>
        if 0 < n then set_bus_agent i (Running key token (attempts + 1))
          (s\<lparr>bn_db := db, bn_claims := bn_claims s @ [(key, token, attempts + 1)],
             bn_horizon := max (bn_horizon s) (formatTime (at_cutoff x))\<rparr>)
        else set_bus_agent i Stopped s)"

definition bus_settle ::
  "(string \<Rightarrow> int) \<Rightarrow> stimulus \<Rightarrow> nat \<Rightarrow> 'id delivery_key \<Rightarrow> string \<Rightarrow> int \<Rightarrow> bool \<Rightarrow> 'id bus_net \<Rightarrow> 'id bus_net" where
  "bus_settle budget x i key token attempt ok s =
     (case (if ok then complete_delivery key token (at_now x) (bn_db s)
            else fail_delivery key token (at_cause x) (at_next x) attempt (budget (k_listener key)) (bn_db s)) of
        (n, db) \<Rightarrow> set_bus_agent i Stopped
          (if 0 < n then s\<lparr>bn_db := db, bn_settled := bn_settled s @ [(key, token, ok)]\<rparr> else s))"

definition bus_act ::
  "(string \<Rightarrow> bool) \<Rightarrow> (string \<Rightarrow> int) \<Rightarrow> stimulus \<Rightarrow> nat \<Rightarrow> 'id::linorder bus_net \<Rightarrow> 'id bus_net" where
  "bus_act fifo budget x i s = (case bn_agents s ! i of
      Claiming key token attempts date \<Rightarrow> bus_claim fifo x i key token attempts date s
    | Running key token attempt \<Rightarrow> set_bus_agent i (Finished key token attempt (at_succeeds x)) s
    | Finished key token attempt ok \<Rightarrow> bus_settle budget x i key token attempt ok s
    | Materializing key ceiling \<Rightarrow> set_bus_agent i (Advancing key ceiling) (s\<lparr>bn_db := snd (materialize key (bn_db s))\<rparr>)
    | Advancing key ceiling \<Rightarrow> set_bus_agent i Stopped (s\<lparr>bn_db := snd (advance key (formatTime ceiling) (bn_db s))\<rparr>)
    | Stopped \<Rightarrow> s)"

section \<open>The cluster\<close>

definition add_agent :: "'id bus_agent \<Rightarrow> 'id bus_net \<Rightarrow> 'id bus_net" where
  "add_agent a s = s\<lparr>bn_agents := bn_agents s @ [a]\<rparr>"

text \<open>
  A publication becomes visible at its commit, no later than the grace after its date. A reader
  starts from any row it saw at some time; the local dispatch after a commit starts without
  reading, for unordered listeners only. A registration is inserted or refreshed with a boundary
  computed from any earlier reading of the clock.
\<close>

inductive bus_step :: "(string \<Rightarrow> bool) \<Rightarrow> (string \<Rightarrow> int) \<Rightarrow> 'id::linorder bus_net \<Rightarrow> 'id bus_net \<Rightarrow> bool"
  for fifo budget where
  publish: "m_id m \<notin> set (bn_ids s) \<Longrightarrow> valid (m_date m) \<Longrightarrow> formatTime (bn_floor s) \<le> formatTime (m_date m) \<Longrightarrow>
    \<forall>key \<in> set keys. k_message key = m_id m \<Longrightarrow>
    bus_step fifo budget s (s\<lparr>bn_ids := bn_ids s @ [m_id m],
      bn_db := (bn_db s)\<lparr>t_messages := t_messages (bn_db s) @ [message_to_row m],
        t_deliveries := fold insert_delivery keys (t_deliveries (bn_db s))\<rparr>\<rparr>)"
| read: "(r, m) \<in> set (joined (bn_db s)) \<Longrightarrow> scanDueDelivery (r, m) = Inr due \<Longrightarrow> token \<notin> set (bn_tokens s) \<Longrightarrow>
    bus_step fifo budget s (add_agent (Claiming (d_key (due_delivery due)) token (d_attempts (due_delivery due))
      (m_date (due_message due))) (s\<lparr>bn_tokens := bn_tokens s @ [token]\<rparr>))"
| local: "\<not> fifo (k_listener key) \<Longrightarrow> token \<notin> set (bn_tokens s) \<Longrightarrow>
    bus_step fifo budget s (add_agent (Claiming key token 0 date) (s\<lparr>bn_tokens := bn_tokens s @ [token]\<rparr>))"
| begin_pass: "bus_step fifo budget s (add_agent (Materializing key (bn_floor s)) s)"
| act: "i < length (bn_agents s) \<Longrightarrow> bus_step fifo budget s (bus_act fifo budget x i s)"
| crash: "i < length (bn_agents s) \<Longrightarrow> bus_step fifo budget s (set_bus_agent i Stopped s)"
| duty: "bus_step fifo budget s (s\<lparr>bn_db := perform w (bn_db s)\<rparr>)"
| enroll: "c_start c = c_frontier c \<Longrightarrow> formatTime (c_start c) \<le> formatTime (bn_floor s) \<Longrightarrow>
    bus_step fifo budget s (s\<lparr>bn_db := (bn_db s)\<lparr>t_consumers := upsert_consumer (consumer_to_row c) (t_consumers (bn_db s))\<rparr>\<rparr>)"
| clock: "formatTime (bn_floor s) \<le> formatTime t \<Longrightarrow> bus_step fifo budget s (s\<lparr>bn_floor := t\<rparr>)"

abbreviation bus_reachable :: "(string \<Rightarrow> bool) \<Rightarrow> (string \<Rightarrow> int) \<Rightarrow> 'id::linorder bus_net \<Rightarrow> bool" where
  "bus_reachable fifo budget \<equiv> reach (\<lambda>s. \<exists>t. s = bus_start t) (bus_step fifo budget)"

section \<open>Inserting deliveries\<close>

lemma pending_row_simps [simp]:
  "dr_key (pending_row key) = key" "dr_status (pending_row key) = DeliveryPending" "dr_claim (pending_row key) = None"
  by (simp_all add: pending_row_def)

lemma insert_delivery_set: "set (insert_delivery key rows) \<subseteq> insert (pending_row key) (set rows)"
  by (simp add: insert_delivery_def subset_insertI)

lemma insert_delivery_keys: "dr_key ` set (insert_delivery key rows) = insert key (dr_key ` set rows)"
  by (auto simp: insert_delivery_def list_ex_iff)

lemma insert_delivery_distinct: "distinct (map dr_key rows) \<Longrightarrow> distinct (map dr_key (insert_delivery key rows))"
  by (auto simp: insert_delivery_def list_ex_iff)

lemma insert_delivery_keeps: "set rows \<subseteq> set (insert_delivery key rows)"
  by (auto simp: insert_delivery_def)

lemma inserts_set: "set (fold insert_delivery keys rows) \<subseteq> pending_row ` set keys \<union> set rows"
proof (induction keys arbitrary: rows)
  case (Cons k keys)
  then show ?case using insert_delivery_set [of k rows] Cons.IH [of "insert_delivery k rows"] by auto
qed simp

lemma inserts_keys: "dr_key ` set (fold insert_delivery keys rows) = set keys \<union> dr_key ` set rows"
  by (induction keys arbitrary: rows) (auto simp: insert_delivery_keys)

lemma inserts_distinct: "distinct (map dr_key rows) \<Longrightarrow> distinct (map dr_key (fold insert_delivery keys rows))"
  by (induction keys arbitrary: rows) (auto intro: insert_delivery_distinct)

lemma inserts_keep: "set rows \<subseteq> set (fold insert_delivery keys rows)"
proof (induction keys arbitrary: rows)
  case (Cons k keys)
  then show ?case using insert_delivery_keeps [of rows k] by fastforce
qed simp

lemma fold_materialize:
  "fold (insert_delivery \<circ> delivery_key_of key \<circ> mr_id) ms rows = fold insert_delivery (map (delivery_key_of key \<circ> mr_id) ms) rows"
  by (simp add: fold_map comp_assoc)

section \<open>The invariant of claims\<close>

definition row_ok ::
  "(string \<Rightarrow> int) \<Rightarrow> ('id delivery_key \<times> string \<times> int) list \<Rightarrow> ('id delivery_key \<times> string \<times> bool) list \<Rightarrow> 'id delivery_row \<Rightarrow> bool" where
  "row_ok budget claims settled r \<longleftrightarrow>
     dr_status r \<in> {DeliveryPending, DeliveryProcessing, DeliveryCompleted, DeliveryFailed, DeliveryExhausted} \<and>
     (dr_status r = DeliveryProcessing \<longrightarrow> dr_claim r \<noteq> None \<and> (dr_key r, dr_token r, dr_attempts r) \<in> set claims \<and>
        dr_token r \<notin> (fst \<circ> snd) ` set settled) \<and>
     (dr_status r = DeliveryFailed \<longrightarrow> dr_attempts r < budget (k_listener (dr_key r))) \<and>
     (dr_status r = DeliveryExhausted \<longrightarrow> budget (k_listener (dr_key r)) \<le> dr_attempts r)"

fun agent_ok :: "('id delivery_key \<times> string \<times> int) list \<Rightarrow> string list \<Rightarrow> 'id bus_agent \<Rightarrow> bool" where
  "agent_ok claims tokens (Claiming key token n date) \<longleftrightarrow> token \<in> set tokens \<and> token \<notin> (fst \<circ> snd) ` set claims"
| "agent_ok claims tokens (Running key token n) \<longleftrightarrow> (key, token, n) \<in> set claims"
| "agent_ok claims tokens (Finished key token n ok) \<longleftrightarrow> (key, token, n) \<in> set claims"
| "agent_ok claims tokens _ \<longleftrightarrow> True"

fun pending_token :: "'id bus_agent \<Rightarrow> string list" where
  "pending_token (Claiming key token n date) = [token]"
| "pending_token _ = []"

definition history_ok where
  "history_ok claims settled tokens \<longleftrightarrow>
     distinct (map (fst \<circ> snd) claims) \<and> (fst \<circ> snd) ` set claims \<subseteq> set tokens \<and>
     distinct (map (fst \<circ> snd) settled) \<and> (\<forall>(k, t, ok) \<in> set settled. \<exists>n. (k, t, n) \<in> set claims)"

definition tables_ok :: "'id list \<Rightarrow> 'id bus_db \<Rightarrow> bool" where
  "tables_ok ids d \<longleftrightarrow> distinct (map mr_id (t_messages d)) \<and> mr_id ` set (t_messages d) \<subseteq> set ids \<and>
     distinct (map dr_key (t_deliveries d))"

definition bus_net_inv :: "(string \<Rightarrow> int) \<Rightarrow> 'id bus_net \<Rightarrow> bool" where
  "bus_net_inv budget s \<longleftrightarrow> tables_ok (bn_ids s) (bn_db s) \<and>
     history_ok (bn_claims s) (bn_settled s) (bn_tokens s) \<and>
     (\<forall>r \<in> set (t_deliveries (bn_db s)). row_ok budget (bn_claims s) (bn_settled s) r) \<and>
     (\<forall>a \<in> set (bn_agents s). agent_ok (bn_claims s) (bn_tokens s) a) \<and>
     distinct (concat (map pending_token (bn_agents s)))"

lemma claims_unique:
  assumes "history_ok claims settled tokens" "(k, t, n) \<in> set claims" "(k', t, n') \<in> set claims"
  shows "k = k' \<and> n = n'"
proof -
  have "inj_on (fst \<circ> snd) (set claims)" using assms(1) by (simp add: history_ok_def distinct_map)
  then have "(k, t, n) = (k', t, n')" by (rule inj_onD) (use assms(2,3) in simp_all)
  then show ?thesis by simp
qed

lemma row_ok_pending: "dr_status r = DeliveryPending \<Longrightarrow> row_ok budget claims settled r"
  by (simp add: row_ok_def)

lemma inv_db:
  assumes "bus_net_inv budget s" "tables_ok ids db"
    and "\<And>r. r \<in> set (t_deliveries db) \<Longrightarrow> r \<in> set (t_deliveries (bn_db s)) \<or> dr_status r = DeliveryPending"
  shows "bus_net_inv budget (s\<lparr>bn_ids := ids, bn_db := db\<rparr>)"
  using assms unfolding bus_net_inv_def by (auto intro: row_ok_pending)

lemma inv_db_only:
  assumes "bus_net_inv budget s" "tables_ok (bn_ids s) db"
    and "\<And>r. r \<in> set (t_deliveries db) \<Longrightarrow> r \<in> set (t_deliveries (bn_db s)) \<or> dr_status r = DeliveryPending"
  shows "bus_net_inv budget (s\<lparr>bn_db := db\<rparr>)"
  using inv_db [OF assms] by simp

lemma distinct_update_nil:
  "distinct (concat (map g xs)) \<Longrightarrow> g a = [] \<Longrightarrow>
   distinct (concat (map g (xs[i := a]))) \<and> set (concat (map g (xs[i := a]))) \<subseteq> set (concat (map g xs))"
proof (induction xs arbitrary: i)
  case (Cons x xs)
  then show ?case
  proof (cases i)
    case (Suc j)
    then show ?thesis using Cons.IH [of j] Cons.prems by auto
  qed simp
qed simp

lemma inv_agent:
  assumes "bus_net_inv budget s" "agent_ok (bn_claims s) (bn_tokens s) a" "pending_token a = []"
  shows "bus_net_inv budget (set_bus_agent i a s)"
  using assms distinct_update_nil [of pending_token "bn_agents s" a i]
  by (auto simp: bus_net_inv_def set_bus_agent_def dest!: set_update_subset_insert [THEN subsetD])

lemma agent_ok_more:
  "agent_ok claims tokens a \<Longrightarrow> set tokens \<subseteq> set tokens' \<Longrightarrow> agent_ok claims tokens' a"
  by (cases a) auto

lemma inv_add_claiming:
  assumes "bus_net_inv budget s" "token \<notin> set (bn_tokens s)"
  shows "bus_net_inv budget (add_agent (Claiming key token n date) (s\<lparr>bn_tokens := bn_tokens s @ [token]\<rparr>))"
proof -
  have old: "\<And>a. a \<in> set (bn_agents s) \<Longrightarrow> agent_ok (bn_claims s) (bn_tokens s) a" "history_ok (bn_claims s) (bn_settled s) (bn_tokens s)"
    using assms(1) by (simp_all add: bus_net_inv_def)
  have "set (pending_token a) \<subseteq> set (bn_tokens s)" if "a \<in> set (bn_agents s)" for a
    using old(1) [OF that] by (cases a) auto
  then have "token \<notin> set (concat (map pending_token (bn_agents s)))" using assms(2) by auto
  moreover have "token \<notin> (fst \<circ> snd) ` set (bn_claims s)" using old(2) assms(2) by (auto simp: history_ok_def)
  moreover have "history_ok (bn_claims s) (bn_settled s) (bn_tokens s @ [token])" using old(2) by (auto simp: history_ok_def)
  moreover have "agent_ok (bn_claims s) (bn_tokens s @ [token]) a" if "a \<in> set (bn_agents s)" for a
    by (rule agent_ok_more [OF old(1) [OF that]]) auto
  ultimately show ?thesis using assms(1) by (auto simp: bus_net_inv_def add_agent_def)
qed

lemma inv_add_pass: "bus_net_inv budget s \<Longrightarrow> bus_net_inv budget (add_agent (Materializing key c) s)"
  by (simp add: bus_net_inv_def add_agent_def)

lemma update_deliveries_keys:
  "(\<And>r. dr_key (f r) = dr_key r) \<Longrightarrow> map dr_key (t_deliveries (snd (update_deliveries P f d))) = map dr_key (t_deliveries d)"
  by (simp add: update_deliveries_def)

lemma update_deliveries_frame [simp]:
  "t_messages (snd (update_deliveries P f d)) = t_messages d"
  "t_consumers (snd (update_deliveries P f d)) = t_consumers d"
  by (simp_all add: update_deliveries_def)

lemma tables_ok_update [preserves]:
  "tables_ok ids d \<Longrightarrow> (\<And>r. dr_key (f r) = dr_key r) \<Longrightarrow> tables_ok ids (snd (update_deliveries P f d))"
  by (simp add: tables_ok_def update_deliveries_keys)

lemma perform_tables: "tables_ok ids d \<Longrightarrow> tables_ok ids (perform w d)"
proof (cases w)
  case (Revive key)
  assume "tables_ok ids d"
  then show ?thesis using Revive by (auto simp: resubmit_delivery_def intro!: tables_ok_update)
qed (auto simp: tables_ok_def update_consumers_def delete_consumers_def delete_messages_def without_message_def
      without_consumer_def delete_deliveries_def distinct_map_filter)

lemma perform_rows: "r \<in> set (t_deliveries (perform w d)) \<Longrightarrow> r \<in> set (t_deliveries d) \<or> dr_status r = DeliveryPending"
  by (cases w) (auto simp: update_consumers_def delete_consumers_def delete_messages_def without_message_def
      without_consumer_def delete_deliveries_def resubmit_delivery_def update_deliveries_def split: if_splits)

lemma materialize_tables: "tables_ok ids d \<Longrightarrow> tables_ok ids (snd (materialize key d))"
  by (simp add: tables_ok_def materialize_def Let_def fold_materialize inserts_distinct)

lemma materialize_rows:
  "r \<in> set (t_deliveries (snd (materialize key d))) \<Longrightarrow> r \<in> set (t_deliveries d) \<or> dr_status r = DeliveryPending"
proof -
  let ?keys = "map (delivery_key_of key \<circ> mr_id) (filter (materializable key d) (t_messages d))"
  assume "r \<in> set (t_deliveries (snd (materialize key d)))"
  then have "r \<in> set (fold insert_delivery ?keys (t_deliveries d))" by (simp add: materialize_def Let_def fold_materialize)
  then show ?thesis using inserts_set [of ?keys "t_deliveries d"] by auto
qed

lemma advance_frame [simp]:
  "t_deliveries (snd (advance key f d)) = t_deliveries d" "t_messages (snd (advance key f d)) = t_messages d"
  by (simp_all add: advance_def update_consumers_def)

lemma distinct_concat_nth:
  assumes "distinct (concat (map g xs))" "i < length xs" "j < length xs" "i \<noteq> j" "t \<in> set (g (xs ! i))"
  shows "t \<notin> set (g (xs ! j))"
  using assms
proof (induction xs arbitrary: i j)
  case (Cons x xs)
  show ?case
  proof (cases i; cases j)
    fix a b assume ij: "i = Suc a" "j = Suc b"
    then show ?thesis using Cons.IH [of a b] Cons.prems by simp
  next
    fix b assume "i = 0" "j = Suc b"
    then show ?thesis using Cons.prems nth_mem [of b xs] by (auto simp: disjoint_iff)
  next
    fix a assume "i = Suc a" "j = 0"
    then show ?thesis using Cons.prems nth_mem [of a xs] by (auto simp: disjoint_iff)
  qed (use Cons.prems in simp_all)
qed simp

definition claim_guard ::
  "(string \<Rightarrow> bool) \<Rightarrow> stimulus \<Rightarrow> 'id delivery_key \<Rightarrow> int \<Rightarrow> instant \<Rightarrow> 'id::linorder bus_db \<Rightarrow> 'id delivery_row \<Rightarrow> bool" where
  "claim_guard fifo x key n date d r \<longleftrightarrow> claimCondition key n (at_now x) (at_cutoff x) r \<and>
     (fifo (k_listener key) \<longrightarrow>
        \<not> earlierIncompleteExists (k_listener key) (k_instance key) (formatTime date) (k_message key) d \<and>
        \<not> concurrentProcessingExists (k_listener key) (k_instance key) (k_message key) (at_cutoff x) d)"

lemma claim_shape:
  "claim_statement_for fifo x key token n date d =
     update_deliveries (claim_guard fifo x key n date d) (claimed_row token (at_now x) n) d"
proof -
  have "claim_guard fifo x key n date d = (\<lambda>r. claimCondition key n (at_now x) (at_cutoff x) r \<and>
     (fifo (k_listener key) \<longrightarrow>
        \<not> earlierIncompleteExists (k_listener key) (k_instance key) (formatTime date) (k_message key) d \<and>
        \<not> concurrentProcessingExists (k_listener key) (k_instance key) (k_message key) (at_cutoff x) d))"
    by (intro ext) (simp add: claim_guard_def)
  then show ?thesis by (simp add: claim_statement_for_def claim_in_order_def claim_delivery_def)
qed

lemma row_ok_more:
  "row_ok budget claims settled r \<Longrightarrow> row_ok budget (claims @ cs) settled r"
  by (auto simp: row_ok_def)

lemma agent_ok_claim:
  "agent_ok claims tokens b \<Longrightarrow> token \<notin> set (pending_token b) \<Longrightarrow> agent_ok (claims @ [(key, token, n)]) tokens b"
  by (cases b) auto

lemma bus_claim_inv:
  assumes inv: "bus_net_inv budget s" and i: "i < length (bn_agents s)" and a: "bn_agents s ! i = Claiming key token n date"
  shows "bus_net_inv budget (bus_claim fifo x i key token n date s)"
proof -
  define P where "P = claim_guard fifo x key n date (bn_db s)"
  have P: "claim_statement_for fifo x key token n date (bn_db s) = update_deliveries P (claimed_row token (at_now x) n) (bn_db s)"
    "\<And>r. P r \<Longrightarrow> claimCondition key n (at_now x) (at_cutoff x) r"
    by (simp_all add: claim_shape P_def claim_guard_def)
  obtain k db where st: "update_deliveries P (claimed_row token (at_now x) n) (bn_db s) = (k, db)" by fastforce
  let ?claims = "bn_claims s @ [(key, token, n + 1)]"
  have parts: "tables_ok (bn_ids s) (bn_db s)" "history_ok (bn_claims s) (bn_settled s) (bn_tokens s)"
    "\<And>r. r \<in> set (t_deliveries (bn_db s)) \<Longrightarrow> row_ok budget (bn_claims s) (bn_settled s) r"
    "\<And>b. b \<in> set (bn_agents s) \<Longrightarrow> agent_ok (bn_claims s) (bn_tokens s) b"
    "distinct (concat (map pending_token (bn_agents s)))"
    using inv by (simp_all add: bus_net_inv_def)
  have fresh: "token \<in> set (bn_tokens s)" "token \<notin> (fst \<circ> snd) ` set (bn_claims s)"
    using parts(4) [OF nth_mem [OF i]] a by simp_all
  have unsettled: "token \<notin> (fst \<circ> snd) ` set (bn_settled s)"
    using parts(2) fresh(2) by (force simp: history_ok_def)
  show ?thesis
  proof (cases "0 < k")
    case False
    then show ?thesis using inv_agent [OF inv, of Stopped i] P(1) st by (simp add: bus_claim_def)
  next
    case True
    have rows: "row_ok budget ?claims (bn_settled s) r" if "r \<in> set (t_deliveries db)" for r
    proof -
      have "t_deliveries db = map (\<lambda>r. if P r then claimed_row token (at_now x) n r else r) (t_deliveries (bn_db s))"
        using st by (auto simp: update_deliveries_def)
      then obtain q where q: "q \<in> set (t_deliveries (bn_db s))" "r = (if P q then claimed_row token (at_now x) n q else q)"
        using \<open>r \<in> set (t_deliveries db)\<close> by auto
      show ?thesis
      proof (cases "P q")
        case True
        then have "dr_key q = key" using P(2) by (simp add: claimCondition_def)
        then show ?thesis using q(2) True unsettled by (auto simp: row_ok_def)
      next
        case False
        then show ?thesis using row_ok_more [OF parts(3) [OF q(1)]] q(2) by simp
      qed
    qed
    have history: "history_ok ?claims (bn_settled s) (bn_tokens s)"
      using parts(2) fresh by (fastforce simp: history_ok_def)
    have agents: "agent_ok ?claims (bn_tokens s) b" if mem: "b \<in> set ((bn_agents s)[i := Running key token (n + 1)])" for b
    proof -
      obtain j where j: "j < length (bn_agents s)" "b = (bn_agents s)[i := Running key token (n + 1)] ! j"
        using mem by (auto simp: in_set_conv_nth)
      show ?thesis
      proof (cases "j = i")
        case False
        then have b: "b = bn_agents s ! j" using j by simp
        have "token \<notin> set (pending_token b)"
          using distinct_concat_nth [OF parts(5) i j(1)] False a b by auto
        then show ?thesis using agent_ok_claim parts(4) [OF nth_mem [OF j(1)]] b by blast
      qed (use j i in simp)
    qed
    have "tables_ok (bn_ids s) db" using tables_ok_update [OF parts(1), of "claimed_row token (at_now x) n" P] st by simp
    then show ?thesis
      using True P(1) st rows history agents distinct_update_nil [OF parts(5), of "Running key token (n + 1)" i]
      by (simp add: bus_claim_def bus_net_inv_def set_bus_agent_def)
  qed
qed

lemma bus_settle_inv:
  assumes inv: "bus_net_inv budget s" and i: "i < length (bn_agents s)" and a: "bn_agents s ! i = Finished key token n ok"
  shows "bus_net_inv budget (bus_settle budget x i key token n ok s)"
proof -
  define f :: "'a delivery_row \<Rightarrow> 'a delivery_row" where
    "f = (\<lambda>r. if ok then r\<lparr>dr_status := DeliveryCompleted, dr_completion := Some (formatTime (at_now x)), dr_error := ''''\<rparr>
      else r\<lparr>dr_status := (if n \<ge> budget (k_listener key) then DeliveryExhausted else DeliveryFailed), dr_error := at_cause x,
        dr_next := Some (formatTime (at_next x))\<rparr>)"
  let ?P = "settlementCondition key token"
  have st: "(if ok then complete_delivery key token (at_now x) (bn_db s)
            else fail_delivery key token (at_cause x) (at_next x) n (budget (k_listener key)) (bn_db s)) =
      update_deliveries ?P f (bn_db s)"
    by (simp add: complete_delivery_def fail_delivery_def f_def Let_def)
  obtain k db where up: "update_deliveries ?P f (bn_db s) = (k, db)" by fastforce
  let ?settled = "bn_settled s @ [(key, token, ok)]"
  have parts: "tables_ok (bn_ids s) (bn_db s)" "history_ok (bn_claims s) (bn_settled s) (bn_tokens s)"
    "\<And>r. r \<in> set (t_deliveries (bn_db s)) \<Longrightarrow> row_ok budget (bn_claims s) (bn_settled s) r"
    using inv by (simp_all add: bus_net_inv_def)
  have claim: "(key, token, n) \<in> set (bn_claims s)"
    using inv nth_mem [OF i] a by (force simp: bus_net_inv_def)
  have stop: "bus_net_inv budget (set_bus_agent i Stopped s)" by (rule inv_agent [OF inv]) simp_all
  show ?thesis
  proof (cases "0 < k")
    case False
    then show ?thesis using stop st up by (simp add: bus_settle_def)
  next
    case True
    then obtain r0 where r0: "r0 \<in> set (t_deliveries (bn_db s))" "?P r0"
      using up by (auto simp: update_deliveries_def filter_empty_conv)
    then have fresh: "token \<notin> (fst \<circ> snd) ` set (bn_settled s)"
      using parts(3) [OF r0(1)] by (auto simp: row_ok_def settlementCondition_def)
    have rows: "row_ok budget (bn_claims s) ?settled r" if "r \<in> set (t_deliveries db)" for r
    proof -
      have "t_deliveries db = map (\<lambda>r. if ?P r then f r else r) (t_deliveries (bn_db s))"
        using up by (auto simp: update_deliveries_def)
      then obtain q where q: "q \<in> set (t_deliveries (bn_db s))" "r = (if ?P q then f q else q)"
        using \<open>r \<in> set (t_deliveries db)\<close> by auto
      note ok_q = parts(3) [OF q(1)]
      have holder: "dr_key q = key \<and> dr_attempts q = n" if "dr_status q = DeliveryProcessing" "dr_token q = token"
        using claims_unique [OF parts(2) claim, of "dr_key q" "dr_attempts q"] ok_q that by (auto simp: row_ok_def)
      show ?thesis
      proof (cases "?P q")
        case True
        then have "dr_key q = key" "dr_attempts q = n" using holder by (simp_all add: settlementCondition_def)
        then show ?thesis using q(2) True by (simp add: row_ok_def f_def)
      next
        case False
        then have "dr_token q \<noteq> token" if "dr_status q = DeliveryProcessing"
          using holder that unfolding settlementCondition_def by metis
        with ok_q have "row_ok budget (bn_claims s) ?settled q" by (auto simp: row_ok_def)
        then show ?thesis using False q(2) by simp
      qed
    qed
    have "tables_ok (bn_ids s) db" using tables_ok_update [OF parts(1), of f ?P] up by (simp add: f_def)
    moreover have "history_ok (bn_claims s) ?settled (bn_tokens s)" using parts(2) fresh claim by (auto simp: history_ok_def)
    ultimately show ?thesis
      using stop True st up rows by (simp add: bus_settle_def bus_net_inv_def set_bus_agent_def)
  qed
qed

lemma bus_act_inv:
  assumes inv: "bus_net_inv budget s" and i: "i < length (bn_agents s)"
  shows "bus_net_inv budget (bus_act fifo budget x i s)"
proof (cases "bn_agents s ! i")
  case (Claiming key token n date)
  then show ?thesis using bus_claim_inv [OF inv i Claiming] by (simp add: bus_act_def)
next
  case (Running key token n)
  then have "(key, token, n) \<in> set (bn_claims s)" using inv nth_mem [OF i] by (force simp: bus_net_inv_def)
  then show ?thesis using inv_agent [OF inv, of "Finished key token n (at_succeeds x)" i] Running by (simp add: bus_act_def)
next
  case (Finished key token n ok)
  then show ?thesis using bus_settle_inv [OF inv i Finished] by (simp add: bus_act_def)
next
  case (Materializing key c)
  have "bus_net_inv budget (s\<lparr>bn_db := snd (materialize key (bn_db s))\<rparr>)"
    using inv materialize_rows by (intro inv_db_only) (auto simp: bus_net_inv_def intro: materialize_tables)
  then show ?thesis using inv_agent [of budget _ "Advancing key c" i] Materializing by (simp add: bus_act_def)
next
  case (Advancing key c)
  have "tables_ok ids (snd (advance key f d))" if "tables_ok ids d" for ids f and d :: "'a bus_db"
    using that by (simp add: tables_ok_def)
  then have "bus_net_inv budget (s\<lparr>bn_db := snd (advance key (formatTime c) (bn_db s))\<rparr>)"
    using inv by (intro inv_db_only) (auto simp: bus_net_inv_def)
  then show ?thesis using inv_agent [of budget _ Stopped i] Advancing by (simp add: bus_act_def)
qed (use inv in \<open>simp add: bus_act_def\<close>)

lemma publish_tables:
  assumes "tables_ok ids d" "m_id m \<notin> set ids"
  shows "tables_ok (ids @ [m_id m]) (d\<lparr>t_messages := t_messages d @ [message_to_row m],
    t_deliveries := fold insert_delivery keys (t_deliveries d)\<rparr>)"
  using assms by (auto simp: tables_ok_def message_to_row_def inserts_distinct)

lemma bus_step_inv: "bus_step fifo budget s s' \<Longrightarrow> bus_net_inv budget s \<Longrightarrow> bus_net_inv budget s'"
proof (induction rule: bus_step.induct)
  case (publish m s keys)
  have "tables_ok (bn_ids s) (bn_db s)" using publish(5) by (simp add: bus_net_inv_def)
  from publish_tables [OF this publish(1), of keys] show ?case
    using inserts_set [of keys "t_deliveries (bn_db s)"] by (intro inv_db publish(5)) auto
next
  case (duty s w)
  have "tables_ok (bn_ids s) (bn_db s)" using duty by (simp add: bus_net_inv_def)
  from perform_tables [OF this] show ?case by (intro inv_db_only duty) (auto dest: perform_rows)
next
  case (enroll c s)
  then show ?case by (auto simp: bus_net_inv_def tables_ok_def)
next
  case (clock s t)
  then show ?case by (simp add: bus_net_inv_def)
next
  case (crash i s)
  then show ?case by (intro inv_agent) simp_all
qed (auto intro: bus_act_inv inv_add_claiming inv_add_pass)

lemma bus_reachable_inv: "bus_reachable fifo budget s \<Longrightarrow> bus_net_inv budget s"
proof (erule reach_invariant)
  show "\<exists>t. s = bus_start t \<Longrightarrow> bus_net_inv budget s" for s :: "'a bus_net"
    by (auto simp: bus_net_inv_def bus_start_def empty_db_def tables_ok_def history_ok_def)
qed (rule bus_step_inv)

section \<open>The holder of a delivery is its last claimant\<close>

definition latest_ok :: "('id delivery_key \<times> string \<times> int) list \<Rightarrow> 'id delivery_row \<Rightarrow> bool" where
  "latest_ok claims r \<longleftrightarrow> (dr_status r = DeliveryProcessing \<longrightarrow>
     (\<exists>earlier. filter (\<lambda>c. fst c = dr_key r) claims = earlier @ [(dr_key r, dr_token r, dr_attempts r)]))"

definition latest_inv :: "'id bus_net \<Rightarrow> bool" where
  "latest_inv s \<longleftrightarrow> (\<forall>r \<in> set (t_deliveries (bn_db s)). latest_ok (bn_claims s) r)"

lemma latest_frame:
  assumes "latest_inv s" "bn_claims s' = bn_claims s"
    and "\<And>r. r \<in> set (t_deliveries (bn_db s')) \<Longrightarrow> r \<in> set (t_deliveries (bn_db s)) \<or> dr_status r \<noteq> DeliveryProcessing"
  shows "latest_inv s'"
  using assms unfolding latest_inv_def latest_ok_def by metis

lemma bus_agent_frame [simp]:
  "bn_db (set_bus_agent i a s) = bn_db s" "bn_claims (set_bus_agent i a s) = bn_claims s"
  "bn_db (add_agent a s) = bn_db s" "bn_claims (add_agent a s) = bn_claims s"
  "bn_floor (set_bus_agent i a s) = bn_floor s" "bn_floor (add_agent a s) = bn_floor s"
  "bn_horizon (set_bus_agent i a s) = bn_horizon s" "bn_horizon (add_agent a s) = bn_horizon s"
  "bn_ids (set_bus_agent i a s) = bn_ids s" "bn_ids (add_agent a s) = bn_ids s"
  "bn_settled (set_bus_agent i a s) = bn_settled s" "bn_settled (add_agent a s) = bn_settled s"
  by (simp_all add: set_bus_agent_def add_agent_def)

lemma same_row: "tables_ok ids d \<Longrightarrow> r \<in> set (t_deliveries d) \<Longrightarrow> q \<in> set (t_deliveries d) \<Longrightarrow> dr_key r = dr_key q \<Longrightarrow> r = q"
  by (auto simp: tables_ok_def distinct_map dest: inj_onD)

lemma bus_claim_latest:
  assumes inv: "bus_net_inv budget s" and late: "latest_inv s"
  shows "latest_inv (bus_claim fifo x i key token n date s)"
proof -
  define P where "P = claim_guard fifo x key n date (bn_db s)"
  obtain k db where st: "update_deliveries P (claimed_row token (at_now x) n) (bn_db s) = (k, db)" by fastforce
  have tables: "tables_ok (bn_ids s) (bn_db s)" using inv by (simp add: bus_net_inv_def)
  have guard: "dr_key r = key" if "P r" for r using that by (simp add: P_def claim_guard_def claimCondition_def)
  show ?thesis
  proof (cases "0 < k")
    case False
    then show ?thesis using late st by (simp add: bus_claim_def claim_shape P_def latest_inv_def)
  next
    case True
    then obtain r0 where r0: "r0 \<in> set (t_deliveries (bn_db s))" "P r0"
      using st by (auto simp: update_deliveries_def filter_empty_conv)
    have "latest_ok (bn_claims s @ [(key, token, n + 1)]) r" if "r \<in> set (t_deliveries db)" for r
    proof -
      have "t_deliveries db = map (\<lambda>r. if P r then claimed_row token (at_now x) n r else r) (t_deliveries (bn_db s))"
        using st by (auto simp: update_deliveries_def)
      then obtain q where q: "q \<in> set (t_deliveries (bn_db s))" "r = (if P q then claimed_row token (at_now x) n q else q)"
        using \<open>r \<in> set (t_deliveries db)\<close> by auto
      show ?thesis
      proof (cases "P q")
        case True
        then show ?thesis using q(2) guard [OF True] by (simp add: latest_ok_def)
      next
        case False
        then have "dr_key q \<noteq> key" using same_row [OF tables q(1) r0(1)] guard [OF r0(2)] r0(2) by metis
        then show ?thesis using late q False by (auto simp: latest_inv_def latest_ok_def)
      qed
    qed
    then show ?thesis using True st by (simp add: bus_claim_def claim_shape P_def [symmetric] latest_inv_def)
  qed
qed

lemma bus_settle_rows:
  "r \<in> set (t_deliveries (bn_db (bus_settle budget x i key token n ok s))) \<Longrightarrow>
   r \<in> set (t_deliveries (bn_db s)) \<or> dr_status r \<in> {DeliveryCompleted, DeliveryFailed, DeliveryExhausted}"
  by (auto simp: bus_settle_def complete_delivery_def fail_delivery_def Let_def update_deliveries_def split: if_splits)

lemma bus_settle_claims [simp]: "bn_claims (bus_settle budget x i key token n ok s) = bn_claims s"
  by (simp add: bus_settle_def split: prod.split)

lemma latest_step: "bus_step fifo budget s s' \<Longrightarrow> bus_net_inv budget s \<Longrightarrow> latest_inv s \<Longrightarrow> latest_inv s'"
proof (induction rule: bus_step.induct)
  case (publish m s keys)
  show ?case
    by (rule latest_frame [OF publish(6)]) (use inserts_set [of keys "t_deliveries (bn_db s)"] in auto)
next
  case (duty s w)
  show ?case by (rule latest_frame [OF duty(2)]) (auto dest: perform_rows)
next
  case (act i s x)
  show ?case
  proof (cases "bn_agents s ! i")
    case (Finished key token n ok)
    show ?thesis
      by (rule latest_frame [OF act(3)]) (use Finished in \<open>auto simp: bus_act_def dest: bus_settle_rows\<close>)
  next
    case (Materializing key c)
    show ?thesis
      by (rule latest_frame [OF act(3)]) (use Materializing in \<open>auto simp: bus_act_def dest: materialize_rows\<close>)
  next
    case (Claiming key token n date)
    then show ?thesis using bus_claim_latest [OF act(2,3), of fifo x i key token n date] by (simp add: bus_act_def)
  qed (use act in \<open>auto simp: bus_act_def latest_inv_def\<close>)
qed (auto simp: latest_inv_def)

lemma bus_reachable_latest: "bus_reachable fifo budget s \<Longrightarrow> latest_inv s"
proof -
  assume "bus_reachable fifo budget s"
  then have "bus_net_inv budget s \<and> latest_inv s"
  proof (rule reach_invariant)
    show "\<exists>t. s = bus_start t \<Longrightarrow> bus_net_inv budget s \<and> latest_inv s" for s :: "'a bus_net"
      by (auto simp: bus_net_inv_def bus_start_def empty_db_def tables_ok_def history_ok_def latest_inv_def)
  qed (use bus_step_inv latest_step in blast)
  then show ?thesis ..
qed

section \<open>Properties\<close>

lemma bus_settlement_misses:
  assumes "\<And>r. r \<in> set (t_deliveries (bn_db s)) \<Longrightarrow> \<not> settlementCondition key token r" "bn_agents s ! i = Finished key token n ok"
  shows "bus_act fifo budget x i s = set_bus_agent i Stopped s"
proof -
  have "fst (update_deliveries (settlementCondition key token) f (bn_db s)) = 0" for f
    using assms(1) by (auto simp: update_deliveries_def filter_empty_conv)
  then show ?thesis
    using assms(2) by (simp add: bus_act_def bus_settle_def complete_delivery_def fail_delivery_def Let_def case_prod_beta)
qed

lemma bus_settlement_hits:
  assumes "r \<in> set (t_deliveries (bn_db s))" "settlementCondition key token r" "bn_agents s ! i = Finished key token n ok"
  shows "bn_settled (bus_act fifo budget x i s) = bn_settled s @ [(key, token, ok)]"
proof -
  have "0 < fst (update_deliveries (settlementCondition key token) f (bn_db s))" for f
    using assms(1,2) by (auto simp: update_deliveries_def filter_empty_conv)
  then show ?thesis
    using assms(3) by (simp add: bus_act_def bus_settle_def complete_delivery_def fail_delivery_def Let_def case_prod_beta set_bus_agent_def)
qed

text \<open>A claim followed by a later one on its delivery is not the last, so no row carries its token.\<close>

lemma overtaken_claim_misses:
  assumes inv: "bus_net_inv budget s" "latest_inv s"
    and claims: "bn_claims s = earlier @ (key, token, m) # later" "key \<in> fst ` set later"
    and r: "r \<in> set (t_deliveries (bn_db s))"
  shows "\<not> settlementCondition key token r"
proof
  assume "settlementCondition key token r"
  then have hit: "dr_key r = key" "dr_status r = DeliveryProcessing" "dr_token r = token" by (auto simp: settlementCondition_def)
  let ?mine = "filter (\<lambda>c. fst c = key)"
  obtain e where e: "?mine (bn_claims s) = e @ [(key, token, dr_attempts r)]"
    using inv(2) r hit by (auto simp: latest_inv_def latest_ok_def)
  have "?mine later \<noteq> []" using claims(2) by (auto simp: filter_empty_conv)
  then have "last (?mine (bn_claims s)) \<in> set later"
    unfolding claims(1) using last_in_set [of "?mine later"] by simp
  then have "(key, token, dr_attempts r) \<in> set later" by (simp add: e)
  then have "token \<in> (fst \<circ> snd) ` set later" by (rule image_eqI [rotated]) simp
  moreover have "distinct (map (fst \<circ> snd) (bn_claims s))" using inv(1) by (simp add: bus_net_inv_def history_ok_def)
  then have "token \<notin> (fst \<circ> snd) ` set later" by (simp add: claims(1))
  ultimately show False by simp
qed

text \<open>C30: a claim is granted once and settles at most once, and only while it is the latest. In every
  interleaving of nodes, crashes, thefts of expired leases, resubmissions and maintenance, no two granted
  claims share a token; each effective settlement belongs to a granted claim and no claim has two; a
  delivery in processing is held by the last claim granted on it; a dispatcher whose delivery was claimed
  again since, whose claim was settled already, or whose delivery is no longer in processing under its
  token settles nothing; and one whose delivery is does settle it.\<close>

theorem each_claim_settles_at_most_once:
  assumes "bus_reachable fifo budget s"
  shows "distinct (map (fst \<circ> snd) (bn_claims s)) \<and> distinct (map (fst \<circ> snd) (bn_settled s)) \<and>
    (\<forall>(key, token, ok) \<in> set (bn_settled s). \<exists>n. (key, token, n) \<in> set (bn_claims s)) \<and>
    (\<forall>r \<in> set (t_deliveries (bn_db s)). dr_status r = DeliveryProcessing \<longrightarrow>
       dr_token r \<notin> (fst \<circ> snd) ` set (bn_settled s) \<and>
       (\<exists>earlier. filter (\<lambda>c. fst c = dr_key r) (bn_claims s) = earlier @ [(dr_key r, dr_token r, dr_attempts r)])) \<and>
    (\<forall>i x key token n ok. bn_agents s ! i = Finished key token n ok \<and>
       ((\<exists>earlier m later. bn_claims s = earlier @ (key, token, m) # later \<and> key \<in> fst ` set later) \<or>
        token \<in> (fst \<circ> snd) ` set (bn_settled s) \<or>
        (\<forall>r \<in> set (t_deliveries (bn_db s)). dr_key r = key \<longrightarrow> dr_status r \<noteq> DeliveryProcessing \<or> dr_token r \<noteq> token)) \<longrightarrow>
       bus_act fifo budget x i s = set_bus_agent i Stopped s) \<and>
    (\<forall>i x key token n ok. bn_agents s ! i = Finished key token n ok \<and>
       (\<exists>r \<in> set (t_deliveries (bn_db s)). dr_key r = key \<and> dr_status r = DeliveryProcessing \<and> dr_token r = token) \<longrightarrow>
       bn_settled (bus_act fifo budget x i s) = bn_settled s @ [(key, token, ok)])"
proof (intro conjI)
  have inv: "bus_net_inv budget s" and late: "latest_inv s"
    using bus_reachable_inv [OF assms] bus_reachable_latest [OF assms] by simp_all
  then show "distinct (map (fst \<circ> snd) (bn_claims s))" "distinct (map (fst \<circ> snd) (bn_settled s))"
    "\<forall>(key, token, ok) \<in> set (bn_settled s). \<exists>n. (key, token, n) \<in> set (bn_claims s)"
    by (simp_all add: bus_net_inv_def history_ok_def)
  show held: "\<forall>r \<in> set (t_deliveries (bn_db s)). dr_status r = DeliveryProcessing \<longrightarrow>
       dr_token r \<notin> (fst \<circ> snd) ` set (bn_settled s) \<and>
       (\<exists>earlier. filter (\<lambda>c. fst c = dr_key r) (bn_claims s) = earlier @ [(dr_key r, dr_token r, dr_attempts r)])"
    using inv late unfolding bus_net_inv_def row_ok_def latest_inv_def latest_ok_def by blast
  show "\<forall>i x key token n ok. bn_agents s ! i = Finished key token n ok \<and>
       ((\<exists>earlier m later. bn_claims s = earlier @ (key, token, m) # later \<and> key \<in> fst ` set later) \<or>
        token \<in> (fst \<circ> snd) ` set (bn_settled s) \<or>
        (\<forall>r \<in> set (t_deliveries (bn_db s)). dr_key r = key \<longrightarrow> dr_status r \<noteq> DeliveryProcessing \<or> dr_token r \<noteq> token)) \<longrightarrow>
       bus_act fifo budget x i s = set_bus_agent i Stopped s"
  proof (intro allI impI, elim conjE, rule bus_settlement_misses)
    fix key token r
    assume r: "r \<in> set (t_deliveries (bn_db s))" and lost:
      "(\<exists>earlier m later. bn_claims s = earlier @ (key, token, m) # later \<and> key \<in> fst ` set later) \<or>
        token \<in> (fst \<circ> snd) ` set (bn_settled s) \<or>
        (\<forall>r \<in> set (t_deliveries (bn_db s)). dr_key r = key \<longrightarrow> dr_status r \<noteq> DeliveryProcessing \<or> dr_token r \<noteq> token)"
    from lost show "\<not> settlementCondition key token r"
    proof (elim disjE exE conjE)
      fix earlier m later assume "bn_claims s = earlier @ (key, token, m) # later" "key \<in> fst ` set later"
      then show ?thesis by (rule overtaken_claim_misses [OF inv late _ _ r])
    qed (use held r in \<open>auto simp: settlementCondition_def\<close>)
  qed
  show "\<forall>i x key token n ok. bn_agents s ! i = Finished key token n ok \<and>
       (\<exists>r \<in> set (t_deliveries (bn_db s)). dr_key r = key \<and> dr_status r = DeliveryProcessing \<and> dr_token r = token) \<longrightarrow>
       bn_settled (bus_act fifo budget x i s) = bn_settled s @ [(key, token, ok)]"
    by (intro allI impI, elim conjE bexE, rule bus_settlement_hits) (simp_all add: settlementCondition_def)
qed

definition demo_message :: "nat bus_message" where
  "demo_message = \<lparr>m_id = 1, m_type = ''order'', m_payload = ''{}'', m_node = ''n1'', m_date = Instant 2024 1 1 0 0 0 0\<rparr>"

definition demo_key :: "nat delivery_key" where
  "demo_key = \<lparr>k_message = 1, k_listener = ''mail'', k_instance = ''''\<rparr>"

definition demo_stimulus :: stimulus where
  "demo_stimulus = \<lparr>at_now = Instant 2024 1 1 0 1 0 0, at_cutoff = Instant 2023 12 31 23 56 0 0,
     at_next = Instant 2024 1 1 0 2 0 0, at_succeeds = False, at_cause = ''refused''\<rparr>"

fun demo_net :: "nat \<Rightarrow> nat bus_net" where
  "demo_net 0 = bus_start (Instant 2023 12 31 23 50 0 0)"
| "demo_net (Suc 0) = (demo_net 0)\<lparr>bn_ids := [1], bn_db := empty_db\<lparr>t_messages := [message_to_row demo_message],
     t_deliveries := [pending_row demo_key]\<rparr>\<rparr>"
| "demo_net (Suc (Suc 0)) = add_agent (Claiming demo_key ''t1'' 0 (Instant 2024 1 1 0 0 0 0))
     ((demo_net (Suc 0))\<lparr>bn_tokens := [''t1'']\<rparr>)"
| "demo_net (Suc (Suc (Suc k))) = bus_act (\<lambda>l. False) (\<lambda>l. 1) demo_stimulus 0 (demo_net (Suc (Suc k)))"

lemma bus_act_length [simp]: "length (bn_agents (bus_act fifo budget x i s)) = length (bn_agents s)"
  by (simp add: bus_act_def bus_claim_def bus_settle_def set_bus_agent_def split: bus_agent.split prod.split)

lemma demo_net_agents: "length (bn_agents (demo_net (Suc (Suc k)))) = 1"
  by (induction k) (simp_all add: add_agent_def bus_start_def)

lemma demo_net_reachable: "bus_reachable (\<lambda>l. False) (\<lambda>l. 1) (demo_net k)"
proof (induction k rule: demo_net.induct)
  case 1
  then show ?case by (intro reach_init) auto
next
  case 2
  have "bus_step (\<lambda>l. False) (\<lambda>l. 1) (demo_net 0) (demo_net (Suc 0))"
    using bus_step.publish [of demo_message "demo_net 0" "[demo_key]" "\<lambda>l. False" "\<lambda>l. 1"]
      formatTime_order [of "Instant 2023 12 31 23 50 0 0" "Instant 2024 1 1 0 0 0 0"]
    by (simp add: bus_start_def empty_db_def demo_message_def demo_key_def insert_delivery_def days_in_def
        less_instant_def less_imp_le del: formatTime.simps)
  then show ?case using 2 reach_step by blast
next
  case 3
  have "bus_step (\<lambda>l. False) (\<lambda>l. 1) (demo_net (Suc 0)) (demo_net (Suc (Suc 0)))"
    using bus_step.local [of "\<lambda>l. False" demo_key "''t1''" "demo_net (Suc 0)" "\<lambda>l. 1" "Instant 2024 1 1 0 0 0 0"]
    by (simp add: bus_start_def)
  then show ?case using 3 reach_step by blast
next
  case (4 k)
  have "bus_step (\<lambda>l. False) (\<lambda>l. 1) (demo_net (Suc (Suc k))) (demo_net (Suc (Suc (Suc k))))"
    using bus_step.act [of 0 "demo_net (Suc (Suc k))"] demo_net_agents [of k] by simp
  then show ?case using 4 reach_step by blast
qed

lemmas demo_net_simps = bus_act_def bus_claim_def claim_shape claim_guard_def claimCondition_def dueCondition_def
  update_deliveries_def claimed_row_def bus_settle_def fail_delivery_def settlementCondition_def set_bus_agent_def
  add_agent_def bus_start_def empty_db_def pending_row_def demo_stimulus_def Let_def

theorem each_claim_settles_at_most_once_witness:
  "bn_settled (demo_net (Suc (Suc (Suc (Suc (Suc 0)))))) = [(demo_key, ''t1'', False)] \<and>
   distinct (map (fst \<circ> snd) (bn_settled (demo_net (Suc (Suc (Suc (Suc (Suc 0))))))))"
  using each_claim_settles_at_most_once [OF demo_net_reachable, of "Suc (Suc (Suc (Suc (Suc 0))))"]
  by (simp add: demo_net_simps del: formatTime.simps)

text \<open>The attempt budget decides how a delivery ends. In every reachable state a delivery is in
  one of the five statuses, a failed one has attempts left and an exhausted one has spent them
  all, and neither a completed nor an exhausted delivery can be claimed, whatever the clock and
  the lease.\<close>

theorem attempt_budget_decides_the_outcome:
  assumes "bus_reachable fifo budget s" "r \<in> set (t_deliveries (bn_db s))"
  shows "dr_status r \<in> {DeliveryPending, DeliveryProcessing, DeliveryCompleted, DeliveryFailed, DeliveryExhausted} \<and>
    (dr_status r = DeliveryFailed \<longrightarrow> dr_attempts r < budget (k_listener (dr_key r))) \<and>
    (dr_status r = DeliveryExhausted \<longrightarrow> budget (k_listener (dr_key r)) \<le> dr_attempts r) \<and>
    (dr_status r \<in> {DeliveryCompleted, DeliveryExhausted} \<longrightarrow> \<not> claim_guard fifo x key n date (bn_db s) r)"
  using bus_reachable_inv [OF assms(1)] assms(2)
  by (auto simp: bus_net_inv_def row_ok_def claim_guard_def claimCondition_def dueCondition_def)

theorem attempt_budget_decides_the_outcome_witness:
  "\<exists>r. t_deliveries (bn_db (demo_net (Suc (Suc (Suc (Suc (Suc 0))))))) = [r] \<and> dr_status r = DeliveryExhausted \<and> 1 \<le> dr_attempts r"
proof -
  obtain r where r: "t_deliveries (bn_db (demo_net (Suc (Suc (Suc (Suc (Suc 0))))))) = [r]" "dr_status r = DeliveryExhausted"
    "dr_key r = demo_key"
    by (simp add: demo_net_simps del: formatTime.simps)
  then show ?thesis
    using attempt_budget_decides_the_outcome [OF demo_net_reachable, of r "Suc (Suc (Suc (Suc (Suc 0))))"] by simp
qed

end
