(* ===== verification/BusOrder.thy ===== *)
theory BusOrder
  imports BusProtocol
begin

text \<open>
  Ordered consumers of the distributed bus: what \<open>ClaimDeliveryInOrder\<close> of sqlbus/store_sql.go
  guarantees in every interleaving of sqlbus/bridge.go and sqlbus/dispatcher.go. The position a
  claim carries is the publication date of its message, and at most one delivery of a FIFO
  consumer is in processing under a lease that has not yet been declared expired.
\<close>

section \<open>The position a claimant carries\<close>

definition stored_dates :: "'id bus_db \<Rightarrow> bool" where
  "stored_dates d \<longleftrightarrow> (\<forall>m \<in> set (t_messages d). \<exists>t. valid t \<and> mr_date m = formatTime t)"

fun position_ok :: "(string \<Rightarrow> bool) \<Rightarrow> 'id list \<Rightarrow> 'id bus_db \<Rightarrow> 'id bus_agent \<Rightarrow> bool" where
  "position_ok fifo ids d (Claiming key token n date) \<longleftrightarrow> (fifo (k_listener key) \<longrightarrow> k_message key \<in> set ids \<and>
     (\<forall>m \<in> set (t_messages d). mr_id m = k_message key \<longrightarrow> mr_date m = formatTime date))"
| "position_ok fifo ids d _ \<longleftrightarrow> True"

definition position_inv :: "(string \<Rightarrow> bool) \<Rightarrow> 'id bus_net \<Rightarrow> bool" where
  "position_inv fifo s \<longleftrightarrow> stored_dates (bn_db s) \<and> (\<forall>a \<in> set (bn_agents s). position_ok fifo (bn_ids s) (bn_db s) a)"

lemma position_fewer:
  "position_ok fifo ids d a \<Longrightarrow> set (t_messages d') \<subseteq> set (t_messages d) \<Longrightarrow> position_ok fifo ids d' a"
  by (cases a) auto

lemma position_frame:
  assumes "position_inv fifo s" "set (t_messages (bn_db s')) \<subseteq> set (t_messages (bn_db s))" "bn_ids s' = bn_ids s"
    and "\<And>a. a \<in> set (bn_agents s') \<Longrightarrow> a \<in> set (bn_agents s) \<or> position_ok fifo (bn_ids s') (bn_db s') a"
  shows "position_inv fifo s'"
proof -
  have "position_ok fifo (bn_ids s) (bn_db s') a" if "a \<in> set (bn_agents s)" for a
    using assms(1,2) that position_fewer unfolding position_inv_def by blast
  then show ?thesis
    using assms unfolding position_inv_def stored_dates_def by (metis subsetD)
qed

lemma parse_stored:
  assumes "valid t" "parseStoredTime (formatTime t) = Some u"
  shows "u = t"
  using assms parseTime_formatTime [OF assms(1)] by (simp add: parseStoredTime_def split: if_splits)

lemma scan_position:
  assumes "scanDueDelivery (r, m) = Inr due" "valid t" "mr_date m = formatTime t"
  shows "d_key (due_delivery due) = dr_key r \<and> d_attempts (due_delivery due) = dr_attempts r \<and> m_date (due_message due) = t"
  using assms parse_stored [OF assms(2)] by (auto simp: scanDueDelivery_def split: option.splits)

lemma joined_iff: "(r, m) \<in> set (joined d) \<longleftrightarrow> r \<in> set (t_deliveries d) \<and> m \<in> set (t_messages d) \<and> mr_id m = k_message (dr_key r)"
  by (auto simp: joined_def)

lemma perform_messages: "set (t_messages (perform w d)) \<subseteq> set (t_messages d)"
  by (cases w) (auto simp: update_consumers_def delete_consumers_def delete_messages_def without_message_def
      without_consumer_def delete_deliveries_def resubmit_delivery_def update_deliveries_def)

lemma materialize_messages [simp]: "t_messages (snd (materialize key d)) = t_messages d"
  by (simp add: materialize_def Let_def)

lemma bus_act_messages [simp]: "t_messages (bn_db (bus_act fifo budget x i s)) = t_messages (bn_db s)"
  by (auto simp: bus_act_def bus_claim_def claim_shape bus_settle_def complete_delivery_def fail_delivery_def Let_def
      update_deliveries_def split: bus_agent.split)

lemma bus_act_ids [simp]: "bn_ids (bus_act fifo budget x i s) = bn_ids s"
  by (auto simp: bus_act_def bus_claim_def bus_settle_def split: bus_agent.split prod.split)

lemma set_bus_agent_agents: "a \<in> set (bn_agents (set_bus_agent i b s)) \<Longrightarrow> a \<in> set (bn_agents s) \<or> a = b"
  by (auto simp: set_bus_agent_def dest!: set_update_subset_insert [THEN subsetD])

lemma bus_act_agents:
  "a \<in> set (bn_agents (bus_act fifo budget x i s)) \<Longrightarrow> a \<in> set (bn_agents s) \<or> pending_token a = []"
  by (auto simp: bus_act_def bus_claim_def bus_settle_def split: bus_agent.splits prod.splits if_splits
      dest!: set_bus_agent_agents)

lemma position_idle: "pending_token a = [] \<Longrightarrow> position_ok fifo ids d a"
  by (cases a) auto

lemma same_message: "tables_ok ids d \<Longrightarrow> m \<in> set (t_messages d) \<Longrightarrow> m' \<in> set (t_messages d) \<Longrightarrow> mr_id m = mr_id m' \<Longrightarrow> m = m'"
  by (auto simp: tables_ok_def distinct_map dest: inj_onD)

lemma position_step:
  "bus_step fifo budget s s' \<Longrightarrow> bus_net_inv budget s \<Longrightarrow> position_inv fifo s \<Longrightarrow> position_inv fifo s'"
proof (induction rule: bus_step.induct)
  case (publish m s keys)
  have "position_ok fifo (bn_ids s @ [m_id m]) (bn_db s\<lparr>t_messages := t_messages (bn_db s) @ [message_to_row m],
      t_deliveries := rows\<rparr>) a" if "a \<in> set (bn_agents s)" for a rows
  proof -
    have "position_ok fifo (bn_ids s) (bn_db s) a" using publish(6) that by (simp add: position_inv_def)
    then show ?thesis using publish(1) by (cases a) (auto simp: message_to_row_def)
  qed
  then show ?case using publish(2,6) by (auto simp: position_inv_def stored_dates_def message_to_row_def)
next
  case (read r m s due token)
  have tables: "tables_ok (bn_ids s) (bn_db s)" using read(4) by (simp add: bus_net_inv_def)
  have rm: "m \<in> set (t_messages (bn_db s))" "mr_id m = k_message (dr_key r)" using read(1) by (simp_all add: joined_iff)
  then obtain t where t: "valid t" "mr_date m = formatTime t" using read(5) by (auto simp: position_inv_def stored_dates_def)
  have "mr_date m' = formatTime t" if "m' \<in> set (t_messages (bn_db s))" "mr_id m' = k_message (dr_key r)" for m'
    using same_message [OF tables that(1) rm(1)] that(2) rm(2) t(2) by simp
  moreover have "k_message (dr_key r) \<in> set (bn_ids s)" using tables rm by (auto simp: tables_ok_def)
  ultimately show ?case
    using scan_position [OF read(2) t] read(5) by (auto simp: position_inv_def add_agent_def)
next
  case (duty s w)
  show ?case by (rule position_frame [OF duty(2)]) (use perform_messages in auto)
next
  case (act i s x)
  show ?case by (rule position_frame [OF act(3)]) (auto dest: bus_act_agents intro: position_idle)
next
  case (crash i s)
  show ?case by (rule position_frame [OF crash(3)]) (auto dest: set_bus_agent_agents)
next
  case (enroll c s)
  show ?case by (rule position_frame [OF enroll(4)]) auto
qed (auto simp: position_inv_def stored_dates_def add_agent_def)

section \<open>One live delivery per ordered consumer\<close>

definition same_consumer :: "'id delivery_row \<Rightarrow> 'id delivery_row \<Rightarrow> bool" where
  "same_consumer r q \<longleftrightarrow> k_listener (dr_key r) = k_listener (dr_key q) \<and> k_instance (dr_key r) = k_instance (dr_key q)"

definition live :: "string \<Rightarrow> 'id delivery_row \<Rightarrow> bool" where
  "live horizon r \<longleftrightarrow> dr_status r = DeliveryProcessing \<and> optional_holds (\<lambda>t. horizon \<le> t) (dr_claim r)"

definition serial :: "(string \<Rightarrow> bool) \<Rightarrow> string \<Rightarrow> 'id delivery_row list \<Rightarrow> bool" where
  "serial fifo horizon rows \<longleftrightarrow> (\<forall>r \<in> set rows. \<forall>q \<in> set rows.
     fifo (k_listener (dr_key r)) \<and> same_consumer r q \<and> live horizon r \<and> live horizon q \<longrightarrow> r = q)"

lemma serial_frame:
  assumes "serial fifo h rows" "\<And>r. r \<in> set rows' \<Longrightarrow> r \<in> set rows \<or> dr_status r \<noteq> DeliveryProcessing"
  shows "serial fifo h rows'"
  using assms unfolding serial_def live_def by metis

lemma live_mono: "live h' r \<Longrightarrow> h \<le> h' \<Longrightarrow> live h r"
  by (auto simp: live_def optional_holds_def split: option.splits)

lemma serial_mono: "serial fifo h rows \<Longrightarrow> h \<le> h' \<Longrightarrow> serial fifo h' rows"
  unfolding serial_def using live_mono by blast

text \<open>The guard of an ordered claim, read off the rows.\<close>

lemma no_concurrent:
  assumes "\<not> concurrentProcessingExists lid inst other cutoff d" "r \<in> set (t_deliveries d)" "of_consumer lid inst r"
    "k_message (dr_key r) \<noteq> other"
  shows "\<not> live (formatTime cutoff) r"
  using assms by (auto simp: concurrentProcessingExists_def live_def list_ex_iff)

lemma bus_claim_serial:
  assumes inv: "bus_net_inv budget s" and ser: "serial fifo (bn_horizon s) (t_deliveries (bn_db s))"
  shows "serial fifo (bn_horizon (bus_claim fifo x i key token n date s)) (t_deliveries (bn_db (bus_claim fifo x i key token n date s)))"
proof -
  define P where "P = claim_guard fifo x key n date (bn_db s)"
  obtain k db where st: "update_deliveries P (claimed_row token (at_now x) n) (bn_db s) = (k, db)" by fastforce
  let ?h = "max (bn_horizon s) (formatTime (at_cutoff x))"
  have tables: "tables_ok (bn_ids s) (bn_db s)" using inv by (simp add: bus_net_inv_def)
  have rows: "t_deliveries db = map (\<lambda>r. if P r then claimed_row token (at_now x) n r else r) (t_deliveries (bn_db s))"
    using st by (auto simp: update_deliveries_def)
  have guard: "dr_key r = key" if "P r" for r using that by (simp add: P_def claim_guard_def claimCondition_def)
  have other: "\<not> live ?h r" if "r \<in> set (t_deliveries (bn_db s))" "P q" "\<not> P r" "same_consumer r q" "fifo (k_listener key)"
    "q \<in> set (t_deliveries (bn_db s))" for r q
  proof -
    have "dr_key r \<noteq> dr_key q" using same_row [OF tables that(1,6)] that(2,3) by blast
    then have "k_message (dr_key r) \<noteq> k_message key" using that(4) guard [OF that(2)]
      by (auto simp: same_consumer_def intro: delivery_key.equality)
    moreover have "of_consumer (k_listener key) (k_instance key) r" using that(4) guard [OF that(2)]
      by (simp add: same_consumer_def of_consumer_def)
    ultimately have "\<not> live (formatTime (at_cutoff x)) r"
      by (intro no_concurrent [OF _ that(1)]) (use that(2,5) in \<open>simp_all add: P_def claim_guard_def\<close>)
    then show ?thesis using live_mono [of ?h r "formatTime (at_cutoff x)"] by auto
  qed
  have "serial fifo ?h (t_deliveries db)"
    unfolding serial_def
  proof (intro ballI impI)
    fix r q assume rq: "r \<in> set (t_deliveries db)" "q \<in> set (t_deliveries db)"
      and h: "fifo (k_listener (dr_key r)) \<and> same_consumer r q \<and> live ?h r \<and> live ?h q"
    obtain r0 where r0: "r0 \<in> set (t_deliveries (bn_db s))" "r = (if P r0 then claimed_row token (at_now x) n r0 else r0)"
      using rq(1) rows by auto
    obtain q0 where q0: "q0 \<in> set (t_deliveries (bn_db s))" "q = (if P q0 then claimed_row token (at_now x) n q0 else q0)"
      using rq(2) rows by auto
    have keys: "dr_key r = dr_key r0" "dr_key q = dr_key q0" using r0(2) q0(2) by simp_all
    then have same: "same_consumer r0 q0" "same_consumer q0 r0" using h by (auto simp: same_consumer_def)
    have listener: "k_listener (dr_key r0) = k_listener (dr_key q0)" using same by (simp add: same_consumer_def)
    show "r = q"
    proof (cases "P r0")
      case True
      then have key: "dr_key r0 = key" by (rule guard)
      show ?thesis
      proof (cases "P q0")
        case True
        then show ?thesis using same_row [OF tables r0(1) q0(1)] key guard [OF True] r0(2) q0(2) by simp
      next
        case False
        then show ?thesis using other [OF q0(1) True False same(2) _ r0(1)] h key keys q0(2) by simp
      qed
    next
      case False
      then have rr: "r = r0" using r0(2) by simp
      show ?thesis
      proof (cases "P q0")
        case True
        then show ?thesis using other [OF r0(1) True False same(1) _ q0(1)] h guard [OF True] keys listener rr by simp
      next
        case qF: False
        have "serial fifo ?h (t_deliveries (bn_db s))" by (rule serial_mono [OF ser]) simp
        then show ?thesis using h r0 q0 False qF unfolding serial_def by simp
      qed
    qed
  qed
  then show ?thesis using st ser by (simp add: bus_claim_def claim_shape P_def [symmetric])
qed

lemma serial_step:
  "bus_step fifo budget s s' \<Longrightarrow> bus_net_inv budget s \<Longrightarrow> serial fifo (bn_horizon s) (t_deliveries (bn_db s)) \<Longrightarrow>
   serial fifo (bn_horizon s') (t_deliveries (bn_db s'))"
proof (induction rule: bus_step.induct)
  case (publish m s keys)
  have "serial fifo (bn_horizon s) (fold insert_delivery keys (t_deliveries (bn_db s)))"
    by (rule serial_frame [OF publish(6)]) (use inserts_set [of keys "t_deliveries (bn_db s)"] in auto)
  then show ?case by simp
next
  case (duty s w)
  have "serial fifo (bn_horizon s) (t_deliveries (perform w (bn_db s)))"
    by (rule serial_frame [OF duty(2)]) (auto dest: perform_rows)
  then show ?case by simp
next
  case (act i s x)
  show ?case
  proof (cases "bn_agents s ! i")
    case (Claiming key token n date)
    then show ?thesis using bus_claim_serial [OF act(2,3), of x i key token n date] by (simp add: bus_act_def)
  next
    case (Finished key token n ok)
    have "bn_horizon (bus_settle budget x i key token n ok s) = bn_horizon s" by (simp add: bus_settle_def split: prod.split)
    moreover have "serial fifo (bn_horizon s) (t_deliveries (bn_db (bus_settle budget x i key token n ok s)))"
      by (rule serial_frame [OF act(3)]) (auto dest: bus_settle_rows)
    ultimately show ?thesis using Finished by (simp add: bus_act_def)
  next
    case (Materializing key c)
    have "serial fifo (bn_horizon s) (t_deliveries (snd (materialize key (bn_db s))))"
      by (rule serial_frame [OF act(3)]) (auto dest: materialize_rows)
    then show ?thesis using Materializing by (simp add: bus_act_def)
  qed (use act in \<open>auto simp: bus_act_def\<close>)
qed auto

section \<open>Properties\<close>

definition order_inv :: "(string \<Rightarrow> bool) \<Rightarrow> (string \<Rightarrow> int) \<Rightarrow> 'id bus_net \<Rightarrow> bool" where
  "order_inv fifo budget s \<longleftrightarrow> bus_net_inv budget s \<and> position_inv fifo s \<and>
     serial fifo (bn_horizon s) (t_deliveries (bn_db s))"

lemma bus_reachable_order: "bus_reachable fifo budget s \<Longrightarrow> order_inv fifo budget s"
proof (erule reach_invariant)
  show "\<exists>t. s = bus_start t \<Longrightarrow> order_inv fifo budget s" for s :: "'a bus_net"
    by (auto simp: order_inv_def bus_net_inv_def bus_start_def empty_db_def tables_ok_def history_ok_def position_inv_def
        stored_dates_def serial_def)
  show "order_inv fifo budget t" if "order_inv fifo budget s" "bus_step fifo budget s t" for s t :: "'a bus_net"
    using that bus_step_inv position_step serial_step unfolding order_inv_def by blast
qed

text \<open>C32: an ordered consumer works on one delivery at a time. In every interleaving, whatever the
  clocks of the nodes read, at most one delivery of a FIFO consumer is in processing under a
  claim younger than every lease cutoff a successful claimant has used so far; any other one in
  processing had its lease declared expired by a later claim.\<close>

theorem FIFO_consumer_runs_one_live_delivery:
  assumes "bus_reachable fifo budget s" "r \<in> set (t_deliveries (bn_db s))" "q \<in> set (t_deliveries (bn_db s))"
    and "fifo (k_listener (dr_key r))" "same_consumer r q" "live (bn_horizon s) r" "live (bn_horizon s) q"
  shows "r = q"
  using bus_reachable_order [OF assms(1)] assms(2-) unfolding order_inv_def serial_def by blast

text \<open>C33: an ordered consumer claims only the head of its queue. When a claim of a FIFO delivery
  succeeds, every delivery of that consumer whose message precedes it in the order of
  publication date and identifier is completed or exhausted, in whatever order claims,
  failures, resubmissions and late publications raced, and no other delivery of the consumer is
  in processing under a lease the claimant considers alive.\<close>

theorem FIFO_claims_only_the_head:
  assumes "bus_reachable fifo budget s" "bn_agents s ! i = Claiming key token n date" "i < length (bn_agents s)"
    and "fifo (k_listener key)" "bn_claims (bus_act fifo budget x i s) \<noteq> bn_claims s"
    and "m \<in> set (t_messages (bn_db s))" "mr_id m = k_message key"
    and "q \<in> set (t_deliveries (bn_db s))" "of_consumer (k_listener key) (k_instance key) q"
    and "e \<in> set (t_messages (bn_db s))" "mr_id e = k_message (dr_key q)"
    and "(mr_date e, mr_id e) < (mr_date m, mr_id m)"
  shows "dr_status q \<in> {DeliveryCompleted, DeliveryExhausted} \<and>
    (\<forall>p \<in> set (t_deliveries (bn_db s)). of_consumer (k_listener key) (k_instance key) p \<and> k_message (dr_key p) \<noteq> k_message key \<longrightarrow>
       \<not> live (formatTime (at_cutoff x)) p)"
proof -
  have inv: "bus_net_inv budget s" "position_inv fifo s" using bus_reachable_order [OF assms(1)] by (simp_all add: order_inv_def)
  define P where "P = claim_guard fifo x key n date (bn_db s)"
  have "\<exists>r. P r"
  proof (rule ccontr)
    assume "\<nexists>r. P r"
    then have "fst (update_deliveries P (claimed_row token (at_now x) n) (bn_db s)) = 0"
      by (simp add: update_deliveries_def)
    then show False using assms(2,5) by (simp add: bus_act_def bus_claim_def claim_shape P_def case_prod_beta)
  qed
  then have guard: "\<not> earlierIncompleteExists (k_listener key) (k_instance key) (formatTime date) (k_message key) (bn_db s)"
    "\<not> concurrentProcessingExists (k_listener key) (k_instance key) (k_message key) (at_cutoff x) (bn_db s)"
    using assms(4) by (auto simp: P_def claim_guard_def)
  have "position_ok fifo (bn_ids s) (bn_db s) (Claiming key token n date)"
    using inv(2) nth_mem [OF assms(3)] assms(2) unfolding position_inv_def by metis
  then have "mr_date m = formatTime date" using assms(4,6,7) by simp
  moreover have "mr_date e < mr_date m \<or> mr_date e = mr_date m \<and> mr_id e < mr_id m"
    using assms(12) by (auto simp: less_prod_def')
  ultimately have "dr_status q \<notin> incompleteStatuses"
    using guard(1) assms(7-11) by (auto simp: earlierIncompleteExists_def list_ex_iff)
  then have "dr_status q \<in> {DeliveryCompleted, DeliveryExhausted}"
    using inv(1) assms(8) by (auto simp: bus_net_inv_def row_ok_def incompleteStatuses_def)
  then show ?thesis using no_concurrent [OF guard(2)] by blast
qed

section \<open>A run of an ordered consumer\<close>

definition fifo_message :: "nat \<Rightarrow> nat bus_message" where
  "fifo_message n = demo_message\<lparr>m_id := n\<rparr>"

definition fifo_key :: "nat \<Rightarrow> nat delivery_key" where
  "fifo_key n = demo_key\<lparr>k_message := n\<rparr>"

definition fifo_stimulus :: stimulus where
  "fifo_stimulus = demo_stimulus\<lparr>at_succeeds := True\<rparr>"

definition fifo_publish :: "nat \<Rightarrow> nat bus_net \<Rightarrow> nat bus_net" where
  "fifo_publish n s = s\<lparr>bn_ids := bn_ids s @ [n],
     bn_db := (bn_db s)\<lparr>t_messages := t_messages (bn_db s) @ [message_to_row (fifo_message n)],
        t_deliveries := fold insert_delivery [fifo_key n] (t_deliveries (bn_db s))\<rparr>\<rparr>"

definition fifo_read :: "nat \<Rightarrow> string \<Rightarrow> nat bus_net \<Rightarrow> nat bus_net" where
  "fifo_read n token s = add_agent (Claiming (fifo_key n) token 0 (Instant 2024 1 1 0 0 0 0)) (s\<lparr>bn_tokens := bn_tokens s @ [token]\<rparr>)"

abbreviation fifo_act :: "nat \<Rightarrow> nat bus_net \<Rightarrow> nat bus_net" where
  "fifo_act i s \<equiv> bus_act (\<lambda>l. True) (\<lambda>l. 1) fifo_stimulus i s"

abbreviation fifo_reachable :: "nat bus_net \<Rightarrow> bool" where
  "fifo_reachable \<equiv> bus_reachable (\<lambda>l. True) (\<lambda>l. 1)"

definition fifo_queue :: "nat bus_net" where
  "fifo_queue = fifo_publish 2 (fifo_publish 1 (bus_start (Instant 2023 12 31 23 50 0 0)))"

definition fifo_first :: "nat bus_net" where
  "fifo_first = fifo_act 0 (fifo_read 1 ''t1'' fifo_queue)"

definition fifo_second :: "nat bus_net" where
  "fifo_second = fifo_read 2 ''t2'' (fifo_act 0 (fifo_act 0 fifo_first))"

lemma fifo_reach_publish:
  assumes "fifo_reachable s" "n \<notin> set (bn_ids s)" "bn_floor s = Instant 2023 12 31 23 50 0 0"
  shows "fifo_reachable (fifo_publish n s)"
proof -
  have "formatTime (bn_floor s) \<le> formatTime (Instant 2024 1 1 0 0 0 0)"
    using formatTime_order [of "Instant 2023 12 31 23 50 0 0" "Instant 2024 1 1 0 0 0 0"] assms(3)
    by (simp add: days_in_def less_instant_def less_imp_le del: formatTime.simps)
  then have "bus_step (\<lambda>l. True) (\<lambda>l. 1) s (fifo_publish n s)"
    using bus_step.publish [of "fifo_message n" s "[fifo_key n]" "\<lambda>l. True" "\<lambda>l. 1"] assms(2)
    by (simp add: fifo_publish_def fifo_message_def fifo_key_def demo_message_def days_in_def del: formatTime.simps)
  then show ?thesis using assms(1) reach_step by blast
qed

lemma fifo_reach_act: "fifo_reachable s \<Longrightarrow> i < length (bn_agents s) \<Longrightarrow> fifo_reachable (fifo_act i s)"
  using bus_step.act reach_step by blast

lemma fifo_reach_read:
  assumes "fifo_reachable s" "token \<notin> set (bn_tokens s)" "pending_row (fifo_key n) \<in> set (t_deliveries (bn_db s))"
    "message_to_row (fifo_message n) \<in> set (t_messages (bn_db s))"
  shows "fifo_reachable (fifo_read n token s)"
proof -
  let ?t = "Instant 2024 1 1 0 0 0 0"
  have "parseStoredTime (formatTime ?t) = Some ?t"
    using stored_length [of ?t] parseTime_formatTime [of ?t] by (simp add: parseStoredTime_def days_in_def del: formatTime.simps)
  then obtain due where due: "scanDueDelivery (pending_row (fifo_key n), message_to_row (fifo_message n)) = Inr due"
    "d_key (due_delivery due) = fifo_key n" "d_attempts (due_delivery due) = 0" "m_date (due_message due) = ?t"
    by (simp add: scanDueDelivery_def pending_row_def message_to_row_def fifo_message_def demo_message_def del: formatTime.simps)
  have "(pending_row (fifo_key n), message_to_row (fifo_message n)) \<in> set (joined (bn_db s))"
    using assms(3,4) by (simp add: joined_iff message_to_row_def fifo_message_def fifo_key_def)
  from bus_step.read [OF this due(1) assms(2)] have "bus_step (\<lambda>l. True) (\<lambda>l. 1) s (fifo_read n token s)"
    by (simp add: fifo_read_def due)
  then show ?thesis using assms(1) reach_step by blast
qed

lemmas fifo_simps = fifo_queue_def fifo_first_def fifo_second_def fifo_publish_def fifo_read_def fifo_message_def fifo_key_def
  fifo_stimulus_def demo_key_def demo_message_def message_to_row_def insert_delivery_def demo_net_simps complete_delivery_def
  earlierIncompleteExists_def concurrentProcessingExists_def of_consumer_def incompleteStatuses_def

lemma fifo_run_reachable: "fifo_reachable fifo_first" "fifo_reachable fifo_second"
proof -
  have "fifo_reachable (bus_start (Instant 2023 12 31 23 50 0 0))" by (intro reach_init) auto
  then have q: "fifo_reachable fifo_queue"
    unfolding fifo_queue_def by (intro fifo_reach_publish) (simp_all add: bus_start_def fifo_publish_def)
  have "fifo_reachable (fifo_read 1 ''t1'' fifo_queue)"
    by (rule fifo_reach_read [OF q]) (simp_all add: fifo_simps del: formatTime.simps)
  then show first: "fifo_reachable fifo_first"
    unfolding fifo_first_def by (rule fifo_reach_act) (simp add: fifo_read_def add_agent_def)
  have len: "length (bn_agents fifo_first) = 1"
    by (simp add: fifo_first_def fifo_read_def add_agent_def fifo_queue_def fifo_publish_def bus_start_def)
  then have "fifo_reachable (fifo_act 0 (fifo_act 0 fifo_first))" by (intro fifo_reach_act first) simp_all
  then show "fifo_reachable fifo_second"
    unfolding fifo_second_def by (rule fifo_reach_read) (simp_all add: fifo_simps del: formatTime.simps)
qed

lemma fifo_first_rows:
  "\<exists>r. t_deliveries (bn_db fifo_first) = [r, pending_row (fifo_key 2)] \<and> dr_key r = fifo_key 1 \<and> dr_status r = DeliveryProcessing \<and>
     dr_claim r = Some (formatTime (Instant 2024 1 1 0 1 0 0))" "bn_horizon fifo_first = formatTime (Instant 2023 12 31 23 56 0 0)"
  by (simp_all add: fifo_simps max_def del: formatTime.simps)

theorem FIFO_consumer_runs_one_live_delivery_witness:
  "the (find (live (bn_horizon fifo_first)) (t_deliveries (bn_db fifo_first))) =
   hd (filter (live (bn_horizon fifo_first)) (t_deliveries (bn_db fifo_first)))"
proof -
  obtain r where r: "t_deliveries (bn_db fifo_first) = [r, pending_row (fifo_key 2)]" "dr_key r = fifo_key 1"
    "dr_status r = DeliveryProcessing" "dr_claim r = Some (formatTime (Instant 2024 1 1 0 1 0 0))"
    using fifo_first_rows(1) by blast
  have "formatTime (Instant 2023 12 31 23 56 0 0) \<le> formatTime (Instant 2024 1 1 0 1 0 0)"
    using formatTime_order [of "Instant 2023 12 31 23 56 0 0" "Instant 2024 1 1 0 1 0 0"]
    by (simp add: days_in_def less_instant_def less_imp_le del: formatTime.simps)
  then have live: "live (bn_horizon fifo_first) r"
    using r(3,4) fifo_first_rows(2) by (simp add: live_def optional_holds_def del: formatTime.simps)
  show ?thesis
    by (rule FIFO_consumer_runs_one_live_delivery [OF fifo_run_reachable(1)])
       (use r live in \<open>simp_all add: same_consumer_def\<close>)
qed

theorem FIFO_claims_only_the_head_witness:
  "dr_key (hd (t_deliveries (bn_db fifo_second))) = fifo_key 1 \<and>
   dr_status (hd (t_deliveries (bn_db fifo_second))) \<in> {DeliveryCompleted, DeliveryExhausted}"
proof -
  have "dr_status (hd (t_deliveries (bn_db fifo_second))) \<in> {DeliveryCompleted, DeliveryExhausted}"
    by (rule FIFO_claims_only_the_head [THEN conjunct1, OF fifo_run_reachable(2), of 1 "fifo_key 2" "''t2''" 0 "Instant 2024 1 1 0 0 0 0"
          fifo_stimulus "message_to_row (fifo_message 2)" _ "message_to_row (fifo_message 1)"])
       (simp_all add: fifo_simps less_prod_def' del: formatTime.simps)
  moreover have "dr_key (hd (t_deliveries (bn_db fifo_second))) = fifo_key 1" by (simp add: fifo_simps del: formatTime.simps)
  ultimately show ?thesis by blast
qed

end
