(* ===== verification/BusFrontier.thy ===== *)
theory BusFrontier
  imports BusProtocol
begin

text \<open>
  Materialization never skips a message (\<open>MaterializeDeliveries\<close> and \<open>AdvanceFrontier\<close> of
  sqlbus/store_sql.go under \<open>processAttachment\<close>, \<open>heartbeat\<close> and \<open>maintain\<close> of
  sqlbus/dispatcher.go). Business transactions that publish commit within the grace, which is
  the configuration contract of \<open>WithMaterializationGrace\<close> and the guard of the \<open>publish\<close> step.
\<close>

section \<open>What a consumer still misses\<close>

definition has_delivery :: "consumer_key \<Rightarrow> 'id message_row \<Rightarrow> 'id bus_db \<Rightarrow> bool" where
  "has_delivery key m d \<longleftrightarrow> delivery_key_of key (mr_id m) \<in> dr_key ` set (t_deliveries d)"

definition gap_free :: "'id bus_db \<Rightarrow> bool" where
  "gap_free d \<longleftrightarrow> (\<forall>c \<in> set (t_consumers d). \<forall>m \<in> set (t_messages d).
     covers c m \<longrightarrow> has_delivery (cr_key c) m d \<or> cr_frontier c \<le> mr_date m)"

definition covered_below :: "consumer_key \<Rightarrow> string \<Rightarrow> 'id bus_db \<Rightarrow> bool" where
  "covered_below key ceiling d \<longleftrightarrow> (\<forall>c \<in> set (t_consumers d). \<forall>m \<in> set (t_messages d).
     cr_key c = key \<longrightarrow> covers c m \<longrightarrow> mr_date m < ceiling \<longrightarrow> has_delivery key m d)"

fun pass_ok :: "string \<Rightarrow> 'id bus_db \<Rightarrow> 'id bus_agent \<Rightarrow> bool" where
  "pass_ok floor d (Materializing key ceiling) \<longleftrightarrow> formatTime ceiling \<le> floor"
| "pass_ok floor d (Advancing key ceiling) \<longleftrightarrow> formatTime ceiling \<le> floor \<and> covered_below key (formatTime ceiling) d"
| "pass_ok floor d _ \<longleftrightarrow> True"

definition consumers_ok :: "string \<Rightarrow> 'id bus_db \<Rightarrow> bool" where
  "consumers_ok floor d \<longleftrightarrow> distinct (map cr_key (t_consumers d)) \<and> (\<forall>c \<in> set (t_consumers d). cr_frontier c \<le> floor)"

definition frontier_inv :: "'id bus_net \<Rightarrow> bool" where
  "frontier_inv s \<longleftrightarrow> gap_free (bn_db s) \<and> consumers_ok (formatTime (bn_floor s)) (bn_db s) \<and>
     (\<forall>a \<in> set (bn_agents s). pass_ok (formatTime (bn_floor s)) (bn_db s) a)"

text \<open>Most statements only shrink what has to be covered.\<close>

definition no_new_gap :: "'id bus_db \<Rightarrow> 'id bus_db \<Rightarrow> bool" where
  "no_new_gap d d' \<longleftrightarrow>
     (\<forall>c' \<in> set (t_consumers d'). \<exists>c \<in> set (t_consumers d).
        cr_key c' = cr_key c \<and> cr_start c' = cr_start c \<and> cr_frontier c' = cr_frontier c) \<and>
     set (t_messages d') \<subseteq> set (t_messages d) \<and>
     (\<forall>c' \<in> set (t_consumers d'). \<forall>m \<in> set (t_messages d'). has_delivery (cr_key c') m d \<longrightarrow> has_delivery (cr_key c') m d') \<and>
     (distinct (map cr_key (t_consumers d)) \<longrightarrow> distinct (map cr_key (t_consumers d')))"

lemma covers_same: "cr_key c = cr_key c' \<Longrightarrow> cr_start c = cr_start c' \<Longrightarrow> covers c m = covers c' m"
  by (simp add: covers_def)

lemma gap_free_mono: "no_new_gap d d' \<Longrightarrow> gap_free d \<Longrightarrow> gap_free d'"
  unfolding no_new_gap_def gap_free_def by (metis covers_same subsetD)

lemma covered_below_mono: "no_new_gap d d' \<Longrightarrow> covered_below key ceiling d \<Longrightarrow> covered_below key ceiling d'"
  unfolding no_new_gap_def covered_below_def by (metis covers_same subsetD)

lemma consumers_ok_mono: "no_new_gap d d' \<Longrightarrow> consumers_ok floor d \<Longrightarrow> consumers_ok floor d'"
  unfolding no_new_gap_def consumers_ok_def by metis

lemma pass_ok_mono: "no_new_gap d d' \<Longrightarrow> pass_ok floor d a \<Longrightarrow> pass_ok floor d' a"
  by (cases a) (auto intro: covered_below_mono)

lemma frontier_frame:
  assumes "frontier_inv s" "no_new_gap (bn_db s) (bn_db s')" "bn_floor s' = bn_floor s"
    and "\<And>a. a \<in> set (bn_agents s') \<Longrightarrow> a \<in> set (bn_agents s) \<or> pass_ok (formatTime (bn_floor s)) (bn_db s') a"
  shows "frontier_inv s'"
  using assms gap_free_mono consumers_ok_mono pass_ok_mono unfolding frontier_inv_def by metis

lemma no_new_gap_deliveries:
  "dr_key ` set (t_deliveries d) \<subseteq> dr_key ` set (t_deliveries d') \<Longrightarrow> t_consumers d' = t_consumers d \<Longrightarrow>
   t_messages d' = t_messages d \<Longrightarrow> no_new_gap d d'"
  by (auto simp: no_new_gap_def has_delivery_def)

lemma no_new_gap_update: "(\<And>r. dr_key (f r) = dr_key r) \<Longrightarrow> no_new_gap d (snd (update_deliveries P f d))"
proof (rule no_new_gap_deliveries)
  assume "\<And>r. dr_key (f r) = dr_key r"
  from arg_cong [OF update_deliveries_keys [of f P d, OF this], of set]
  show "dr_key ` set (t_deliveries d) \<subseteq> dr_key ` set (t_deliveries (snd (update_deliveries P f d)))" by simp
qed simp_all

lemma perform_no_new_gap: "no_new_gap d (perform w d)"
proof (cases w)
  case (Beat key at)
  then show ?thesis by (auto simp: no_new_gap_def update_consumers_def has_delivery_def comp_def if_distrib cong: if_cong)
next
  case SweepWithoutMessage
  have "has_delivery key m d \<Longrightarrow> m \<in> set (t_messages d) \<Longrightarrow> has_delivery key m (snd (without_message d))" for key m
    by (force simp: has_delivery_def without_message_def delete_deliveries_def list_ex_iff delivery_key_of_def
        intro!: imageI dest: sym [of _ "dr_key _"])
  then show ?thesis using SweepWithoutMessage by (auto simp: no_new_gap_def without_message_def delete_deliveries_def)
next
  case SweepWithoutConsumer
  have "has_delivery (cr_key c) m d \<Longrightarrow> c \<in> set (t_consumers d) \<Longrightarrow> has_delivery (cr_key c) m (snd (without_consumer d))" for c m
    by (force simp: has_delivery_def without_consumer_def delete_deliveries_def list_ex_iff delivery_key_of_def
        intro!: imageI dest: sym [of _ "dr_key _"])
  then show ?thesis using SweepWithoutConsumer by (auto simp: no_new_gap_def without_consumer_def delete_deliveries_def)
next
  case (Revive key)
  then show ?thesis by (auto simp: resubmit_delivery_def intro: no_new_gap_update)
qed (auto simp: no_new_gap_def delete_consumers_def delete_messages_def has_delivery_def distinct_map_filter)

section \<open>A pass\<close>

lemma find_key:
  "distinct (map cr_key cs) \<Longrightarrow> c \<in> set cs \<Longrightarrow> find (consumerKeyCondition (cr_key c)) cs = Some c"
  by (induction cs) (auto simp: consumerKeyCondition_def image_iff)

lemma materialize_no_new_gap: "no_new_gap d (snd (materialize key d))"
proof (rule no_new_gap_deliveries)
  show "dr_key ` set (t_deliveries d) \<subseteq> dr_key ` set (t_deliveries (snd (materialize key d)))"
    by (simp add: materialize_def Let_def fold_materialize inserts_keys)
qed (simp_all add: materialize_def Let_def)

text \<open>After materializing, the consumer has a delivery for every visible message it covers.\<close>

lemma materialize_complete:
  assumes "gap_free d" "distinct (map cr_key (t_consumers d))" "c \<in> set (t_consumers d)" "m \<in> set (t_messages d)" "covers c m"
  shows "has_delivery (cr_key c) m (snd (materialize (cr_key c) d))"
proof (cases "has_delivery (cr_key c) m d")
  case True
  then show ?thesis using materialize_no_new_gap [of d "cr_key c"] assms(3,4)
    by (auto simp: no_new_gap_def materialize_def Let_def)
next
  case False
  then have "cr_frontier c \<le> mr_date m" using assms by (auto simp: gap_free_def)
  moreover have "frontierOf (cr_key c) d = Some (cr_frontier c)" by (simp add: frontierOf_def find_key [OF assms(2,3)])
  ultimately have "materializable (cr_key c) d m"
    using False assms(5) by (force simp: materializable_def covers_def optional_holds_def has_delivery_def list_ex_iff)
  then show ?thesis
    using assms(4) by (auto simp: has_delivery_def materialize_def Let_def fold_materialize inserts_keys)
qed

lemma pass_materialize:
  assumes "frontier_inv s"
  shows "covered_below key ceiling (snd (materialize key (bn_db s)))"
  using assms materialize_complete unfolding covered_below_def frontier_inv_def consumers_ok_def
  by (auto simp: materialize_def Let_def)

lemma pass_advance:
  assumes "gap_free d" "consumers_ok floor d" "covered_below key ceiling d" "ceiling \<le> floor"
  shows "gap_free (snd (advance key ceiling d)) \<and> consumers_ok floor (snd (advance key ceiling d))"
proof -
  let ?f = "\<lambda>c. if consumerKeyCondition key c \<and> cr_frontier c < ceiling then c\<lparr>cr_frontier := ceiling\<rparr> else c"
  have cs: "t_consumers (snd (advance key ceiling d)) = map ?f (t_consumers d)" by (simp add: advance_def update_consumers_def)
  have has: "has_delivery k m (snd (advance key ceiling d)) = has_delivery k m d" for k m by (simp add: has_delivery_def)
  have "map cr_key (map ?f (t_consumers d)) = map cr_key (t_consumers d)" by simp
  then have "distinct (map cr_key (map ?f (t_consumers d)))" using assms(2) unfolding consumers_ok_def by argo
  then have ok: "consumers_ok floor (snd (advance key ceiling d))"
    using assms(2,4) unfolding consumers_ok_def cs by (auto simp del: map_map)
  have step: "has_delivery (cr_key (?f c)) m d \<or> cr_frontier (?f c) \<le> mr_date m"
    if "c \<in> set (t_consumers d)" "m \<in> set (t_messages d)" "covers (?f c) m" for c m
  proof -
    have "covers c m" using that(3) by (auto simp: covers_def split: if_splits)
    then have "has_delivery (cr_key c) m d \<or> cr_frontier c \<le> mr_date m" using assms(1) that by (simp add: gap_free_def)
    moreover have "has_delivery (cr_key c) m d" if "cr_key c = key" "mr_date m < ceiling"
      using assms(3) \<open>covers c m\<close> \<open>c \<in> _\<close> \<open>m \<in> _\<close> that by (auto simp: covered_below_def)
    ultimately show ?thesis by (auto simp: consumerKeyCondition_def not_less)
  qed
  from step have gap: "gap_free (snd (advance key ceiling d))" unfolding gap_free_def cs by (simp only: set_map ball_simps has advance_frame) blast
  show ?thesis using gap ok by blast
qed

lemma advance_covered: "covered_below k x d \<Longrightarrow> covered_below k x (snd (advance key ceiling d))"
  by (auto simp: covered_below_def advance_def update_consumers_def has_delivery_def covers_def split: if_splits)

section \<open>Orderly runs\<close>

text \<open>
  The dispatcher captures the boundary of a registration it reinserts before it does so
  (\<open>heartbeat\<close>), and a pass of the same consumer that materialized while the row was missing may
  then advance it past that boundary. A step is orderly when no registration appears with a
  boundary below the ceiling such a pass is about to advance to.
\<close>

definition orderly :: "'id bus_net \<Rightarrow> 'id bus_net \<Rightarrow> bool" where
  "orderly s s' \<longleftrightarrow> (\<forall>c \<in> set (t_consumers (bn_db s')). \<forall>ceiling.
     cr_key c \<notin> cr_key ` set (t_consumers (bn_db s)) \<longrightarrow> Advancing (cr_key c) ceiling \<in> set (bn_agents s) \<longrightarrow>
     formatTime ceiling \<le> cr_start c)"

definition orderly_step :: "(string \<Rightarrow> bool) \<Rightarrow> (string \<Rightarrow> int) \<Rightarrow> 'id::linorder bus_net \<Rightarrow> 'id bus_net \<Rightarrow> bool" where
  "orderly_step fifo budget s s' \<longleftrightarrow> bus_step fifo budget s s' \<and> orderly s s'"

abbreviation orderly_reachable :: "(string \<Rightarrow> bool) \<Rightarrow> (string \<Rightarrow> int) \<Rightarrow> 'id::linorder bus_net \<Rightarrow> bool" where
  "orderly_reachable fifo budget \<equiv> reach (\<lambda>s. \<exists>t. s = bus_start t) (orderly_step fifo budget)"

lemma orderly_enroll:
  assumes "orderly s (s\<lparr>bn_db := (bn_db s)\<lparr>t_consumers := upsert_consumer (consumer_to_row c) (t_consumers (bn_db s))\<rparr>\<rparr>)"
    and "\<not> list_ex (consumerKeyCondition (Consumer_Key c)) (t_consumers (bn_db s))" "Advancing (Consumer_Key c) ceiling \<in> set (bn_agents s)"
  shows "formatTime ceiling \<le> formatTime (c_start c)"
proof -
  let ?r = "consumer_to_row c"
  have r: "cr_key ?r = Consumer_Key c" "cr_start ?r = formatTime (c_start c)" by (simp_all add: consumer_to_row_def)
  have "?r \<in> set (upsert_consumer ?r (t_consumers (bn_db s)))" using assms(2) r(1) by (simp add: upsert_consumer_def)
  moreover have "cr_key ?r \<notin> cr_key ` set (t_consumers (bn_db s))"
    using assms(2) r(1) by (auto simp: list_ex_iff consumerKeyCondition_def)
  ultimately show ?thesis using assms(1) [unfolded orderly_def, THEN bspec [of _ _ ?r]] assms(3) r by simp
qed

section \<open>The invariant\<close>

lemma pass_ok_agents: "pass_ok floor d a \<Longrightarrow> floor \<le> floor' \<Longrightarrow> pass_ok floor' d a"
  by (cases a) auto

lemma upsert_existing:
  "list_ex (consumerKeyCondition (cr_key r)) (t_consumers d) \<Longrightarrow>
   no_new_gap d (d\<lparr>t_consumers := upsert_consumer r (t_consumers d)\<rparr>)"
proof -
  assume e: "list_ex (consumerKeyCondition (cr_key r)) (t_consumers d)"
  have "map cr_key (upsert_consumer r (t_consumers d)) = map cr_key (t_consumers d)" using e by (simp add: upsert_consumer_def)
  then have "distinct (map cr_key (t_consumers d)) \<longrightarrow> distinct (map cr_key (upsert_consumer r (t_consumers d)))" by argo
  moreover have "\<exists>c \<in> set (t_consumers d). cr_key c' = cr_key c \<and> cr_start c' = cr_start c \<and> cr_frontier c' = cr_frontier c"
    if "c' \<in> set (upsert_consumer r (t_consumers d))" for c'
    using e that by (auto simp: upsert_consumer_def)
  ultimately show ?thesis unfolding no_new_gap_def by (simp add: has_delivery_def)
qed

lemma frontier_publish:
  assumes "frontier_inv s" "formatTime (bn_floor s) \<le> formatTime (m_date m)"
  shows "frontier_inv (s\<lparr>bn_ids := ids, bn_db := (bn_db s)\<lparr>t_messages := t_messages (bn_db s) @ [message_to_row m],
    t_deliveries := fold insert_delivery keys (t_deliveries (bn_db s))\<rparr>\<rparr>)"
proof -
  let ?d = "bn_db s" and ?floor = "formatTime (bn_floor s)"
  let ?d' = "?d\<lparr>t_messages := t_messages ?d @ [message_to_row m], t_deliveries := fold insert_delivery keys (t_deliveries ?d)\<rparr>"
  have has: "has_delivery k x ?d \<Longrightarrow> has_delivery k x ?d'" for k x by (auto simp: has_delivery_def inserts_keys)
  have new: "?floor \<le> mr_date (message_to_row m)" using assms(2) by (simp add: message_to_row_def)
  have ok: "gap_free ?d" "consumers_ok ?floor ?d" "\<forall>a \<in> set (bn_agents s). pass_ok ?floor ?d a"
    using assms(1) by (simp_all add: frontier_inv_def)
  have "gap_free ?d'" using ok(1,2) has new unfolding gap_free_def consumers_ok_def by fastforce
  moreover have "pass_ok ?floor ?d' a" if "pass_ok ?floor ?d a" for a
    using that has new by (cases a) (fastforce simp: covered_below_def)+
  ultimately show ?thesis using ok by (simp add: frontier_inv_def consumers_ok_def)
qed

lemma frontier_enroll:
  assumes "frontier_inv s" "c_start c = c_frontier c" "formatTime (c_start c) \<le> formatTime (bn_floor s)"
    and "\<not> list_ex (consumerKeyCondition (Consumer_Key c)) (t_consumers (bn_db s))"
    and "\<And>ceiling. Advancing (Consumer_Key c) ceiling \<in> set (bn_agents s) \<Longrightarrow> formatTime ceiling \<le> formatTime (c_start c)"
  shows "frontier_inv (s\<lparr>bn_db := (bn_db s)\<lparr>t_consumers := upsert_consumer (consumer_to_row c) (t_consumers (bn_db s))\<rparr>\<rparr>)"
proof -
  let ?d = "bn_db s" and ?floor = "formatTime (bn_floor s)" and ?r = "consumer_to_row c"
  let ?d' = "?d\<lparr>t_consumers := t_consumers ?d @ [?r]\<rparr>"
  have r: "cr_key ?r = Consumer_Key c" "cr_start ?r = cr_frontier ?r" "cr_frontier ?r = formatTime (c_start c)"
    using assms(2) by (simp_all add: consumer_to_row_def)
  have up: "upsert_consumer ?r (t_consumers ?d) = t_consumers ?d @ [?r]" using assms(4) r(1) by (simp add: upsert_consumer_def)
  have ok: "gap_free ?d" "consumers_ok ?floor ?d" "\<forall>a \<in> set (bn_agents s). pass_ok ?floor ?d a"
    using assms(1) by (simp_all add: frontier_inv_def)
  have "gap_free ?d'" using ok(1) r(2) by (auto simp: gap_free_def has_delivery_def covers_def)
  moreover have "consumers_ok ?floor ?d'"
    using ok(2) assms(3,4) r by (auto simp: consumers_ok_def consumerKeyCondition_def list_ex_iff)
  moreover have "pass_ok ?floor ?d' a" if "a \<in> set (bn_agents s)" for a
  proof (cases a)
    case (Advancing key ceiling)
    have "key = Consumer_Key c \<Longrightarrow> formatTime ceiling \<le> cr_start ?r" using assms(5) that Advancing r by auto
    then show ?thesis using ok(3) that Advancing r(1)
      by (fastforce simp: covered_below_def has_delivery_def covers_def)
  qed (use ok(3) that in auto)
  ultimately show ?thesis by (simp add: frontier_inv_def up)
qed

lemma bus_act_pass:
  "a \<in> set (bn_agents (set_bus_agent i b s)) \<Longrightarrow> a \<in> set (bn_agents s) \<or> a = b"
  by (auto simp: set_bus_agent_def dest!: set_update_subset_insert [THEN subsetD])

lemma frontier_act:
  assumes inv: "frontier_inv s" and i: "i < length (bn_agents s)"
  shows "frontier_inv (bus_act fifo budget x i s)"
proof (cases "bn_agents s ! i")
  case (Claiming key token n date)
  show ?thesis
    by (rule frontier_frame [OF inv])
       (use Claiming in \<open>auto simp: bus_act_def bus_claim_def claim_shape case_prod_beta
          intro: no_new_gap_update no_new_gap_deliveries dest!: bus_act_pass split: if_splits\<close>)
next
  case (Running key token n)
  show ?thesis
    by (rule frontier_frame [OF inv])
       (use Running in \<open>auto simp: bus_act_def intro: no_new_gap_deliveries dest!: bus_act_pass\<close>)
next
  case (Finished key token n ok)
  show ?thesis
    by (rule frontier_frame [OF inv])
       (use Finished in \<open>auto simp: bus_act_def bus_settle_def complete_delivery_def fail_delivery_def Let_def case_prod_beta
          intro: no_new_gap_update no_new_gap_deliveries dest!: bus_act_pass split: if_splits\<close>)
next
  case (Materializing key ceiling)
  have "formatTime ceiling \<le> formatTime (bn_floor s)" using inv nth_mem [OF i] Materializing by (force simp: frontier_inv_def)
  then have "pass_ok (formatTime (bn_floor s)) (snd (materialize key (bn_db s))) (Advancing key ceiling)"
    using pass_materialize [OF inv] by simp
  then show ?thesis
    by (intro frontier_frame [OF inv])
       (use Materializing in \<open>auto simp: bus_act_def simp del: pass_ok.simps intro: materialize_no_new_gap dest!: bus_act_pass\<close>)
next
  case (Advancing key ceiling)
  let ?d = "snd (advance key (formatTime ceiling) (bn_db s))"
  have pass: "pass_ok (formatTime (bn_floor s)) (bn_db s) (Advancing key ceiling)"
    using inv nth_mem [OF i] Advancing by (metis frontier_inv_def)
  have "pass_ok floor ?d a" if "pass_ok floor (bn_db s) a" for floor a
    using that by (cases a) (auto intro: advance_covered)
  moreover have "gap_free ?d \<and> consumers_ok (formatTime (bn_floor s)) ?d"
    using inv pass by (intro pass_advance) (auto simp: frontier_inv_def)
  ultimately show ?thesis
    using inv Advancing by (auto simp: bus_act_def frontier_inv_def dest!: bus_act_pass)
qed (use inv in \<open>simp add: bus_act_def\<close>)

lemma frontier_step: "bus_step fifo budget s s' \<Longrightarrow> orderly s s' \<Longrightarrow> frontier_inv s \<Longrightarrow> frontier_inv s'"
proof (induction rule: bus_step.induct)
  case (publish m s keys)
  then show ?case by (intro frontier_publish)
next
  case (duty s w)
  show ?case by (rule frontier_frame [OF duty(2)]) (auto intro: perform_no_new_gap)
next
  case (act i s x)
  then show ?case by (intro frontier_act)
next
  case (enroll c s)
  show ?case
  proof (cases "list_ex (consumerKeyCondition (Consumer_Key c)) (t_consumers (bn_db s))")
    case True
    then have "no_new_gap (bn_db s) (bn_db s\<lparr>t_consumers := upsert_consumer (consumer_to_row c) (t_consumers (bn_db s))\<rparr>)"
      by (intro upsert_existing) (simp add: consumer_to_row_def)
    then show ?thesis by (intro frontier_frame [OF enroll(4)]) auto
  next
    case False
    have "formatTime ceiling \<le> formatTime (c_start c)" if "Advancing (Consumer_Key c) ceiling \<in> set (bn_agents s)" for ceiling
      using orderly_enroll [OF enroll(3) False that] .
    then show ?thesis using enroll(1,2,4) False by (intro frontier_enroll)
  qed
next
  case (clock s t)
  then show ?case by (auto simp: frontier_inv_def consumers_ok_def intro: pass_ok_agents order_trans)
next
  case (crash i s)
  show ?case by (rule frontier_frame [OF crash(3)]) (auto intro: no_new_gap_deliveries dest!: bus_act_pass)
next
  case (begin_pass s key)
  show ?case by (rule frontier_frame [OF begin_pass(2)]) (auto simp: add_agent_def intro: no_new_gap_deliveries)
next
  case (read r m s due token)
  show ?case by (rule frontier_frame [OF read(5)]) (auto simp: add_agent_def intro: no_new_gap_deliveries)
next
  case (local key token s date)
  show ?case by (rule frontier_frame [OF local(4)]) (auto simp: add_agent_def intro: no_new_gap_deliveries)
qed

lemma orderly_reachable_frontier: "orderly_reachable fifo budget s \<Longrightarrow> frontier_inv s"
proof (erule reach_invariant)
  show "\<exists>t. s = bus_start t \<Longrightarrow> frontier_inv s" for s :: "'a bus_net"
    by (auto simp: frontier_inv_def bus_start_def empty_db_def gap_free_def consumers_ok_def)
qed (auto simp: orderly_step_def intro: frontier_step)

section \<open>Properties\<close>

text \<open>C34: in orderly runs no message is skipped. In every interleaving of publications, passes of any
  number of nodes, registrations, expiry and retention in which no registration is reinserted below
  the ceiling of a pass that has already materialized (a race the code leaves open), a visible message
  a registered consumer covers either has its delivery row or lies at or above the frontier, so the
  next materialization by any node creates it; and whatever commits later is dated at or above the
  frontier, so below it the order an ordered consumer walks is complete.\<close>

theorem no_covered_message_is_skipped:
  assumes "orderly_reachable fifo budget s" "c \<in> set (t_consumers (bn_db s))" "m \<in> set (t_messages (bn_db s))" "covers c m"
  shows "(has_delivery (cr_key c) m (bn_db s) \<or> cr_frontier c \<le> mr_date m) \<and>
    has_delivery (cr_key c) m (snd (materialize (cr_key c) (bn_db s))) \<and>
    cr_frontier c \<le> formatTime (bn_floor s)"
proof -
  have inv: "frontier_inv s" by (rule orderly_reachable_frontier [OF assms(1)])
  then have "gap_free (bn_db s)" "consumers_ok (formatTime (bn_floor s)) (bn_db s)" by (simp_all add: frontier_inv_def)
  then show ?thesis
    using materialize_complete [OF _ _ assms(2-4)] assms(2-4) by (auto simp: gap_free_def consumers_ok_def)
qed

definition demo_consumer :: bus_consumer where
  "demo_consumer = (let t = Instant 2023 12 31 23 50 0 0 in
     \<lparr>c_listener = ''audit'', c_instance = ''n2'', c_type = ''order'', c_mode = DeliveryModeBroadcast, c_start = t, c_frontier = t,
      c_registration = t, c_heartbeat = t\<rparr>)"

definition demo_enrolled :: "nat bus_net" where
  "demo_enrolled = (demo_net (Suc 0))\<lparr>bn_db := (bn_db (demo_net (Suc 0)))\<lparr>t_consumers := [consumer_to_row demo_consumer]\<rparr>\<rparr>"

lemma demo_enrolled_reachable: "orderly_reachable (\<lambda>l. False) (\<lambda>l. 1) demo_enrolled"
proof -
  let ?step = "bus_step (\<lambda>l. False) (\<lambda>l. 1)"
  have "?step (demo_net 0) (demo_net (Suc 0))"
    using bus_step.publish [of demo_message "demo_net 0" "[demo_key]" "\<lambda>l. False" "\<lambda>l. 1"]
      formatTime_order [of "Instant 2023 12 31 23 50 0 0" "Instant 2024 1 1 0 0 0 0"]
    by (simp add: bus_start_def empty_db_def demo_message_def demo_key_def insert_delivery_def days_in_def
        less_instant_def less_imp_le del: formatTime.simps)
  moreover have "?step (demo_net (Suc 0)) demo_enrolled"
    using bus_step.enroll [of demo_consumer "demo_net (Suc 0)"]
    by (simp add: demo_enrolled_def demo_consumer_def upsert_consumer_def bus_start_def empty_db_def Let_def del: formatTime.simps)
  moreover have "orderly (demo_net 0) s" "orderly (demo_net (Suc 0)) s" for s :: "nat bus_net"
    by (simp_all add: orderly_def bus_start_def)
  ultimately have first: "orderly_step (\<lambda>l. False) (\<lambda>l. 1) (demo_net 0) (demo_net (Suc 0))"
    and second: "orderly_step (\<lambda>l. False) (\<lambda>l. 1) (demo_net (Suc 0)) demo_enrolled"
    by (simp_all only: orderly_step_def)
  have "orderly_reachable (\<lambda>l. False) (\<lambda>l. 1) (demo_net 0)" by (intro reach_init) auto
  then have "orderly_reachable (\<lambda>l. False) (\<lambda>l. 1) (demo_net (Suc 0))" using first by (rule reach_step)
  then show ?thesis using second by (rule reach_step)
qed

theorem no_covered_message_is_skipped_witness:
  "\<not> has_delivery (cr_key (consumer_to_row demo_consumer)) (message_to_row demo_message) (bn_db demo_enrolled) \<and>
   has_delivery (cr_key (consumer_to_row demo_consumer)) (message_to_row demo_message)
     (snd (materialize (cr_key (consumer_to_row demo_consumer)) (bn_db demo_enrolled)))"
proof -
  have "formatTime (Instant 2023 12 31 23 50 0 0) \<le> formatTime (Instant 2024 1 1 0 0 0 0)"
    using formatTime_order [of "Instant 2023 12 31 23 50 0 0" "Instant 2024 1 1 0 0 0 0"]
    by (simp add: days_in_def less_instant_def less_imp_le del: formatTime.simps)
  then have "covers (consumer_to_row demo_consumer) (message_to_row demo_message)"
    by (simp add: covers_def consumer_to_row_def demo_consumer_def message_to_row_def demo_message_def Consumer_Key_def Let_def
        del: formatTime.simps)
  moreover have "consumer_to_row demo_consumer \<in> set (t_consumers (bn_db demo_enrolled))"
    "message_to_row demo_message \<in> set (t_messages (bn_db demo_enrolled))"
    by (simp_all add: demo_enrolled_def empty_db_def)
  ultimately have "has_delivery (cr_key (consumer_to_row demo_consumer)) (message_to_row demo_message)
     (snd (materialize (cr_key (consumer_to_row demo_consumer)) (bn_db demo_enrolled)))"
    using no_covered_message_is_skipped [OF demo_enrolled_reachable] by blast
  moreover have "\<not> has_delivery (cr_key (consumer_to_row demo_consumer)) (message_to_row demo_message) (bn_db demo_enrolled)"
    by (simp add: has_delivery_def demo_enrolled_def consumer_to_row_def demo_consumer_def delivery_key_of_def demo_key_def
        Consumer_Key_def empty_db_def message_to_row_def demo_message_def Let_def del: formatTime.simps)
  ultimately show ?thesis by blast
qed

text \<open>Without the restriction to orderly runs a message can be skipped: a pass materializes while the row
  of its consumer is missing, the row is reinserted with a boundary computed earlier, and the pass then
  advances it past a message that has no delivery.\<close>

definition late :: instant where
  "late = Instant 2024 1 1 0 5 0 0"

definition racing :: "nat bus_agent \<Rightarrow> consumer_row list \<Rightarrow> nat bus_net" where
  "racing a cs = (bus_start late)\<lparr>bn_ids := [1], bn_agents := [a],
     bn_db := empty_db\<lparr>t_messages := [message_to_row demo_message], t_consumers := cs\<rparr>\<rparr>"

lemma racing_dates: "formatTime (Instant 2023 12 31 23 50 0 0) \<le> formatTime (Instant 2024 1 1 0 0 0 0)"
  "formatTime (Instant 2024 1 1 0 0 0 0) < formatTime late" "formatTime (Instant 2023 12 31 23 50 0 0) < formatTime late"
  using formatTime_order [of "Instant 2023 12 31 23 50 0 0" "Instant 2024 1 1 0 0 0 0"]
    formatTime_order [of "Instant 2024 1 1 0 0 0 0" late] formatTime_order [of "Instant 2023 12 31 23 50 0 0" late]
  by (simp_all add: late_def days_in_def less_instant_def less_imp_le del: formatTime.simps)

lemma reinserted_registration_may_skip_a_message:
  fixes c :: consumer_row
  defines "c \<equiv> (consumer_to_row demo_consumer)\<lparr>cr_frontier := formatTime late\<rparr>"
  shows "bus_reachable (\<lambda>l. False) (\<lambda>l. 1) (racing Stopped [c]) \<and> covers c (message_to_row demo_message) \<and>
    \<not> has_delivery (cr_key c) (message_to_row demo_message) (snd (materialize (cr_key c) (bn_db (racing Stopped [c]))))"
proof (intro conjI)
  let ?key = "Consumer_Key demo_consumer" and ?row = "consumer_to_row demo_consumer" and ?step = "bus_step (\<lambda>l. False) (\<lambda>l. 1)"
  let ?net = "\<lambda>s. bus_reachable (\<lambda>l. False) (\<lambda>l. 1) s"
  let ?published = "(bus_start (Instant 2023 12 31 23 50 0 0))\<lparr>bn_ids := [1], bn_db := empty_db\<lparr>t_messages := [message_to_row demo_message]\<rparr>\<rparr>"
  have "?net (bus_start (Instant 2023 12 31 23 50 0 0))" by (intro reach_init) auto
  moreover have "?step (bus_start (Instant 2023 12 31 23 50 0 0)) ?published"
    using bus_step.publish [of demo_message "bus_start (Instant 2023 12 31 23 50 0 0)" "[]" "\<lambda>l. False" "\<lambda>l. 1"] racing_dates(1)
    by (simp add: bus_start_def empty_db_def demo_message_def days_in_def del: formatTime.simps)
  ultimately have "?net ?published" by (rule reach_step)
  moreover have "?step ?published (?published\<lparr>bn_floor := late\<rparr>)"
    using racing_dates(3) by (intro bus_step.clock) (simp add: bus_start_def del: formatTime.simps)
  ultimately have "?net (?published\<lparr>bn_floor := late\<rparr>)" by (rule reach_step)
  moreover have "?step (?published\<lparr>bn_floor := late\<rparr>) (racing (Materializing ?key late) [])"
    using bus_step.begin_pass [of "\<lambda>l. False" "\<lambda>l. 1" "?published\<lparr>bn_floor := late\<rparr>" ?key]
    by (simp add: racing_def add_agent_def bus_start_def empty_db_def)
  ultimately have "?net (racing (Materializing ?key late) [])" by (rule reach_step)
  moreover have "?step (racing (Materializing ?key late) []) (racing (Advancing ?key late) [])"
    using bus_step.act [of 0 "racing (Materializing ?key late) []" "\<lambda>l. False" "\<lambda>l. 1" demo_stimulus]
    by (simp add: racing_def bus_act_def set_bus_agent_def bus_start_def materialize_def materializable_def frontierOf_def
        optional_holds_def empty_db_def)
  ultimately have "?net (racing (Advancing ?key late) [])" by (rule reach_step)
  moreover have "?step (racing (Advancing ?key late) []) (racing (Advancing ?key late) [?row])"
    using bus_step.enroll [of demo_consumer "racing (Advancing ?key late) []" "\<lambda>l. False" "\<lambda>l. 1"] racing_dates(3)
    by (simp add: racing_def demo_consumer_def upsert_consumer_def bus_start_def empty_db_def Let_def less_imp_le del: formatTime.simps)
  ultimately have "?net (racing (Advancing ?key late) [?row])" by (rule reach_step)
  moreover have "?step (racing (Advancing ?key late) [?row]) (racing Stopped [c])"
    using bus_step.act [of 0 "racing (Advancing ?key late) [?row]" "\<lambda>l. False" "\<lambda>l. 1" demo_stimulus] racing_dates(3)
    by (simp add: racing_def c_def bus_act_def set_bus_agent_def bus_start_def advance_def update_consumers_def consumerKeyCondition_def
        consumer_to_row_def demo_consumer_def Consumer_Key_def empty_db_def Let_def del: formatTime.simps)
  ultimately show "?net (racing Stopped [c])" by (rule reach_step)
  show "covers c (message_to_row demo_message)"
    using racing_dates(1)
    by (simp add: c_def covers_def consumer_to_row_def demo_consumer_def message_to_row_def demo_message_def Consumer_Key_def Let_def
        del: formatTime.simps)
  show "\<not> has_delivery (cr_key c) (message_to_row demo_message) (snd (materialize (cr_key c) (bn_db (racing Stopped [c]))))"
    using racing_dates(2)
    by (simp add: has_delivery_def materialize_def materializable_def frontierOf_def optional_holds_def racing_def c_def bus_start_def
        empty_db_def consumer_to_row_def demo_consumer_def message_to_row_def demo_message_def Consumer_Key_def consumerKeyCondition_def
        Let_def not_le del: formatTime.simps)
qed

end
