(* ===== verification/BusBridge.thy ===== *)
theory BusBridge
  imports BusStore BrokerConfig
begin

text \<open>
  The bridge between the in-process bus and the shared database (sqlbus/bridge.go): options,
  attachment, publication, and the claim-deliver-settle state machine of one delivery. The world
  is the bus of eventbus/bus.go with the node's attachments and the shared database beside it,
  so handlers may attach, publish and subscribe while they run. The serializer, the sources of
  identifiers and tokens, adding a duration to a time, the rendering of an error and the
  cancellation of a context are operations of the bridge's environment.
\<close>

section \<open>Listeners of a node\<close>

record attachment_configuration =
  ac_ordering :: bus_ordering
  ac_maximum :: int
  ac_retry :: "int \<Rightarrow> int"

record attachment =
  at_id :: listener_id
  at_mode :: delivery_mode
  at_type :: string
  at_configuration :: attachment_configuration

type_synonym attach_option = "attachment_configuration \<Rightarrow> attachment_configuration"

definition WithOrderedDelivery :: attach_option where
  "WithOrderedDelivery c = c\<lparr>ac_ordering := BusFIFO\<rparr>"

definition WithListenerMaximumAttempts :: "int \<Rightarrow> attach_option" where
  "WithListenerMaximumAttempts attempts c = (if attempts > 0 then c\<lparr>ac_maximum := attempts\<rparr> else c)"

definition WithListenerRetryDelay :: "(int \<Rightarrow> int) option \<Rightarrow> attach_option" where
  "WithListenerRetryDelay delay c = (case delay of None \<Rightarrow> c | Some f \<Rightarrow> c\<lparr>ac_retry := f\<rparr>)"

record ('e, 'h) attachment_registration =
  ar_id :: listener_id
  ar_matches :: "('e \<Rightarrow> bool) option"
  ar_probe :: 'e
  ar_handle :: "('e, 'h) handler option"
  ar_mode :: delivery_mode
  ar_options :: "attach_option list"

section \<open>The bridge\<close>

record ('id, 's) node_world =
  nw_db :: "'id bus_db"
  nw_attachments :: "attachment list"
  nw_subscribed :: "listener_id set"
  nw_fresh :: nat
  nw_rest :: 's

type_synonym ('id, 'e, 'h, 's) node = "('e, 'h, ('id, 's) node_world) bus_world"

record ('id, 'e, 'h, 's) bridge =
  b_env :: "'id bus_env"
  b_exec :: "('e, 'h, ('id, 's) node_world) handler_interp"
  b_serialize :: "'e \<Rightarrow> goerror + (string \<times> string)"
  b_deserialize :: "string \<Rightarrow> string \<Rightarrow> goerror + 'e"
  b_node :: node_id
  b_maximumAttempts :: int
  b_leaseDuration :: int
  b_grace :: int
  b_retryDelay :: "int \<Rightarrow> int"
  b_new_id :: "nat \<Rightarrow> goerror + 'id"
  b_new_token :: "nat \<Rightarrow> string"
  b_add :: "instant \<Rightarrow> int \<Rightarrow> instant"
  b_text :: "goerror \<Rightarrow> string"
  b_cancelled :: "('id, 'e, 'h, 's) node \<Rightarrow> bool"

definition defaultMaximumAttempts :: int where
  "defaultMaximumAttempts = 5"

definition defaultLeaseDuration :: int where
  "defaultLeaseDuration = 5 * minute"

definition defaultMaterializationGrace :: int where
  "defaultMaterializationGrace = 10 * minute"

definition busInitialRetryDelay :: int where
  "busInitialRetryDelay = 5 * second"

definition busMaximumRetryDelay :: int where
  "busMaximumRetryDelay = 5 * minute"

function retry_loop :: "int \<Rightarrow> int \<Rightarrow> int \<Rightarrow> int" where
  "retry_loop attempt n delay =
     (if n < attempt
      then (let delay' = wrap64 (delay * 2)
            in if delay' \<ge> busMaximumRetryDelay then busMaximumRetryDelay
               else retry_loop attempt (n + 1) delay')
      else delay)"
  by auto
termination by (relation "measure (\<lambda>(attempt, n, delay). nat (attempt - n))") auto

declare retry_loop.simps [simp del]

definition defaultRetryDelay :: "int \<Rightarrow> int" where
  "defaultRetryDelay attempt = retry_loop attempt 1 busInitialRetryDelay"

type_synonym ('id, 'e, 'h, 's) bridge_option = "('id, 'e, 'h, 's) bridge \<Rightarrow> ('id, 'e, 'h, 's) bridge"

definition WithNodeIdentifier :: "node_id \<Rightarrow> ('id, 'e, 'h, 's) bridge_option" where
  "WithNodeIdentifier node b = (if node \<noteq> '''' then b\<lparr>b_node := node\<rparr> else b)"

definition BridgeWithMaximumAttempts :: "int \<Rightarrow> ('id, 'e, 'h, 's) bridge_option" where
  "BridgeWithMaximumAttempts attempts b = (if attempts > 0 then b\<lparr>b_maximumAttempts := attempts\<rparr> else b)"

definition WithLeaseDuration :: "int \<Rightarrow> ('id, 'e, 'h, 's) bridge_option" where
  "WithLeaseDuration lease b = (if lease > 0 then b\<lparr>b_leaseDuration := lease\<rparr> else b)"

definition WithMaterializationGrace :: "int \<Rightarrow> ('id, 'e, 'h, 's) bridge_option" where
  "WithMaterializationGrace grace b = (if grace > 0 then b\<lparr>b_grace := grace\<rparr> else b)"

definition BridgeWithRetryDelay :: "(int \<Rightarrow> int) option \<Rightarrow> ('id, 'e, 'h, 's) bridge_option" where
  "BridgeWithRetryDelay delay b = (case delay of None \<Rightarrow> b | Some f \<Rightarrow> b\<lparr>b_retryDelay := f\<rparr>)"

text \<open>\<open>NewBridge\<close> fills the defaults into the environment \<open>b\<close>; \<open>node\<close> is the generated identity.\<close>

definition NewBridge ::
  "('id, 'e, 'h, 's) bridge \<Rightarrow> node_id \<Rightarrow> ('id, 'e, 'h, 's) bridge_option list \<Rightarrow> ('id, 'e, 'h, 's) bridge" where
  "NewBridge b node options = fold (\<lambda>f b. f b) options (b\<lparr>b_node := node, b_maximumAttempts := defaultMaximumAttempts,
     b_leaseDuration := defaultLeaseDuration, b_grace := defaultMaterializationGrace, b_retryDelay := defaultRetryDelay\<rparr>)"

definition with_db :: "('id bus_db \<Rightarrow> 'a \<times> 'id bus_db) \<Rightarrow> ('id, 'e, 'h, 's) node \<Rightarrow> 'a \<times> ('id, 'e, 'h, 's) node" where
  "with_db f w = (let (a, db) = f (nw_db (rest w)) in (a, w\<lparr>rest := (rest w)\<lparr>nw_db := db\<rparr>\<rparr>))"

text \<open>\<open>time.Now().UTC()\<close> reads the clock; each reading is a later moment.\<close>

definition bus_now :: "('id, 'e, 'h, 's) bridge \<Rightarrow> ('id, 'e, 'h, 's) node \<Rightarrow> instant \<times> ('id, 'e, 'h, 's) node" where
  "bus_now b = with_db (\<lambda>d. (be_now (b_env b) (t_ticks d), d\<lparr>t_ticks := Suc (t_ticks d)\<rparr>))"

definition fresh :: "('id, 'e, 'h, 's) node \<Rightarrow> nat \<times> ('id, 'e, 'h, 's) node" where
  "fresh w = (nw_fresh (rest w), w\<lparr>rest := (rest w)\<lparr>nw_fresh := Suc (nw_fresh (rest w))\<rparr>\<rparr>)"

definition instanceFor :: "('id, 'e, 'h, 's) bridge \<Rightarrow> delivery_mode \<Rightarrow> string" where
  "instanceFor b mode = (if mode = DeliveryModeBroadcast then b_node b else '''')"

definition attachmentFor :: "listener_id \<Rightarrow> ('id, 'e, 'h, 's) node \<Rightarrow> attachment option" where
  "attachmentFor lid w = find (\<lambda>a. at_id a = lid) (nw_attachments (rest w))"

section \<open>Attaching\<close>

definition ErrConflictingDeliveryMode :: goerror where
  "ErrConflictingDeliveryMode = Leaf ''listener is already registered under a different delivery mode''"

definition ErrConflictingOrdering :: goerror where
  "ErrConflictingOrdering = Leaf ''listener is already registered under a different ordering''"

definition attach_configuration ::
  "('id, 'e, 'h, 's) bridge \<Rightarrow> attach_option list \<Rightarrow> attachment_configuration" where
  "attach_configuration b options = fold (\<lambda>f c. f c) options
     \<lparr>ac_ordering = BusUnordered, ac_maximum = b_maximumAttempts b, ac_retry = b_retryDelay b\<rparr>"

text \<open>The local subscription, reused when an earlier attempt left it behind.\<close>

definition attach_subscribe ::
  "('e, 'h) attachment_registration \<Rightarrow> bool \<Rightarrow> ('id, 'e, 'h, 's) node \<Rightarrow> goerror option \<times> ('id, 'e, 'h, 's) node" where
  "attach_subscribe r alreadySubscribed w =
     (if alreadySubscribed then (None, w)
      else (case Bus_Subscribe (ar_id r) (ar_matches r) (ar_handle r) (subscriptions w) of
          (Some err, _) \<Rightarrow> (Some err, w)
        | (None, subs) \<Rightarrow> (None, w\<lparr>subscriptions := subs,
            rest := (rest w)\<lparr>nw_subscribed := insert (ar_id r) (nw_subscribed (rest w))\<rparr>\<rparr>)))"

definition attach_consumer :: "('id, 'e, 'h, 's) bridge \<Rightarrow> listener_id \<Rightarrow> delivery_mode \<Rightarrow> string \<Rightarrow> instant \<Rightarrow> bus_consumer" where
  "attach_consumer b lid mode etype now = (let boundary = b_add b now (- b_grace b)
     in \<lparr>c_listener = lid, c_instance = instanceFor b mode, c_type = etype, c_mode = mode, c_start = boundary,
         c_frontier = boundary, c_registration = now, c_heartbeat = now\<rparr>)"

definition attach_register ::
  "('id, 'e, 'h, 's) bridge \<Rightarrow> ('e, 'h) attachment_registration \<Rightarrow> attachment_configuration \<Rightarrow> string \<Rightarrow>
   ('id, 'e, 'h, 's) node \<Rightarrow> goerror option \<times> ('id, 'e, 'h, 's) node" where
  "attach_register b r configuration etype w =
     (let (now, w1) = bus_now b w
      in (case with_db (RegisterConsumer (b_env b) (attach_consumer b (ar_id r) (ar_mode r) etype now)) w1 of
          (Inl err, w2) \<Rightarrow> (Some err, w2)
        | (Inr _, w2) \<Rightarrow> (None, w2\<lparr>rest := (rest w2)\<lparr>nw_attachments := nw_attachments (rest w2) @
            [\<lparr>at_id = ar_id r, at_mode = ar_mode r, at_type = etype, at_configuration = configuration\<rparr>]\<rparr>\<rparr>)))"

definition Attach ::
  "('id, 'e, 'h, 's) bridge \<Rightarrow> ('e, 'h) attachment_registration \<Rightarrow> ('id, 'e, 'h, 's) node \<Rightarrow>
   goerror option \<times> ('id, 'e, 'h, 's) node" where
  "Attach b r w =
     (let configuration = attach_configuration b (ar_options r)
      in (case b_serialize b (ar_probe r) of
          Inl err \<Rightarrow> (Some (Wrap ''attach %s: %w'' [err]), w)
        | Inr (etype, _) \<Rightarrow>
           (if list_ex (\<lambda>existing. at_id existing = ar_id r) (nw_attachments (rest w))
            then (Some (Wrap ''%w: %s'' [ErrDuplicateListener]), w)
            else (let alreadySubscribed = ar_id r \<in> nw_subscribed (rest w)
              in (case with_db (RegisterListenerMode (b_env b) (ar_id r) (ar_mode r) (ac_ordering configuration)) w of
                  (Inl err, w1) \<Rightarrow> (Some err, w1)
                | (Inr (modeWinner, orderingWinner), w1) \<Rightarrow>
                   (if modeWinner \<noteq> ar_mode r then (Some (Wrap ''%w: %s is registered as %s'' [ErrConflictingDeliveryMode]), w1)
                    else if orderingWinner \<noteq> ac_ordering configuration
                    then (Some (Wrap ''%w: %s is registered as %s'' [ErrConflictingOrdering]), w1)
                    else (case attach_subscribe r alreadySubscribed w1 of
                        (Some err, w2) \<Rightarrow> (Some err, w2)
                      | (None, w2) \<Rightarrow> attach_register b r configuration etype w2)))))))"

text \<open>The typed attachment functions.\<close>

definition attachTyped ::
  "('id, 'e, 'h, 's) bridge \<Rightarrow> listener_id \<Rightarrow> delivery_mode \<Rightarrow> ('e \<Rightarrow> bool) \<Rightarrow> 'e \<Rightarrow> 'h \<Rightarrow> attach_option list \<Rightarrow>
   ('id, 'e, 'h, 's) node \<Rightarrow> goerror option \<times> ('id, 'e, 'h, 's) node" where
  "attachTyped b lid mode is_T probe handle options =
     Attach b \<lparr>ar_id = lid, ar_matches = Some is_T, ar_probe = probe, ar_handle = Some (Typed lid is_T handle),
       ar_mode = mode, ar_options = options\<rparr>"

definition AttachCompetingListener ::
  "('id, 'e, 'h, 's) bridge \<Rightarrow> listener_id \<Rightarrow> ('e \<Rightarrow> bool) \<Rightarrow> 'e \<Rightarrow> 'h \<Rightarrow> attach_option list \<Rightarrow>
   ('id, 'e, 'h, 's) node \<Rightarrow> goerror option \<times> ('id, 'e, 'h, 's) node" where
  "AttachCompetingListener b lid = attachTyped b lid DeliveryModeCompeting"

definition AttachBroadcastListener ::
  "('id, 'e, 'h, 's) bridge \<Rightarrow> listener_id \<Rightarrow> ('e \<Rightarrow> bool) \<Rightarrow> 'e \<Rightarrow> 'h \<Rightarrow> attach_option list \<Rightarrow>
   ('id, 'e, 'h, 's) node \<Rightarrow> goerror option \<times> ('id, 'e, 'h, 's) node" where
  "AttachBroadcastListener b lid = attachTyped b lid DeliveryModeBroadcast"

definition Detach ::
  "('id, 'e, 'h, 's) bridge \<Rightarrow> listener_id \<Rightarrow> ('id, 'e, 'h, 's) node \<Rightarrow> goerror option \<times> ('id, 'e, 'h, 's) node" where
  "Detach b lid w = (case with_db (RemoveListener (b_env b) lid) w of
      (Inl err, w1) \<Rightarrow> (Some err, w1)
    | (Inr _, w1) \<Rightarrow> (None, w1\<lparr>rest := (rest w1)\<lparr>nw_attachments :=
        filter (\<lambda>existing. at_id existing \<noteq> lid) (nw_attachments (rest w1))\<rparr>\<rparr>))"

section \<open>Publishing\<close>

definition localDeliveryKeys :: "('id, 'e, 'h, 's) bridge \<Rightarrow> 'id bus_message \<Rightarrow> ('id, 'e, 'h, 's) node \<Rightarrow> 'id delivery_key list" where
  "localDeliveryKeys b message w =
     map (\<lambda>a. \<lparr>k_message = m_id message, k_listener = at_id a, k_instance = instanceFor b (at_mode a)\<rparr>)
       (filter (\<lambda>a. at_type a = m_type message) (nw_attachments (rest w)))"

definition Bridge_Publish ::
  "('id, 'e, 'h, 's) bridge \<Rightarrow> 'e \<Rightarrow> ('id, 'e, 'h, 's) node \<Rightarrow>
   (goerror + ('id bus_message \<times> 'id delivery_key list)) \<times> ('id, 'e, 'h, 's) node" where
  "Bridge_Publish b event w =
     (case b_serialize b event of
        Inl err \<Rightarrow> (Inl err, w)
      | Inr (etype, payload) \<Rightarrow>
         (let (k, w1) = fresh w
          in (case b_new_id b k of
              Inl err \<Rightarrow> (Inl (Wrap ''generate message identifier: %w'' [err]), w1)
            | Inr mid \<Rightarrow>
               (let (now, w2) = bus_now b w1;
                    message = \<lparr>m_id = mid, m_type = etype, m_payload = payload, m_node = b_node b, m_date = now\<rparr>
                in (case with_db (CreateMessage (b_env b) message) w2 of
                    (Some err, w3) \<Rightarrow> (Inl err, w3)
                  | (None, w3) \<Rightarrow> (let keys = localDeliveryKeys b message w3
                      in (case with_db (CreateDeliveries (b_env b) keys) w3 of
                          (Some err, w4) \<Rightarrow> (Inl err, w4)
                        | (None, w4) \<Rightarrow> (Inr (message, keys), w4))))))))"

section \<open>One delivery\<close>

definition claim_for ::
  "('id::linorder, 'e, 'h, 's) bridge \<Rightarrow> attachment \<Rightarrow> 'id delivery_key \<Rightarrow> string \<Rightarrow> instant \<Rightarrow> int \<Rightarrow> instant \<Rightarrow> ('id, bool) store_call" where
  "claim_for b attached key token now attempts publicationDate =
     (let leaseCutoff = b_add b now (- b_leaseDuration b)
      in if ac_ordering (at_configuration attached) = BusFIFO
         then ClaimDeliveryInOrder (b_env b) key token now leaseCutoff attempts publicationDate
         else ClaimDelivery (b_env b) key token now leaseCutoff attempts)"

text \<open>The settlement of a failure; a cancelled caller leaves the delivery to its lease.\<close>

definition settle_failure ::
  "('id, 'e, 'h, 's) bridge \<Rightarrow> attachment_configuration \<Rightarrow> 'id delivery_key \<Rightarrow> string \<Rightarrow> int \<Rightarrow> goerror \<Rightarrow>
   ('id, 'e, 'h, 's) node \<Rightarrow> goerror option \<times> ('id, 'e, 'h, 's) node" where
  "settle_failure b configuration key token attemptsBeforeClaim err w =
     (let deliveryError = Wrap ''deliver %s to %s: %w'' [err]
      in if b_cancelled b w then (Some deliveryError, w)
         else (let attempt = attemptsBeforeClaim + 1;
                   (now, w1) = bus_now b w;
                   nextAttemptDate = b_add b now (ac_retry configuration attempt)
           in (case with_db (FailDelivery (b_env b) key token (b_text b err) nextAttemptDate attempt (ac_maximum configuration)) w1 of
               (Inl markError, w2) \<Rightarrow> (errors_join [Some deliveryError, Some markError], w2)
             | (Inr settled, w2) \<Rightarrow> (Some deliveryError, w2))))"

definition settle_success ::
  "('id, 'e, 'h, 's) bridge \<Rightarrow> 'id delivery_key \<Rightarrow> string \<Rightarrow> ('id, 'e, 'h, 's) node \<Rightarrow> goerror option \<times> ('id, 'e, 'h, 's) node" where
  "settle_success b key token w =
     (let (now, w1) = bus_now b w
      in (case with_db (CompleteDelivery (b_env b) key token now) w1 of
          (Inl err, w2) \<Rightarrow> (Some err, w2)
        | (Inr settled, w2) \<Rightarrow> (None, w2)))"

definition dispatchDelivery ::
  "('id::linorder, 'e, 'h, 's) bridge \<Rightarrow> attachment \<Rightarrow> 'id delivery_key \<Rightarrow> int \<Rightarrow> instant \<Rightarrow> (goerror + 'e) \<Rightarrow>
   ('id, 'e, 'h, 's) node \<Rightarrow> goerror option \<times> ('id, 'e, 'h, 's) node" where
  "dispatchDelivery b attached key attemptsBeforeClaim publicationDate restored w =
     (let (k, w1) = fresh w; token = b_new_token b k; (now, w2) = bus_now b w1
      in (case with_db (claim_for b attached key token now attemptsBeforeClaim publicationDate) w2 of
          (Inl err, w3) \<Rightarrow> (Some err, w3)
        | (Inr False, w3) \<Rightarrow> (None, w3)
        | (Inr True, w3) \<Rightarrow>
           (case (case restored of
                    Inl err \<Rightarrow> (Some err, w3)
                  | Inr event \<Rightarrow> Deliver (b_exec b) (k_listener key) event w3) of
              (Some err, w4) \<Rightarrow> settle_failure b (at_configuration attached) key token attemptsBeforeClaim err w4
            | (None, w4) \<Rightarrow> settle_success b key token w4)))"

text \<open>The after-commit fast path; ordered listeners wait for their dispatcher.\<close>

fun dispatch_local ::
  "('id::linorder, 'e, 'h, 's) bridge \<Rightarrow> 'e \<Rightarrow> 'id delivery_key list \<Rightarrow> ('id, 'e, 'h, 's) node \<Rightarrow>
   goerror option list \<times> ('id, 'e, 'h, 's) node" where
  "dispatch_local b event [] w = ([], w)"
| "dispatch_local b event (key # keys) w =
     (case attachmentFor (k_listener key) w of
        None \<Rightarrow> dispatch_local b event keys w
      | Some attached \<Rightarrow>
         (if ac_ordering (at_configuration attached) = BusFIFO then dispatch_local b event keys w
          else (let (err, w1) = dispatchDelivery b attached key 0 (Instant 1 1 1 0 0 0 0) (Inr event) w;
                    (errs, w2) = dispatch_local b event keys w1
                in (if err = None then errs else err # errs, w2))))"

definition dispatchLocal ::
  "('id::linorder, 'e, 'h, 's) bridge \<Rightarrow> 'e \<Rightarrow> 'id delivery_key list \<Rightarrow> ('id, 'e, 'h, 's) node \<Rightarrow>
   goerror option \<times> ('id, 'e, 'h, 's) node" where
  "dispatchLocal b event keys w = (let (errs, w') = dispatch_local b event keys w in (errors_join errs, w'))"

definition Bridge_Resubmit :: "('id, 'e, 'h, 's) bridge \<Rightarrow> 'id delivery_key \<Rightarrow> ('id, 'e, 'h, 's) node \<Rightarrow> (goerror + bool) \<times> ('id, 'e, 'h, 's) node" where
  "Bridge_Resubmit b key = with_db (ResubmitDelivery (b_env b) key)"

definition Bridge_FindExhausted ::
  "('id::linorder, 'e, 'h, 's) bridge \<Rightarrow> int \<Rightarrow> ('id, 'e, 'h, 's) node \<Rightarrow> (goerror + 'id due_delivery list) \<times> ('id, 'e, 'h, 's) node" where
  "Bridge_FindExhausted b lim = with_db (FindExhaustedDeliveries (b_env b) lim)"

end
