(* ===== verification/BusDispatch.thy ===== *)
theory BusDispatch
  imports BusBridge
begin

text \<open>
  What one \<open>dispatchDelivery\<close> and one \<open>Attach\<close> of sqlbus/bridge.go do to the shared tables when
  no other session writes meanwhile, under any faults and with any listener that leaves the
  tables alone; and the retry schedule as an instance of the contract of eventbus/broker.go.
\<close>

section \<open>The retry schedule\<close>

lemma retry_loop_backoff: "retry_loop attempt n delay = backoff_loop attempt n delay"
proof (induction attempt n delay rule: retry_loop.induct)
  case (1 attempt n delay)
  then show ?case
    by (simp add: retry_loop.simps [of attempt n delay] backoff_loop.simps [of attempt n delay] Let_def
        busMaximumRetryDelay_def defaultMaximumRetryDelay_def)
qed

lemma retry_delay_same: "defaultRetryDelay = defaultConsumerRetryDelay"
  by (intro ext) (simp add: defaultRetryDelay_def defaultConsumerRetryDelay_def retry_loop_backoff
      busInitialRetryDelay_def defaultInitialRetryDelay_def)

interpretation bridge_retry: retry_policy defaultRetryDelay busInitialRetryDelay busMaximumRetryDelay
  unfolding retry_delay_same using consumer_retry.retry_policy_axioms
  by (simp add: busInitialRetryDelay_def busMaximumRetryDelay_def defaultInitialRetryDelay_def defaultMaximumRetryDelay_def)

section \<open>One row moves\<close>

definition moves :: "'id delivery_key \<Rightarrow> 'id delivery_row \<Rightarrow> 'id bus_db \<Rightarrow> 'id bus_db \<Rightarrow> bool" where
  "moves key r d d' \<longleftrightarrow> dr_key r = key \<and> t_deliveries d' = map (\<lambda>q. if dr_key q = key then r else q) (t_deliveries d)"

definition holds_row :: "'id delivery_key \<Rightarrow> 'id delivery_row \<Rightarrow> 'id bus_db \<Rightarrow> bool" where
  "holds_row key r d \<longleftrightarrow> r \<in> set (t_deliveries d) \<and> dr_key r = key \<and> distinct (map dr_key (t_deliveries d))"

lemma moves_refl: "holds_row key r d \<Longrightarrow> t_deliveries d' = t_deliveries d \<Longrightarrow> moves key r d d'"
  by (auto simp: holds_row_def moves_def distinct_map intro!: map_idI [symmetric] dest: inj_onD)

lemma moves_keys: "dr_key r = key \<Longrightarrow> map dr_key (map (\<lambda>q. if dr_key q = key then r else q) rows) = map dr_key rows"
  by simp

lemma moves_holds: "holds_row key r d \<Longrightarrow> moves key r' d d' \<Longrightarrow> holds_row key r' d'"
proof -
  assume h: "holds_row key r d" and m: "moves key r' d d'"
  have "distinct (map dr_key (t_deliveries d'))"
    using h m moves_keys [of r' key "t_deliveries d"] unfolding holds_row_def moves_def by argo
  then show ?thesis using h m by (auto simp: holds_row_def moves_def)
qed

lemma moves_trans: "moves key r d d' \<Longrightarrow> moves key r' d' d'' \<Longrightarrow> moves key r' d d''"
  by (auto simp: moves_def)

lemma update_moves:
  assumes "holds_row key r d" "\<And>q. P q \<Longrightarrow> dr_key q = key" "\<And>q. dr_key (f q) = dr_key q"
  shows "moves key (if P r then f r else r) d (snd (update_deliveries P f d))"
    "0 < fst (update_deliveries P f d) \<longleftrightarrow> P r"
proof -
  have only: "q = r" if "q \<in> set (t_deliveries d)" "dr_key q = key" for q
    using assms(1) that by (auto simp: holds_row_def distinct_map dest: inj_onD)
  show "moves key (if P r then f r else r) d (snd (update_deliveries P f d))"
    using assms only by (auto simp: moves_def update_deliveries_def holds_row_def)
  have "0 < fst (update_deliveries P f d) \<longleftrightarrow> (\<exists>q \<in> set (t_deliveries d). P q)"
    by (auto simp: update_deliveries_def filter_empty_conv)
  also have "\<dots> \<longleftrightarrow> P r" using assms(1,2) only by (auto simp: holds_row_def)
  finally show "0 < fst (update_deliveries P f d) \<longleftrightarrow> P r" .
qed

text \<open>A guarded update through \<open>run\<close>: a fault moves nothing, otherwise the guard decides.\<close>

lemma run_update:
  assumes "be_others env = (\<lambda>_ d. d)" "holds_row key r d" "\<And>q. P q \<Longrightarrow> dr_key q = key" "\<And>q. dr_key (f q) = dr_key q"
    and "run env fmt (affected (update_deliveries P f)) d = (res, d')"
  shows "(case res of Inl err \<Rightarrow> moves key r d d' | Inr b \<Rightarrow> b = P r \<and> moves key (if b then f r else r) d d')"
proof -
  let ?d = "d\<lparr>t_ticks := Suc (t_ticks d)\<rparr>"
  have h: "holds_row key r ?d" using assms(2) by (simp add: holds_row_def)
  note up = update_moves [of key r ?d P f, OF h assms(3,4)]
  have tick: "moves key r' ?d e \<Longrightarrow> moves key r' d e" for r' e by (simp add: moves_def)
  show ?thesis
  proof (cases "be_fails env (t_ticks d)")
    case (Some err)
    then show ?thesis using assms(1,5) moves_refl [OF assms(2), of ?d] by (auto simp: run_def Let_def)
  next
    case None
    then have "res = Inr (P r)" "d' = snd (update_deliveries P f ?d)"
      using assms(1,5) up(2) by (auto simp: run_def affected_def Let_def case_prod_beta)
    then show ?thesis using tick [OF up(1)] by auto
  qed
qed

lemma with_db_eq: "with_db f w = (res, w') \<Longrightarrow> f (nw_db (rest w)) = (res, nw_db (rest w'))"
  by (auto simp: with_db_def Let_def case_prod_beta)

lemma clock_moves:
  assumes "bus_now b w = (now, w')" "holds_row key r (nw_db (rest w))"
  shows "moves key r (nw_db (rest w)) (nw_db (rest w'))"
proof -
  have "nw_db (rest w') = (nw_db (rest w))\<lparr>t_ticks := Suc (t_ticks (nw_db (rest w)))\<rparr>"
    using with_db_eq [OF assms(1) [unfolded bus_now_def]] by simp
  then show ?thesis by (intro moves_refl [OF assms(2)]) simp
qed

section \<open>The effect of one dispatch\<close>

lemma claim_for_moves:
  assumes "be_others (b_env b) = (\<lambda>_ d. d)" "holds_row key r d" "claim_for b attached key token now n date d = (res, d')"
  shows "case res of Inl err \<Rightarrow> moves key r d d'
    | Inr True \<Rightarrow> claimCondition key n now (b_add b now (- b_leaseDuration b)) r \<and> moves key (claimed_row token now n r) d d'
    | Inr False \<Rightarrow> moves key r d d'"
proof -
  let ?cutoff = "b_add b now (- b_leaseDuration b)"
  show ?thesis
  proof (cases "ac_ordering (at_configuration attached) = BusFIFO")
    case False
    then have "run (b_env b) ''claim delivery of %s to %s: %w''
        (affected (update_deliveries (claimCondition key n now ?cutoff) (claimed_row token now n))) d = (res, d')"
      using assms(3) by (simp add: claim_for_def ClaimDelivery_def claim_delivery_def Let_def)
    from run_update [OF assms(1,2) _ _ this] show ?thesis
      by (auto simp: claimCondition_def split: sum.splits bool.splits)
  next
    case True
    let ?d = "d\<lparr>t_ticks := Suc (t_ticks d)\<rparr>"
    define P where "P = (\<lambda>q. claimCondition key n now ?cutoff q \<and>
        \<not> earlierIncompleteExists (k_listener key) (k_instance key) (formatTime date) (k_message key) ?d \<and>
        \<not> concurrentProcessingExists (k_listener key) (k_instance key) (k_message key) ?cutoff ?d)"
    have "claim_in_order key token now ?cutoff n date ?d = update_deliveries P (claimed_row token now n) ?d"
      by (simp add: claim_in_order_def P_def)
    then have "run (b_env b) ''claim delivery of %s to %s in order: %w'' (affected (update_deliveries P (claimed_row token now n))) d = (res, d')"
      using assms(1,3) True by (simp add: claim_for_def ClaimDeliveryInOrder_def run_def affected_def Let_def split: option.splits)
    from run_update [OF assms(1,2) _ _ this] show ?thesis
      by (auto simp: P_def claimCondition_def split: sum.splits bool.splits)
  qed
qed

lemma settle_success_moves:
  assumes "be_others (b_env b) = (\<lambda>_ d. d)" "holds_row key r (nw_db (rest w))" "dr_status r = DeliveryProcessing" "dr_token r = token"
    and "settle_success b key token w = (err, w')"
  shows "\<exists>r'. moves key r' (nw_db (rest w)) (nw_db (rest w')) \<and> dr_attempts r' = dr_attempts r \<and>
    (if err = None then dr_status r' = DeliveryCompleted else r' = r)"
proof -
  obtain now w1 where c: "bus_now b w = (now, w1)" by fastforce
  note m1 = clock_moves [OF c assms(2)]
  note h1 = moves_holds [OF assms(2) m1]
  obtain res w2 where s: "with_db (CompleteDelivery (b_env b) key token now) w1 = (res, w2)" by fastforce
  let ?f = "\<lambda>r. r\<lparr>dr_status := DeliveryCompleted, dr_completion := Some (formatTime now), dr_error := ''''\<rparr>"
  have "run (b_env b) ''complete delivery of %s to %s: %w'' (affected (update_deliveries (settlementCondition key token) ?f))
      (nw_db (rest w1)) = (res, nw_db (rest w2))"
    using with_db_eq [OF s] by (simp add: CompleteDelivery_def complete_delivery_def)
  note up = run_update [OF assms(1) h1 _ _ this]
  have P: "settlementCondition key token r" using assms(2-4) by (simp add: settlementCondition_def holds_row_def)
  show ?thesis
  proof (cases res)
    case (Inl e)
    then have "moves key r (nw_db (rest w1)) (nw_db (rest w2))" using up by (simp add: settlementCondition_def)
    then show ?thesis using assms(5) c s Inl moves_trans [OF m1] by (auto simp: settle_success_def)
  next
    case (Inr ok)
    then have "moves key (?f r) (nw_db (rest w1)) (nw_db (rest w2))" using up P by (auto simp: settlementCondition_def)
    then have "moves key (?f r) (nw_db (rest w)) (nw_db (rest w2))" by (rule moves_trans [OF m1])
    then show ?thesis using assms(5) c s Inr by (intro exI [of _ "?f r"]) (auto simp: settle_success_def)
  qed
qed

lemma settle_failure_moves:
  assumes "be_others (b_env b) = (\<lambda>_ d. d)" "holds_row key r (nw_db (rest w))" "dr_status r = DeliveryProcessing" "dr_token r = token"
    and "settle_failure b configuration key token n e w = (err, w')"
  shows "err \<noteq> None \<and> (\<exists>r'. moves key r' (nw_db (rest w)) (nw_db (rest w')) \<and> dr_attempts r' = dr_attempts r \<and>
    (r' = r \<or> dr_status r' = (if n + 1 \<ge> ac_maximum configuration then DeliveryExhausted else DeliveryFailed)))"
proof (cases "b_cancelled b w")
  case True
  then have "err \<noteq> None \<and> w' = w" using assms(5) by (auto simp: settle_failure_def Let_def)
  then show ?thesis using moves_refl [OF assms(2)] by blast
next
  case False
  obtain now w1 where c: "bus_now b w = (now, w1)" by fastforce
  note m1 = clock_moves [OF c assms(2)]
  note h1 = moves_holds [OF assms(2) m1]
  let ?date = "b_add b now (ac_retry configuration (n + 1))"
  obtain res w2 where s: "with_db (FailDelivery (b_env b) key token (b_text b e) ?date (n + 1) (ac_maximum configuration)) w1 = (res, w2)"
    by fastforce
  let ?status = "if n + 1 \<ge> ac_maximum configuration then DeliveryExhausted else DeliveryFailed"
  let ?f = "\<lambda>r. r\<lparr>dr_status := ?status, dr_error := b_text b e, dr_next := Some (formatTime ?date)\<rparr>"
  have "run (b_env b) ''fail delivery of %s to %s: %w'' (affected (update_deliveries (settlementCondition key token) ?f))
      (nw_db (rest w1)) = (res, nw_db (rest w2))"
    using with_db_eq [OF s] by (simp only: FailDelivery_def fail_delivery_def Let_def)
  note up = run_update [OF assms(1) h1 _ _ this]
  have P: "settlementCondition key token r" using assms(2-4) by (simp add: settlementCondition_def holds_row_def)
  have fails: "err \<noteq> None" "w' = w2"
    using assms(5) c s False by (auto simp: settle_failure_def Let_def errors_join_def split: sum.splits)
  have "moves key r (nw_db (rest w1)) (nw_db (rest w2)) \<or> moves key (?f r) (nw_db (rest w1)) (nw_db (rest w2))"
    using up P by (cases res) (auto simp: settlementCondition_def)
  then have "moves key r (nw_db (rest w)) (nw_db (rest w')) \<or> moves key (?f r) (nw_db (rest w)) (nw_db (rest w'))"
    using moves_trans [OF m1] fails(2) by blast
  moreover have "dr_attempts (?f r) = dr_attempts r" "dr_status (?f r) = ?status" by simp_all
  ultimately show ?thesis using fails(1) by metis
qed

lemma deliver_keeps:
  assumes "\<And>h event w. nw_db (rest (snd (exec h event w))) = nw_db (rest w)"
  shows "nw_db (rest (snd (Deliver exec lid event w))) = nw_db (rest w)"
proof -
  have "nw_db (rest (snd (call_handler exec h event w))) = nw_db (rest w)" for h using assms by (cases h) auto
  then have "nw_db (rest (snd (invoke exec h event w))) = nw_db (rest w)" for h
    by (auto simp: invoke_def split: prod.splits outcome.splits) (metis snd_conv)+
  then show ?thesis by (auto simp: Deliver_def split: option.splits)
qed

lemma fresh_db [simp]: "fresh w = (k, w') \<Longrightarrow> nw_db (rest w') = nw_db (rest w)"
  by (auto simp: fresh_def)

definition dispatch_result :: "attachment \<Rightarrow> int \<Rightarrow> 'id delivery_row \<Rightarrow> goerror option \<Rightarrow> 'id delivery_row \<Rightarrow> bool" where
  "dispatch_result attached n r err r' \<longleftrightarrow> r' = r \<or> dr_attempts r = n \<and> dr_attempts r' = n + 1 \<and>
     (if err = None then dr_status r' = DeliveryCompleted
      else dr_status r' \<in> {DeliveryProcessing,
        if n + 1 \<ge> ac_maximum (at_configuration attached) then DeliveryExhausted else DeliveryFailed})"

lemma dispatch_effect:
  assumes "be_others (b_env b) = (\<lambda>_ d. d)"
    and "\<And>h event w. nw_db (rest (snd (b_exec b h event w))) = nw_db (rest w)"
    and "holds_row key r (nw_db (rest w))" "dispatchDelivery b attached key n date restored w = (err, w')"
  shows "\<exists>r'. moves key r' (nw_db (rest w)) (nw_db (rest w')) \<and> dispatch_result attached n r err r' \<and>
    (dr_status r' = DeliveryCompleted \<and> r' \<noteq> r \<longrightarrow> (\<exists>event v. restored = Inr event \<and> fst (Deliver (b_exec b) (k_listener key) event v) = None))"
proof -
  obtain k w1 where f: "fresh w = (k, w1)" by fastforce
  obtain now w2 where c: "bus_now b w1 = (now, w2)" by fastforce
  let ?token = "b_new_token b k"
  obtain res w3 where cl: "with_db (claim_for b attached key ?token now n date) w2 = (res, w3)" by fastforce
  have h1: "holds_row key r (nw_db (rest w1))" using assms(3) f by simp
  have m2: "moves key r (nw_db (rest w)) (nw_db (rest w2))" using clock_moves [OF c h1] f by simp
  note h2 = moves_holds [OF assms(3) m2]
  note m3 = claim_for_moves [OF assms(1) h2 with_db_eq [OF cl]]
  show ?thesis
  proof (cases "res = Inr True")
    case False
    then have "w' = w3" "moves key r (nw_db (rest w2)) (nw_db (rest w3))"
      using assms(4) f c cl m3 by (auto simp: dispatchDelivery_def Let_def split: sum.splits bool.splits)
    then show ?thesis using moves_trans [OF m2] by (auto simp: dispatch_result_def intro!: exI [of _ r])
  next
    case True
    let ?r = "claimed_row ?token now n r"
    have claim: "dr_attempts r = n" "moves key ?r (nw_db (rest w2)) (nw_db (rest w3))"
      using m3 True by (auto simp: claimCondition_def)
    note m3' = moves_trans [OF m2 claim(2)]
    obtain delivery w4 where d: "(case restored of Inl err \<Rightarrow> (Some err, w3)
        | Inr event \<Rightarrow> Deliver (b_exec b) (k_listener key) event w3) = (delivery, w4)" by fastforce
    have db4: "nw_db (rest w4) = nw_db (rest w3)"
      using d deliver_keeps [of "b_exec b", OF assms(2)] by (auto split: sum.splits) (metis snd_conv)
    have h4: "holds_row key ?r (nw_db (rest w4))" using moves_holds [OF assms(3) m3'] db4 by simp
    show ?thesis
    proof (cases delivery)
      case (Some e)
      then have "settle_failure b (at_configuration attached) key ?token n e w4 = (err, w')"
        using assms(4) f c cl True d by (simp add: dispatchDelivery_def Let_def)
      from settle_failure_moves [OF assms(1) h4 _ _ this] obtain r' where
        "err \<noteq> None" "moves key r' (nw_db (rest w4)) (nw_db (rest w'))" "dr_attempts r' = dr_attempts ?r"
        "r' = ?r \<or> dr_status r' = (if n + 1 \<ge> ac_maximum (at_configuration attached) then DeliveryExhausted else DeliveryFailed)"
        by auto
      then show ?thesis
        using moves_trans [OF m3', of r'] db4 claim(1)
        by (intro exI [of _ r']) (auto simp: dispatch_result_def)
    next
      case None
      then have "settle_success b key ?token w4 = (err, w')"
        using assms(4) f c cl True d by (simp add: dispatchDelivery_def Let_def)
      from settle_success_moves [OF assms(1) h4 _ _ this] obtain r' where r':
        "moves key r' (nw_db (rest w4)) (nw_db (rest w'))" "dr_attempts r' = dr_attempts ?r"
        "if err = None then dr_status r' = DeliveryCompleted else r' = ?r" by auto
      moreover have "\<exists>event v. restored = Inr event \<and> fst (Deliver (b_exec b) (k_listener key) event v) = None"
        using d None by (cases restored) (auto, metis fst_conv)
      ultimately show ?thesis
        using moves_trans [OF m3', of r'] db4 claim(1)
        by (intro exI [of _ r']) (auto simp: dispatch_result_def split: if_splits)
    qed
  qed
qed

section \<open>Properties\<close>

text \<open>C35: one dispatch settles one delivery. Under any faults, cancellations and listener
  behaviour, but no other session, \<open>dispatchDelivery\<close> touches no row but its own and either
  leaves that one alone or counts exactly one attempt on it: a nil result means completed, and
  only after the listener returned nil; a failure means failed, exhausted exactly when the
  attempt budget is spent, or still in processing for the lease to recover.\<close>

theorem dispatch_settles_one_delivery:
  assumes "be_others (b_env b) = (\<lambda>_ d. d)"
    and "\<And>h event w. nw_db (rest (snd (b_exec b h event w))) = nw_db (rest w)"
    and "r \<in> set (t_deliveries (nw_db (rest w)))" "distinct (map dr_key (t_deliveries (nw_db (rest w))))"
    and "dispatchDelivery b attached (dr_key r) n date restored w = (err, w')"
  shows "\<exists>r'. t_deliveries (nw_db (rest w')) =
      map (\<lambda>q. if dr_key q = dr_key r then r' else q) (t_deliveries (nw_db (rest w))) \<and>
    (r' = r \<or> dr_attempts r = n \<and> dr_attempts r' = n + 1 \<and>
      (if err = None then dr_status r' = DeliveryCompleted \<and>
         (\<exists>event v. restored = Inr event \<and> fst (Deliver (b_exec b) (k_listener (dr_key r)) event v) = None)
       else dr_status r' = DeliveryProcessing \<or>
         dr_status r' = (if n + 1 \<ge> ac_maximum (at_configuration attached) then DeliveryExhausted else DeliveryFailed)))"
proof -
  have "holds_row (dr_key r) r (nw_db (rest w))" using assms(3,4) by (simp add: holds_row_def)
  from dispatch_effect [OF assms(1,2) this assms(5)] show ?thesis
    unfolding moves_def dispatch_result_def by (auto split: if_splits)
qed

definition demo_bridge :: "(nat, nat, string, unit) bridge" where
  "demo_bridge = NewBridge \<lparr>b_env = \<lparr>be_fails = \<lambda>_. None, be_now = \<lambda>k. Instant 2024 1 1 0 0 k 0, be_others = \<lambda>_ d. d\<rparr>,
     b_exec = \<lambda>h event w. (Returned None, w), b_serialize = \<lambda>e. Inr (''order'', ''7''), b_deserialize = \<lambda>t p. Inr 7,
     b_node = '''', b_maximumAttempts = 0, b_leaseDuration = 0, b_grace = 0, b_retryDelay = \<lambda>_. 0,
     b_new_id = Inr, b_new_token = \<lambda>k. ''token'', b_add = \<lambda>t n. t, b_text = \<lambda>e. ''failed'', b_cancelled = \<lambda>w. False\<rparr> ''n1'' []"

definition demo_node :: "(nat, nat, string, unit) node" where
  "demo_node = \<lparr>subscriptions = fold bus_apply [OpSubscribeTo (\<lambda>e. True) ''mail'' ''send''] NewBus,
     rest = \<lparr>nw_db = \<lparr>t_messages = [], t_listeners = [], t_consumers = [],
         t_deliveries = [pending_row \<lparr>k_message = 1, k_listener = ''mail'', k_instance = ''''\<rparr>], t_ticks = 0\<rparr>,
       nw_attachments = [], nw_subscribed = {}, nw_fresh = 0, nw_rest = ()\<rparr>\<rparr>"

definition demo_attachment :: attachment where
  "demo_attachment = \<lparr>at_id = ''mail'', at_mode = DeliveryModeCompeting, at_type = ''order'',
     at_configuration = attach_configuration demo_bridge []\<rparr>"

lemma demo_bridge_parts [simp]:
  "b_env demo_bridge = \<lparr>be_fails = \<lambda>_. None, be_now = \<lambda>k. Instant 2024 1 1 0 0 k 0, be_others = \<lambda>_ d. d\<rparr>"
  "b_exec demo_bridge = (\<lambda>h event w. (Returned None, w))" "b_new_token demo_bridge = (\<lambda>k. ''token'')"
  "b_add demo_bridge = (\<lambda>t n. t)" "b_cancelled demo_bridge = (\<lambda>w. False)"
  by (simp_all add: demo_bridge_def NewBridge_def)

lemma demo_node_parts [simp]:
  "rest demo_node = \<lparr>nw_db = \<lparr>t_messages = [], t_listeners = [], t_consumers = [],
         t_deliveries = [pending_row \<lparr>k_message = 1, k_listener = ''mail'', k_instance = ''''\<rparr>], t_ticks = 0\<rparr>,
       nw_attachments = [], nw_subscribed = {}, nw_fresh = 0, nw_rest = ()\<rparr>"
  "find (\<lambda>c. sub_id c = ''mail'') (subscriptions demo_node) = Some \<lparr>sub_id = ''mail'', sub_matches = \<lambda>e. True,
     sub_handle = Typed ''mail'' (\<lambda>e. True) ''send''\<rparr>"
  by (simp_all add: demo_node_def SubscribeTo_def Bus_Subscribe_def NewBus_def)

lemma demo_ordering [simp]: "ac_ordering (at_configuration demo_attachment) \<noteq> BusFIFO"
  by (simp add: demo_attachment_def attach_configuration_def BusUnordered_def BusFIFO_def)

abbreviation demo_mail_key :: "nat delivery_key" where
  "demo_mail_key \<equiv> \<lparr>k_message = 1, k_listener = ''mail'', k_instance = ''''\<rparr>"

abbreviation demo_dispatch :: "goerror option \<times> (nat, nat, string, unit) node" where
  "demo_dispatch \<equiv> dispatchDelivery demo_bridge demo_attachment demo_mail_key 0 (Instant 1 1 1 0 0 0 0) (Inr 7) demo_node"

declare formatTime.simps [simp del]

lemma demo_dispatch_result:
  "fst demo_dispatch = None \<and> dr_status (hd (t_deliveries (nw_db (rest (snd demo_dispatch))))) = DeliveryCompleted"
  apply (simp only: dispatchDelivery_def fresh_def bus_now_def Let_def case_prod_conv demo_bridge_parts)
  apply (simp add: with_db_def claim_for_def)
  apply (simp add: ClaimDelivery_def claim_delivery_def run_def affected_def)
  apply (simp add: update_deliveries_def claimCondition_def dueCondition_def)
  apply (simp add: claimed_row_def Deliver_def invoke_def)
  apply (simp add: settle_success_def bus_now_def with_db_def)
  apply (simp add: CompleteDelivery_def complete_delivery_def run_def affected_def)
  apply (simp add: update_deliveries_def settlementCondition_def pending_row_def)
  done

theorem dispatch_settles_one_delivery_witness:
  "fst demo_dispatch = None \<and> (\<exists>r'. t_deliveries (nw_db (rest (snd demo_dispatch))) = [r'] \<and>
     dr_status r' = DeliveryCompleted \<and> dr_attempts r' = 1)"
proof -
  let ?r = "pending_row demo_mail_key"
  have row: "t_deliveries (nw_db (rest demo_node)) = [?r]" by simp
  have "\<exists>r'. t_deliveries (nw_db (rest (snd demo_dispatch))) =
      map (\<lambda>q. if dr_key q = dr_key ?r then r' else q) (t_deliveries (nw_db (rest demo_node))) \<and>
    (r' = ?r \<or> dr_attempts ?r = 0 \<and> dr_attempts r' = 0 + 1 \<and>
      (if fst demo_dispatch = None then dr_status r' = DeliveryCompleted \<and>
         (\<exists>event v. (Inr 7 :: goerror + nat) = Inr event \<and> fst (Deliver (b_exec demo_bridge) (k_listener (dr_key ?r)) event v) = None)
       else dr_status r' = DeliveryProcessing \<or>
         dr_status r' = (if 0 + 1 \<ge> ac_maximum (at_configuration demo_attachment) then DeliveryExhausted else DeliveryFailed)))"
    by (rule dispatch_settles_one_delivery) (simp_all add: row pending_row_def)
  then show ?thesis using demo_dispatch_result row by (auto simp: pending_row_def delivery_status_defs)
qed

text \<open>An attachment agrees with the cluster. With no other session, a successful \<open>Attach\<close> means
  that the mode and the ordering the listener asked for are the ones registered for it in the
  database, that its consumer registration exists for this node's instance, and that the node's
  attachments grew by exactly this listener, which was not attached before; the first
  registration of any listener is never changed, and a failed attachment leaves the
  attachments alone.\<close>

lemma run_alone:
  "be_others env = (\<lambda>_ d. d) \<Longrightarrow> run env fmt st d = (case be_fails env (t_ticks d) of
     Some err \<Rightarrow> (Inl (Wrap fmt [err]), d\<lparr>t_ticks := Suc (t_ticks d)\<rparr>)
   | None \<Rightarrow> (case st (d\<lparr>t_ticks := Suc (t_ticks d)\<rparr>) of (a, d') \<Rightarrow> (Inr a, d')))"
  by (simp add: run_def Let_def)

definition winner :: "string \<Rightarrow> 'id bus_db \<Rightarrow> listener_row option" where
  "winner lid d = find (\<lambda>x. lr_listener x = lid) (t_listeners d)"

lemma find_filter: "find P xs = (case filter P xs of [] \<Rightarrow> None | x # _ \<Rightarrow> Some x)"
  by (induction xs) auto

lemma winner_holds: "winner lid d = Some row \<Longrightarrow> lr_listener row = lid"
  by (auto simp: winner_def find_Some_iff)

lemma register_mode:
  assumes "be_others env = (\<lambda>_ d. d)" "RegisterListenerMode env lid mode ord d = (res, d')"
  shows "(\<forall>l row. winner l d = Some row \<longrightarrow> winner l d' = Some row) \<and>
    (\<forall>m x. res = Inr (m, x) \<longrightarrow> winner lid d' = Some \<lparr>lr_listener = lid, lr_mode = m, lr_ordering = x\<rparr>)"
proof -
  define first where "first = (if list_ex (\<lambda>x. lr_listener x = lid) (t_listeners d) then t_listeners d
    else t_listeners d @ [\<lparr>lr_listener = lid, lr_mode = mode, lr_ordering = ord\<rparr>])"
  have kept: "find (\<lambda>x. lr_listener x = l) first = Some row" if "winner l d = Some row" for l row
    using that by (auto simp: first_def winner_def find_append)
  have cases: "t_listeners d' \<in> {t_listeners d, first}" "\<And>m x. res = Inr (m, x) \<Longrightarrow> t_listeners d' = first \<and>
      (\<exists>row rows. filter (\<lambda>x. lr_listener x = lid) first = row # rows \<and> lr_mode row = m \<and> lr_ordering row = x)"
    using assms(2) by (auto simp: RegisterListenerMode_def run_alone [OF assms(1)] first_def split: option.splits list.splits if_splits)
  have "\<forall>l row. winner l d = Some row \<longrightarrow> winner l d' = Some row" using kept cases(1) by (auto simp: winner_def)
  moreover have "winner lid d' = Some \<lparr>lr_listener = lid, lr_mode = m, lr_ordering = x\<rparr>" if res: "res = Inr (m, x)" for m x
  proof -
    obtain row rows where row: "filter (\<lambda>x. lr_listener x = lid) first = row # rows" "lr_mode row = m" "lr_ordering row = x"
      using cases(2) [OF res] by blast
    then have "winner lid d' = Some row" using cases(2) [OF res] by (simp add: winner_def find_filter)
    then show ?thesis using winner_holds [of lid d' row] row(2,3) by simp
  qed
  ultimately show ?thesis by blast
qed

lemma attach_subscribe_frame:
  "attach_subscribe r b w = (err, w') \<Longrightarrow> nw_db (rest w') = nw_db (rest w) \<and> nw_attachments (rest w') = nw_attachments (rest w)"
  by (auto simp: attach_subscribe_def split: if_splits prod.splits option.splits)

lemma attach_register_effect:
  assumes "be_others (b_env b) = (\<lambda>_ d. d)" "attach_register b r configuration etype w = (err, w')"
  shows "t_listeners (nw_db (rest w')) = t_listeners (nw_db (rest w)) \<and>
    (if err = None then (\<exists>c \<in> set (t_consumers (nw_db (rest w'))). cr_key c =
          \<lparr>ck_listener = ar_id r, ck_instance = instanceFor b (ar_mode r), ck_type = etype\<rparr>) \<and>
       nw_attachments (rest w') = nw_attachments (rest w) @ [\<lparr>at_id = ar_id r, at_mode = ar_mode r, at_type = etype,
         at_configuration = configuration\<rparr>]
     else nw_attachments (rest w') = nw_attachments (rest w))"
proof -
  have key: "cr_key (consumer_to_row (attach_consumer b lid mode etype now)) =
      \<lparr>ck_listener = lid, ck_instance = instanceFor b mode, ck_type = etype\<rparr>" for lid mode now
    by (simp add: consumer_to_row_def attach_consumer_def Consumer_Key_def Let_def)
  have there: "\<exists>c \<in> set (upsert_consumer row rows). cr_key c = cr_key row" for row rows
  proof (cases "list_ex (\<lambda>c. consumerKeyCondition (cr_key row) c) rows")
    case True
    then obtain c where "c \<in> set rows" "cr_key c = cr_key row" by (auto simp: list_ex_iff consumerKeyCondition_def)
    then have "c\<lparr>cr_heartbeat := cr_heartbeat row\<rparr> \<in> set (upsert_consumer row rows)"
      using True by (auto simp: upsert_consumer_def list_ex_iff consumerKeyCondition_def intro: image_eqI [of _ _ c])
    then show ?thesis using \<open>cr_key c = cr_key row\<close> by (intro bexI [of _ "c\<lparr>cr_heartbeat := cr_heartbeat row\<rparr>"]) auto
  qed (simp add: upsert_consumer_def)
  show ?thesis
    using assms(2) there key
    by (auto simp: attach_register_def bus_now_def with_db_def Let_def RegisterConsumer_def run_alone [OF assms(1)]
        split: option.splits) metis+
qed

theorem attach_agrees_with_the_cluster:
  assumes "be_others (b_env b) = (\<lambda>_ d. d)" "Attach b r w = (err, w')"
  shows "(\<forall>lid row. winner lid (nw_db (rest w)) = Some row \<longrightarrow> winner lid (nw_db (rest w')) = Some row) \<and>
    (if err = None then
       winner (ar_id r) (nw_db (rest w')) =
         Some \<lparr>lr_listener = ar_id r, lr_mode = ar_mode r, lr_ordering = ac_ordering (attach_configuration b (ar_options r))\<rparr> \<and>
       (\<exists>etype payload. b_serialize b (ar_probe r) = Inr (etype, payload) \<and>
         (\<exists>c \<in> set (t_consumers (nw_db (rest w'))). cr_key c =
            \<lparr>ck_listener = ar_id r, ck_instance = instanceFor b (ar_mode r), ck_type = etype\<rparr>) \<and>
         ar_id r \<notin> at_id ` set (nw_attachments (rest w)) \<and>
         nw_attachments (rest w') = nw_attachments (rest w) @ [\<lparr>at_id = ar_id r, at_mode = ar_mode r, at_type = etype,
            at_configuration = attach_configuration b (ar_options r)\<rparr>])
     else nw_attachments (rest w') = nw_attachments (rest w))"
proof (cases "b_serialize b (ar_probe r)")
  case (Inl e)
  then show ?thesis using assms(2) by (auto simp: Attach_def Let_def)
next
  case (Inr tp)
  obtain etype payload where tp: "tp = (etype, payload)" by fastforce
  let ?c = "attach_configuration b (ar_options r)"
  show ?thesis
  proof (cases "list_ex (\<lambda>existing. at_id existing = ar_id r) (nw_attachments (rest w))")
    case True
    then show ?thesis using assms(2) Inr tp by (auto simp: Attach_def Let_def)
  next
    case False
    obtain res w1 where m: "with_db (RegisterListenerMode (b_env b) (ar_id r) (ar_mode r) (ac_ordering ?c)) w = (res, w1)" by fastforce
    note mode = register_mode [OF assms(1) with_db_eq [OF m]]
    have at1: "nw_attachments (rest w1) = nw_attachments (rest w)" using m by (auto simp: with_db_def Let_def case_prod_beta)
    have unfolded: "(case res of Inl e \<Rightarrow> (Some e, w1) | Inr (m, x) \<Rightarrow>
         (if m \<noteq> ar_mode r then (Some (Wrap ''%w: %s is registered as %s'' [ErrConflictingDeliveryMode]), w1)
          else if x \<noteq> ac_ordering ?c then (Some (Wrap ''%w: %s is registered as %s'' [ErrConflictingOrdering]), w1)
          else (case attach_subscribe r (ar_id r \<in> nw_subscribed (rest w)) w1 of
            (Some e, w2) \<Rightarrow> (Some e, w2) | (None, w2) \<Rightarrow> attach_register b r ?c etype w2))) = (err, w')"
      using assms(2) Inr tp False m by (simp add: Attach_def Let_def)
    have "err \<noteq> None \<and> w' = w1 \<or> res = Inr (ar_mode r, ac_ordering ?c) \<and>
        (case attach_subscribe r (ar_id r \<in> nw_subscribed (rest w)) w1 of
            (Some e, w2) \<Rightarrow> (Some e, w2) | (None, w2) \<Rightarrow> attach_register b r ?c etype w2) = (err, w')"
    proof (cases res)
      case (Inr mx)
      then show ?thesis using unfolded by (cases mx) (auto split: if_split_asm)
    qed (use unfolded in auto)
    then consider (early) "err \<noteq> None" "w' = w1" | (late) "res = Inr (ar_mode r, ac_ordering ?c)"
        "(case attach_subscribe r (ar_id r \<in> nw_subscribed (rest w)) w1 of
            (Some e, w2) \<Rightarrow> (Some e, w2) | (None, w2) \<Rightarrow> attach_register b r ?c etype w2) = (err, w')"
      by blast
    then show ?thesis
    proof cases
      case early
      then show ?thesis using mode at1 by auto
    next
      case late
      obtain e2 w2 where s: "attach_subscribe r (ar_id r \<in> nw_subscribed (rest w)) w1 = (e2, w2)" by fastforce
      note s2 = attach_subscribe_frame [OF s]
      show ?thesis
      proof (cases e2)
        case (Some e)
        then have "err \<noteq> None \<and> w' = w2" using late s by auto
        then show ?thesis using s2 mode at1 by (auto simp: winner_def)
      next
        case None
        then have "attach_register b r ?c etype w2 = (err, w')" using late s by simp
        note reg = attach_register_effect [OF assms(1) this]
        have "winner l (nw_db (rest w')) = winner l (nw_db (rest w1))" for l using reg s2 by (simp add: winner_def)
        note same = this
        have new: "ar_id r \<notin> at_id ` set (nw_attachments (rest w))" using False by (auto simp: list_ex_iff)
        show ?thesis
        proof (cases err)
          case None
          have "winner (ar_id r) (nw_db (rest w')) = Some \<lparr>lr_listener = ar_id r, lr_mode = ar_mode r, lr_ordering = ac_ordering ?c\<rparr>"
            using same mode late(1) by simp
          then show ?thesis using reg s2 same mode at1 Inr tp new None by simp
        next
          case (Some e)
          then show ?thesis using reg s2 same mode at1 by simp
        qed
      qed
    qed
  qed
qed

abbreviation demo_registration :: "(nat, string) attachment_registration" where
  "demo_registration \<equiv> \<lparr>ar_id = ''audit'', ar_matches = Some (\<lambda>e. True), ar_probe = 7, ar_handle = Some (Typed ''audit'' (\<lambda>e. True) ''log''),
     ar_mode = DeliveryModeBroadcast, ar_options = [WithOrderedDelivery]\<rparr>"

abbreviation demo_attach :: "goerror option \<times> (nat, nat, string, unit) node" where
  "demo_attach \<equiv> Attach demo_bridge demo_registration demo_node"

lemma demo_attach_succeeds: "fst demo_attach = None"
  apply (simp add: Attach_def attach_configuration_def WithOrderedDelivery_def demo_bridge_def NewBridge_def)
  apply (simp add: with_db_def RegisterListenerMode_def run_def affected_def)
  apply (simp add: attach_subscribe_def Bus_Subscribe_def demo_node_def SubscribeTo_def NewBus_def)
  apply (simp add: attach_register_def bus_now_def with_db_def RegisterConsumer_def run_def)
  done

theorem attach_agrees_with_the_cluster_witness:
  "winner ''audit'' (nw_db (rest (snd demo_attach))) =
     Some \<lparr>lr_listener = ''audit'', lr_mode = DeliveryModeBroadcast, lr_ordering = BusFIFO\<rparr> \<and>
   map at_id (nw_attachments (rest (snd demo_attach))) = [''audit'']"
proof -
  have alone: "be_others (b_env demo_bridge) = (\<lambda>_ d. d)" by simp
  have split: "Attach demo_bridge demo_registration demo_node = (None, snd demo_attach)"
    using demo_attach_succeeds by (cases demo_attach) simp
  show ?thesis using attach_agrees_with_the_cluster [OF alone split]
    by (simp add: attach_configuration_def WithOrderedDelivery_def) (elim conjE exE, simp)
qed

end
