(* ===== verification/BusDispatcher.thy ===== *)
theory BusDispatcher
  imports BusDispatch BusFrontier
begin

text \<open>
  The dispatcher of a node (sqlbus/dispatcher.go): options, one delivery pass over the attached
  listeners, the heartbeats, the maintenance duties and the delivery loop. Log lines and the
  deadlines of the database calls are left out, the latter being faults of the environment; the
  subtraction of two times is an operation of the dispatcher's environment, and what wakes the
  loop is the list of wake-ups it meets.
\<close>

section \<open>Construction\<close>

record ('id, 'e, 'h, 's) dispatcher =
  ds_bridge :: "('id, 'e, 'h, 's) bridge"
  ds_poll :: int
  ds_batch :: int
  ds_wake :: "nat option"
  ds_maintenance :: int
  ds_retention :: int
  ds_age :: int
  ds_expiry :: int
  ds_sub :: "instant \<Rightarrow> instant \<Rightarrow> int"

type_synonym ('id, 'e, 'h, 's) dispatcher_option = "('id, 'e, 'h, 's) dispatcher \<Rightarrow> ('id, 'e, 'h, 's) dispatcher"

definition hour_of :: int where
  "hour_of = 60 * minute"

definition WithPollInterval :: "int \<Rightarrow> ('id, 'e, 'h, 's) dispatcher_option" where
  "WithPollInterval interval d = (if interval > 0 then d\<lparr>ds_poll := interval\<rparr> else d)"

definition WithBatchSize :: "int \<Rightarrow> ('id, 'e, 'h, 's) dispatcher_option" where
  "WithBatchSize batch d = (if batch > 0 then d\<lparr>ds_batch := batch\<rparr> else d)"

definition WithWakeSignal :: "nat option \<Rightarrow> ('id, 'e, 'h, 's) dispatcher_option" where
  "WithWakeSignal wake d = (if wake \<noteq> None then d\<lparr>ds_wake := wake\<rparr> else d)"

definition WithMaintenanceInterval :: "int \<Rightarrow> ('id, 'e, 'h, 's) dispatcher_option" where
  "WithMaintenanceInterval interval d = (if interval > 0 then d\<lparr>ds_maintenance := interval\<rparr> else d)"

definition WithSettledRetention :: "int \<Rightarrow> ('id, 'e, 'h, 's) dispatcher_option" where
  "WithSettledRetention retention d = (if retention > 0 then d\<lparr>ds_retention := retention\<rparr> else d)"

definition WithMaximumMessageAge :: "int \<Rightarrow> ('id, 'e, 'h, 's) dispatcher_option" where
  "WithMaximumMessageAge age d = (if age > 0 then d\<lparr>ds_age := age\<rparr> else d)"

definition WithConsumerExpiry :: "int \<Rightarrow> ('id, 'e, 'h, 's) dispatcher_option" where
  "WithConsumerExpiry expiry d = (if expiry > 0 then d\<lparr>ds_expiry := expiry\<rparr> else d)"

definition NewDispatcher ::
  "(instant \<Rightarrow> instant \<Rightarrow> int) \<Rightarrow> ('id, 'e, 'h, 's) bridge \<Rightarrow> ('id, 'e, 'h, 's) dispatcher_option list \<Rightarrow>
   ('id, 'e, 'h, 's) dispatcher" where
  "NewDispatcher sub b options = fold (\<lambda>f d. f d) options
     \<lparr>ds_bridge = b, ds_poll = second, ds_batch = 100, ds_wake = None, ds_maintenance = minute,
      ds_retention = 72 * hour_of, ds_age = 30 * 24 * hour_of, ds_expiry = 15 * minute, ds_sub = sub\<rparr>"

section \<open>One attached listener\<close>

definition attached_consumer :: "('id, 'e, 'h, 's) bridge \<Rightarrow> attachment \<Rightarrow> consumer_key" where
  "attached_consumer b attached =
     \<lparr>ck_listener = at_id attached, ck_instance = instanceFor b (at_mode attached), ck_type = at_type attached\<rparr>"

text \<open>The deliveries of one batch; \<open>True\<close> when the context ended the pass meanwhile.\<close>

fun dispatch_batch ::
  "('id::linorder, 'e, 'h, 's) bridge \<Rightarrow> attachment \<Rightarrow> 'id due_delivery list \<Rightarrow> ('id, 'e, 'h, 's) node \<Rightarrow>
   goerror list \<times> bool \<times> ('id, 'e, 'h, 's) node" where
  "dispatch_batch b attached [] w = ([], False, w)"
| "dispatch_batch b attached (work # works) w =
     (if b_cancelled b w then ([], True, w)
      else (let restored = b_deserialize b (m_type (due_message work)) (m_payload (due_message work));
                (err, w1) = dispatchDelivery b attached (d_key (due_delivery work)) (d_attempts (due_delivery work))
                  (m_date (due_message work)) restored w;
                (failures, stopped, w2) = dispatch_batch b attached works w1
            in ((case err of None \<Rightarrow> [] | Some e \<Rightarrow> [e]) @ failures, stopped, w2)))"

text \<open>\<open>maximumBatchesPerPass\<close> rounds at most.\<close>

fun dispatch_batches ::
  "('id::linorder, 'e, 'h, 's) dispatcher \<Rightarrow> attachment \<Rightarrow> nat \<Rightarrow> ('id, 'e, 'h, 's) node \<Rightarrow>
   goerror list \<times> ('id, 'e, 'h, 's) node" where
  "dispatch_batches d attached 0 w = ([], w)"
| "dispatch_batches d attached (Suc n) w =
     (let b = ds_bridge d; (now, w1) = bus_now b w
      in (case with_db (FindDueDeliveries (b_env b) (attached_consumer b attached) (ac_ordering (at_configuration attached))
              now (b_add b now (- b_leaseDuration b)) (ds_batch d)) w1 of
          (Inl err, w2) \<Rightarrow> ([err], w2)
        | (Inr due, w2) \<Rightarrow>
           (if due = [] then ([], w2)
            else (let (failures, stopped, w3) = dispatch_batch b attached due w2
              in if stopped then (failures, w3)
                 else if ac_ordering (at_configuration attached) \<noteq> BusFIFO \<and> int (length due) < ds_batch d
                 then (failures, w3)
                 else (let (later, w4) = dispatch_batches d attached n w3 in (failures @ later, w4))))))"

definition maximumBatchesPerPass :: nat where
  "maximumBatchesPerPass = 16"

definition processAttachment ::
  "('id::linorder, 'e, 'h, 's) dispatcher \<Rightarrow> attachment \<Rightarrow> ('id, 'e, 'h, 's) node \<Rightarrow>
   goerror option \<times> ('id, 'e, 'h, 's) node" where
  "processAttachment d attached w =
     (let b = ds_bridge d; key = attached_consumer b attached;
          (now, w1) = bus_now b w; ceiling = b_add b now (- b_grace b)
      in (case with_db (MaterializeDeliveries (b_env b) key) w1 of
          (Inl err, w2) \<Rightarrow> (Some err, w2)
        | (Inr _, w2) \<Rightarrow> (case with_db (AdvanceFrontier (b_env b) key ceiling) w2 of
            (Inl err, w3) \<Rightarrow> (Some err, w3)
          | (Inr _, w3) \<Rightarrow> (let (failures, w4) = dispatch_batches d attached maximumBatchesPerPass w3
              in (errors_join (map Some failures), w4)))))"

section \<open>Heartbeats and maintenance\<close>

fun heartbeat_all ::
  "('id, 'e, 'h, 's) bridge \<Rightarrow> instant \<Rightarrow> attachment list \<Rightarrow> ('id, 'e, 'h, 's) node \<Rightarrow> ('id, 'e, 'h, 's) node" where
  "heartbeat_all b now [] w = w"
| "heartbeat_all b now (attached # more_attached) w =
     (case with_db (Heartbeat (b_env b) (attached_consumer b attached) now) w of
        (Inl err, w1) \<Rightarrow> heartbeat_all b now more_attached w1
      | (Inr alive, w1) \<Rightarrow> heartbeat_all b now more_attached
          (if alive then w1
           else snd (with_db (RegisterConsumer (b_env b)
             (attach_consumer b (at_id attached) (at_mode attached) (at_type attached) now)) w1)))"

definition heartbeat :: "('id, 'e, 'h, 's) dispatcher \<Rightarrow> ('id, 'e, 'h, 's) node \<Rightarrow> ('id, 'e, 'h, 's) node" where
  "heartbeat d w = (let (now, w1) = bus_now (ds_bridge d) w
     in heartbeat_all (ds_bridge d) now (nw_attachments (rest w1)) w1)"

definition maintain :: "('id, 'e, 'h, 's) dispatcher \<Rightarrow> instant \<Rightarrow> ('id, 'e, 'h, 's) node \<Rightarrow> ('id, 'e, 'h, 's) node" where
  "maintain d now w =
     (let b = ds_bridge d;
          w1 = snd (with_db (ExpireBroadcastConsumers (b_env b) (b_add b now (- ds_expiry d))) w);
          w2 = snd (with_db (DeleteSettledMessages (b_env b) (b_add b now (- ds_retention d))) w1);
          w3 = snd (with_db (DeleteMessagesOlderThan (b_env b) (b_add b now (- ds_age d))) w2)
      in snd (with_db (DeleteOrphanDeliveries (b_env b)) w3))"

section \<open>Passes\<close>

fun pass_attachments ::
  "('id::linorder, 'e, 'h, 's) dispatcher \<Rightarrow> attachment list \<Rightarrow> ('id, 'e, 'h, 's) node \<Rightarrow> bool \<times> ('id, 'e, 'h, 's) node" where
  "pass_attachments d [] w = (False, w)"
| "pass_attachments d (attached # more_attached) w =
     (if b_cancelled (ds_bridge d) w then (True, w)
      else pass_attachments d more_attached (snd (processAttachment d attached w)))"

definition pass :: "('id::linorder, 'e, 'h, 's) dispatcher \<Rightarrow> instant \<Rightarrow> ('id, 'e, 'h, 's) node \<Rightarrow> instant \<times> ('id, 'e, 'h, 's) node" where
  "pass d lastMaintenance w =
     (case pass_attachments d (nw_attachments (rest w)) w of
        (True, w1) \<Rightarrow> (lastMaintenance, w1)
      | (False, w1) \<Rightarrow> (let (now, w2) = bus_now (ds_bridge d) w1
          in if ds_sub d now lastMaintenance < ds_maintenance d then (lastMaintenance, w2)
             else (now, maintain d now w2)))"

section \<open>The delivery loop\<close>

text \<open>What ends the wait between two passes: the timer, a receive on the wake channel (which is
  ready forever once the channel is closed), or the cancellation by \<open>stop\<close>.\<close>

datatype wakeup = TimerFired | WakeReceived bool | LoopCancelled

fun await_wakeup ::
  "('id, 'e, 'h, 's) dispatcher \<Rightarrow> wakeup list \<Rightarrow> (('id, 'e, 'h, 's) dispatcher \<times> wakeup list) option" where
  "await_wakeup d [] = None"
| "await_wakeup d (LoopCancelled # events) = None"
| "await_wakeup d (TimerFired # events) = Some (d, events)"
| "await_wakeup d (WakeReceived opened # events) =
     (case ds_wake d of
        None \<Rightarrow> await_wakeup d events
      | Some _ \<Rightarrow> Some (if opened then d else d\<lparr>ds_wake := None\<rparr>, events))"

lemma await_shorter: "await_wakeup d events = Some (d', events') \<Longrightarrow> length events' < length events"
  by (induction d events rule: await_wakeup.induct) (auto split: option.splits if_splits)

function delivery_loop ::
  "('id::linorder, 'e, 'h, 's) dispatcher \<Rightarrow> wakeup list \<Rightarrow> instant \<Rightarrow> ('id, 'e, 'h, 's) node \<Rightarrow> nat \<times> ('id, 'e, 'h, 's) node" where
  "delivery_loop d events lastMaintenance w =
     (let (maintained, w1) = pass d lastMaintenance w
      in (case await_wakeup d events of
          None \<Rightarrow> (1, w1)
        | Some (d', later) \<Rightarrow> (let (n, w2) = delivery_loop d' later maintained w1 in (Suc n, w2))))"
  by pat_completeness auto
termination by (relation "measure (\<lambda>(d, events, _, _). length events)") (auto dest: await_shorter)

declare delivery_loop.simps [simp del]

text \<open>The loop of the heartbeats: one at once and one for every tick until it is cancelled. It runs beside the
  delivery loop, so a long pass does not delay it.\<close>

primrec heartbeat_loop :: "('id, 'e, 'h, 's) dispatcher \<Rightarrow> nat \<Rightarrow> ('id, 'e, 'h, 's) node \<Rightarrow> ('id, 'e, 'h, 's) node" where
  "heartbeat_loop d 0 w = heartbeat d w"
| "heartbeat_loop d (Suc ticks) w = heartbeat_loop d ticks (heartbeat d w)"

lemma heartbeat_loop_more: "heartbeat_loop d (m + Suc n) w = heartbeat_loop d n (heartbeat_loop d m w)"
  by (induction m arbitrary: w) simp_all

end
