(* ===== verification/BusDrain.thy ===== *)
theory BusDrain
  imports BusDispatcher BusOrder
begin

text \<open>
  What one delivery pass of sqlbus/dispatcher.go achieves on a quiet node: no database fault, no
  other session and no cancellation, and a listener that succeeds. The backlog of a consumer is
  the pending part of what \<open>FindDueDeliveries\<close> reads, in publication order.
\<close>

section \<open>Quiet nodes\<close>

definition quiet_node :: "('id, 'e, 'h, 's) bridge \<Rightarrow> bool" where
  "quiet_node b \<longleftrightarrow> be_fails (b_env b) = (\<lambda>_. None) \<and> be_others (b_env b) = (\<lambda>_ d. d) \<and> b_cancelled b = (\<lambda>_. False)"

definition serves :: "('id, 'e, 'h, 's) bridge \<Rightarrow> listener_id \<Rightarrow> ('e \<Rightarrow> 's \<Rightarrow> 's) \<Rightarrow> ('id, 'e, 'h, 's) node \<Rightarrow> bool" where
  "serves b lid f w \<longleftrightarrow> (\<forall>event v. subscriptions v = subscriptions w \<longrightarrow>
     Deliver (b_exec b) lid event v = (None, v\<lparr>rest := (rest v)\<lparr>nw_rest := f event (nw_rest (rest v))\<rparr>\<rparr>))"

definition finishes :: "'id delivery_key set \<Rightarrow> 'id delivery_row list \<Rightarrow> 'id delivery_row list \<Rightarrow> bool" where
  "finishes K = list_all2 (\<lambda>q q'. dr_key q' = dr_key q \<and> (if dr_key q \<in> K then dr_status q' = DeliveryCompleted else q' = q))"

definition works_off ::
  "'id delivery_key set \<Rightarrow> 'e list \<Rightarrow> ('e \<Rightarrow> 's \<Rightarrow> 's) \<Rightarrow> ('id, 'e, 'h, 's) node \<Rightarrow> ('id, 'e, 'h, 's) node \<Rightarrow> bool" where
  "works_off K es f w w' \<longleftrightarrow> finishes K (t_deliveries (nw_db (rest w))) (t_deliveries (nw_db (rest w'))) \<and>
     t_messages (nw_db (rest w')) = t_messages (nw_db (rest w)) \<and> t_consumers (nw_db (rest w')) = t_consumers (nw_db (rest w)) \<and>
     subscriptions w' = subscriptions w \<and> nw_rest (rest w') = fold f es (nw_rest (rest w))"

lemma finishes_none: "finishes {} rows rows"
  by (simp add: finishes_def list_all2_refl)

lemma finishes_trans: "finishes K a b \<Longrightarrow> finishes L b c \<Longrightarrow> finishes (K \<union> L) a c"
  unfolding finishes_def by (rule list_all2_trans [rotated], assumption, assumption) (auto split: if_splits)

lemma finishes_map:
  "(\<And>q. q \<in> set rows \<Longrightarrow> dr_key (u q) = dr_key q \<and> (if dr_key q \<in> K then dr_status (u q) = DeliveryCompleted else u q = q)) \<Longrightarrow>
   finishes K rows (map u rows)"
  unfolding finishes_def by (simp add: list_all2_conv_all_nth)

lemma works_off_none: "works_off {} [] f w w"
  by (simp add: works_off_def finishes_none)

lemma works_off_trans: "works_off K es f w1 w2 \<Longrightarrow> works_off L es' f w2 w3 \<Longrightarrow> works_off (K \<union> L) (es @ es') f w1 w3"
  by (auto simp: works_off_def intro: finishes_trans)

lemma finishes_keys: "finishes K a b \<Longrightarrow> map dr_key b = map dr_key a"
  unfolding finishes_def by (induction rule: list_all2_induct) auto

lemma finishes_row: "finishes K a b \<Longrightarrow> q' \<in> set b \<Longrightarrow> \<exists>q \<in> set a. dr_key q = dr_key q' \<and>
    (if dr_key q \<in> K then dr_status q' = DeliveryCompleted else q' = q)"
  by (fastforce simp: finishes_def list_all2_conv_all_nth in_set_conv_nth)

lemma finishes_kept: "finishes K a b \<Longrightarrow> q \<in> set a \<Longrightarrow> dr_key q \<notin> K \<Longrightarrow> q \<in> set b"
  by (fastforce simp: finishes_def list_all2_conv_all_nth in_set_conv_nth)

lemma quiet_run: "quiet_node b \<Longrightarrow> run (b_env b) fmt st d = (case st (d\<lparr>t_ticks := Suc (t_ticks d)\<rparr>) of (a, d') \<Rightarrow> (Inr a, d'))"
  by (simp add: quiet_node_def run_def Let_def)

lemma serves_same: "serves b lid f w \<Longrightarrow> subscriptions v = subscriptions w \<Longrightarrow> serves b lid f v"
  by (simp add: serves_def)

section \<open>One delivery\<close>

lemma finish_update:
  assumes "distinct (map dr_key rows)" "r \<in> set rows" "P r" "\<And>q. P q \<Longrightarrow> dr_key q = dr_key r"
    and "Q (g r)" "\<And>q. Q q \<Longrightarrow> dr_key q = dr_key r" "\<And>q. dr_key (g q) = dr_key q" "\<And>q. dr_key (h q) = dr_key q"
    and "\<And>q. dr_status (h q) = DeliveryCompleted"
  shows "finishes {dr_key r} rows (map (\<lambda>q. if Q q then h q else q) (map (\<lambda>q. if P q then g q else q) rows))"
proof -
  have only: "q = r" if "q \<in> set rows" "dr_key q = dr_key r" for q
    using assms(1,2) that by (auto simp: distinct_map dest: inj_onD)
  define u where "u q = (let q' = if P q then g q else q in if Q q' then h q' else q')" for q
  have "dr_key (u q) = dr_key q \<and> (if dr_key q \<in> {dr_key r} then dr_status (u q) = DeliveryCompleted else u q = q)"
    if q: "q \<in> set rows" for q
  proof (cases "dr_key q = dr_key r")
    case True
    then have "q = r" using only q by simp
    then show ?thesis using assms(3,5,7-9) by (simp add: u_def)
  next
    case False
    then have "\<not> P q" "\<not> Q q" using assms(4,6) by metis+
    then show ?thesis using False by (simp add: u_def)
  qed
  then have "finishes {dr_key r} rows (map u rows)" by (rule finishes_map)
  moreover have "map u rows = map (\<lambda>q. if Q q then h q else q) (map (\<lambda>q. if P q then g q else q) rows)"
    by (simp add: u_def Let_def)
  ultimately show ?thesis by simp
qed

definition head_guard :: "attachment \<Rightarrow> 'id::linorder delivery_key \<Rightarrow> string \<Rightarrow> 'id bus_db \<Rightarrow> bool" where
  "head_guard attached key date d \<longleftrightarrow> (ac_ordering (at_configuration attached) = BusFIFO \<longrightarrow>
     \<not> earlierIncompleteExists (k_listener key) (k_instance key) date (k_message key) d \<and>
     (\<forall>q \<in> set (t_deliveries d). of_consumer (k_listener key) (k_instance key) q \<longrightarrow> dr_status q \<noteq> DeliveryProcessing))"

lemma head_guard_claim:
  assumes "head_guard attached key (formatTime date) d" "ac_ordering (at_configuration attached) = BusFIFO"
  shows "\<not> earlierIncompleteExists (k_listener key) (k_instance key) (formatTime date) (k_message key) (d\<lparr>t_ticks := n\<rparr>)"
    "\<not> concurrentProcessingExists (k_listener key) (k_instance key) (k_message key) cutoff (d\<lparr>t_ticks := n\<rparr>)"
  using assms by (auto simp: head_guard_def earlierIncompleteExists_def concurrentProcessingExists_def list_ex_iff)

lemma quiet_claim:
  assumes "quiet_node b" "head_guard attached key (formatTime date) d"
  shows "claim_for b attached key token now n date d =
    (Inr (\<exists>q \<in> set (t_deliveries d). claimCondition key n now (b_add b now (- b_leaseDuration b)) q),
     d\<lparr>t_ticks := Suc (t_ticks d), t_deliveries := map (\<lambda>q. if claimCondition key n now (b_add b now (- b_leaseDuration b)) q
        then claimed_row token now n q else q) (t_deliveries d)\<rparr>)"
proof (cases "ac_ordering (at_configuration attached) = BusFIFO")
  case True
  show ?thesis
    using head_guard_claim [OF assms(2) True, where n = "Suc (t_ticks d)"] True
    by (auto simp: claim_for_def Let_def ClaimDeliveryInOrder_def quiet_run [OF assms(1)] affected_def claim_in_order_def
        update_deliveries_def filter_empty_conv)
next
  case False
  then show ?thesis
    by (auto simp: claim_for_def Let_def ClaimDelivery_def quiet_run [OF assms(1)] affected_def claim_delivery_def
        update_deliveries_def filter_empty_conv)
qed

lemma quiet_complete:
  assumes "quiet_node b"
  shows "CompleteDelivery (b_env b) key token now d = (Inr (\<exists>q \<in> set (t_deliveries d). settlementCondition key token q),
     d\<lparr>t_ticks := Suc (t_ticks d), t_deliveries := map (\<lambda>q. if settlementCondition key token q
        then q\<lparr>dr_status := DeliveryCompleted, dr_completion := Some (formatTime now), dr_error := ''''\<rparr> else q) (t_deliveries d)\<rparr>)"
  by (auto simp: CompleteDelivery_def quiet_run [OF assms] affected_def complete_delivery_def update_deliveries_def filter_empty_conv)

lemma claim_key: "claimCondition key n now cutoff q \<Longrightarrow> dr_key q = key"
  by (simp add: claimCondition_def)

lemma settle_key: "settlementCondition key token q \<Longrightarrow> dr_key q = key"
  by (simp add: settlementCondition_def)

lemma claimed_settles: "settlementCondition (dr_key r) token (claimed_row token now n r)"
  by (simp add: settlementCondition_def)

lemma quiet_dispatch:
  assumes "quiet_node b" "serves b (k_listener (dr_key r)) f w" "r \<in> set (t_deliveries (nw_db (rest w)))"
    and "distinct (map dr_key (t_deliveries (nw_db (rest w))))" "dr_status r = DeliveryPending"
    and "head_guard attached (dr_key r) (formatTime date) (nw_db (rest w))"
  shows "\<exists>w'. dispatchDelivery b attached (dr_key r) (dr_attempts r) date (Inr event) w = (None, w') \<and>
    works_off {dr_key r} [event] f w w'"
proof -
  let ?key = "dr_key r" and ?n = "dr_attempts r" and ?d = "nw_db (rest w)"
  let ?token = "b_new_token b (nw_fresh (rest w))"
  let ?now = "be_now (b_env b) (t_ticks ?d)"
  let ?d1 = "?d\<lparr>t_ticks := Suc (t_ticks ?d)\<rparr>"
  let ?P = "claimCondition ?key ?n ?now (b_add b ?now (- b_leaseDuration b))"
  let ?g = "claimed_row ?token ?now ?n"
  let ?d2 = "?d1\<lparr>t_ticks := Suc (t_ticks ?d1), t_deliveries := map (\<lambda>q. if ?P q then ?g q else q) (t_deliveries ?d1)\<rparr>"
  have guard: "head_guard attached ?key (formatTime date) ?d1"
    using assms(6) by (simp add: head_guard_def earlierIncompleteExists_def)
  have P: "?P r" using assms(5) by (simp add: claimCondition_def dueCondition_def)
  have claim: "claim_for b attached ?key ?token ?now ?n date ?d1 = (Inr True, ?d2)"
    using P assms(3) by (subst quiet_claim [OF assms(1) guard]) auto
  define v1 where "v1 = w\<lparr>rest := (rest w)\<lparr>nw_fresh := Suc (nw_fresh (rest w))\<rparr>\<rparr>"
  define v2 where "v2 = v1\<lparr>rest := (rest v1)\<lparr>nw_db := ?d1\<rparr>\<rparr>"
  define w2 where "w2 = v2\<lparr>rest := (rest v2)\<lparr>nw_db := ?d2\<rparr>\<rparr>"
  define w3 where "w3 = w2\<lparr>rest := (rest w2)\<lparr>nw_rest := f event (nw_rest (rest w))\<rparr>\<rparr>"
  have parts: "nw_db (rest v1) = ?d" "nw_db (rest v2) = ?d1" "subscriptions w2 = subscriptions w" "nw_rest (rest w2) = nw_rest (rest w)"
    "nw_db (rest w3) = ?d2" "subscriptions w3 = subscriptions w" "nw_rest (rest w3) = f event (nw_rest (rest w))"
    by (simp_all add: v1_def v2_def w2_def w3_def)
  have fresh: "fresh w = (nw_fresh (rest w), v1)" by (simp add: fresh_def v1_def)
  have clock: "bus_now b v1 = (?now, v2)" by (simp add: bus_now_def with_db_def parts v2_def)
  have claimed: "with_db (claim_for b attached ?key ?token ?now ?n date) v2 = (Inr True, w2)"
    by (simp add: with_db_def parts(2) claim w2_def del: bus_db.update_convs)
  let ?later = "be_now (b_env b) (t_ticks ?d2)"
  let ?Q = "settlementCondition ?key ?token"
  let ?h = "\<lambda>q. q\<lparr>dr_status := DeliveryCompleted, dr_completion := Some (formatTime ?later), dr_error := ''''\<rparr>"
  have deliver: "Deliver (b_exec b) (k_listener ?key) event w2 = (None, w3)"
    using assms(2) parts(3,4) unfolding w3_def serves_def by metis
  obtain w' where settled: "settle_success b ?key ?token w3 = (None, w')"
    "t_deliveries (nw_db (rest w')) = map (\<lambda>q. if ?Q q then ?h q else q) (t_deliveries ?d2)"
    "t_messages (nw_db (rest w')) = t_messages ?d" "t_consumers (nw_db (rest w')) = t_consumers ?d"
    "subscriptions w' = subscriptions w" "nw_rest (rest w') = f event (nw_rest (rest w))"
    by (simp add: settle_success_def bus_now_def with_db_def Let_def quiet_complete [OF assms(1)] parts)
  have "finishes {?key} (t_deliveries ?d) (map (\<lambda>q. if ?Q q then ?h q else q) (map (\<lambda>q. if ?P q then ?g q else q) (t_deliveries ?d)))"
    by (rule finish_update [where P = ?P and Q = ?Q and g = ?g and h = ?h, OF assms(4,3) P])
       (simp_all add: claim_key settle_key claimed_settles)
  then have "works_off {?key} [event] f w w'" using settled by (simp add: works_off_def)
  moreover have "dispatchDelivery b attached ?key ?n date (Inr event) w = (None, w')"
    unfolding dispatchDelivery_def Let_def fresh clock case_prod_conv claimed
    by (simp only: claimed deliver settled(1) prod.case sum.case bool.case option.case)
  ultimately show ?thesis by blast
qed

section \<open>The backlog of a consumer\<close>

definition awaiting :: "consumer_key \<Rightarrow> bus_ordering \<Rightarrow> 'id bus_db \<Rightarrow> 'id delivery_row \<times> 'id message_row \<Rightarrow> bool" where
  "awaiting key ord d = (\<lambda>(r, m). of_consumer (ck_listener key) (ck_instance key) r \<and> dr_status r = DeliveryPending \<and>
     (ord = BusFIFO \<longrightarrow> optional_holds (\<lambda>frontier. mr_date m < frontier) (frontierOf key d)))"

definition backlog :: "consumer_key \<Rightarrow> bus_ordering \<Rightarrow> 'id::linorder bus_db \<Rightarrow> ('id delivery_row \<times> 'id message_row) list" where
  "backlog key ord d = in_order (filter (awaiting key ord d) (joined d))"

definition work_key :: "'id delivery_row \<times> 'id message_row \<Rightarrow> 'id delivery_key" where
  "work_key p = dr_key (fst p)"

definition position :: "'id delivery_row \<times> 'id message_row \<Rightarrow> string \<times> 'id" where
  "position p = (mr_date (snd p), mr_id (snd p))"

lemma in_order_position: "(in_order :: ('a::linorder delivery_row \<times> 'a message_row) list \<Rightarrow> _) = sort_key position"
proof -
  have "(\<lambda>(r :: 'a delivery_row, m :: 'a message_row). (mr_date m, mr_id m)) = position" by (auto simp: position_def)
  then show ?thesis unfolding in_order_def by (rule arg_cong)
qed

definition readable_row :: "'id delivery_row \<Rightarrow> bool" where
  "readable_row r \<longleftrightarrow> parseNullableStoredTime (dr_claim r) \<noteq> None \<and> parseNullableStoredTime (dr_next r) \<noteq> None \<and>
     parseNullableStoredTime (dr_completion r) \<noteq> None"

definition ready :: "consumer_key \<Rightarrow> 'id bus_db \<Rightarrow> bool" where
  "ready key d \<longleftrightarrow> distinct (map dr_key (t_deliveries d)) \<and> distinct (map mr_id (t_messages d)) \<and>
     (\<forall>m \<in> set (t_messages d). \<exists>t. valid t \<and> mr_date m = formatTime t) \<and>
     (\<forall>r \<in> set (t_deliveries d). of_consumer (ck_listener key) (ck_instance key) r \<longrightarrow>
        dr_status r = DeliveryCompleted \<or> dr_status r = DeliveryPending \<and> readable_row r)"

lemma ready_finishes:
  assumes "ready key d" "finishes K (t_deliveries d) (t_deliveries d')" "t_messages d' = t_messages d"
  shows "ready key d'"
proof -
  have "dr_status r = DeliveryCompleted \<or> dr_status r = DeliveryPending \<and> readable_row r"
    if "r \<in> set (t_deliveries d')" "of_consumer (ck_listener key) (ck_instance key) r" for r
    using finishes_row [OF assms(2) that(1)] assms(1) that(2) by (auto simp: ready_def of_consumer_def split: if_splits)
  then show ?thesis using assms finishes_keys [OF assms(2)] by (auto simp: ready_def)
qed

lemma joined_finishes:
  assumes "finishes K rows rows'" "\<And>r m. A (r, m) \<Longrightarrow> dr_status r = DeliveryPending"
  shows "filter A (concat (map (\<lambda>r. map (Pair r) (ms r)) rows')) =
    filter (\<lambda>p. work_key p \<notin> K) (filter A (concat (map (\<lambda>r. map (Pair r) (ms r)) rows)))"
  using assms(1) unfolding finishes_def
proof (induction rule: list_all2_induct)
  case (Cons q rows q' rows')
  have "filter A (map (Pair q') (ms q')) = filter (\<lambda>p. work_key p \<notin> K) (filter A (map (Pair q) (ms q)))"
  proof (cases "dr_key q \<in> K")
    case True
    then have "dr_status q' = DeliveryCompleted" using Cons by simp
    then have "filter A (map (Pair q') (ms q')) = []" using assms(2) by (fastforce simp: filter_empty_conv)
    then show ?thesis using True by (auto simp: filter_empty_conv work_key_def)
  next
    case False
    then have "q' = q" using Cons by simp
    then show ?thesis using False by (auto simp: work_key_def intro!: filter_cong)
  qed
  then show ?case using Cons by simp
qed simp

lemma backlog_finishes:
  assumes "finishes K (t_deliveries d) (t_deliveries d')" "t_messages d' = t_messages d" "t_consumers d' = t_consumers d"
  shows "backlog key ord d' = filter (\<lambda>p. work_key p \<notin> K) (backlog key ord d)"
proof -
  have "awaiting key ord d' = awaiting key ord d" by (simp add: awaiting_def frontierOf_def assms(3))
  then have "filter (awaiting key ord d') (joined d') = filter (\<lambda>p. work_key p \<notin> K) (filter (awaiting key ord d) (joined d))"
    using joined_finishes [OF assms(1), of "awaiting key ord d"] assms(2) by (simp add: joined_def awaiting_def)
  then show ?thesis by (simp add: backlog_def in_order_position filter_sort)
qed

lemma joined_distinct:
  assumes "distinct (map dr_key rows)" "distinct (map mr_id ms)"
  shows "distinct (map work_key (concat (map (\<lambda>r. map (Pair r) (filter (\<lambda>m. mr_id m = k_message (dr_key r)) ms)) rows)))"
  using assms(1)
proof (induction rows)
  case (Cons r rows)
  let ?g = "\<lambda>r. map (Pair r) (filter (\<lambda>m. mr_id m = k_message (dr_key r)) ms)"
  have "length (filter (\<lambda>m. mr_id m = x) ms) \<le> 1" for x
  proof -
    have "card (mr_id ` set (filter (\<lambda>m. mr_id m = x) ms)) \<le> card {x}" by (intro card_mono) auto
    moreover have "distinct (map mr_id (filter (\<lambda>m. mr_id m = x) ms))" using assms(2) by (rule distinct_map_filter)
    ultimately show ?thesis using distinct_card by fastforce
  qed
  then have "distinct (replicate (length (filter (\<lambda>m. mr_id m = k_message (dr_key r)) ms)) (dr_key r))"
    by (metis distinct.simps(1) distinct_singleton le_less less_one replicate_0 replicate_Suc One_nat_def)
  then have "distinct (map work_key (?g r))" by (simp add: work_key_def comp_def map_replicate_const)
  moreover have "set (map work_key (?g r)) \<inter> set (map work_key (concat (map ?g rows))) = {}"
    using Cons.prems by (auto simp: work_key_def)
  ultimately show ?case using Cons by simp
qed simp

lemma backlog_distinct:
  assumes "ready key d"
  shows "distinct (map work_key (backlog key ord d))"
proof -
  have "distinct (map work_key (joined d))" using joined_distinct assms by (auto simp: joined_def ready_def)
  then have "distinct (map work_key (filter (awaiting key ord d) (joined d)))" by (rule distinct_map_filter)
  then show ?thesis
    by (simp add: backlog_def in_order_position distinct_map)
qed

section \<open>What a query finds\<close>

lemma backlog_elements:
  assumes "ready key d"
  shows "p \<in> set (backlog key ord d) \<longleftrightarrow> fst p \<in> set (t_deliveries d) \<and> snd p \<in> set (t_messages d) \<and>
    mr_id (snd p) = k_message (dr_key (fst p)) \<and> awaiting key ord d p"
  using joined_iff [of "fst p" "snd p" d] by (auto simp: backlog_def in_order_position)

lemma backlog_sorted:
  assumes "ready key d"
  shows "sorted_wrt (\<lambda>p q. position p < position q) (backlog key ord d)"
proof -
  let ?B = "backlog key ord d"
  have "inj_on position (set ?B)"
  proof (rule inj_onI)
    fix p q assume p: "p \<in> set ?B" "q \<in> set ?B" "position p = position q"
    then have "dr_key (fst p) = dr_key (fst q)"
      using backlog_elements [OF assms]
      by (auto simp: awaiting_def of_consumer_def position_def case_prod_beta intro!: delivery_key.equality)
    then have "work_key p = work_key q" by (simp add: work_key_def)
    then show "p = q" using p(1,2) backlog_distinct [OF assms, of ord] by (auto simp: distinct_map dest: inj_onD)
  qed
  moreover have "distinct ?B" using backlog_distinct [OF assms] by (simp add: distinct_map)
  ultimately have "distinct (map position ?B)" by (simp add: distinct_map)
  moreover have "sorted (map position ?B)" by (simp add: backlog_def in_order_position)
  ultimately have "sorted_wrt (<) (map position ?B)" by (simp add: strict_sorted_iff)
  then show ?thesis by (simp add: sorted_wrt_map)
qed

lemma earlier_in_backlog:
  assumes "ready key d" "p \<in> set (backlog key BusFIFO d)"
  shows "earlierIncompleteExists (ck_listener key) (ck_instance key) (mr_date (snd p)) (mr_id (snd p)) d \<longleftrightarrow>
    (\<exists>q \<in> set (backlog key BusFIFO d). position q < position p)"
proof
  assume "earlierIncompleteExists (ck_listener key) (ck_instance key) (mr_date (snd p)) (mr_id (snd p)) d"
  then obtain r m where r: "r \<in> set (t_deliveries d)" "of_consumer (ck_listener key) (ck_instance key) r" "dr_status r \<in> incompleteStatuses"
    and m: "m \<in> set (t_messages d)" "mr_id m = k_message (dr_key r)" "position (r, m) < position p"
    by (auto simp: earlierIncompleteExists_def list_ex_iff position_def less_prod_def')
  have "dr_status r = DeliveryPending" using assms(1) r by (auto simp: ready_def incompleteStatuses_def)
  moreover have "optional_holds (\<lambda>f. mr_date m < f) (frontierOf key d)"
    using assms m(3) backlog_elements [OF assms(1), of p BusFIFO]
    by (auto simp: awaiting_def optional_holds_def position_def case_prod_beta less_prod_def' split: option.splits dest: less_trans)
  ultimately have "(r, m) \<in> set (backlog key BusFIFO d)"
    using r m by (simp add: backlog_elements [OF assms(1)] awaiting_def)
  then show "\<exists>q \<in> set (backlog key BusFIFO d). position q < position p" using m(3) by blast
next
  assume "\<exists>q \<in> set (backlog key BusFIFO d). position q < position p"
  then obtain q where q: "q \<in> set (backlog key BusFIFO d)" "position q < position p" by blast
  then show "earlierIncompleteExists (ck_listener key) (ck_instance key) (mr_date (snd p)) (mr_id (snd p)) d"
    using backlog_elements [OF assms(1), of q BusFIFO]
    by (fastforce simp: earlierIncompleteExists_def list_ex_iff awaiting_def incompleteStatuses_def position_def case_prod_beta less_prod_def')
qed

lemma only_the_first:
  assumes "sorted_wrt (\<lambda>p q. f p < (f q :: 'b::order)) xs"
  shows "filter (\<lambda>p. \<not> (\<exists>q \<in> set xs. f q < f p)) xs = take 1 xs"
proof (cases xs)
  case (Cons x ys)
  have "\<not> (\<exists>q \<in> set xs. f q < f x)" using assms Cons by (auto dest: less_asym)
  moreover have "\<exists>q \<in> set xs. f q < f y" if "y \<in> set ys" for y using assms Cons that by auto
  ultimately show ?thesis using Cons by (auto simp: filter_empty_conv)
qed simp

lemma claimable_backlog:
  assumes "ready key d"
  shows "in_order (filter (claimable_now key ord now cutoff d) (joined d)) =
    (if ord = BusFIFO then take 1 (backlog key ord d) else backlog key ord d)"
proof -
  define E where "E = (\<lambda>p :: 'a delivery_row \<times> 'a message_row. ord = BusFIFO \<and>
      earlierIncompleteExists (ck_listener key) (ck_instance key) (mr_date (snd p)) (mr_id (snd p)) d)"
  have due: "dueCondition now cutoff r \<longleftrightarrow> dr_status r = DeliveryPending"
    if "(r, m) \<in> set (joined d)" "of_consumer (ck_listener key) (ck_instance key) r" for r m
    using assms that by (auto simp: ready_def joined_iff dueCondition_def)
  have "filter (claimable_now key ord now cutoff d) (joined d) = filter (\<lambda>p. \<not> E p) (filter (awaiting key ord d) (joined d))"
    unfolding filter_filter by (rule filter_cong) (auto simp: claimable_now_def awaiting_def E_def due)
  then have found: "in_order (filter (claimable_now key ord now cutoff d) (joined d)) = filter (\<lambda>p. \<not> E p) (backlog key ord d)"
    by (simp add: backlog_def in_order_position filter_sort)
  show ?thesis
  proof (cases "ord = BusFIFO")
    case False
    then show ?thesis using found by (simp add: E_def)
  next
    case True
    have "filter (\<lambda>p. \<not> E p) (backlog key ord d) =
        filter (\<lambda>p. \<not> (\<exists>q \<in> set (backlog key ord d). position q < position p)) (backlog key ord d)"
      by (rule filter_cong) (auto simp: E_def True earlier_in_backlog [OF assms])
    then show ?thesis using found True only_the_first [OF backlog_sorted [OF assms], of BusFIFO] by simp
  qed
qed

section \<open>One batch\<close>

definition due_of :: "'id delivery_row \<times> 'id message_row \<Rightarrow> 'id due_delivery" where
  "due_of p = projr (scanDueDelivery p)"

definition event_of :: "(string \<Rightarrow> string \<Rightarrow> 'e) \<Rightarrow> 'id delivery_row \<times> 'id message_row \<Rightarrow> 'e" where
  "event_of decode p = decode (mr_type (snd p)) (mr_payload (snd p))"

lemma scan_backlog:
  assumes "ready key d" "p \<in> set (backlog key ord d)"
  shows "scanDueDelivery p = Inr (due_of p)" "d_key (due_delivery (due_of p)) = dr_key (fst p)"
    "d_attempts (due_delivery (due_of p)) = dr_attempts (fst p)" "formatTime (m_date (due_message (due_of p))) = mr_date (snd p)"
    "m_type (due_message (due_of p)) = mr_type (snd p)" "m_payload (due_message (due_of p)) = mr_payload (snd p)"
proof -
  obtain r m where p: "p = (r, m)" by fastforce
  have "r \<in> set (t_deliveries d)" "m \<in> set (t_messages d)" "readable_row r"
    using assms(1,2) backlog_elements [OF assms(1), of p ord] p by (auto simp: ready_def awaiting_def)
  moreover obtain t where "valid t" "mr_date m = formatTime t" using assms(1) calculation(2) by (auto simp: ready_def)
  moreover obtain x y z where "parseNullableStoredTime (dr_claim r) = Some x" "parseNullableStoredTime (dr_next r) = Some y"
    "parseNullableStoredTime (dr_completion r) = Some z" using calculation(3) by (auto simp: readable_row_def)
  ultimately have "scanDueDelivery p = Inr \<lparr>due_delivery = \<lparr>d_key = dr_key r, d_status = dr_status r, d_attempts = dr_attempts r,
      d_token = dr_token r, d_claim = x, d_next = y, d_completion = z, d_error = dr_error r\<rparr>,
    due_message = \<lparr>m_id = mr_id m, m_type = mr_type m, m_payload = mr_payload m, m_node = mr_node m, m_date = t\<rparr>\<rparr>"
    and "mr_date m = formatTime t"
    by (simp_all add: scanDueDelivery_def p parse_of_format del: formatTime.simps)
  then show "scanDueDelivery p = Inr (due_of p)" "d_key (due_delivery (due_of p)) = dr_key (fst p)"
    "d_attempts (due_delivery (due_of p)) = dr_attempts (fst p)" "formatTime (m_date (due_message (due_of p))) = mr_date (snd p)"
    "m_type (due_message (due_of p)) = mr_type (snd p)" "m_payload (due_message (due_of p)) = mr_payload (snd p)"
    by (simp_all add: due_of_def p del: formatTime.simps)
qed

lemma collect_scanned: "(\<And>p. p \<in> set ps \<Longrightarrow> scanDueDelivery p = Inr (due_of p)) \<Longrightarrow> collectDueDeliveries ps = Inr (map due_of ps)"
  by (induction ps) simp_all

lemma backlog_ticks [simp]: "backlog key ord (d\<lparr>t_ticks := n\<rparr>) = backlog key ord d"
  by (simp add: backlog_def awaiting_def frontierOf_def joined_def)

lemma ready_ticks [simp]: "ready key (d\<lparr>t_ticks := n\<rparr>) = ready key d"
  by (simp add: ready_def)

lemma quiet_find:
  assumes "quiet_node b" "ready key d"
  shows "FindDueDeliveries (b_env b) key ord now cutoff lim d =
    (Inr (map due_of (take (nat lim) (if ord = BusFIFO then take 1 (backlog key ord d) else backlog key ord d))),
     d\<lparr>t_ticks := Suc (t_ticks d)\<rparr>)"
proof -
  let ?found = "take (nat lim) (if ord = BusFIFO then take 1 (backlog key ord d) else backlog key ord d)"
  have ready: "ready key (d\<lparr>t_ticks := Suc (t_ticks d)\<rparr>)" using assms(2) by simp
  have "set ?found \<subseteq> set (backlog key ord d)" by (auto dest: in_set_takeD)
  then have "collectDueDeliveries ?found = Inr (map due_of ?found)"
    using scan_backlog(1) [OF assms(2)] by (intro collect_scanned) blast
  then show ?thesis
    by (simp only: FindDueDeliveries_def fetch_due_def quiet_run [OF assms(1)] wrapped_def claimable_backlog [OF ready]
        backlog_ticks prod.case sum.case)
qed

lemma quiet_batch:
  assumes "quiet_node b" "b_deserialize b = (\<lambda>t p. Inr (decode t p))" "ord = ac_ordering (at_configuration attached)"
    and "serves b (at_id attached) f w" "ready (attached_consumer b attached) (nw_db (rest w))"
    and "distinct (map work_key ps)" "set ps \<subseteq> set (backlog (attached_consumer b attached) ord (nw_db (rest w)))"
    and "ord = BusFIFO \<Longrightarrow> length ps \<le> 1 \<and> (\<forall>p \<in> set ps. \<forall>q \<in> set (backlog (attached_consumer b attached) ord (nw_db (rest w))). \<not> position q < position p)"
  shows "\<exists>w'. dispatch_batch b attached (map due_of ps) w = ([], False, w') \<and>
    works_off (work_key ` set ps) (map (event_of decode) ps) f w w'"
  using assms(4-)
proof (induction ps arbitrary: w)
  case Nil
  then show ?case using works_off_none by simp
next
  case (Cons p ps)
  let ?key = "attached_consumer b attached" and ?d = "nw_db (rest w)"
  let ?r = "fst p" and ?due = "due_of p"
  have p: "p \<in> set (backlog ?key ord ?d)" using Cons.prems(4) by simp
  note scan = scan_backlog [OF Cons.prems(2) p]
  have row: "?r \<in> set (t_deliveries ?d)" "dr_status ?r = DeliveryPending" "distinct (map dr_key (t_deliveries ?d))"
    "of_consumer (ck_listener ?key) (ck_instance ?key) ?r" "mr_id (snd p) = k_message (dr_key ?r)"
    using p Cons.prems(2) backlog_elements [OF Cons.prems(2), of p ord] by (auto simp: ready_def awaiting_def case_prod_beta)
  have serve: "serves b (k_listener (dr_key ?r)) f w" using Cons.prems(1) row(4) by (simp add: of_consumer_def attached_consumer_def)
  have guard: "head_guard attached (dr_key ?r) (formatTime (m_date (due_message ?due))) ?d"
    unfolding head_guard_def scan(4)
  proof (intro impI conjI)
    assume "ac_ordering (at_configuration attached) = BusFIFO"
    then have fifo: "ord = BusFIFO" using assms(3) by simp
    then show "\<not> earlierIncompleteExists (k_listener (dr_key ?r)) (k_instance (dr_key ?r)) (mr_date (snd p)) (k_message (dr_key ?r)) ?d"
      using Cons.prems(5) p row(4,5) earlier_in_backlog [OF Cons.prems(2), of p] by (auto simp: of_consumer_def)
    show "\<forall>q \<in> set (t_deliveries ?d). of_consumer (k_listener (dr_key ?r)) (k_instance (dr_key ?r)) q \<longrightarrow> dr_status q \<noteq> DeliveryProcessing"
      using Cons.prems(2) row(4) by (auto simp: ready_def of_consumer_def)
  qed
  obtain w1 where w1: "dispatchDelivery b attached (dr_key ?r) (dr_attempts ?r) (m_date (due_message ?due))
      (Inr (event_of decode p)) w = (None, w1)" "works_off {dr_key ?r} [event_of decode p] f w w1"
    using quiet_dispatch [OF assms(1) serve row(1,3,2) guard] by blast
  have moved: "finishes {dr_key ?r} (t_deliveries ?d) (t_deliveries (nw_db (rest w1)))" "t_messages (nw_db (rest w1)) = t_messages ?d"
    "t_consumers (nw_db (rest w1)) = t_consumers ?d" "subscriptions w1 = subscriptions w"
    using w1(2) by (simp_all add: works_off_def)
  have rest_ps: "set ps \<subseteq> set (backlog ?key ord (nw_db (rest w1)))"
  proof
    fix q assume q: "q \<in> set ps"
    then have "work_key q \<noteq> work_key p" using Cons.prems(3) by (metis distinct.simps(2) image_eqI list.set_map list.simps(9))
    then show "q \<in> set (backlog ?key ord (nw_db (rest w1)))"
      using q Cons.prems(4) by (auto simp: backlog_finishes [OF moved(1-3)] work_key_def)
  qed
  obtain w2 where w2: "dispatch_batch b attached (map due_of ps) w1 = ([], False, w2)"
    "works_off (work_key ` set ps) (map (event_of decode) ps) f w1 w2"
    using Cons.IH [OF serves_same [OF Cons.prems(1) moved(4)] ready_finishes [OF Cons.prems(2) moved(1,2)] _ rest_ps] Cons.prems(3,5)
    by auto
  have "dispatch_batch b attached (map due_of (p # ps)) w = ([], False, w2)"
    using assms(1) w1(1) w2(1) scan by (simp add: quiet_node_def assms(2) event_of_def)
  moreover have "works_off (work_key ` set (p # ps)) (map (event_of decode) (p # ps)) f w w2"
    using works_off_trans [OF w1(2) w2(2)] by (simp add: work_key_def)
  ultimately show ?case by blast
qed

section \<open>One pass\<close>

definition stride :: "('id, 'e, 'h, 's) dispatcher \<Rightarrow> bus_ordering \<Rightarrow> nat" where
  "stride d ord = (if ord = BusFIFO then 1 else nat (ds_batch d))"

lemma filter_beyond:
  assumes "distinct (map f xs)"
  shows "filter (\<lambda>x. f x \<notin> f ` set (take n xs)) xs = drop n xs"
proof -
  have "f x \<notin> f ` set (take n xs)" if "x \<in> set (drop n xs)" for x
    using assms that by (metis distinct_append image_eqI append_take_drop_id disjoint_iff list.set_map map_append)
  then have "filter (\<lambda>x. f x \<notin> f ` set (take n xs)) (drop n xs) = drop n xs" by simp
  moreover have "filter (\<lambda>x. f x \<notin> f ` set (take n xs)) (take n xs) = []" by (auto simp: filter_empty_conv)
  moreover have "filter P xs = filter P (take n xs) @ filter P (drop n xs)" for P
    by (metis append_take_drop_id filter_append)
  ultimately show ?thesis by simp
qed

lemma works_off_tables:
  "t_deliveries (nw_db (rest v)) = t_deliveries (nw_db (rest w)) \<Longrightarrow> t_messages (nw_db (rest v)) = t_messages (nw_db (rest w)) \<Longrightarrow>
   t_consumers (nw_db (rest v)) = t_consumers (nw_db (rest w)) \<Longrightarrow> subscriptions v = subscriptions w \<Longrightarrow>
   nw_rest (rest v) = nw_rest (rest w) \<Longrightarrow> works_off {} [] f w v"
  by (simp add: works_off_def finishes_none)

lemma quiet_batches:
  assumes "quiet_node (ds_bridge d)" "b_deserialize (ds_bridge d) = (\<lambda>t p. Inr (decode t p))" "ord = ac_ordering (at_configuration attached)"
    and "0 < ds_batch d" "serves (ds_bridge d) (at_id attached) f w" "ready (attached_consumer (ds_bridge d) attached) (nw_db (rest w))"
    and "worked = take (n * stride d ord) (backlog (attached_consumer (ds_bridge d) attached) ord (nw_db (rest w)))"
  shows "\<exists>w'. dispatch_batches d attached n w = ([], w') \<and> works_off (work_key ` set worked) (map (event_of decode) worked) f w w'"
  using assms(5-)
proof (induction n arbitrary: w worked)
  case 0
  then show ?case using works_off_none by simp
next
  case (Suc n)
  let ?b = "ds_bridge d" and ?key = "attached_consumer (ds_bridge d) attached" and ?d = "nw_db (rest w)"
  let ?B = "backlog ?key ord ?d" and ?k = "stride d ord"
  let ?d1 = "?d\<lparr>t_ticks := Suc (t_ticks ?d)\<rparr>"
  let ?now = "be_now (b_env ?b) (t_ticks ?d)"
  let ?ps = "take ?k ?B"
  have stride: "0 < ?k" using assms(4) by (simp add: stride_def)
  define v where "v = w\<lparr>rest := (rest w)\<lparr>nw_db := ?d1\<rparr>\<rparr>"
  define u where "u = w\<lparr>rest := (rest w)\<lparr>nw_db := ?d1\<lparr>t_ticks := Suc (t_ticks ?d1)\<rparr>\<rparr>\<rparr>"
  have ready: "ready ?key ?d1" "ready ?key (nw_db (rest u))" using Suc.prems(2) by (simp_all add: u_def)
  have same: "backlog ?key ord ?d1 = ?B" "backlog ?key ord (nw_db (rest u)) = ?B" by (simp_all add: u_def)
  have clock: "bus_now ?b w = (?now, v)" by (simp add: bus_now_def with_db_def v_def)
  have "take (nat (ds_batch d)) (if ord = BusFIFO then take 1 ?B else ?B) = ?ps"
    using assms(4) by (simp add: stride_def)
  then have find: "with_db (FindDueDeliveries (b_env ?b) ?key ord ?now cutoff (ds_batch d)) v = (Inr (map due_of ?ps), u)" for cutoff
    using quiet_find [OF assms(1) ready(1), of ord ?now cutoff "ds_batch d", unfolded same(1)]
    by (simp add: with_db_def v_def u_def del: take_take)
  have start: "works_off {} [] f w u" by (rule works_off_tables) (simp_all add: u_def)
  note unfolded = dispatch_batches.simps(2) [of d attached n w, unfolded Let_def clock case_prod_conv assms(3) [symmetric] find sum.case]
  show ?case
  proof (cases "?ps = []")
    case True
    then have "?B = []" using stride by simp
    then show ?thesis using unfolded Suc.prems(3) start by auto
  next
    case False
    have distinct: "distinct (map work_key ?B)" by (rule backlog_distinct [OF Suc.prems(2)])
    have "length ?ps \<le> 1 \<and> (\<forall>p \<in> set ?ps. \<forall>q \<in> set ?B. \<not> position q < position p)" if "ord = BusFIFO"
    proof -
      have "?ps = filter (\<lambda>p. \<not> (\<exists>q \<in> set ?B. position q < position p)) ?B"
        using only_the_first [OF backlog_sorted [OF Suc.prems(2), of BusFIFO]] that by (simp add: stride_def)
      then have "\<forall>p \<in> set ?ps. \<forall>q \<in> set ?B. \<not> position q < position p" by (metis (mono_tags, lifting) mem_Collect_eq set_filter)
      then show ?thesis using that by (simp add: stride_def)
    qed
    then obtain w3 where w3: "dispatch_batch ?b attached (map due_of ?ps) u = ([], False, w3)"
      "works_off (work_key ` set ?ps) (map (event_of decode) ?ps) f u w3"
      using quiet_batch [OF assms(1-3) serves_same [OF Suc.prems(1), of u] ready(2), of ?ps] distinct same(2)
      by (auto simp: u_def distinct_map dest: in_set_takeD inj_on_subset [OF _ set_take_subset])
    note sofar = works_off_trans [OF start w3(2), simplified]
    have left: "backlog ?key ord (nw_db (rest w3)) = drop ?k ?B"
      using w3(2) filter_beyond [OF distinct] backlog_finishes [of "work_key ` set ?ps" "nw_db (rest u)" "nw_db (rest w3)"] same(2)
      by (simp add: works_off_def)
    show ?thesis
    proof (cases "ord \<noteq> BusFIFO \<and> int (length ?ps) < ds_batch d")
      case True
      then have "length ?B < ?k" using assms(4) by (auto simp: stride_def min_def split: if_splits)
      then have "worked = ?ps" using Suc.prems(3) by simp
      then show ?thesis using unfolded w3(1) False True sofar by auto
    next
      case more: False
      obtain w4 where w4: "dispatch_batches d attached n w3 = ([], w4)"
        "works_off (work_key ` set (take (n * ?k) (drop ?k ?B))) (map (event_of decode) (take (n * ?k) (drop ?k ?B))) f w3 w4"
        using Suc.IH [OF serves_same [OF Suc.prems(1)] ready_finishes [OF Suc.prems(2)], of w3] sofar left
        by (auto simp: works_off_def)
      have "worked = ?ps @ take (n * ?k) (drop ?k ?B)" using Suc.prems(3) by (simp add: take_add)
      then have "works_off (work_key ` set worked) (map (event_of decode) worked) f w w4"
        using works_off_trans [OF sofar w4(2)] by (simp add: image_Un)
      moreover have "dispatch_batches d attached (Suc n) w = ([], w4)" using unfolded w3(1) w4(1) False more by auto
      ultimately show ?thesis by blast
    qed
  qed
qed

text \<open>The tables a pass starts delivering from: the missing rows created, the frontier raised.\<close>

definition prepared :: "consumer_key \<Rightarrow> instant \<Rightarrow> 'id bus_db \<Rightarrow> 'id bus_db" where
  "prepared key ceiling d = snd (advance key (formatTime ceiling) (snd (materialize key d)))"

lemma ready_pending: "readable_row (pending_row key)"
  by (simp add: readable_row_def pending_row_def)

lemma ready_prepared:
  assumes "ready key d"
  shows "ready key (prepared key ceiling d)"
proof -
  let ?new = "map (delivery_key_of key \<circ> mr_id) (filter (materializable key d) (t_messages d))"
  have rows: "t_deliveries (prepared key ceiling d) = fold insert_delivery ?new (t_deliveries d)"
    "t_messages (prepared key ceiling d) = t_messages d"
    by (simp_all add: prepared_def advance_def update_consumers_def materialize_def Let_def fold_materialize)
  have "dr_status r = DeliveryCompleted \<or> dr_status r = DeliveryPending \<and> readable_row r"
    if "r \<in> set (fold insert_delivery ?new (t_deliveries d))" "of_consumer (ck_listener key) (ck_instance key) r" for r
    using inserts_set [of ?new "t_deliveries d"] that assms ready_pending by (fastforce simp: ready_def)
  then show ?thesis using assms inserts_distinct [of "t_deliveries d" ?new] by (simp add: ready_def rows)
qed

lemma advance_ticks: "advance key x (d\<lparr>t_ticks := n\<rparr>) = (let (k, d') = advance key x d in (k, d'\<lparr>t_ticks := n\<rparr>))"
  by (simp add: advance_def update_consumers_def)

lemma materialize_ticks: "materialize key (d\<lparr>t_ticks := n\<rparr>) = (let (k, d') = materialize key d in (k, d'\<lparr>t_ticks := n\<rparr>))"
proof -
  have "materializable key (d\<lparr>t_ticks := n\<rparr>) = materializable key d" by (simp add: materializable_def frontierOf_def fun_eq_iff)
  then show ?thesis by (simp add: materialize_def Let_def)
qed

text \<open>C37: one pass works off the backlog. On a quiet node whose listener succeeds,
  \<open>processAttachment\<close> first creates the missing rows and raises the frontier, then delivers, in
  the order of publication date and identifier and exactly once each, the pending deliveries of
  its consumer: for an unordered listener the first sixteen batches of them, for an ordered one
  the first sixteen below the frontier. It completes exactly those rows, leaves every other row
  alone, keeps the rest of the backlog for the next pass and reports no error.\<close>

theorem pass_works_off_the_backlog:
  assumes "quiet_node (ds_bridge d)" "b_deserialize (ds_bridge d) = (\<lambda>t p. Inr (decode t p))" "0 < ds_batch d"
    and "serves (ds_bridge d) (at_id attached) f w" "ready (attached_consumer (ds_bridge d) attached) (nw_db (rest w))"
  shows "\<exists>w'. processAttachment d attached w = (None, w') \<and>
    (let b = ds_bridge d; key = attached_consumer b attached; ord = ac_ordering (at_configuration attached);
         d1 = prepared key (b_add b (be_now (b_env b) (t_ticks (nw_db (rest w)))) (- b_grace b)) (nw_db (rest w));
         waiting = backlog key ord d1; share = 16 * (if ord = BusFIFO then 1 else nat (ds_batch d))
     in finishes (work_key ` set (take share waiting)) (t_deliveries d1) (t_deliveries (nw_db (rest w'))) \<and>
        nw_rest (rest w') = fold f (map (event_of decode) (take share waiting)) (nw_rest (rest w)) \<and>
        backlog key ord (nw_db (rest w')) = drop share waiting)"
proof -
  let ?b = "ds_bridge d" and ?key = "attached_consumer (ds_bridge d) attached" and ?ord = "ac_ordering (at_configuration attached)"
  let ?d = "nw_db (rest w)"
  let ?ceiling = "b_add ?b (be_now (b_env ?b) (t_ticks ?d)) (- b_grace ?b)"
  let ?d1 = "prepared ?key ?ceiling ?d"
  define v where "v n e = w\<lparr>rest := (rest w)\<lparr>nw_db := e\<lparr>t_ticks := t_ticks ?d + n\<rparr>\<rparr>\<rparr>" for n and e :: "'a bus_db"
  have v: "nw_db (rest (v n e)) = e\<lparr>t_ticks := t_ticks ?d + n\<rparr>" "v n' e' = v n e\<lparr>rest := (rest (v n e))\<lparr>nw_db := e'\<lparr>t_ticks := t_ticks ?d + n'\<rparr>\<rparr>\<rparr>"
    "subscriptions (v n e) = subscriptions w" "nw_rest (rest (v n e)) = nw_rest (rest w)" for n e n' e'
    by (simp_all add: v_def)
  have clock: "bus_now ?b w = (be_now (b_env ?b) (t_ticks ?d), v 1 ?d)" by (simp add: bus_now_def with_db_def v_def)
  obtain k e where m: "materialize ?key ?d = (k, e)" by fastforce
  obtain k' e' where a: "advance ?key (formatTime ?ceiling) e = (k', e')" by fastforce
  have d1: "?d1 = e'" by (simp add: prepared_def m a)
  have mat: "with_db (MaterializeDeliveries (b_env ?b) ?key) (v 1 ?d) = (Inr k, v 2 e)"
    by (simp add: with_db_def MaterializeDeliveries_def quiet_run [OF assms(1)] v(1) materialize_ticks m v_def)
  have adv: "with_db (AdvanceFrontier (b_env ?b) ?key ?ceiling) (v 2 e) = (Inr k', v 3 e')"
    by (simp add: with_db_def AdvanceFrontier_def quiet_run [OF assms(1)] v(1) advance_ticks a v_def)
  let ?B = "backlog ?key ?ord e'" and ?n = "16 * stride d ?ord"
  have ready: "ready ?key e'" using ready_prepared [OF assms(5)] by (simp flip: d1)
  then have "ready ?key (nw_db (rest (v 3 e')))" by (simp add: v(1))
  moreover have "take ?n ?B = take (maximumBatchesPerPass * stride d ?ord) (backlog ?key ?ord (nw_db (rest (v 3 e'))))"
    by (simp add: maximumBatchesPerPass_def v(1))
  ultimately obtain w' where w': "dispatch_batches d attached maximumBatchesPerPass (v 3 e') = ([], w')"
    "works_off (work_key ` set (take ?n ?B)) (map (event_of decode) (take ?n ?B)) f (v 3 e') w'"
    using quiet_batches [OF assms(1,2) refl assms(3) serves_same [OF assms(4) v(3)]] by blast
  have "processAttachment d attached w = (None, w')"
    unfolding processAttachment_def Let_def clock case_prod_conv mat adv sum.case w'(1) by (simp add: errors_join_def)
  moreover have fin: "finishes (work_key ` set (take ?n ?B)) (t_deliveries e') (t_deliveries (nw_db (rest w')))"
    using w'(2) by (simp add: works_off_def v(1))
  moreover have "nw_rest (rest w') = fold f (map (event_of decode) (take ?n ?B)) (nw_rest (rest w))"
    using w'(2) by (simp add: works_off_def v(4))
  moreover have "backlog ?key ?ord (nw_db (rest w')) = drop ?n ?B"
    using w'(2) backlog_finishes [OF fin] filter_beyond [OF backlog_distinct [OF ready]] by (simp add: works_off_def v(1))
  ultimately show ?thesis unfolding Let_def d1 stride_def by blast
qed

text \<open>Two pending deliveries, stored in the wrong order, and a listener that logs its events.\<close>

definition log_event :: "nat \<Rightarrow> nat list \<Rightarrow> nat list" where
  "log_event event seen = seen @ [event]"

definition drain_bridge :: "(nat, nat, string, nat list) bridge" where
  "drain_bridge = NewBridge \<lparr>b_env = \<lparr>be_fails = \<lambda>_. None, be_now = \<lambda>k. Instant 2024 1 1 0 0 k 0, be_others = \<lambda>_ d. d\<rparr>,
     b_exec = \<lambda>h event w. (Returned None, w\<lparr>rest := (rest w)\<lparr>nw_rest := log_event event (nw_rest (rest w))\<rparr>\<rparr>),
     b_serialize = \<lambda>e. Inr (''order'', replicate e CHR ''x''), b_deserialize = \<lambda>t p. Inr (length p),
     b_node = '''', b_maximumAttempts = 0, b_leaseDuration = 0, b_grace = 0, b_retryDelay = \<lambda>_. 0,
     b_new_id = Inr, b_new_token = \<lambda>k. ''token'', b_add = \<lambda>t n. t, b_text = \<lambda>e. ''failed'', b_cancelled = \<lambda>w. False\<rparr> ''n1'' []"

definition drain_key :: "nat \<Rightarrow> nat delivery_key" where
  "drain_key n = \<lparr>k_message = n, k_listener = ''mail'', k_instance = ''''\<rparr>"

definition drain_message :: "nat \<Rightarrow> nat message_row" where
  "drain_message n = \<lparr>mr_id = n, mr_type = ''order'', mr_payload = replicate n CHR ''x'', mr_node = ''n1'',
     mr_date = formatTime (Instant 2024 1 1 0 0 0 0)\<rparr>"

definition drain_node :: "(nat, nat, string, nat list) node" where
  "drain_node = \<lparr>subscriptions = fold bus_apply [OpSubscribeTo (\<lambda>e. True) ''mail'' ''send''] NewBus,
     rest = \<lparr>nw_db = \<lparr>t_messages = [drain_message 2, drain_message 1], t_listeners = [], t_consumers = [],
         t_deliveries = [pending_row (drain_key 2), pending_row (drain_key 1)], t_ticks = 0\<rparr>,
       nw_attachments = [], nw_subscribed = {}, nw_fresh = 0, nw_rest = []\<rparr>\<rparr>"

definition drain_dispatcher :: "(nat, nat, string, nat list) dispatcher" where
  "drain_dispatcher = NewDispatcher (\<lambda>a b. 0) drain_bridge [WithBatchSize 10]"

definition drain_attachment :: attachment where
  "drain_attachment = \<lparr>at_id = ''mail'', at_mode = DeliveryModeCompeting, at_type = ''order'',
     at_configuration = attach_configuration drain_bridge []\<rparr>"

lemma drain_parts [simp]:
  "ds_bridge drain_dispatcher = drain_bridge" "ds_batch drain_dispatcher = 10" "quiet_node drain_bridge"
  "b_deserialize drain_bridge = (\<lambda>t p. Inr (length p))" "b_add drain_bridge = (\<lambda>t n. t)"
  "attached_consumer drain_bridge drain_attachment = \<lparr>ck_listener = ''mail'', ck_instance = '''', ck_type = ''order''\<rparr>"
  "ac_ordering (at_configuration drain_attachment) = BusUnordered" "at_id drain_attachment = ''mail''"
  by (simp_all add: drain_dispatcher_def NewDispatcher_def WithBatchSize_def quiet_node_def drain_bridge_def NewBridge_def attached_consumer_def
      drain_attachment_def instanceFor_def DeliveryModeCompeting_def DeliveryModeBroadcast_def attach_configuration_def)

lemma drain_serves: "serves drain_bridge ''mail'' log_event drain_node"
  by (simp add: serves_def drain_node_def SubscribeTo_def Bus_Subscribe_def NewBus_def Deliver_def invoke_def drain_bridge_def NewBridge_def)

lemma drain_ready: "ready \<lparr>ck_listener = ''mail'', ck_instance = '''', ck_type = ''order''\<rparr> (nw_db (rest drain_node))"
proof -
  have "valid (Instant 2024 1 1 0 0 0 0)" by (simp add: days_in_def)
  then show ?thesis
    by (auto simp: ready_def drain_node_def drain_message_def drain_key_def ready_pending simp del: valid.simps)
qed

lemma drain_prepared:
  "prepared \<lparr>ck_listener = ''mail'', ck_instance = '''', ck_type = ''order''\<rparr> ceiling (nw_db (rest drain_node)) = nw_db (rest drain_node)"
  by (simp add: prepared_def advance_def update_consumers_def materialize_def materializable_def frontierOf_def optional_holds_def drain_node_def)

lemma drain_backlog:
  "backlog \<lparr>ck_listener = ''mail'', ck_instance = '''', ck_type = ''order''\<rparr> BusUnordered (nw_db (rest drain_node)) =
   [(pending_row (drain_key 1), drain_message 1), (pending_row (drain_key 2), drain_message 2)]"
  by (simp add: backlog_def in_order_def joined_def awaiting_def drain_node_def drain_message_def drain_key_def of_consumer_def
      BusUnordered_def BusFIFO_def)

lemma drain_distinct: "BusUnordered \<noteq> BusFIFO"
  by (simp add: BusUnordered_def BusFIFO_def)

lemma drain_empty: "nw_rest (rest drain_node) = []"
  by (simp add: drain_node_def)

theorem pass_works_off_the_backlog_witness:
  "fst (processAttachment drain_dispatcher drain_attachment drain_node) = None \<and>
   nw_rest (rest (snd (processAttachment drain_dispatcher drain_attachment drain_node))) = [1, 2]"
  using pass_works_off_the_backlog [of drain_dispatcher "\<lambda>t p. length p" drain_attachment log_event drain_node]
  by (auto simp: drain_serves drain_ready Let_def drain_prepared drain_backlog drain_distinct drain_empty event_of_def drain_message_def log_event_def)

end
