(* ===== verification/GoText.thy ===== *)
theory GoText
  imports GoRuntime "HOL-Library.Sublist"
begin

text \<open>
  What the program uses of Go's \<open>strings\<close> package on top of plain lists: trimming, case mapping,
  cutting and splitting. A string is the list of its characters, up to U+00FF; the case mapping
  is that of the ASCII letters, which is all that comparing with an ASCII word needs, as no
  other character up to U+00FF maps to an ASCII letter.
\<close>

definition trim_by :: "(char \<Rightarrow> bool) \<Rightarrow> string \<Rightarrow> string" where
  "trim_by P s = rev (dropWhile P (rev (dropWhile P s)))"

definition is_space :: "char \<Rightarrow> bool" where
  "is_space c \<longleftrightarrow> (of_char c :: nat) \<in> {9, 10, 11, 12, 13, 32, 133, 160}"

definition TrimSpace :: "string \<Rightarrow> string" where
  "TrimSpace = trim_by is_space"

definition lower_char :: "char \<Rightarrow> char" where
  "lower_char c = (let n = of_char c :: nat in if 65 \<le> n \<and> n \<le> 90 then char_of (n + 32) else c)"

definition ToLower :: "string \<Rightarrow> string" where
  "ToLower = map lower_char"

definition EqualFold :: "string \<Rightarrow> string \<Rightarrow> bool" where
  "EqualFold s t \<longleftrightarrow> ToLower s = ToLower t"

text \<open>\<open>strings.Cut\<close> at the first occurrence of one character; \<open>None\<close> when there is none.\<close>

definition cut_at :: "char \<Rightarrow> string \<Rightarrow> (string \<times> string) option" where
  "cut_at x s = (case dropWhile (\<lambda>c. c \<noteq> x) s of [] \<Rightarrow> None | _ # after \<Rightarrow> Some (takeWhile (\<lambda>c. c \<noteq> x) s, after))"

fun split_at :: "char \<Rightarrow> string \<Rightarrow> string list" where
  "split_at x [] = [[]]"
| "split_at x (c # s) = (if c = x then [] # split_at x s
     else (case split_at x s of [] \<Rightarrow> [[c]] | piece # pieces \<Rightarrow> (c # piece) # pieces))"

text \<open>The value of a decimal digit.\<close>

definition digit_value :: "char \<Rightarrow> nat option" where
  "digit_value c = (let n = of_char c :: nat in if 48 \<le> n \<and> n \<le> 57 then Some (n - 48) else None)"

section \<open>Trimming\<close>

lemma trim_parts: "s = takeWhile P s @ trim_by P s @ rev (takeWhile P (rev (dropWhile P s)))"
proof -
  have "t = rev (dropWhile P (rev t)) @ rev (takeWhile P (rev t))" for t :: string
    by (metis rev_append rev_rev_ident takeWhile_dropWhile_id)
  from this [of "dropWhile P s"] show ?thesis unfolding trim_by_def by (metis takeWhile_dropWhile_id)
qed

lemma trim_shorter: "trim_by P s = s \<or> length (trim_by P s) < length s"
proof -
  obtain a b where s: "s = a @ trim_by P s @ b" using trim_parts [of s P] by blast
  then have "length s = length a + length (trim_by P s) + length b" by (metis add.assoc length_append)
  then show ?thesis using s by (cases a; cases b) auto
qed

lemma trim_ends:
  assumes "trim_by P s \<noteq> []"
  shows "\<not> P (hd (trim_by P s))" "\<not> P (last (trim_by P s))"
proof -
  let ?t = "dropWhile P s"
  have r: "dropWhile P (rev ?t) \<noteq> []" using assms by (simp add: trim_by_def)
  then show "\<not> P (last (trim_by P s))" using hd_dropWhile [OF r] by (simp add: trim_by_def last_rev)
  have "?t = trim_by P s @ rev (takeWhile P (rev ?t))" by (metis rev_append rev_rev_ident takeWhile_dropWhile_id trim_by_def)
  then have "hd (trim_by P s) = hd ?t" using assms by (metis hd_append2)
  moreover have "?t \<noteq> []" using r by (metis dropWhile.simps(1) rev.simps(1))
  ultimately show "\<not> P (hd (trim_by P s))" using hd_dropWhile [of P s] by simp
qed

lemma trim_same:
  assumes "s \<noteq> [] \<Longrightarrow> \<not> P (hd s)" "s \<noteq> [] \<Longrightarrow> \<not> P (last s)"
  shows "trim_by P s = s"
proof (cases "s = []")
  case False
  then have "dropWhile P s = s" "dropWhile P (rev s) = rev s" using assms by (simp_all add: dropWhile_eq_self_iff hd_rev)
  then show ?thesis by (simp add: trim_by_def)
qed (simp add: trim_by_def)

end
