(* ===== verification/GoReflect.thy ===== *)
theory GoReflect
  imports GoText
begin

text \<open>
  What the configuration binder uses of Go's \<open>reflect\<close> and \<open>strconv\<close>: types and values with
  their layout, zero values, the visible fields of a struct in the order of
  \<open>reflect.VisibleFields\<close>, and the decimal parsers. A type is a finite tree, so a recursive type
  stands for its unrolling to the depth of the document, and a struct that embeds itself is out of scope;
  a value is a tree too, so two pointers to one variable are two variables. \<open>int\<close> and \<open>uint\<close> are
  64 bits wide.
\<close>

section \<open>Types and values\<close>

datatype go_type =
    TBool | TInt nat | TUint nat | TFloat nat | TString | TDuration | TOther
  | TInterface bool
  | TSlice go_type | TArray nat go_type | TMap go_type go_type | TPointer go_type
  | TNamed string go_type
  | TStruct "struct_field list"
and struct_field =
  StructField (f_name: string) (f_exported: bool) (f_anonymous: bool) (f_tags: "(string \<times> string) list") (f_type: go_type)

text \<open>The struct tag of a field as its key:value pairs; \<open>Tag.Lookup\<close> and \<open>Tag.Get\<close>.\<close>

definition Tag_Lookup :: "struct_field \<Rightarrow> string \<Rightarrow> string option" where
  "Tag_Lookup f = map_of (f_tags f)"

definition Tag_Get :: "struct_field \<Rightarrow> string \<Rightarrow> string" where
  "Tag_Get f key = (case Tag_Lookup f key of Some t \<Rightarrow> t | None \<Rightarrow> [])"

text \<open>What an interface variable holds: the results of \<open>normalize\<close>, or whatever the caller left.\<close>

datatype 'f dynamic =
    DNil | DBool bool | DInt int | DFloat 'f | DString string
  | DList "'f dynamic list" | DMap "string \<Rightarrow> 'f dynamic option" | DOpaque nat

datatype 'f go_value =
    VBool bool | VInt int | VUint int | VFloat 'f | VString string | VOther
  | VInterface "'f dynamic"
  | VSlice "'f go_value list option" | VArray "'f go_value list"
  | VMap "(string \<Rightarrow> 'f go_value option) option" | VPointer "'f go_value option"
  | VStruct "'f go_value list"

text \<open>The type whose kind a type has.\<close>

fun underlying :: "go_type \<Rightarrow> go_type" where
  "underlying (TNamed n T) = underlying T"
| "underlying TDuration = TInt 64"
| "underlying T = T"

lemma underlying_size: "size (underlying T) \<le> size T"
  by (induction T rule: underlying.induct) auto

lemma underlying_same [simp]: "underlying (underlying T) = underlying T"
  by (induction T rule: underlying.induct) auto

fun zero_value :: "'f \<Rightarrow> go_type \<Rightarrow> 'f go_value"
  and zero_field :: "'f \<Rightarrow> struct_field \<Rightarrow> 'f go_value" where
  "zero_value z TBool = VBool False"
| "zero_value z (TInt b) = VInt 0"
| "zero_value z (TUint b) = VUint 0"
| "zero_value z (TFloat b) = VFloat z"
| "zero_value z TString = VString []"
| "zero_value z TDuration = VInt 0"
| "zero_value z TOther = VOther"
| "zero_value z (TInterface m) = VInterface DNil"
| "zero_value z (TSlice T) = VSlice None"
| "zero_value z (TArray n T) = VArray (replicate n (zero_value z T))"
| "zero_value z (TMap K T) = VMap None"
| "zero_value z (TPointer T) = VPointer None"
| "zero_value z (TNamed n T) = zero_value z T"
| "zero_value z (TStruct fs) = VStruct (map (zero_field z) fs)"
| "zero_field z (StructField n e a t T) = zero_value z T"

lemma zipped_size [termination_simp]: "(f, x) \<in> set (zip fs vs) \<Longrightarrow> size f < Suc (size_list size fs)"
  by (drule set_zip_leftD, drule size_list_estimation' [where f = size, OF _ order_refl]) simp

text \<open>A value that a variable of the type can hold.\<close>

fun conforms :: "go_type \<Rightarrow> 'f go_value \<Rightarrow> bool"
  and conforms_field :: "struct_field \<Rightarrow> 'f go_value \<Rightarrow> bool" where
  "conforms TBool v \<longleftrightarrow> (\<exists>b. v = VBool b)"
| "conforms (TInt b) v \<longleftrightarrow> (\<exists>i. v = VInt i \<and> - (2 ^ (b - 1)) \<le> i \<and> i < 2 ^ (b - 1))"
| "conforms (TUint b) v \<longleftrightarrow> (\<exists>i. v = VUint i \<and> 0 \<le> i \<and> i < 2 ^ b)"
| "conforms (TFloat b) v \<longleftrightarrow> (\<exists>f. v = VFloat f)"
| "conforms TString v \<longleftrightarrow> (\<exists>s. v = VString s)"
| "conforms TDuration v \<longleftrightarrow> (\<exists>i. v = VInt i \<and> - (2 ^ 63) \<le> i \<and> i < 2 ^ 63)"
| "conforms TOther v \<longleftrightarrow> v = VOther"
| "conforms (TInterface m) v \<longleftrightarrow> (\<exists>d. v = VInterface d)"
| "conforms (TSlice T) v \<longleftrightarrow> (\<exists>vs. v = VSlice vs \<and> (\<forall>xs \<in> set_option vs. \<forall>x \<in> set xs. conforms T x))"
| "conforms (TArray n T) v \<longleftrightarrow> (\<exists>xs. v = VArray xs \<and> length xs = n \<and> (\<forall>x \<in> set xs. conforms T x))"
| "conforms (TMap K T) v \<longleftrightarrow> (\<exists>m. v = VMap m \<and> (\<forall>t \<in> set_option m. \<forall>x \<in> ran t. conforms T x))"
| "conforms (TPointer T) v \<longleftrightarrow> (\<exists>p. v = VPointer p \<and> (\<forall>x \<in> set_option p. conforms T x))"
| "conforms (TNamed n T) v \<longleftrightarrow> conforms T v"
| "conforms (TStruct fs) v \<longleftrightarrow> (\<exists>vs. v = VStruct vs \<and> length vs = length fs \<and>
     (\<forall>(f, x) \<in> set (zip fs vs). conforms_field f x))"
| "conforms_field (StructField n e a t T) v \<longleftrightarrow> conforms T v"

lemma conforms_field [simp]: "conforms_field f v \<longleftrightarrow> conforms (f_type f) v"
  by (cases f) simp

lemma conforms_underlying: "conforms (underlying T) v \<longleftrightarrow> conforms T v"
  by (induction T rule: underlying.induct) auto

lemma zero_conforms: "conforms T (zero_value z T)" "conforms (f_type f) (zero_field z f)"
  by (induction T and f) (auto simp: set_zip)

section \<open>Visible fields\<close>

record visible_field =
  vf_field :: struct_field
  vf_index :: "nat list"
  vf_hidden :: bool

text \<open>Where the walk enters an embedded struct: behind one pointer at most.\<close>

definition embedded_fields :: "go_type \<Rightarrow> struct_field list option" where
  "embedded_fields T =
     (case underlying (case underlying T of TPointer U \<Rightarrow> U | U \<Rightarrow> U) of TStruct fs \<Rightarrow> Some fs | _ \<Rightarrow> None)"

lemma embedded_size: "embedded_fields T = Some fs \<Longrightarrow> size_list size fs < size T"
proof -
  assume e: "embedded_fields T = Some fs"
  let ?U = "case underlying T of TPointer U \<Rightarrow> U | U \<Rightarrow> U"
  have "size ?U \<le> size (underlying T)" by (cases "underlying T") auto
  moreover have "underlying ?U = TStruct fs" using e by (simp add: embedded_fields_def split: go_type.splits)
  ultimately have "size (TStruct fs) \<le> size T"
    using underlying_size [of T] underlying_size [of ?U] by simp
  then show ?thesis by simp
qed

definition hide :: "visible_field \<Rightarrow> visible_field" where
  "hide e = e\<lparr>vf_hidden := True\<rparr>"

text \<open>Of two fields of one Go name the shallower is visible; at equal depth neither is. The entry
  the name was last seen at decides.\<close>

fun add_visible :: "struct_field \<Rightarrow> nat list \<Rightarrow> visible_field list \<Rightarrow> visible_field list" where
  "add_visible f index seen =
     (let new = \<lparr>vf_field = f, vf_index = index, vf_hidden = False\<rparr>;
          named = filter (\<lambda>k. f_name (vf_field (seen ! k)) = f_name f) [0..<length seen]
      in if named = [] then seen @ [new]
         else (let k = last named; old = seen ! k
           in if length index = length (vf_index old) then seen[k := hide old]
              else if length index < length (vf_index old) then seen[k := hide old] @ [new]
              else seen))"

function walk_fields :: "nat list \<Rightarrow> nat \<Rightarrow> struct_field list \<Rightarrow> visible_field list \<Rightarrow> visible_field list" where
  "walk_fields outer i [] seen = seen"
| "walk_fields outer i (f # fs) seen =
     (let index = outer @ [i];
          entered = add_visible f index seen;
          promoted = (case (if f_anonymous f then embedded_fields (f_type f) else None) of
              None \<Rightarrow> entered
            | Some inner \<Rightarrow> walk_fields index 0 inner entered)
      in walk_fields outer (Suc i) fs promoted)"
  by pat_completeness auto
termination
proof (relation "measure (\<lambda>(_, _, fs, _). size_list size fs)", goal_cases)
  case (2 outer i f fs seen index entered inner)
  then have "size_list size inner < size (f_type f)" using embedded_size by (simp split: if_splits)
  then show ?case by (cases f) simp
qed (auto simp: less_Suc_eq_le trans_le_add2)

definition VisibleFields :: "struct_field list \<Rightarrow> visible_field list" where
  "VisibleFields fs = filter (\<lambda>e. \<not> vf_hidden e) (walk_fields [] 0 fs [])"

section \<open>Numbers\<close>

definition ErrSyntax :: goerror where
  "ErrSyntax = Leaf ''invalid syntax''"

definition ErrRange :: goerror where
  "ErrRange = Leaf ''value out of range''"

fun parse_digits :: "int \<Rightarrow> string \<Rightarrow> goerror + int" where
  "parse_digits n [] = Inr n"
| "parse_digits n (c # s) = (case digit_value c of
      None \<Rightarrow> Inl ErrSyntax
    | Some d \<Rightarrow> if n * 10 + int d \<ge> 2 ^ 64 then Inl ErrRange else parse_digits (n * 10 + int d) s)"

definition ParseUint :: "string \<Rightarrow> goerror + int" where
  "ParseUint s = (if s = [] then Inl ErrSyntax else parse_digits 0 s)"

definition ParseInt :: "string \<Rightarrow> goerror + int" where
  "ParseInt s =
     (if s = [] then Inl ErrSyntax
      else (let negative = (hd s = CHR ''-''); digits = (if hd s \<in> {CHR ''+'', CHR ''-''} then tl s else s)
        in case ParseUint digits of
             Inl err \<Rightarrow> Inl err
           | Inr n \<Rightarrow> if \<not> negative \<and> n \<ge> 2 ^ 63 then Inl ErrRange
               else if negative \<and> n > 2 ^ 63 then Inl ErrRange
               else Inr (if negative then - n else n)))"

text \<open>\<open>reflect.Value.OverflowInt\<close> and \<open>OverflowUint\<close>: truncating to the width changes the value.\<close>

definition OverflowInt :: "nat \<Rightarrow> int \<Rightarrow> bool" where
  "OverflowInt b x \<longleftrightarrow> x \<noteq> signed_take_bit (b - 1) x"

definition OverflowUint :: "nat \<Rightarrow> int \<Rightarrow> bool" where
  "OverflowUint b x \<longleftrightarrow> x \<noteq> take_bit b x"

lemma fits_int: "\<not> OverflowInt b x \<longleftrightarrow> - (2 ^ (b - 1)) \<le> x \<and> x < 2 ^ (b - 1)"
  unfolding OverflowInt_def by (metis signed_take_bit_int_eq_self_iff)

lemma fits_uint: "\<not> OverflowUint b x \<longleftrightarrow> 0 \<le> x \<and> x < 2 ^ b"
  unfolding OverflowUint_def by (metis take_bit_int_eq_self_iff)

lemma parse_digits_range: "parse_digits n s = Inr m \<Longrightarrow> 0 \<le> n \<Longrightarrow> 0 \<le> m"
  by (induction n s rule: parse_digits.induct) (auto split: option.splits if_splits)

lemma ParseUint_range: "ParseUint s = Inr m \<Longrightarrow> 0 \<le> m"
  using parse_digits_range by (auto simp: ParseUint_def split: if_splits)

lemma ParseInt_range: "ParseInt s = Inr i \<Longrightarrow> - (2 ^ 63) \<le> i \<and> i < 2 ^ 63"
  by (fastforce dest!: ParseUint_range simp: ParseInt_def Let_def split: if_splits sum.splits)

end
