(* ===== verification/ConfFields.thy ===== *)
theory ConfFields
  imports GoReflect
begin

text \<open>
  The fields a configuration document can name (conf/binder.go): document names from the json
  tags, promotion through embedded structs, the resolution of name conflicts, and the walk to a
  field that allocates nil embedded pointers. A field is reached by its index path; fields of
  different names lie on paths of which neither is a prefix of the other.
\<close>

section \<open>Document names\<close>

fun dereference :: "go_type \<Rightarrow> go_type" where
  "dereference (TPointer T) = dereference T"
| "dereference (TNamed n T) = (case underlying T of TPointer U \<Rightarrow> dereference T | _ \<Rightarrow> TNamed n T)"
| "dereference T = T"

text \<open>The name and whether the tag gave it.\<close>

definition jsonName :: "struct_field \<Rightarrow> string \<times> bool" where
  "jsonName field = (let declared = Tag_Get field ''json'';
         tag = (case cut_at (CHR '','') declared of Some (name, _) \<Rightarrow> name | None \<Rightarrow> declared)
     in if tag = [] then (f_name field, False) else (tag, True))"

definition insideContainer :: "nat list \<Rightarrow> nat list list \<Rightarrow> bool" where
  "insideContainer index containers =
     list_ex (\<lambda>container. length container < length index \<and>
       list_all (\<lambda>position. index ! position = container ! position) [0..<length container]) containers"

record field_candidate =
  fc_field :: visible_field
  fc_tagged :: bool

definition anonymous_struct :: "struct_field \<Rightarrow> bool" where
  "anonymous_struct field \<longleftrightarrow> f_anonymous field \<and>
     (case underlying (dereference (f_type field)) of TStruct _ \<Rightarrow> True | _ \<Rightarrow> False)"

text \<open>The candidates of every name, in the order of the walk.\<close>

fun candidates :: "nat list list \<Rightarrow> visible_field list \<Rightarrow> (string \<times> field_candidate) list" where
  "candidates containers [] = []"
| "candidates containers (e # es) =
     (let field = vf_field e; (name, tagged) = jsonName field
      in if insideContainer (vf_index e) containers then candidates containers es
         else if name = ''-'' then candidates (if anonymous_struct field then containers @ [vf_index e] else containers) es
         else if \<not> f_exported field
         then candidates (if anonymous_struct field \<and> tagged then containers @ [vf_index e] else containers) es
         else if anonymous_struct field \<and> \<not> tagged then candidates containers es
         else (name, \<lparr>fc_field = e, fc_tagged = tagged\<rparr>) #
           candidates (if f_anonymous field \<and> tagged then containers @ [vf_index e] else containers) es)"

definition dominantField :: "field_candidate list \<Rightarrow> visible_field option" where
  "dominantField cs =
     (let depth = (\<lambda>c. length (vf_index (fc_field c)));
          shallowest = fold (\<lambda>c least. if depth c < least then depth c else least) (tl cs) (depth (hd cs));
          atDepth = filter (\<lambda>c. depth c = shallowest) cs;
          tagged = filter fc_tagged atDepth
      in if length atDepth = 1 then Some (fc_field (hd atDepth))
         else if length tagged = 1 then Some (fc_field (hd tagged))
         else None)"

definition structFields :: "struct_field list \<Rightarrow> string \<Rightarrow> visible_field option" where
  "structFields fs name =
     (let competing = map snd (filter (\<lambda>c. fst c = name) (candidates [] (VisibleFields fs)))
      in if competing = [] then None else dominantField competing)"

section \<open>Reaching a field\<close>

text \<open>The walk to a field from a value of the type, \<open>settable\<close> unless it is an unexported
  embedded field: the value with the nil pointers on the way allocated.\<close>

fun fieldByIndex :: "'f \<Rightarrow> go_type \<Rightarrow> bool \<Rightarrow> nat list \<Rightarrow> 'f go_value \<Rightarrow> goerror option \<times> 'f go_value"
  and into_field :: "'f \<Rightarrow> go_type \<Rightarrow> nat \<Rightarrow> nat list \<Rightarrow> 'f go_value \<Rightarrow> goerror option \<times> 'f go_value" where
  "fieldByIndex z T settable [] v = (None, v)"
| "fieldByIndex z T settable (step # index) v =
     (case (underlying T, v) of
        (TPointer U, VPointer None) \<Rightarrow>
          if \<not> settable
          then (Some (Leaf ''cannot allocate the nil embedded pointer %s on the way to %s''), v)
          else map_prod id (VPointer \<circ> Some) (into_field z U step index (zero_value z U))
      | (TPointer U, VPointer (Some u)) \<Rightarrow> map_prod id (VPointer \<circ> Some) (into_field z U step index u)
      | _ \<Rightarrow> into_field z T step index v)"
| "into_field z T step index v =
     (case (underlying T, v) of
        (TStruct fs, VStruct vs) \<Rightarrow>
          map_prod id (\<lambda>x. VStruct (vs[step := x]))
            (fieldByIndex z (f_type (fs ! step)) (f_exported (fs ! step)) index (vs ! step))
      | _ \<Rightarrow> (None, v))"

text \<open>The variable at an index path, and storing into it.\<close>

fun value_in :: "nat list \<Rightarrow> 'f go_value \<Rightarrow> 'f go_value option" where
  "value_in [] v = Some v"
| "value_in (step # index) v = (case (case v of VPointer (Some u) \<Rightarrow> u | _ \<Rightarrow> v) of
      VStruct vs \<Rightarrow> if step < length vs then value_in index (vs ! step) else None
    | _ \<Rightarrow> None)"

fun set_in :: "nat list \<Rightarrow> 'f go_value \<Rightarrow> 'f go_value \<Rightarrow> 'f go_value" where
  "set_in [] x v = x"
| "set_in (step # index) x v = (case v of
      VPointer (Some (VStruct vs)) \<Rightarrow> VPointer (Some (VStruct (vs[step := set_in index x (vs ! step)])))
    | VStruct vs \<Rightarrow> VStruct (vs[step := set_in index x (vs ! step)])
    | _ \<Rightarrow> v)"

definition childPath :: "string \<Rightarrow> string \<Rightarrow> string" where
  "childPath path key = (if path = [] then key else path @ ''.'' @ key)"

definition elementPath :: "string \<Rightarrow> nat \<Rightarrow> string" where
  "elementPath path index = path @ ''['' @ show_nat index @ '']''"

end
