(* ===== verification/ConfPlaceholder.thy ===== *)
theory ConfPlaceholder
  imports GoRuntime "HOL-Library.Sublist"
begin

text \<open>
  Placeholder resolution (conf/placeholder.go). Text is a list of characters; the loops over an
  index work on the text from that index on. Resolution is recursive through the values it looks
  up, so it takes fuel, one unit per nested call, and is \<open>None\<close> when that runs out; the set of
  the keys being resolved is passed down, which is what setting and deleting its entries amounts
  to. A lookup is a partial map from names to values.
\<close>

type_synonym 'a resolution = "(goerror + 'a) option"

definition placeholderPrefix :: string where
  "placeholderPrefix = ''${''"

definition valueSeparator :: char where
  "valueSeparator = CHR '':''"

definition escapeCharacter :: char where
  "escapeCharacter = CHR 0x5C"

definition ErrUnresolvedPlaceholder :: goerror where
  "ErrUnresolvedPlaceholder = Leaf ''placeholder could not be resolved''"

definition ErrCircularPlaceholder :: goerror where
  "ErrCircularPlaceholder = Leaf ''placeholder references form a cycle''"

section \<open>Finding and splitting a placeholder\<close>

fun closing_brace :: "nat \<Rightarrow> nat \<Rightarrow> string \<Rightarrow> nat option" where
  "closing_brace depth index [] = None"
| "closing_brace depth index (c # s) =
     (if c = CHR ''{'' then closing_brace (depth + 1) (index + 1) s
      else if c = CHR ''}'' then (if depth = 0 then Some index else closing_brace (depth - 1) (index + 1) s)
      else closing_brace depth (index + 1) s)"

definition placeholderAt :: "string \<Rightarrow> (string \<times> nat) option" where
  "placeholderAt text =
     (let n = length placeholderPrefix
      in map_option (\<lambda>index. (take (index - n) (drop n text), index + 1)) (closing_brace 0 n (drop n text)))"

text \<open>The default is \<open>None\<close> when there is no separator; the depth may be negative, as in the code.\<close>

fun split_from :: "int \<Rightarrow> string \<Rightarrow> string \<times> string option" where
  "split_from depth [] = ([], None)"
| "split_from depth (c # s) =
     (if c = escapeCharacter \<and> s \<noteq> [] \<and> hd s = valueSeparator
      then (let (key, d) = split_from depth (tl s)
            in ((if depth > 0 then [escapeCharacter] else []) @ valueSeparator # key, d))
      else if c = CHR ''{'' then (let (key, d) = split_from (depth + 1) s in (c # key, d))
      else if c = CHR ''}'' then (let (key, d) = split_from (depth - 1) s in (c # key, d))
      else if c = valueSeparator \<and> depth = 0 then ([], Some s)
      else (let (key, d) = split_from depth s in (c # key, d)))"

definition splitPlaceholder :: "string \<Rightarrow> string \<times> string option" where
  "splitPlaceholder = split_from 0"

section \<open>Resolving text\<close>

definition written :: "string \<Rightarrow> string resolution \<Rightarrow> string resolution" where
  "written out r = map_option (map_sum id ((@) out)) r"

lemma closing_brace_bounds:
  "closing_brace depth index s = Some i \<Longrightarrow> index \<le> i \<and> i < index + length s"
  by (induction depth index s rule: closing_brace.induct) (fastforce split: if_splits)+

lemma placeholderAt_length: "placeholderAt text = Some (content, n) \<Longrightarrow> 0 < n"
  by (auto simp: placeholderAt_def Let_def)

function expand_text :: "(string \<Rightarrow> string resolution) \<Rightarrow> string \<Rightarrow> string resolution" where
  "expand_text resolve [] = Some (Inr [])"
| "expand_text resolve (c # s) =
     (if c = escapeCharacter \<and> prefix placeholderPrefix s
      then written placeholderPrefix (expand_text resolve (drop (length placeholderPrefix) s))
      else if prefix placeholderPrefix (c # s)
      then (case placeholderAt (c # s) of
          None \<Rightarrow> Some (Inr (c # s))
        | Some (content, n) \<Rightarrow> (case resolve content of
            None \<Rightarrow> None
          | Some (Inl err) \<Rightarrow> Some (Inl (Wrap ''%w in value %q'' [err]))
          | Some (Inr resolved) \<Rightarrow> written resolved (expand_text resolve (drop n (c # s)))))
      else written [c] (expand_text resolve s))"
  by pat_completeness auto
termination
  by (relation "measure (\<lambda>(_, s). length s)") (auto dest: placeholderAt_length)

type_synonym environment = "string \<Rightarrow> string option"

definition resolvePlaceholder ::
  "environment \<Rightarrow> (string set \<Rightarrow> string \<Rightarrow> string resolution) \<Rightarrow> string set \<Rightarrow> string \<Rightarrow> string resolution" where
  "resolvePlaceholder lookup resolve visited content =
     (case splitPlaceholder content of (keyText, defaultText) \<Rightarrow>
        (case resolve visited keyText of
           None \<Rightarrow> None
         | Some (Inl err) \<Rightarrow> Some (Inl err)
         | Some (Inr key) \<Rightarrow>
            (case lookup key of
               Some value \<Rightarrow>
                 (if key \<in> visited then Some (Inl (Wrap ''%w: %q'' [ErrCircularPlaceholder]))
                  else resolve (insert key visited) value)
             | None \<Rightarrow>
                 (case defaultText of
                    Some text \<Rightarrow> resolve visited text
                  | None \<Rightarrow> Some (Inl (Wrap ''%w: %q'' [ErrUnresolvedPlaceholder]))))))"

fun resolveText :: "nat \<Rightarrow> environment \<Rightarrow> string set \<Rightarrow> string \<Rightarrow> string resolution" where
  "resolveText 0 lookup visited text = None"
| "resolveText (Suc fuel) lookup visited text =
     expand_text (resolvePlaceholder lookup (resolveText fuel lookup) visited) text"

section \<open>Lengths\<close>

lemma split_from_shorter:
  "split_from depth s = (key, d) \<Longrightarrow> length key \<le> length s \<and> (\<forall>text. d = Some text \<longrightarrow> length text < length s)"
proof (induction depth s arbitrary: key d rule: split_from.induct)
  case (2 depth c s)
  show ?case
  proof (cases "c = escapeCharacter \<and> s \<noteq> [] \<and> hd s = valueSeparator")
    case True
    then obtain s' where s: "s = valueSeparator # s'" by (cases s) auto
    obtain k d' where "split_from depth s' = (k, d')" by fastforce
    then show ?thesis using 2(1) [OF True, of k d'] 2(5) True s by (auto simp: Let_def)
  next
    case False
    then show ?thesis using 2(2-5) by (fastforce split: if_splits prod.splits)
  qed
qed simp

lemma placeholder_shorter:
  "placeholderAt (c # s) = Some (content, n) \<Longrightarrow> length content < length (c # s)"
  using closing_brace_bounds [of 0 2] by (fastforce simp: placeholderAt_def Let_def placeholderPrefix_def)

section \<open>Fuel\<close>

lemma written_None [simp]: "written out r = None \<longleftrightarrow> r = None"
  by (simp add: written_def)

lemma written_Some: "written out r = Some x \<longleftrightarrow> (\<exists>y. r = Some y \<and> x = map_sum id ((@) out) y)"
  by (auto simp: written_def)

lemma expand_text_mono:
  "expand_text f s = Some r \<Longrightarrow> (\<And>content r. f content = Some r \<Longrightarrow> g content = Some r) \<Longrightarrow> expand_text g s = Some r"
proof (induction f s arbitrary: r rule: expand_text.induct)
  case (2 f c s)
  then show ?case
    by (auto simp: written_Some split: option.splits sum.splits prod.splits if_splits)
qed simp

lemma resolvePlaceholder_mono:
  assumes "resolvePlaceholder lookup f visited content = Some r" "\<And>V t r. f V t = Some r \<Longrightarrow> g V t = Some r"
  shows "resolvePlaceholder lookup g visited content = Some r"
  using assms(1) by (auto simp: resolvePlaceholder_def assms(2) split: option.splits sum.splits prod.splits if_splits)

lemma more_fuel: "resolveText n lookup visited t = Some r \<Longrightarrow> n \<le> m \<Longrightarrow> resolveText m lookup visited t = Some r"
proof (induction n arbitrary: m visited t r)
  case (Suc n)
  then obtain k where m: "m = Suc k" "n \<le> k" by (cases m) auto
  show ?case
    using Suc.prems(1) m(1) resolvePlaceholder_mono [of lookup "resolveText n lookup" _ _ _ "resolveText k lookup"] Suc.IH [OF _ m(2)]
    by (auto intro: expand_text_mono)
qed simp

lemma expand_text_total:
  "(\<And>content. length content < length s \<Longrightarrow> f content \<noteq> None) \<Longrightarrow> expand_text f s \<noteq> None"
proof (induction f s rule: expand_text.induct)
  case (2 f c s)
  have call: "\<exists>r. f content = Some r" if "placeholderAt (c # s) = Some (content, n)" for content n
    using 2(4) placeholder_shorter [OF that] by blast
  have later: "expand_text f (drop n (c # s)) \<noteq> None"
    if "\<not> (c = escapeCharacter \<and> prefix placeholderPrefix s)" "prefix placeholderPrefix (c # s)"
      "placeholderAt (c # s) = Some (content, n)" "f content = Some (Inr r)" for content n r
    using that 2(2) [of "(content, n)" content n "Inr r" r] 2(4) placeholderAt_length [OF that(3)] by fastforce
  have jump: "expand_text f (drop (length placeholderPrefix) s) \<noteq> None"
    if "c = escapeCharacter \<and> prefix placeholderPrefix s" using that 2(1,4) by simp
  have step: "expand_text f s \<noteq> None" if "\<not> (c = escapeCharacter \<and> prefix placeholderPrefix s)"
    "\<not> prefix placeholderPrefix (c # s)" using that 2(3,4) by simp
  show ?case
  proof (cases "c = escapeCharacter \<and> prefix placeholderPrefix s")
    case True
    then show ?thesis using jump by (simp only: expand_text.simps(2) if_True written_None not_False_eq_True simp_thms)
  next
    case escape: False
    show ?thesis
    proof (cases "prefix placeholderPrefix (c # s)")
      case False
      then show ?thesis using step [OF escape False] escape by (simp only: expand_text.simps(2) if_False written_None not_False_eq_True)
    next
      case True
      note unfolded = expand_text.simps(2) [of f c s, unfolded Eq_FalseI [OF escape] Eq_TrueI [OF True] if_False if_True]
      show ?thesis
      proof (cases "placeholderAt (c # s)")
        case (Some p)
        obtain content n where p: "placeholderAt (c # s) = Some (content, n)" using Some by (cases p) auto
        obtain r where r: "f content = Some r" using call [OF p] by blast
        show ?thesis unfolding unfolded p using r later [OF escape True p] by (cases r) auto
      next
        case None
        then show ?thesis unfolding unfolded by simp
      qed
    qed
  qed
qed simp

text \<open>Enough fuel, when the keys that texts of the lengths at hand resolve to are in a finite set.\<close>

lemma enough_fuel:
  assumes "finite K" "\<And>v. v \<in> ran lookup \<Longrightarrow> length v \<le> M"
    and "\<And>n V c key v. length c \<le> M \<Longrightarrow> resolveText n lookup V c = Some (Inr key) \<Longrightarrow> lookup key = Some v \<Longrightarrow> key \<in> K"
  shows "length t \<le> M \<Longrightarrow> length t + card (K - visited) * (M + 1) < n \<Longrightarrow> resolveText n lookup visited t \<noteq> None"
proof (induction n arbitrary: visited t)
  case (Suc n)
  have "resolvePlaceholder lookup (resolveText n lookup) visited content \<noteq> None" if content: "length content < length t" for content
  proof -
    obtain keyText d where split: "splitPlaceholder content = (keyText, d)" by fastforce
    have shorter: "length keyText < length t" "\<And>u. d = Some u \<Longrightarrow> length u < length t"
      using split_from_shorter [OF split [unfolded splitPlaceholder_def]] content by auto
    have here: "resolveText n lookup visited u \<noteq> None" if "length u < length t" for u
      using Suc.IH [of u visited] Suc.prems that by linarith
    have deeper: "resolveText n lookup (insert key visited) v \<noteq> None"
      if "resolveText n lookup visited keyText = Some (Inr key)" "lookup key = Some v" "key \<notin> visited" for key v
    proof -
      have "key \<in> K - visited" using assms(3) [OF _ that(1,2)] that(3) shorter(1) Suc.prems(1) by simp
      moreover have "K - insert key visited = (K - visited) - {key}" by auto
      ultimately have "card (K - visited) = Suc (card (K - insert key visited))"
        using assms(1) by (metis card_Suc_Diff1 finite_Diff)
      moreover have v: "length v \<le> M" using that(2) by (intro assms(2)) (auto simp: ran_def)
      moreover have "0 < length t" using content by linarith
      ultimately have "length v + card (K - insert key visited) * (M + 1) < n" using Suc.prems by simp
      then show ?thesis by (rule Suc.IH [OF v])
    qed
    obtain r where r: "resolveText n lookup visited keyText = Some r" using here [OF shorter(1)] by blast
    show ?thesis using here [OF shorter(2)] deeper r
      by (fastforce simp: resolvePlaceholder_def split split: sum.splits option.splits)
  qed
  then show ?case using expand_text_total [of t] by simp
qed simp

text \<open>Keys in progress only ever turn a result into an error, so a text has one result.\<close>

lemma written_Inr: "written out x = Some (Inr r) \<longleftrightarrow> (\<exists>y. x = Some (Inr y) \<and> r = out @ y)"
proof (cases x)
  case (Some z)
  then show ?thesis by (cases z) (auto simp: written_def)
qed (simp add: written_def)

lemma expand_text_results:
  "expand_text f s = Some (Inr r) \<Longrightarrow> (\<And>content r. f content = Some (Inr r) \<Longrightarrow> g content = Some (Inr r)) \<Longrightarrow>
   expand_text g s = Some (Inr r)"
proof (induction f s arbitrary: r rule: expand_text.induct)
  case (2 f c s)
  show ?case
  proof (cases "c = escapeCharacter \<and> prefix placeholderPrefix s")
    case True
    note both = expand_text.simps(2) [of _ c s, unfolded Eq_TrueI [OF True] if_True]
    show ?thesis using 2(4) 2(1) [OF True _ 2(5)] unfolding both written_Inr by blast
  next
    case escape: False
    show ?thesis
    proof (cases "prefix placeholderPrefix (c # s)")
      case False
      note both = expand_text.simps(2) [of _ c s, unfolded Eq_FalseI [OF escape] Eq_FalseI [OF False] if_False]
      show ?thesis using 2(4) 2(3) [OF escape False _ 2(5)] unfolding both written_Inr by blast
    next
      case True
      note both = expand_text.simps(2) [of _ c s, unfolded Eq_FalseI [OF escape] Eq_TrueI [OF True] if_False if_True]
      show ?thesis
      proof (cases "placeholderAt (c # s)")
        case (Some p)
        obtain content n where p: "p = (content, n)" by fastforce
        then obtain x where x: "f content = Some (Inr x)" "written x (expand_text f (drop n (c # s))) = Some (Inr r)"
          using 2(4) Some unfolding both by (auto split: option.splits sum.splits)
        then obtain y where y: "expand_text f (drop n (c # s)) = Some (Inr y)" "r = x @ y" unfolding written_Inr by blast
        have "expand_text g (drop n (c # s)) = Some (Inr y)"
          using 2(2) [OF escape True Some p [symmetric] x(1) refl y(1) 2(5)] by blast
        then show ?thesis using Some p 2(5) [OF x(1)] y(2) unfolding both by (simp add: written_Inr)
      next
        case None
        then show ?thesis using 2(4) unfolding both by simp
      qed
    qed
  qed
qed simp

lemma resolvePlaceholder_Inr:
  "resolvePlaceholder lookup f V content = Some (Inr r) \<longleftrightarrow>
   (\<exists>keyText d key. splitPlaceholder content = (keyText, d) \<and> f V keyText = Some (Inr key) \<and>
      (case lookup key of
         Some v \<Rightarrow> key \<notin> V \<and> f (insert key V) v = Some (Inr r)
       | None \<Rightarrow> \<exists>u. d = Some u \<and> f V u = Some (Inr r)))"
proof -
  obtain keyText d where split: "splitPlaceholder content = (keyText, d)" by fastforce
  show ?thesis
  proof (cases "\<exists>key. f V keyText = Some (Inr key)")
    case True
    then obtain key where "f V keyText = Some (Inr key)" by blast
    then show ?thesis by (cases "lookup key"; cases d) (auto simp: resolvePlaceholder_def split)
  next
    case False
    then show ?thesis by (auto simp: resolvePlaceholder_def split split: option.split sum.split)
  qed
qed

lemma fewer_keys:
  "resolveText n lookup V t = Some (Inr r) \<Longrightarrow> V' \<subseteq> V \<Longrightarrow> resolveText n lookup V' t = Some (Inr r)"
proof (induction n arbitrary: V V' t r)
  case (Suc n)
  have "resolvePlaceholder lookup (resolveText n lookup) V' content = Some (Inr r')"
    if call: "resolvePlaceholder lookup (resolveText n lookup) V content = Some (Inr r')" for content r'
  proof -
    obtain keyText d key where key: "splitPlaceholder content = (keyText, d)" "resolveText n lookup V keyText = Some (Inr key)"
      and here: "case lookup key of Some v \<Rightarrow> key \<notin> V \<and> resolveText n lookup (insert key V) v = Some (Inr r')
        | None \<Rightarrow> \<exists>u. d = Some u \<and> resolveText n lookup V u = Some (Inr r')"
      using call unfolding resolvePlaceholder_Inr by blast
    have "case lookup key of Some v \<Rightarrow> key \<notin> V' \<and> resolveText n lookup (insert key V') v = Some (Inr r')
        | None \<Rightarrow> \<exists>u. d = Some u \<and> resolveText n lookup V' u = Some (Inr r')"
    proof (cases "lookup key")
      case None
      then show ?thesis using here Suc.IH [OF _ Suc.prems(2)] by auto
    next
      case (Some v)
      then show ?thesis using here Suc.IH [OF _ insert_mono [OF Suc.prems(2)], of key v r'] Suc.prems(2) by auto
    qed
    then show ?thesis using key(1) Suc.IH [OF key(2) Suc.prems(2)] unfolding resolvePlaceholder_Inr by blast
  qed
  then show ?case using expand_text_results [OF Suc.prems(1) [unfolded resolveText.simps]] by simp
qed simp

lemma one_result:
  assumes "resolveText n lookup V t = Some (Inr r)" "resolveText m lookup V' t = Some (Inr r')"
  shows "r = r'"
  using fewer_keys [OF more_fuel [OF assms(1), of "max n m"], of "{}"] fewer_keys [OF more_fuel [OF assms(2), of "max n m"], of "{}"]
  by simp

text \<open>So there are at most as many keys as texts they come from.\<close>

lemma few_keys:
  fixes M :: nat and lookup :: environment
  defines "K \<equiv> {key. \<exists>n V c. length c \<le> M \<and> resolveText n lookup V c = Some (Inr key)}"
  shows "finite K" "card K \<le> (\<Sum>i \<le> M. 256 ^ i)"
proof -
  let ?texts = "{c :: string. length c \<le> M}"
  define key_of where "key_of c = (SOME key. \<exists>n V. resolveText n lookup V c = Some (Inr key))" for c
  have "key_of c = key" if "resolveText n lookup V c = Some (Inr key)" for n V c key
    unfolding key_of_def by (rule some_equality) (use that one_result in blast)+
  then have sub: "K \<subseteq> key_of ` ?texts" unfolding K_def by force
  have fin: "finite ?texts" using finite_lists_length_le [of "UNIV :: char set" M] by simp
  show "finite K" by (rule finite_subset [OF sub]) (simp add: fin)
  have "card K \<le> card ?texts" using surj_card_le [OF fin sub] .
  also have "\<dots> = (\<Sum>i \<le> M. 256 ^ i)"
    using card_lists_length_le [of "UNIV :: char set" M] by (simp add: card_UNIV_char)
  finally show "card K \<le> (\<Sum>i \<le> M. 256 ^ i)" .
qed

text \<open>The errors a resolution ends with.\<close>

definition placeholder_error :: "goerror \<Rightarrow> bool" where
  "placeholder_error err \<longleftrightarrow> error_is err ErrUnresolvedPlaceholder \<or> error_is err ErrCircularPlaceholder"

lemma expand_text_error:
  "expand_text f s = Some (Inl err) \<Longrightarrow> (\<And>content e. f content = Some (Inl e) \<Longrightarrow> placeholder_error e) \<Longrightarrow> placeholder_error err"
proof (induction f s arbitrary: err rule: expand_text.induct)
  case (2 f c s)
  have inl: "map_sum id g y = Inl e \<longleftrightarrow> y = Inl e" for g :: "string \<Rightarrow> string" and y :: "goerror + string" and e
    by (cases y) auto
  have wrapped: "placeholder_error (Wrap ''%w in value %q'' [e])" if "placeholder_error e" for e
    using that by (auto simp: placeholder_error_def)
  from 2 wrapped show ?case
    by (auto simp: written_Some inl split: option.splits sum.splits prod.splits if_splits dest!: sym [where t = "map_sum _ _ _"])
qed simp

lemma resolveText_error: "resolveText n lookup visited t = Some (Inl err) \<Longrightarrow> placeholder_error err"
proof (induction n arbitrary: visited t err)
  case (Suc n)
  have "placeholder_error e" if "resolvePlaceholder lookup (resolveText n lookup) visited content = Some (Inl e)" for content e
    using that Suc.IH
    by (auto simp: resolvePlaceholder_def placeholder_error_def ErrCircularPlaceholder_def ErrUnresolvedPlaceholder_def
        split: prod.splits option.splits sum.splits if_splits)
  then show ?case using Suc.prems expand_text_error by fastforce
qed simp

section \<open>Properties\<close>

text \<open>An amount of fuel that always suffices: \<open>longest\<close> bounds the text and the values, the sum bounds
  the number of texts of that length and so of keys that can be in progress.\<close>

definition longest :: "environment \<Rightarrow> string \<Rightarrow> nat" where
  "longest lookup t = Max (length ` insert t (ran lookup))"

definition resolution_fuel :: "environment \<Rightarrow> string \<Rightarrow> nat" where
  "resolution_fuel lookup t = (let M = longest lookup t in Suc (length t + (\<Sum>i \<le> M. 256 ^ i) * (M + 1)))"

text \<open>C38: placeholder resolution always ends. Over any environment with finitely many values,
  however these refer to each other and themselves and however many names reach them (a relaxed
  name reaches the same variable as infinitely many others), resolving a text ends: with the fuel
  computed from the lengths of the text and of the values it has a result that no more fuel changes, a
  text or an error that is the unresolved-placeholder or the circular-placeholder one.\<close>

theorem resolution_always_ends:
  assumes "finite (ran lookup)"
  shows "\<exists>r. (\<forall>n \<ge> resolution_fuel lookup t. resolveText n lookup {} t = Some r) \<and>
    (\<forall>err. r = Inl err \<longrightarrow> error_is err ErrUnresolvedPlaceholder \<or> error_is err ErrCircularPlaceholder)"
proof -
  define M where "M = longest lookup t"
  have M: "length t \<le> M" "\<And>v. v \<in> ran lookup \<Longrightarrow> length v \<le> M" using assms by (auto simp: M_def longest_def)
  let ?K = "{key. \<exists>n V c. length c \<le> M \<and> resolveText n lookup V c = Some (Inr key)}"
  let ?n = "resolution_fuel lookup t"
  have "card (?K - {}) * (M + 1) \<le> (\<Sum>i \<le> M. 256 ^ i) * (M + 1)"
    using few_keys(2) [of M lookup] by (intro mult_right_mono) simp_all
  then have n: "length t + card (?K - {}) * (M + 1) < ?n" by (simp add: resolution_fuel_def Let_def flip: M_def)
  have "resolveText ?n lookup {} t \<noteq> None" by (rule enough_fuel [OF few_keys(1) M(2) _ M(1) n]) auto
  then obtain r where r: "resolveText ?n lookup {} t = Some r" by blast
  then have "\<forall>n \<ge> ?n. resolveText n lookup {} t = Some r" using more_fuel by blast
  moreover have "placeholder_error err" if "r = Inl err" for err using r that resolveText_error by blast
  ultimately show ?thesis unfolding placeholder_error_def by blast
qed

definition demo_cycle :: environment where
  "demo_cycle = [''a'' \<mapsto> ''${b}'', ''b'' \<mapsto> ''${a}'']"

lemma demo_cycle_result:
  "resolveText 20 demo_cycle {} ''${a}'' =
   Some (Inl (Wrap ''%w in value %q'' [Wrap ''%w in value %q'' [Wrap ''%w in value %q'' [Wrap ''%w: %q'' [ErrCircularPlaceholder]]]]))"
  by code_simp

theorem resolution_always_ends_witness:
  "resolveText (resolution_fuel demo_cycle ''${a}'') demo_cycle {} ''${a}'' =
   Some (Inl (Wrap ''%w in value %q'' [Wrap ''%w in value %q'' [Wrap ''%w in value %q'' [Wrap ''%w: %q'' [ErrCircularPlaceholder]]]]))"
proof -
  let ?n = "resolution_fuel demo_cycle ''${a}''"
  have "finite (ran demo_cycle)" by (simp add: demo_cycle_def ran_map_upd)
  then obtain r where n: "\<forall>n \<ge> ?n. resolveText n demo_cycle {} ''${a}'' = Some r"
    using resolution_always_ends [of demo_cycle "''${a}''"] by blast
  then have "resolveText (?n + 20) demo_cycle {} ''${a}'' = Some r" "resolveText ?n demo_cycle {} ''${a}'' = Some r" by simp_all
  moreover have "resolveText (?n + 20) demo_cycle {} ''${a}'' = resolveText 20 demo_cycle {} ''${a}''"
    using more_fuel [OF demo_cycle_result, of "?n + 20"] demo_cycle_result by simp
  ultimately show ?thesis using demo_cycle_result by auto
qed

text \<open>A text escaped with a backslash before every prefix is rendered literally.\<close>

fun escaped :: "string \<Rightarrow> string" where
  "escaped [] = []"
| "escaped (c # s) = (if prefix placeholderPrefix (c # s) then escapeCharacter # c # escaped s else c # escaped s)"

lemma escaped_head: "prefix [CHR ''{''] (escaped s) \<longleftrightarrow> prefix [CHR ''{''] s"
  by (cases s) (auto simp: escapeCharacter_def placeholderPrefix_def)

lemma expand_escaped: "expand_text f (escaped t) = Some (Inr t)"
proof (induction t rule: escaped.induct)
  case (2 c s)
  show ?case
  proof (cases "prefix placeholderPrefix (c # s)")
    case True
    then obtain s' where s: "c = CHR ''$''" "s = CHR ''{'' # s'" by (auto simp: placeholderPrefix_def prefix_def)
    have "escaped s = CHR ''{'' # escaped s'" by (simp add: s(2) placeholderPrefix_def)
    then have e: "escaped (c # s) = escapeCharacter # CHR ''$'' # CHR ''{'' # escaped s'" using True s(1) by simp
    have "expand_text f (CHR ''{'' # escaped s') = Some (Inr (CHR ''{'' # s'))"
      using 2(1) True s(2) \<open>escaped s = CHR ''{'' # escaped s'\<close> by simp
    then have "expand_text f (escaped s') = Some (Inr s')"
      by (cases "expand_text f (escaped s')") (auto simp: placeholderPrefix_def escapeCharacter_def written_def map_sum_def split: sum.splits)
    then show ?thesis unfolding s by (simp add: e [unfolded s] placeholderPrefix_def written_def del: escaped.simps)
  next
    case False
    have "\<not> prefix placeholderPrefix (escaped s)"
    proof (cases s)
      case (Cons d s')
      then show ?thesis by (auto simp: placeholderPrefix_def escapeCharacter_def escaped_head split: if_splits)
    qed (simp add: placeholderPrefix_def)
    moreover have "\<not> prefix placeholderPrefix (c # escaped s)"
      using False escaped_head [of s] by (auto simp: placeholderPrefix_def)
    ultimately show ?thesis using 2(2) False by (simp add: written_def)
  qed
qed simp

lemma escaped_text_is_literal: "resolveText (Suc n) lookup visited (escaped t) = Some (Inr t)"
  by (simp add: expand_escaped)

end
