(* ===== verification/ConfLoader.thy ===== *)
theory ConfLoader
  imports ConfPlaceholder "HOL-Library.AList"
begin

text \<open>
  Loading configuration (conf/loader.go and the tree walk of conf/placeholder.go): document
  sources overlaid in order, the placeholder environment, and the resolved tree handed to the
  binder. A decoded document is a JSON tree whose objects are association lists with distinct
  keys, in the order the iteration over the map happens to take; \<open>encoding/json\<close> is the parameter
  \<open>decode\<close>, files are read from the file system \<open>fs\<close> the load finds.
\<close>

section \<open>Trees\<close>

datatype json = JNull | JBool bool | JNumber string | JString string | JArray "json list"
  | JObject "(string \<times> json) list"

type_synonym tree = "(string \<times> json) list"

fun mergeTree :: "tree \<Rightarrow> tree \<Rightarrow> tree" and merge_value :: "json option \<Rightarrow> json \<Rightarrow> json" where
  "mergeTree base [] = base"
| "mergeTree base ((key, overlayValue) # overlay) =
     mergeTree (AList.update key (merge_value (map_of base key) overlayValue) base) overlay"
| "merge_value (Some (JObject baseChild)) (JObject overlayChild) = JObject (mergeTree baseChild overlayChild)"
| "merge_value present v = v"

fun resolveTree :: "nat \<Rightarrow> environment \<Rightarrow> json \<Rightarrow> json resolution"
  and resolve_fields :: "nat \<Rightarrow> environment \<Rightarrow> tree \<Rightarrow> tree resolution"
  and resolve_items :: "nat \<Rightarrow> environment \<Rightarrow> json list \<Rightarrow> json list resolution" where
  "resolveTree n lookup (JString s) = map_option (map_sum id JString) (resolveText n lookup {} s)"
| "resolveTree n lookup (JObject t) = map_option (map_sum id JObject) (resolve_fields n lookup t)"
| "resolveTree n lookup (JArray xs) = map_option (map_sum id JArray) (resolve_items n lookup xs)"
| "resolveTree n lookup JNull = Some (Inr JNull)"
| "resolveTree n lookup (JBool b) = Some (Inr (JBool b))"
| "resolveTree n lookup (JNumber s) = Some (Inr (JNumber s))"
| "resolve_fields n lookup [] = Some (Inr [])"
| "resolve_fields n lookup ((key, child) # t) = (case resolveTree n lookup child of
      None \<Rightarrow> None
    | Some (Inl err) \<Rightarrow> Some (Inl err)
    | Some (Inr resolved) \<Rightarrow> map_option (map_sum id (Cons (key, resolved))) (resolve_fields n lookup t))"
| "resolve_items n lookup [] = Some (Inr [])"
| "resolve_items n lookup (child # xs) = (case resolveTree n lookup child of
      None \<Rightarrow> None
    | Some (Inl err) \<Rightarrow> Some (Inl err)
    | Some (Inr resolved) \<Rightarrow> map_option (map_sum id (Cons resolved)) (resolve_items n lookup xs))"

section \<open>Names\<close>

fun splitPath :: "string \<Rightarrow> string list" where
  "splitPath [] = [[]]"
| "splitPath (c # s) = (if c = CHR ''.'' then [] # splitPath s
     else (case splitPath s of [] \<Rightarrow> [[c]] | segment # segments \<Rightarrow> (c # segment) # segments))"

fun environmentName :: "string \<Rightarrow> string" where
  "environmentName [] = []"
| "environmentName (c # s) =
     (let n = of_char c :: nat
      in if c = CHR ''-'' then environmentName s
         else if 97 \<le> n \<and> n \<le> 122 then char_of (n - 97 + 65) # environmentName s
         else if 65 \<le> n \<and> n \<le> 90 \<or> 48 \<le> n \<and> n \<le> 57 then c # environmentName s
         else CHR ''_'' # environmentName s)"

fun scalar_text :: "json \<Rightarrow> string option" where
  "scalar_text (JString s) = Some s"
| "scalar_text (JNumber s) = Some s"
| "scalar_text (JBool b) = Some (if b then ''true'' else ''false'')"
| "scalar_text _ = None"

fun value_at :: "json \<Rightarrow> string list \<Rightarrow> json option" where
  "value_at v [] = Some v"
| "value_at (JObject t) (segment # path) = (case map_of t segment of None \<Rightarrow> None | Some v \<Rightarrow> value_at v path)"
| "value_at _ (segment # path) = None"

definition documentValue :: "tree \<Rightarrow> string \<Rightarrow> string option" where
  "documentValue document path = Option.bind (value_at (JObject document) (splitPath path)) scalar_text"

section \<open>The loader\<close>

type_synonym reader = "string \<Rightarrow> goerror + string"

record document_source =
  source_name :: string
  source_optional :: bool
  source_read :: "reader \<Rightarrow> goerror + string"

record loader =
  l_sources :: "document_source list"
  l_lookup :: environment

type_synonym loader_option = "loader \<Rightarrow> loader"

definition add_source :: "document_source \<Rightarrow> loader_option" where
  "add_source s l = l\<lparr>l_sources := l_sources l @ [s]\<rparr>"

definition WithFile :: "string \<Rightarrow> loader_option" where
  "WithFile path = add_source \<lparr>source_name = path, source_optional = False, source_read = \<lambda>fs. fs path\<rparr>"

definition WithOptionalFile :: "string \<Rightarrow> loader_option" where
  "WithOptionalFile path = add_source \<lparr>source_name = path, source_optional = True, source_read = \<lambda>fs. fs path\<rparr>"

definition WithFilesystemFile :: "reader option \<Rightarrow> string \<Rightarrow> loader_option" where
  "WithFilesystemFile filesystem path l = (case filesystem of
      None \<Rightarrow> l
    | Some embedded \<Rightarrow> add_source \<lparr>source_name = path, source_optional = False, source_read = \<lambda>_. embedded path\<rparr> l)"

definition WithDocument :: "string \<Rightarrow> loader_option" where
  "WithDocument document = add_source \<lparr>source_name = ''inline document'', source_optional = False, source_read = \<lambda>_. Inr document\<rparr>"

definition WithLookup :: "environment option \<Rightarrow> loader_option" where
  "WithLookup lookup l = (case lookup of None \<Rightarrow> l | Some f \<Rightarrow> l\<lparr>l_lookup := f\<rparr>)"

definition NewLoader :: "environment \<Rightarrow> loader_option list \<Rightarrow> loader" where
  "NewLoader environment options = fold (\<lambda>f l. f l) options \<lparr>l_sources = [], l_lookup = environment\<rparr>"

definition ErrNotExist :: goerror where
  "ErrNotExist = Leaf ''file does not exist''"

text \<open>\<open>decodeDocument\<close> requires one JSON object; \<open>decode\<close> reads the first value and the rest.\<close>

definition decodeDocument :: "(string \<Rightarrow> goerror + (json \<times> bool)) \<Rightarrow> string \<Rightarrow> goerror + tree" where
  "decodeDocument decode document = (case decode document of
      Inl err \<Rightarrow> Inl err
    | Inr (v, more_values) \<Rightarrow> (case v of
        JObject t \<Rightarrow> if more_values then Inl (Leaf ''document contains more than one JSON value'') else Inr t
      | JNull \<Rightarrow> Inl (Leaf (if more_values then ''document contains more than one JSON value'' else ''document must be a JSON object''))
      | _ \<Rightarrow> Inl (Leaf ''json: cannot unmarshal into Go value of type map[string]interface {}'')))"

fun merge_sources ::
  "(string \<Rightarrow> goerror + (json \<times> bool)) \<Rightarrow> reader \<Rightarrow> document_source list \<Rightarrow> tree \<Rightarrow> goerror + tree" where
  "merge_sources decode fs [] merged = Inr merged"
| "merge_sources decode fs (source # sources) merged =
     (case source_read source fs of
        Inl err \<Rightarrow> (if source_optional source \<and> error_is err ErrNotExist then merge_sources decode fs sources merged
          else Inl (Wrap ''read configuration document %s: %w'' [err]))
      | Inr document \<Rightarrow> (case decodeDocument decode document of
          Inl err \<Rightarrow> Inl (Wrap ''decode configuration document %s: %w'' [err])
        | Inr t \<Rightarrow> merge_sources decode fs sources (mergeTree merged t)))"

definition chain_lookup :: "loader \<Rightarrow> tree \<Rightarrow> environment" where
  "chain_lookup l document name = (case l_lookup l name of
      Some v \<Rightarrow> Some v
    | None \<Rightarrow> (let relaxed = environmentName name
        in case (if relaxed \<noteq> name then l_lookup l relaxed else None) of
            Some v \<Rightarrow> Some v
          | None \<Rightarrow> documentValue document name))"

text \<open>\<open>Load\<close> up to the binding of the resolved tree onto the target.\<close>

definition load_tree ::
  "nat \<Rightarrow> (string \<Rightarrow> goerror + (json \<times> bool)) \<Rightarrow> reader \<Rightarrow> loader \<Rightarrow> json resolution" where
  "load_tree n decode fs l = (case merge_sources decode fs (l_sources l) [] of
      Inl err \<Rightarrow> Some (Inl err)
    | Inr merged \<Rightarrow> (let document = AList.delete ''$schema'' merged
        in resolveTree n (chain_lookup l document) (JObject document)))"

section \<open>Overlaying documents\<close>

text \<open>The scalar or array a tree holds at a path, and whether a tree settles what is at a path: it
  has a value there, or a value that is no object on the way.\<close>

definition leaf_at :: "json \<Rightarrow> string list \<Rightarrow> json option" where
  "leaf_at v path = (case value_at v path of Some (JObject t) \<Rightarrow> None | found \<Rightarrow> found)"

fun fixes_path :: "json \<Rightarrow> string list \<Rightarrow> bool" where
  "fixes_path (JObject t) [] = True"
| "fixes_path (JObject t) (segment # path) = (case map_of t segment of None \<Rightarrow> False | Some v \<Rightarrow> fixes_path v path)"
| "fixes_path _ path = True"

inductive well_formed :: "json \<Rightarrow> bool" where
  "(\<And>t. v = JObject t \<Longrightarrow> distinct (map fst t) \<and> (\<forall>(k, child) \<in> set t. well_formed child)) \<Longrightarrow> well_formed v"

inductive_simps well_formed_simps:
  "well_formed (JObject t)" "well_formed (JString s)" "well_formed (JNumber s)"

lemma well_formed_object: "well_formed (JObject t) \<Longrightarrow> distinct (map fst t) \<and> (\<forall>(k, child) \<in> set t. well_formed child)"
  by (erule well_formed.cases) auto

lemma well_formed_child: "well_formed (JObject t) \<Longrightarrow> map_of t k = Some v \<Longrightarrow> well_formed v"
  using well_formed_object map_of_SomeD by fastforce

lemma leaf_at_object:
  "leaf_at (JObject t) [] = None"
  "leaf_at (JObject t) (segment # path) = (case map_of t segment of None \<Rightarrow> None | Some v \<Rightarrow> leaf_at v path)"
  by (auto simp: leaf_at_def split: option.splits)

lemma leaf_at_beyond: "(\<And>t. v \<noteq> JObject t) \<Longrightarrow> leaf_at v (segment # path) = None"
  by (cases v) (auto simp: leaf_at_def)

lemma unsettled: "\<not> fixes_path v path \<Longrightarrow> leaf_at v path = None \<and> path \<noteq> []"
  by (induction v path rule: fixes_path.induct) (auto simp: leaf_at_object split: option.splits)

lemma map_of_mergeTree:
  "distinct (map fst overlay) \<Longrightarrow> map_of (mergeTree base overlay) k =
     (case map_of overlay k of None \<Rightarrow> map_of base k | Some v \<Rightarrow> Some (merge_value (map_of base k) v))"
proof (induction overlay arbitrary: base)
  case (Cons x overlay)
  obtain key v where x: "x = (key, v)" by fastforce
  show ?case
  proof (cases "k = key")
    case True
    then have "map_of overlay k = None" using Cons.prems x by (simp add: map_of_eq_None_iff)
    then show ?thesis using Cons x True by (simp add: AList.update_conv split: option.split)
  next
    case False
    then show ?thesis using Cons x by (simp add: AList.update_conv split: option.split)
  qed
qed simp

lemma leaf_at_merge:
  "well_formed v \<Longrightarrow> leaf_at (merge_value present v) path =
     (if fixes_path v path then leaf_at v path else (case present of None \<Rightarrow> None | Some b \<Rightarrow> leaf_at b path))"
proof (induction path arbitrary: present v)
  case Nil
  have "fixes_path v []" by (cases v) auto
  moreover have "leaf_at (merge_value present v) [] = leaf_at v []"
    by (cases v; cases present; cases "the present") (auto simp: leaf_at_object)
  ultimately show ?case by simp
next
  case (Cons segment path)
  show ?case
  proof (cases "\<exists>b o'. present = Some (JObject b) \<and> v = JObject o'")
    case True
    then obtain b o' where both: "present = Some (JObject b)" "v = JObject o'" by blast
    then show ?thesis
      using Cons.IH [of _ "map_of b segment"] well_formed_child [OF Cons.prems [unfolded both(2)]]
        well_formed_object [OF Cons.prems [unfolded both(2)]]
      by (auto simp: leaf_at_object map_of_mergeTree split: option.splits)
  next
    case False
    then have same: "merge_value present v = v" by (cases v; cases present; cases "the present") auto
    have "(case present of None \<Rightarrow> None | Some b \<Rightarrow> leaf_at b (segment # path)) = None" if "\<not> fixes_path v (segment # path)"
    proof -
      have "\<exists>o'. v = JObject o'" using that by (cases v) auto
      then show ?thesis using False leaf_at_beyond by (fastforce split: option.splits)
    qed
    then show ?thesis using unsettled same by (auto split: option.splits)
  qed
qed

text \<open>The documents a load overlays, the later ones last.\<close>

fun documents_of :: "(string \<Rightarrow> goerror + (json \<times> bool)) \<Rightarrow> reader \<Rightarrow> document_source list \<Rightarrow> tree list" where
  "documents_of decode fs [] = []"
| "documents_of decode fs (source # sources) =
     (case source_read source fs of
        Inl err \<Rightarrow> documents_of decode fs sources
      | Inr document \<Rightarrow> (case decodeDocument decode document of
          Inl err \<Rightarrow> documents_of decode fs sources
        | Inr t \<Rightarrow> t # documents_of decode fs sources))"

lemma merged_documents:
  "merge_sources decode fs sources base = Inr merged \<Longrightarrow> merged = foldl mergeTree base (documents_of decode fs sources)"
  by (induction decode fs sources base rule: merge_sources.induct) (auto split: sum.splits if_splits)

definition last_settled :: "tree list \<Rightarrow> string list \<Rightarrow> json option" where
  "last_settled documents path = (case find (\<lambda>t. fixes_path (JObject t) path) (rev documents) of
      None \<Rightarrow> None
    | Some t \<Rightarrow> leaf_at (JObject t) path)"

lemma leaf_at_documents:
  "(\<And>t. t \<in> set documents \<Longrightarrow> well_formed (JObject t)) \<Longrightarrow>
   leaf_at (JObject (foldl mergeTree [] documents)) path = last_settled documents path"
proof (induction documents rule: rev_induct)
  case Nil
  show ?case by (cases path) (simp_all add: last_settled_def leaf_at_object)
next
  case (snoc t documents)
  have "leaf_at (JObject (foldl mergeTree [] (documents @ [t]))) path =
      leaf_at (merge_value (Some (JObject (foldl mergeTree [] documents))) (JObject t)) path" by simp
  also have "\<dots> = (if fixes_path (JObject t) path then leaf_at (JObject t) path else last_settled documents path)"
    using snoc by (subst leaf_at_merge) auto
  also have "\<dots> = last_settled (documents @ [t]) path" by (simp add: last_settled_def)
  finally show ?case .
qed

section \<open>Resolving the tree\<close>

lemma map_sum_Inr [simp]: "map_sum id h y = Inr r \<longleftrightarrow> (\<exists>z. y = Inr z \<and> r = h z)"
  by (cases y) auto

lemma resolve_fields_map:
  "resolve_fields n lookup t = Some (Inr t') \<Longrightarrow>
   (case map_of t k of None \<Rightarrow> map_of t' k = None | Some v \<Rightarrow> \<exists>v'. resolveTree n lookup v = Some (Inr v') \<and> map_of t' k = Some v')"
proof (induction t arbitrary: t')
  case (Cons x t)
  obtain key child where x: "x = (key, child)" by fastforce
  obtain child' rest' where r: "resolveTree n lookup child = Some (Inr child')" "resolve_fields n lookup t = Some (Inr rest')"
    "t' = (key, child') # rest'"
    using Cons.prems x by (auto split: option.splits sum.splits)
  show ?case using Cons.IH [OF r(2)] r(1,3) x by (auto split: option.splits)
qed simp

lemma resolved_leaf:
  "resolveTree n lookup j = Some (Inr j') \<Longrightarrow>
   (case leaf_at j path of None \<Rightarrow> leaf_at j' path = None
    | Some v \<Rightarrow> \<exists>v'. resolveTree n lookup v = Some (Inr v') \<and> leaf_at j' path = Some v')"
proof (induction path arbitrary: j j')
  case Nil
  then show ?case by (cases j) (auto simp: leaf_at_def)
next
  case (Cons segment path)
  show ?case
  proof (cases "\<exists>t. j = JObject t")
    case True
    then obtain t t' where t: "j = JObject t" "j' = JObject t'" "resolve_fields n lookup t = Some (Inr t')"
      using Cons.prems by auto
    show ?thesis
    proof (cases "map_of t segment")
      case None
      then show ?thesis using resolve_fields_map [OF t(3), of segment] by (simp add: t(1,2) leaf_at_object)
    next
      case (Some v)
      then obtain v' where "resolveTree n lookup v = Some (Inr v')" "map_of t' segment = Some v'"
        using resolve_fields_map [OF t(3), of segment] by auto
      moreover have "leaf_at j' (segment # path) = leaf_at v' path" unfolding t(2) leaf_at_object using calculation(2) by simp
      moreover have "leaf_at j (segment # path) = leaf_at v path" unfolding t(1) leaf_at_object using Some by simp
      ultimately show ?thesis using Cons.IH [of v v'] by (auto split: option.split)
    qed
  next
    case False
    then have "\<And>t. j \<noteq> JObject t" "\<And>t. j' \<noteq> JObject t" using Cons.prems by (cases j; auto)+
    then show ?thesis by (simp add: leaf_at_beyond)
  qed
qed

section \<open>The environment of a load\<close>

text \<open>What a placeholder of the documents reads: the variable of that name, the variable of its
  relaxed name, or the scalar the overlaid documents hold at the path it spells.\<close>

definition configuration_environment :: "loader \<Rightarrow> tree list \<Rightarrow> environment" where
  "configuration_environment l documents name = (case l_lookup l name of
      Some v \<Rightarrow> Some v
    | None \<Rightarrow> (case l_lookup l (environmentName name) of
        Some v \<Rightarrow> Some v
      | None \<Rightarrow> if hd (splitPath name) = ''$schema'' then None
          else Option.bind (last_settled documents (splitPath name)) scalar_text))"

lemma splitPath_nonempty: "splitPath s \<noteq> []"
  by (cases s) (auto split: list.splits)

lemma scalar_leaf: "Option.bind (value_at v path) scalar_text = Option.bind (leaf_at v path) scalar_text"
  by (auto simp: leaf_at_def split: option.splits json.splits)

lemma without_schema:
  "leaf_at (JObject (AList.delete ''$schema'' merged)) (segment # path) =
   (if segment = ''$schema'' then None else leaf_at (JObject merged) (segment # path))"
  by (simp add: leaf_at_object AList.delete_conv)

lemma chain_environment:
  assumes "\<And>path. leaf_at (JObject merged) path = last_settled documents path"
  shows "chain_lookup l (AList.delete ''$schema'' merged) = configuration_environment l documents"
proof
  fix name
  obtain segment path where "splitPath name = segment # path" using splitPath_nonempty [of name] by (cases "splitPath name") auto
  then have "documentValue (AList.delete ''$schema'' merged) name = (if hd (splitPath name) = ''$schema'' then None
      else Option.bind (last_settled documents (splitPath name)) scalar_text)"
    unfolding documentValue_def scalar_leaf by (simp only: without_schema assms) simp
  then show "chain_lookup l (AList.delete ''$schema'' merged) name = configuration_environment l documents name"
    by (cases "l_lookup l name"; cases "l_lookup l (environmentName name)"; cases "environmentName name = name")
       (simp_all add: chain_lookup_def configuration_environment_def Let_def)
qed

section \<open>Properties\<close>

text \<open>C39: later documents win, key by key. When a load succeeds, the scalar or array at any path
  outside the \<open>$schema\<close> key is the one that the last document to settle that path holds there,
  with its placeholders resolved against the environment and then the overlaid documents
  themselves; where no document fixes_path the path, or the last one to do so has an object there,
  the loaded tree has no scalar at it.\<close>

theorem later_documents_win:
  assumes "load_tree n decode fs l = Some (Inr loaded)"
    and "documents = documents_of decode fs (l_sources l)" "\<And>t. t \<in> set documents \<Longrightarrow> well_formed (JObject t)"
    and "segment \<noteq> ''$schema''"
  shows "case last_settled documents (segment # path) of
      None \<Rightarrow> leaf_at loaded (segment # path) = None
    | Some v \<Rightarrow> \<exists>v'. resolveTree n (configuration_environment l documents) v = Some (Inr v') \<and>
        leaf_at loaded (segment # path) = Some v'"
proof -
  obtain merged where m: "merge_sources decode fs (l_sources l) [] = Inr merged"
    using assms(1) by (auto simp: load_tree_def split: sum.splits)
  have leaf: "leaf_at (JObject merged) p = last_settled documents p" for p
    using leaf_at_documents [OF assms(3)] merged_documents [OF m] assms(2) by simp
  have "resolveTree n (configuration_environment l documents) (JObject (AList.delete ''$schema'' merged)) = Some (Inr loaded)"
    using assms(1) m chain_environment [OF leaf] by (simp add: load_tree_def Let_def)
  from resolved_leaf [OF this, of "segment # path"] show ?thesis
    by (simp only: without_schema leaf assms(4) if_False)
qed

text \<open>Two documents; the second overrides one key and refers back to another.\<close>

definition demo_decode :: "string \<Rightarrow> goerror + (json \<times> bool)" where
  "demo_decode document = Inr (if document = ''defaults''
     then JObject [(''server'', JObject [(''host'', JString ''local''), (''port'', JNumber ''80'')])]
     else JObject [(''server'', JObject [(''host'', JString ''web-${server.port}'')])], False)"

definition demo_loader :: loader where
  "demo_loader = NewLoader Map.empty [WithDocument ''defaults'', WithDocument ''override'']"

lemma demo_loaded:
  "load_tree 10 demo_decode (\<lambda>_. Inl ErrNotExist) demo_loader =
   Some (Inr (JObject [(''server'', JObject [(''host'', JString ''web-80''), (''port'', JNumber ''80'')])]))"
  by code_simp

lemma demo_documents: "documents_of demo_decode (\<lambda>_. Inl ErrNotExist) (l_sources demo_loader) =
   [[(''server'', JObject [(''host'', JString ''local''), (''port'', JNumber ''80'')])],
    [(''server'', JObject [(''host'', JString ''web-${server.port}'')])]]"
  by code_simp

abbreviation demo_trees :: "tree list" where
  "demo_trees \<equiv> [[(''server'', JObject [(''host'', JString ''local''), (''port'', JNumber ''80'')])],
     [(''server'', JObject [(''host'', JString ''web-${server.port}'')])]]"

lemma demo_path_settled:
  "last_settled demo_trees [''server'', ''host''] = Some (JString ''web-${server.port}'')"
  "leaf_at (JObject [(''server'', JObject [(''host'', JString ''web-80''), (''port'', JNumber ''80'')])]) [''server'', ''host''] =
     Some (JString ''web-80'')"
  by code_simp+

theorem later_documents_win_witness:
  "\<exists>v'. resolveTree 10 (configuration_environment demo_loader demo_trees) (JString ''web-${server.port}'') = Some (Inr v') \<and>
    v' = JString ''web-80''"
proof -
  let ?loaded = "JObject [(''server'', JObject [(''host'', JString ''web-80''), (''port'', JNumber ''80'')])]"
  have "case last_settled demo_trees (''server'' # [''host'']) of
      None \<Rightarrow> leaf_at ?loaded (''server'' # [''host'']) = None
    | Some v \<Rightarrow> \<exists>v'. resolveTree 10 (configuration_environment demo_loader demo_trees) v = Some (Inr v') \<and>
        leaf_at ?loaded (''server'' # [''host'']) = Some v'"
    by (rule later_documents_win [OF demo_loaded demo_documents [symmetric]]) (auto simp: well_formed_simps)
  then show ?thesis unfolding demo_path_settled option.case by (metis option.inject)
qed

end
