(* ===== verification/ConfBinder.thy ===== *)
theory ConfBinder
  imports ConfFields ConfLoader
begin

text \<open>
  Binding the resolved document onto a Go struct (conf/binder.go). The target is a value of its
  type and binding returns it as it is afterwards, with the error if there was one: a failing
  binding leaves what it had bound. Objects are bound in the order of their association list,
  which stands for the order the iteration over the map happens to take. Floating-point numbers,
  \<open>time.ParseDuration\<close> and the \<open>UnmarshalText\<close> methods of the program's types are parameters.
\<close>

record 'f go_env =
  ge_zero :: 'f
  ge_parse_float :: "string \<Rightarrow> goerror + 'f"
  ge_overflow_float :: "nat \<Rightarrow> 'f \<Rightarrow> bool"
  ge_round_float :: "nat \<Rightarrow> 'f \<Rightarrow> 'f"
  ge_parse_duration :: "string \<Rightarrow> goerror + int"
  ge_unmarshaler :: "go_type \<Rightarrow> (string \<Rightarrow> 'f go_value \<Rightarrow> goerror option \<times> 'f go_value) option"

type_synonym 'f binding = "goerror option \<times> 'f go_value"

definition ErrUnknownKey :: goerror where
  "ErrUnknownKey = Leaf ''configuration key is not recognized''"

definition ErrTypeMismatch :: goerror where
  "ErrTypeMismatch = Leaf ''configuration value cannot be converted''"

definition mismatch :: "string \<Rightarrow> goerror option \<Rightarrow> goerror" where
  "mismatch path cause = (case cause of
      Some err \<Rightarrow> Wrap (''%w: %v does not fit %s at '' @ path @ '': %w'') [ErrTypeMismatch, err]
    | None \<Rightarrow> Wrap (''%w: %v does not fit %s at '' @ path) [ErrTypeMismatch])"

definition refused :: "string \<Rightarrow> goerror option \<Rightarrow> 'f go_value \<Rightarrow> 'f binding" where
  "refused path cause v = (Some (mismatch path cause), v)"

section \<open>Scalars\<close>

fun numericText :: "json \<Rightarrow> string option" where
  "numericText (JNumber s) = Some s"
| "numericText (JString s) = Some (TrimSpace s)"
| "numericText _ = None"

fun bindDuration :: "'f go_env \<Rightarrow> json \<Rightarrow> string \<Rightarrow> 'f go_value \<Rightarrow> 'f binding" where
  "bindDuration env (JString s) path v = (case ge_parse_duration env (TrimSpace s) of
      Inl err \<Rightarrow> refused path (Some err) v
    | Inr duration \<Rightarrow> (None, VInt duration))"
| "bindDuration env (JNumber s) path v = (case ParseInt s of
      Inl err \<Rightarrow> refused path (Some err) v
    | Inr nanoseconds \<Rightarrow> (None, VInt nanoseconds))"
| "bindDuration env _ path v = refused path None v"

fun bindBool :: "json \<Rightarrow> string \<Rightarrow> 'f go_value \<Rightarrow> 'f binding" where
  "bindBool (JBool b) path v = (None, VBool b)"
| "bindBool (JString s) path v =
     (let token = ToLower (TrimSpace s)
      in if token \<in> {''true'', ''on'', ''yes'', ''1''} then (None, VBool True)
         else if token \<in> {''false'', ''off'', ''no'', ''0''} then (None, VBool False)
         else refused path None v)"
| "bindBool _ path v = refused path None v"

definition bindInteger :: "nat \<Rightarrow> json \<Rightarrow> string \<Rightarrow> 'f go_value \<Rightarrow> 'f binding" where
  "bindInteger b value path v = (case numericText value of
      None \<Rightarrow> refused path None v
    | Some s \<Rightarrow> (case ParseInt s of
        Inl err \<Rightarrow> refused path (Some err) v
      | Inr parsed \<Rightarrow> if OverflowInt b parsed then refused path None v else (None, VInt parsed)))"

definition bindUnsigned :: "nat \<Rightarrow> json \<Rightarrow> string \<Rightarrow> 'f go_value \<Rightarrow> 'f binding" where
  "bindUnsigned b value path v = (case numericText value of
      None \<Rightarrow> refused path None v
    | Some s \<Rightarrow> (case ParseUint s of
        Inl err \<Rightarrow> refused path (Some err) v
      | Inr parsed \<Rightarrow> if OverflowUint b parsed then refused path None v else (None, VUint parsed)))"

definition bindFloat :: "'f go_env \<Rightarrow> nat \<Rightarrow> json \<Rightarrow> string \<Rightarrow> 'f go_value \<Rightarrow> 'f binding" where
  "bindFloat env b value path v = (case numericText value of
      None \<Rightarrow> refused path None v
    | Some s \<Rightarrow> (case ge_parse_float env s of
        Inl err \<Rightarrow> refused path (Some err) v
      | Inr parsed \<Rightarrow> if ge_overflow_float env b parsed then refused path None v
          else (None, VFloat (ge_round_float env b parsed))))"

fun bindString :: "json \<Rightarrow> string \<Rightarrow> 'f go_value \<Rightarrow> 'f binding" where
  "bindString (JString s) path v = (None, VString s)"
| "bindString (JNumber s) path v = (None, VString s)"
| "bindString (JBool b) path v = (None, VString (if b then ''true'' else ''false''))"
| "bindString _ path v = refused path None v"

fun normalize :: "'f go_env \<Rightarrow> json \<Rightarrow> 'f dynamic"
  and normalize_fields :: "'f go_env \<Rightarrow> tree \<Rightarrow> string \<Rightarrow> 'f dynamic option"
  and normalize_items :: "'f go_env \<Rightarrow> json list \<Rightarrow> 'f dynamic list" where
  "normalize env (JNumber s) = (case ParseInt s of
      Inr n \<Rightarrow> DInt n
    | Inl _ \<Rightarrow> (case ge_parse_float env s of Inr f \<Rightarrow> DFloat f | Inl _ \<Rightarrow> DString s))"
| "normalize env (JObject t) = DMap (normalize_fields env t)"
| "normalize env (JArray xs) = DList (normalize_items env xs)"
| "normalize env (JString s) = DString s"
| "normalize env (JBool b) = DBool b"
| "normalize env JNull = DNil"
| "normalize_fields env [] = Map.empty"
| "normalize_fields env ((key, child) # t) = (normalize_fields env t)(key \<mapsto> normalize env child)"
| "normalize_items env [] = []"
| "normalize_items env (child # xs) = normalize env child # normalize_items env xs"

section \<open>Values\<close>

definition pointee :: "go_type \<Rightarrow> go_type option" where
  "pointee T = (case underlying T of TPointer U \<Rightarrow> Some U | _ \<Rightarrow> None)"

fun array_items :: "json \<Rightarrow> json list option" where
  "array_items (JArray elements) = Some elements"
| "array_items _ = None"

fun object_entries :: "json \<Rightarrow> tree option" where
  "object_entries (JObject t) = Some t"
| "object_entries _ = None"

fun array_values :: "'f go_value \<Rightarrow> 'f go_value list" where
  "array_values (VArray vs) = vs"
| "array_values _ = []"

text \<open>A string for a type that unmarshals text.\<close>

definition bind_text :: "'f go_env \<Rightarrow> go_type \<Rightarrow> json \<Rightarrow> string \<Rightarrow> 'f go_value \<Rightarrow> 'f binding option" where
  "bind_text env T value path v = (case value of
      JString s \<Rightarrow> map_option (\<lambda>unmarshal. case unmarshal s v of
          (None, v') \<Rightarrow> (None, v')
        | (Some err, v') \<Rightarrow> refused path (Some err) v') (ge_unmarshaler env T)
    | _ \<Rightarrow> None)"

lemma pointer_size: "pointee T = Some U \<Longrightarrow> size U < size T"
  using underlying_size [of T] by (auto simp: pointee_def split: go_type.splits)

lemma items_size: "array_items j = Some elements \<Longrightarrow> size_list size elements < size j"
  by (cases j) auto

lemma entries_size: "object_entries j = Some t \<Longrightarrow> size_list (size_prod (\<lambda>_. 0) size) t < size j"
  by (cases j) auto

function (sequential) bindValue :: "'f go_env \<Rightarrow> go_type \<Rightarrow> json \<Rightarrow> string \<Rightarrow> 'f go_value \<Rightarrow> 'f binding"
  and bindStruct :: "'f go_env \<Rightarrow> struct_field list \<Rightarrow> tree \<Rightarrow> string \<Rightarrow> 'f go_value \<Rightarrow> 'f binding"
  and bind_elements :: "'f go_env \<Rightarrow> go_type \<Rightarrow> json list \<Rightarrow> nat \<Rightarrow> string \<Rightarrow> 'f go_value list \<Rightarrow>
    goerror option \<times> 'f go_value list"
  and bind_entries :: "'f go_env \<Rightarrow> go_type \<Rightarrow> tree \<Rightarrow> string \<Rightarrow> (string \<Rightarrow> 'f go_value option) \<Rightarrow>
    goerror + (string \<Rightarrow> 'f go_value option)" where
  "bindValue env T value path v =
     (if value = JNull then (None, v)
      else (case pointee T of
        Some U \<Rightarrow> map_prod id (VPointer \<circ> Some)
          (bindValue env U value path (case v of VPointer (Some u) \<Rightarrow> u | _ \<Rightarrow> zero_value (ge_zero env) U))
      | None \<Rightarrow>
        (if T = TDuration then bindDuration env value path v
         else (case bind_text env T value path v of
           Some bound \<Rightarrow> bound
         | None \<Rightarrow> (case underlying T of
             TInterface methods \<Rightarrow> if methods then refused path None v else (None, VInterface (normalize env value))
           | TBool \<Rightarrow> bindBool value path v
           | TInt b \<Rightarrow> bindInteger b value path v
           | TUint b \<Rightarrow> bindUnsigned b value path v
           | TFloat b \<Rightarrow> bindFloat env b value path v
           | TString \<Rightarrow> bindString value path v
           | TSlice U \<Rightarrow> (case array_items value of
               None \<Rightarrow> refused path None v
             | Some elements \<Rightarrow>
                 (case bind_elements env U elements 0 path (replicate (length elements) (zero_value (ge_zero env) U)) of
                   (Some err, _) \<Rightarrow> (Some err, v)
                 | (None, vs) \<Rightarrow> (None, VSlice (Some vs))))
           | TArray n U \<Rightarrow> (case array_items value of
               None \<Rightarrow> refused path None v
             | Some elements \<Rightarrow> if length elements \<noteq> n then refused path None v
                 else map_prod id VArray (bind_elements env U elements 0 path (array_values v)))
           | TMap K U \<Rightarrow> (case object_entries value of
               None \<Rightarrow> refused path None v
             | Some entries \<Rightarrow> if underlying K \<noteq> TString then refused path None v
                 else (case bind_entries env U entries path Map.empty of
                     Inl err \<Rightarrow> (Some err, v)
                   | Inr m \<Rightarrow> (None, VMap (Some m))))
           | TStruct fs \<Rightarrow> (case object_entries value of
               None \<Rightarrow> refused path None v
             | Some entries \<Rightarrow> bindStruct env fs entries path v)
           | _ \<Rightarrow> refused path None v)))))"
| "bindStruct env fs [] path v = (None, v)"
| "bindStruct env fs ((key, child) # entries) path v =
     (case structFields fs key of
        None \<Rightarrow> (Some (Wrap (''%w: '' @ childPath path key) [ErrUnknownKey]), v)
      | Some field \<Rightarrow> (case fieldByIndex (ge_zero env) (TStruct fs) True (vf_index field) v of
          (Some err, v1) \<Rightarrow> (Some err, v1)
        | (None, v1) \<Rightarrow> (case bindValue env (f_type (vf_field field)) child (childPath path key)
              (the (value_in (vf_index field) v1)) of
            (Some err, x) \<Rightarrow> (Some err, set_in (vf_index field) x v1)
          | (None, x) \<Rightarrow> bindStruct env fs entries path (set_in (vf_index field) x v1))))"
| "bind_elements env U [] i path vs = (None, vs)"
| "bind_elements env U (child # elements) i path [] = (None, [])"
| "bind_elements env U (child # elements) i path (x # vs) =
     (case bindValue env U child (elementPath path i) x of
        (Some err, y) \<Rightarrow> (Some err, y # vs)
      | (None, y) \<Rightarrow> map_prod id (Cons y) (bind_elements env U elements (Suc i) path vs))"
| "bind_entries env U [] path m = Inr m"
| "bind_entries env U ((key, child) # entries) path m =
     (case bindValue env U child (childPath path key) (zero_value (ge_zero env) U) of
        (Some err, _) \<Rightarrow> Inl err
      | (None, x) \<Rightarrow> bind_entries env U entries path (m(key \<mapsto> x)))"
  by pat_completeness auto

termination
  by (relation "measures
        [case_sum (case_sum (\<lambda>(_, _, j, _, _). size j) (\<lambda>(_, _, t, _, _). size_list (size_prod (\<lambda>_. 0) size) t))
          (case_sum (\<lambda>(_, _, xs, _, _, _). size_list size xs) (\<lambda>(_, _, t, _, _). size_list (size_prod (\<lambda>_. 0) size) t)),
         case_sum (case_sum (\<lambda>(_, T, _, _, _). size T) (\<lambda>_. 0)) (\<lambda>_. 0)]")
     (auto dest: pointer_size items_size entries_size)

declare bindValue.simps [simp del]

text \<open>The target: what \<open>reflect\<close> finds behind the interface, of which type.\<close>

definition bind_onto :: "'f go_env \<Rightarrow> tree \<Rightarrow> go_type \<Rightarrow> 'f go_value \<Rightarrow> 'f binding" where
  "bind_onto env t T v = (case (underlying T, v) of
      (TPointer U, VPointer (Some u)) \<Rightarrow>
        (if (case underlying U of TStruct _ \<Rightarrow> False | _ \<Rightarrow> True)
         then (Some (Leaf ''configuration target must point to a struct, not %s''), v)
         else map_prod id (VPointer \<circ> Some) (bindValue env U (JObject t) [] u))
    | _ \<Rightarrow> (Some (Leaf ''configuration target must be a non-nil pointer to a struct''), v))"

section \<open>Loading\<close>

definition Load ::
  "nat \<Rightarrow> 'f go_env \<Rightarrow> (string \<Rightarrow> goerror + (json \<times> bool)) \<Rightarrow> reader \<Rightarrow> loader \<Rightarrow> go_type \<Rightarrow> 'f go_value \<Rightarrow> 'f binding option" where
  "Load n env decode fs l T v = (case load_tree n decode fs l of
      None \<Rightarrow> None
    | Some (Inl err) \<Rightarrow> Some (Some err, v)
    | Some (Inr resolved) \<Rightarrow> Some (bind_onto env (the (object_entries resolved)) T v))"

end
