(* ===== verification/ConfPaths.thy ===== *)
theory ConfPaths
  imports ConfBinder
begin

text \<open>
  Where the fields of conf/binder.go lie: the visible fields come in the order of their index
  paths, fields of different document names lie on incomparable paths, and a change at one path
  commutes with a change at another.
\<close>

section \<open>The order of the walk\<close>

abbreviation walk_order :: "(nat list \<times> nat list) set" where
  "walk_order \<equiv> lexord less_than"

lemma walk_order_next: "i < i' \<Longrightarrow> (outer @ i # is, outer @ i' # is') \<in> walk_order"
  by (auto simp: lexord_def)

lemma walk_order_down: "(outer, outer @ i # is) \<in> walk_order"
  by (auto simp: lexord_def)

lemma walk_order_trans: "(x, y) \<in> walk_order \<Longrightarrow> (y, z) \<in> walk_order \<Longrightarrow> (x, z) \<in> walk_order"
  using lexord_trans [OF _ _ trans_less_than] .

lemma walk_order_asym: "(x, y) \<in> walk_order \<Longrightarrow> (y, x) \<notin> walk_order"
  by (rule lexord_asymmetric) (simp add: asym_less_than)

fun field_at :: "struct_field list \<Rightarrow> nat list \<Rightarrow> struct_field option" where
  "field_at fs [] = None"
| "field_at fs [i] = (if i < length fs then Some (fs ! i) else None)"
| "field_at fs (i # j # index) = (if i < length fs \<and> f_anonymous (fs ! i)
     then Option.bind (embedded_fields (f_type (fs ! i))) (\<lambda>inner. field_at inner (j # index)) else None)"

lemma field_at_shift: "field_at (f # fs) (Suc i # index) = field_at fs (i # index)"
  by (cases index) auto

text \<open>The place of a visible field, whether hidden since or not.\<close>

definition place :: "visible_field \<Rightarrow> nat list \<times> struct_field" where
  "place e = (vf_index e, vf_field e)"

lemma hide_place: "map place (seen[k := hide (seen ! k)]) = map place seen"
proof (cases "k < length seen")
  case True
  then show ?thesis by (simp add: map_update place_def hide_def list_update_same_conv)
qed (simp add: list_update_beyond)

lemma add_visible_cases:
  "map place (add_visible f index seen) = map place seen \<or> map place (add_visible f index seen) = map place seen @ [(index, f)]"
  using hide_place [of seen] by (auto simp: place_def Let_def)

declare add_visible.simps [simp del]

definition walked :: "nat list \<Rightarrow> nat \<Rightarrow> struct_field list \<Rightarrow> (nat list \<times> struct_field) list \<Rightarrow> bool" where
  "walked outer i fs new \<longleftrightarrow>
     (\<forall>(index, f) \<in> set new. \<exists>k after. index = outer @ (i + k) # after \<and> field_at fs (k # after) = Some f) \<and>
     sorted_wrt (\<lambda>x y. (x, y) \<in> walk_order) (map fst new)"

lemma walk_places: "\<exists>new. map place (walk_fields outer i fs seen) = map place seen @ new \<and> walked outer i fs new"
proof (induction outer i fs seen rule: walk_fields.induct)
  case (1 outer i seen)
  then show ?case by (simp add: walked_def)
next
  case (2 outer i f fs seen)
  let ?index = "outer @ [i]"
  let ?entered = "add_visible f ?index seen"
  let ?inner = "if f_anonymous f then embedded_fields (f_type f) else None"
  let ?promoted = "case ?inner of None \<Rightarrow> ?entered | Some inner \<Rightarrow> walk_fields ?index 0 inner ?entered"
  obtain own where own: "map place ?entered = map place seen @ own" "own = [] \<or> own = [(?index, f)]"
    using add_visible_cases [of f ?index seen] by auto
  obtain nested where nested: "map place ?promoted = map place ?entered @ nested"
    "\<forall>(index, g) \<in> set nested. \<exists>j after. index = outer @ i # j # after \<and> field_at (f # fs) (0 # j # after) = Some g"
    "sorted_wrt (\<lambda>x y. (x, y) \<in> walk_order) (map fst nested)"
  proof (cases ?inner)
    case None
    then show ?thesis using that [of "[]"] by simp
  next
    case (Some inner)
    obtain new where "map place (walk_fields ?index 0 inner ?entered) = map place ?entered @ new" "walked ?index 0 inner new"
      using 2(1) [OF refl refl Some] by blast
    then show ?thesis using that [of new] Some by (fastforce simp: walked_def split: if_splits)
  qed
  obtain later where later: "map place (walk_fields outer (Suc i) fs ?promoted) = map place ?promoted @ later"
    "walked outer (Suc i) fs later"
    using 2(2) [OF refl refl refl] by blast
  have own_at: "index = outer @ i # [] \<and> g = f" if "(index, g) \<in> set own" for index g using own(2) that by auto
  have nested_at: "\<exists>j after. index = outer @ i # j # after \<and> field_at (f # fs) (0 # j # after) = Some g"
    if "(index, g) \<in> set nested" for index g using nested(2) that by blast
  have later_at: "\<exists>k after. index = outer @ (Suc i + k) # after \<and> field_at fs (k # after) = Some g"
    if "(index, g) \<in> set later" for index g using later(2) that unfolding walked_def by blast
  have "sorted_wrt (\<lambda>x y. (x, y) \<in> walk_order) (map fst own)" using own(2) by auto
  moreover have "(x, y) \<in> walk_order" if "(x, g) \<in> set own" "(y, h) \<in> set nested" for x y g h
    using own_at [OF that(1)] nested_at [OF that(2)] walk_order_down [of "outer @ [i]"] by auto
  moreover have "(x, y) \<in> walk_order" if xg: "(x, g) \<in> set own \<or> (x, g) \<in> set nested" and yh: "(y, h) \<in> set later" for x y g h
  proof -
    obtain after where "x = outer @ i # after" using xg own_at nested_at by blast
    moreover obtain k after' where "y = outer @ (Suc i + k) # after'" using later_at [OF yh] by blast
    ultimately show ?thesis using walk_order_next [of i "Suc i + k"] by simp
  qed
  ultimately have "sorted_wrt (\<lambda>x y. (x, y) \<in> walk_order) (map fst (own @ nested @ later))"
    using nested(3) later(2) unfolding map_append sorted_wrt_append walked_def by fastforce
  moreover have "\<exists>k after. index = outer @ (i + k) # after \<and> field_at (f # fs) (k # after) = Some g"
    if g: "(index, g) \<in> set (own @ nested @ later)" for index g
  proof -
    consider "(index, g) \<in> set own" | "(index, g) \<in> set nested" | "(index, g) \<in> set later" using g by auto
    then show ?thesis
    proof cases
      case 1
      from own_at [OF 1] show ?thesis by (auto intro!: exI [of _ 0])
    next
      case 2
      from nested_at [OF 2] show ?thesis by (metis add_0_right)
    next
      case 3
      then obtain k after where "index = outer @ (Suc i + k) # after" "field_at fs (k # after) = Some g"
        using later_at by blast
      then show ?thesis by (intro exI [of _ "Suc k"] exI [of _ after]) (simp add: field_at_shift)
    qed
  qed
  ultimately have "walked outer i (f # fs) (own @ nested @ later)" by (auto simp: walked_def)
  moreover have "map place (walk_fields outer i (f # fs) seen) = map place seen @ own @ nested @ later"
    unfolding walk_fields.simps Let_def later(1) nested(1) own(1) by simp
  ultimately show ?case by blast
qed

text \<open>The visible fields: in walk order, each the field at its index path.\<close>

definition placed :: "struct_field list \<Rightarrow> visible_field list \<Rightarrow> bool" where
  "placed fs es \<longleftrightarrow> sorted_wrt (\<lambda>x y. (vf_index x, vf_index y) \<in> walk_order) es \<and>
     (\<forall>e \<in> set es. field_at fs (vf_index e) = Some (vf_field e))"

lemma visible_placed: "placed fs (VisibleFields fs)"
proof -
  obtain new where new: "map place (walk_fields [] 0 fs []) = new" "walked [] 0 fs new"
    using walk_places [of "[]" 0 fs "[]"] by auto
  have "sorted_wrt (\<lambda>x y. (x, y) \<in> walk_order) (map vf_index (walk_fields [] 0 fs []))"
    using new by (auto simp: walked_def place_def comp_def simp flip: new(1))
  moreover have "field_at fs (vf_index e) = Some (vf_field e)" if "e \<in> set (walk_fields [] 0 fs [])" for e
  proof -
    have "(vf_index e, vf_field e) \<in> set new" using that by (force simp: place_def simp flip: new(1))
    then show ?thesis using new(2) by (fastforce simp: walked_def)
  qed
  ultimately show ?thesis by (auto simp: placed_def VisibleFields_def sorted_wrt_map sorted_wrt_filter)
qed

lemma placed_Cons: "placed fs (e # es) \<Longrightarrow> placed fs es \<and> field_at fs (vf_index e) = Some (vf_field e) \<and>
    (\<forall>e' \<in> set es. (vf_index e, vf_index e') \<in> walk_order)"
  by (auto simp: placed_def)

text \<open>What lies beneath a field is promoted through an embedded struct.\<close>

lemma underlying_proper [simp]: "underlying T \<noteq> TNamed n U" "underlying T \<noteq> TDuration"
  by (induction T rule: underlying.induct) auto

lemma dereference_struct: "underlying T = TStruct gs \<Longrightarrow> dereference T = T"
  by (cases T) auto

lemma embedded_struct: "embedded_fields T = Some gs \<Longrightarrow> underlying (dereference T) = TStruct gs"
proof (induction T)
  case (TNamed n T)
  have "embedded_fields T = embedded_fields (TNamed n T)" by (simp add: embedded_fields_def)
  then have "underlying (dereference T) = TStruct gs" using TNamed by simp
  moreover have "underlying T = TStruct gs" if "\<And>U. underlying T \<noteq> TPointer U"
    using TNamed.prems that by (auto simp: embedded_fields_def split: go_type.splits)
  ultimately show ?case by (cases "underlying T") auto
next
  case (TPointer T)
  then have "underlying T = TStruct gs" by (auto simp: embedded_fields_def split: go_type.splits)
  then show ?case by (simp add: dereference_struct)
qed (auto simp: embedded_fields_def)

lemma field_at_prefix: "field_at fs (index @ i # after) = Some g \<Longrightarrow> field_at fs index = Some f \<Longrightarrow> anonymous_struct f"
proof (induction fs index rule: field_at.induct)
  case (2 fs j)
  then have "f_anonymous f" "embedded_fields (f_type f) \<noteq> None" by (auto split: if_splits bind_splits)
  then show ?case by (auto simp: anonymous_struct_def dest: embedded_struct)
next
  case (3 fs i j index')
  then show ?case by (auto split: if_splits bind_splits)
qed simp

section \<open>Fields of different names lie apart\<close>

lemma insideContainer_prefix: "insideContainer index containers \<longleftrightarrow> (\<exists>c \<in> set containers. strict_prefix c index)"
proof -
  have "length c < length index \<and> (\<forall>p < length c. index ! p = c ! p) \<longleftrightarrow> strict_prefix c index" for c
  proof
    assume l: "length c < length index \<and> (\<forall>p < length c. index ! p = c ! p)"
    then have "take (length c) index = c" by (intro nth_equalityI) auto
    then have "prefix c index" by (metis take_is_prefix)
    then show "strict_prefix c index" using l by (auto simp: strict_prefix_def)
  next
    assume "strict_prefix c index"
    then obtain z zs where "index = c @ z # zs" by (rule strict_prefixE')
    then show "length c < length index \<and> (\<forall>p < length c. index ! p = c ! p)" by (simp add: nth_append)
  qed
  then show ?thesis by (simp add: insideContainer_def list_ex_iff list_all_iff Ball_def)
qed

lemma walk_order_prefix: "(x, y) \<in> walk_order \<Longrightarrow> \<not> prefix y x"
  using walk_order_asym walk_order_down by (metis append_Nil2 list.exhaust prefixE)

abbreviation candidate_index :: "field_candidate \<Rightarrow> nat list" where
  "candidate_index c \<equiv> vf_index (fc_field c)"

definition candidate_of :: "nat list list \<Rightarrow> visible_field list \<Rightarrow> string \<times> field_candidate \<Rightarrow> bool" where
  "candidate_of containers es = (\<lambda>(name, c). fc_field c \<in> set es \<and> f_exported (vf_field (fc_field c)) \<and>
     \<not> insideContainer (candidate_index c) containers \<and> fst (jsonName (vf_field (fc_field c))) = name)"

lemma candidate_of_more:
  "candidate_of containers' es x \<Longrightarrow> set containers \<subseteq> set containers' \<Longrightarrow> candidate_of containers (e # es) x"
  by (auto simp: candidate_of_def insideContainer_prefix)

lemma candidates_of: "x \<in> set (candidates containers es) \<Longrightarrow> candidate_of containers es x"
proof (induction containers es rule: candidates.induct)
  case (2 containers e es)
  obtain name tagged where n: "jsonName (vf_field e) = (name, tagged)" by fastforce
  have more: "candidate_of containers' es x \<Longrightarrow> set containers \<subseteq> set containers' \<Longrightarrow> candidate_of containers (e # es) x"
    for containers' by (rule candidate_of_more)
  show ?case
    using 2(6) 2(1) [OF refl n [symmetric] refl] 2(2) [OF refl n [symmetric] refl] 2(3) [OF refl n [symmetric] refl]
      2(4) [OF refl n [symmetric] refl] 2(5) [OF refl n [symmetric] refl]
    by (auto simp: n Let_def split: if_splits intro: more) (simp_all add: candidate_of_def n)
qed simp

lemma candidates_apart:
  "placed fs es \<Longrightarrow> sorted_wrt (\<lambda>x y. candidate_index (snd x) \<parallel> candidate_index (snd y)) (candidates containers es)"
proof (induction containers es rule: candidates.induct)
  case (2 containers e es)
  obtain name tagged where n: "jsonName (vf_field e) = (name, tagged)" by fastforce
  note placed = placed_Cons [OF 2(6)]
  have apart: "vf_index e \<parallel> candidate_index (snd y)"
    if emitted: "\<not> (anonymous_struct (vf_field e) \<and> \<not> tagged)"
      and y: "y \<in> set (candidates (if f_anonymous (vf_field e) \<and> tagged then containers @ [vf_index e] else containers) es)" for y
  proof
    note of_y = candidates_of [OF y]
    then have in_es: "fc_field (snd y) \<in> set es" by (auto simp: candidate_of_def)
    then show "\<not> prefix (candidate_index (snd y)) (vf_index e)" using placed walk_order_prefix by blast
    show "\<not> prefix (vf_index e) (candidate_index (snd y))"
    proof
      assume "prefix (vf_index e) (candidate_index (snd y))"
      then have strict: "strict_prefix (vf_index e) (candidate_index (snd y))"
        using placed in_es walk_order_asym unfolding strict_prefix_def by metis
      then obtain i after where "candidate_index (snd y) = vf_index e @ i # after" by (rule strict_prefixE')
      moreover have "field_at fs (candidate_index (snd y)) = Some (vf_field (fc_field (snd y)))"
        using in_es 2(6) by (simp add: placed_def)
      ultimately have "anonymous_struct (vf_field e)" using placed field_at_prefix by metis
      then have "f_anonymous (vf_field e) \<and> tagged" using emitted by (auto simp: anonymous_struct_def)
      then show False using of_y strict by (auto simp: candidate_of_def insideContainer_prefix split: if_splits)
    qed
  qed
  show ?case
    using 2(1) [OF refl n [symmetric] refl] 2(2) [OF refl n [symmetric] refl] 2(3) [OF refl n [symmetric] refl]
      2(4) [OF refl n [symmetric] refl] 2(5) [OF refl n [symmetric] refl] placed apart
    by (simp add: n Let_def)
qed simp

lemma dominant_member: "dominantField cs = Some e \<Longrightarrow> \<exists>c \<in> set cs. e = fc_field c"
proof -
  have member: "hd (filter P cs) \<in> set cs" if "length (filter P cs) = 1" for P
    using that by (metis filter_is_subset hd_in_set list.size(3) subsetD zero_neq_one)
  assume "dominantField cs = Some e"
  then obtain P where "length (filter P cs) = 1" "e = fc_field (hd (filter P cs))"
    unfolding dominantField_def Let_def filter_filter by (auto split: if_splits)
  then show ?thesis using member by blast
qed

lemma structFields_candidate:
  "structFields fs name = Some e \<Longrightarrow> \<exists>c. (name, c) \<in> set (candidates [] (VisibleFields fs)) \<and> e = fc_field c"
  by (fastforce simp: structFields_def Let_def split: if_splits dest!: dominant_member)

lemma structFields_place:
  "structFields fs name = Some e \<Longrightarrow> field_at fs (vf_index e) = Some (vf_field e) \<and> f_exported (vf_field e)"
  using structFields_candidate candidates_of visible_placed [of fs]
  by (fastforce simp: candidate_of_def placed_def)

lemma structFields_apart:
  assumes "structFields fs a = Some e" "structFields fs b = Some e'" "a \<noteq> b"
  shows "vf_index e \<parallel> vf_index e'"
proof -
  let ?cs = "candidates [] (VisibleFields fs)"
  obtain c c' where c: "(a, c) \<in> set ?cs" "e = fc_field c" "(b, c') \<in> set ?cs" "e' = fc_field c'"
    using assms structFields_candidate by metis
  then obtain i j where ij: "i < length ?cs" "?cs ! i = (a, c)" "j < length ?cs" "?cs ! j = (b, c')"
    by (metis in_set_conv_nth)
  then have "i \<noteq> j" using assms(3) by auto
  then show ?thesis
    using candidates_apart [OF visible_placed [of fs], of "[]"] ij c(2,4) unfolding sorted_wrt_iff_nth_less
    by (metis linorder_neqE_nat parallel_commute snd_conv)
qed

end
