(* ===== verification/ConfBinding.thy ===== *)
theory ConfBinding
  imports ConfPaths
begin

text \<open>
  What binding of conf/binder.go does to a target: a change at an index path, as one operation on
  well-typed values with its laws, then the properties of the binder: it keeps the types, it binds
  exactly the named fields, and its outcome does not depend on the order in which Go
  iterates over the objects of the document.
\<close>

section \<open>A change at a path\<close>

fun type_at :: "go_type \<Rightarrow> nat list \<Rightarrow> go_type option" where
  "type_at T [] = Some T"
| "type_at T (i # index) = (case embedded_fields T of
      None \<Rightarrow> None
    | Some fs \<Rightarrow> if i < length fs then type_at (f_type (fs ! i)) index else None)"

definition change ::
  "'f \<Rightarrow> go_type \<Rightarrow> bool \<Rightarrow> nat list \<Rightarrow> ('f go_value \<Rightarrow> 'f binding) \<Rightarrow> 'f go_value \<Rightarrow> 'f binding" where
  "change z T s index g v = (case fieldByIndex z T s index v of
      (Some err, v1) \<Rightarrow> (Some err, v1)
    | (None, v1) \<Rightarrow> map_prod id (\<lambda>x. set_in index x v1) (g (the (value_in index v1))))"

text \<open>The fields of a struct, or of the struct a pointer leads to, and putting them back.\<close>

definition contents :: "'f \<Rightarrow> struct_field list \<Rightarrow> bool \<Rightarrow> 'f go_value \<Rightarrow> 'f go_value list option" where
  "contents z fs s v = (case v of
      VPointer None \<Rightarrow> if s then Some (map (zero_field z) fs) else None
    | VPointer (Some (VStruct vs)) \<Rightarrow> Some vs
    | VStruct vs \<Rightarrow> Some vs
    | _ \<Rightarrow> None)"

definition enclose :: "'f go_value \<Rightarrow> 'f go_value list \<Rightarrow> 'f go_value" where
  "enclose v vs = (case v of VPointer _ \<Rightarrow> VPointer (Some (VStruct vs)) | _ \<Rightarrow> VStruct vs)"

definition fit :: "struct_field list \<Rightarrow> 'f go_value list \<Rightarrow> bool" where
  "fit fs vs \<longleftrightarrow> length vs = length fs \<and> (\<forall>i < length fs. conforms (f_type (fs ! i)) (vs ! i))"

lemma fit_update: "fit fs vs \<Longrightarrow> i < length fs \<Longrightarrow> conforms (f_type (fs ! i)) x \<Longrightarrow> fit fs (vs[i := x])"
  by (auto simp: fit_def nth_list_update)

lemma fit_zero: "fit fs (map (zero_field z) fs)"
  by (auto simp: fit_def zero_conforms)

lemma conforms_fit: "conforms (TStruct fs) v \<longleftrightarrow> (\<exists>vs. v = VStruct vs \<and> fit fs vs)"
proof -
  have "(\<forall>(f, x) \<in> set (zip fs vs). conforms (f_type f) x) \<longleftrightarrow> (\<forall>i < length fs. conforms (f_type (fs ! i)) (vs ! i))"
    if "length vs = length fs" for vs :: "'a go_value list"
    using that by (auto simp: set_zip)
  then show ?thesis unfolding conforms.simps conforms_field fit_def by blast
qed

lemma zero_underlying: "zero_value z (underlying T) = zero_value z T"
  by (induction T rule: underlying.induct) auto

lemma embedded_cases:
  assumes "embedded_fields T = Some fs"
  obtains "underlying T = TStruct fs" | U where "underlying T = TPointer U" "underlying U = TStruct fs"
  using assms by (auto simp: embedded_fields_def split: go_type.splits)

lemma embedded_shape:
  assumes "embedded_fields T = Some fs"
  obtains "underlying T = TStruct fs" "\<And>v. conforms T v \<longleftrightarrow> (\<exists>vs. v = VStruct vs \<and> fit fs vs)"
  | U where "underlying T = TPointer U" "underlying U = TStruct fs"
      "\<And>v. conforms T v \<longleftrightarrow> v = VPointer None \<or> (\<exists>vs. v = VPointer (Some (VStruct vs)) \<and> fit fs vs)"
proof (rule embedded_cases [OF assms])
  assume u: "underlying T = TStruct fs"
  have "conforms T v \<longleftrightarrow> (\<exists>vs. v = VStruct vs \<and> fit fs vs)" for v
    unfolding conforms_underlying [of T, symmetric] u by (rule conforms_fit)
  then show ?thesis using that(1) u by blast
next
  fix U assume u: "underlying T = TPointer U" "underlying U = TStruct fs"
  have "conforms U x \<longleftrightarrow> (\<exists>vs. x = VStruct vs \<and> fit fs vs)" for x
    unfolding conforms_underlying [of U, symmetric] u(2) by (rule conforms_fit)
  then have "conforms T v \<longleftrightarrow> v = VPointer None \<or> (\<exists>vs. v = VPointer (Some (VStruct vs)) \<and> fit fs vs)" for v
    unfolding conforms_underlying [of T, symmetric] u(1) by (cases v; cases "case v of VPointer p \<Rightarrow> p | _ \<Rightarrow> None") auto
  then show ?thesis using that(2) u by blast
qed

lemma conforms_contents:
  assumes "embedded_fields T = Some fs" "conforms T v" "contents z fs s v = Some vs"
  shows "fit fs vs"
proof (rule embedded_shape [OF assms(1)])
  assume "\<And>v :: 'a go_value. conforms T v \<longleftrightarrow> (\<exists>vs. v = VStruct vs \<and> fit fs vs)"
  then obtain us where "v = VStruct us" "fit fs us" using assms(2) by blast
  then show ?thesis using assms(3) by (simp add: contents_def)
next
  assume "\<And>v :: 'a go_value. conforms T v \<longleftrightarrow> v = VPointer None \<or> (\<exists>vs. v = VPointer (Some (VStruct vs)) \<and> fit fs vs)"
  then consider "v = VPointer None" | us where "v = VPointer (Some (VStruct us))" "fit fs us" using assms(2) by blast
  then show ?thesis using assms(3) by cases (auto simp: contents_def fit_zero split: if_splits)
qed

lemma conforms_enclose:
  assumes "embedded_fields T = Some fs" "conforms T v" "fit fs vs"
  shows "conforms T (enclose v vs)"
proof (rule embedded_shape [OF assms(1)])
  assume c: "\<And>v :: 'a go_value. conforms T v \<longleftrightarrow> (\<exists>vs. v = VStruct vs \<and> fit fs vs)"
  then obtain us where "v = VStruct us" using assms(2) by blast
  then show ?thesis using assms(3) unfolding c by (simp add: enclose_def)
next
  assume c: "\<And>v :: 'a go_value. conforms T v \<longleftrightarrow> v = VPointer None \<or> (\<exists>vs. v = VPointer (Some (VStruct vs)) \<and> fit fs vs)"
  then obtain p where "v = VPointer p" using assms(2) by blast
  then show ?thesis using assms(3) unfolding c by (simp add: enclose_def)
qed

lemma contents_enclose [simp]: "contents z fs s (enclose v vs) = Some vs" "enclose (enclose v us) vs = enclose v vs"
  by (simp_all add: contents_def enclose_def split: go_value.split)

lemma value_in_enclose [simp]: "i < length vs \<Longrightarrow> value_in (i # index) (enclose v vs) = value_in index (vs ! i)"
  by (simp add: enclose_def split: go_value.split)

lemma set_in_enclose [simp]: "set_in (i # index) x (enclose v vs) = enclose v (vs[i := set_in index x (vs ! i)])"
  by (simp add: enclose_def split: go_value.split)

declare value_in.simps(2) [simp del] set_in.simps(2) [simp del]

lemma fieldByIndex_step:
  assumes "embedded_fields T = Some fs" "conforms T v" "i < length fs"
  shows "fieldByIndex z T s (i # index) v = (case contents z fs s v of
      None \<Rightarrow> (Some (Leaf ''cannot allocate the nil embedded pointer %s on the way to %s''), v)
    | Some vs \<Rightarrow> map_prod id (\<lambda>x. enclose v (vs[i := x]))
        (fieldByIndex z (f_type (fs ! i)) (f_exported (fs ! i)) index (vs ! i)))"
proof (rule embedded_shape [OF assms(1)])
  assume "underlying T = TStruct fs" "\<And>v :: 'a go_value. conforms T v \<longleftrightarrow> (\<exists>vs. v = VStruct vs \<and> fit fs vs)"
  then show ?thesis using assms(2) by (auto simp: contents_def enclose_def)
next
  fix U
  assume u: "underlying T = TPointer U" "underlying U = TStruct fs"
    and c: "\<And>v :: 'a go_value. conforms T v \<longleftrightarrow> v = VPointer None \<or> (\<exists>vs. v = VPointer (Some (VStruct vs)) \<and> fit fs vs)"
  have zero: "zero_value z U = VStruct (map (zero_field z) fs)" for z :: 'a
    using zero_underlying [of z U] by (simp add: u(2))
  have shape: "v = VPointer None \<or> (\<exists>vs. v = VPointer (Some (VStruct vs)))" using c assms(2) by blast
  show ?thesis using shape by (auto simp: u zero contents_def enclose_def prod.map_comp comp_def id_def)
qed

lemma change_Nil [simp]: "change z T s [] g v = g v"
  by (cases "g v") (simp add: change_def)

lemma change_step:
  assumes "embedded_fields T = Some fs" "conforms T v" "i < length fs"
  shows "change z T s (i # index) g v = (case contents z fs s v of
      None \<Rightarrow> (Some (Leaf ''cannot allocate the nil embedded pointer %s on the way to %s''), v)
    | Some vs \<Rightarrow> map_prod id (\<lambda>x. enclose v (vs[i := x]))
        (change z (f_type (fs ! i)) (f_exported (fs ! i)) index g (vs ! i)))"
proof (cases "contents z fs s v")
  case None
  then show ?thesis unfolding change_def fieldByIndex_step [OF assms] by simp
next
  case (Some vs)
  have "fit fs vs" by (rule conforms_contents [OF assms(1,2) Some])
  then have i: "i < length vs" using assms(3) by (simp add: fit_def)
  obtain err v1 where r: "fieldByIndex z (f_type (fs ! i)) (f_exported (fs ! i)) index (vs ! i) = (err, v1)" by fastforce
  show ?thesis
    unfolding change_def fieldByIndex_step [OF assms] Some
    by (cases err; cases "g (the (value_in index v1))") (simp_all add: r i)
qed

text \<open>A change that keeps the type at its path keeps the type of the whole.\<close>

abbreviation keeps_type :: "go_type \<Rightarrow> ('f go_value \<Rightarrow> 'f binding) \<Rightarrow> bool" where
  "keeps_type S g \<equiv> \<forall>x. conforms S x \<longrightarrow> conforms S (snd (g x))"

lemma change_conforms:
  "type_at T index = Some S \<Longrightarrow> keeps_type S g \<Longrightarrow> conforms T v \<Longrightarrow> conforms T (snd (change z T s index g v))"
proof (induction index arbitrary: T s v)
  case (Cons i index)
  then obtain fs where fs: "embedded_fields T = Some fs" "i < length fs" "type_at (f_type (fs ! i)) index = Some S"
    by (auto split: option.splits if_splits)
  show ?case
  proof (cases "contents z fs s v")
    case None
    then show ?thesis using Cons.prems(3) by (simp add: change_step [OF fs(1) Cons.prems(3) fs(2)])
  next
    case (Some vs)
    note fit = conforms_contents [OF fs(1) Cons.prems(3) Some]
    then have "conforms (f_type (fs ! i)) (snd (change z (f_type (fs ! i)) (f_exported (fs ! i)) index g (vs ! i)))"
      by (intro Cons.IH [OF fs(3) Cons.prems(2)]) (use fs(2) in \<open>simp add: fit_def\<close>)
    then show ?thesis
      using conforms_enclose [OF fs(1) Cons.prems(3) fit_update [OF fit fs(2)]]
      by (simp add: change_step [OF fs(1) Cons.prems(3) fs(2)] Some)
  qed
qed simp

text \<open>Changes at incomparable paths commute.\<close>

lemma parallel_Cons [simp]: "i # a \<parallel> j # b \<longleftrightarrow> i \<noteq> j \<or> a \<parallel> b"
  by (auto simp: parallel_def)

lemma change_Cons_None:
  assumes "embedded_fields T = Some fs" "conforms T v" "i < length fs"
  shows "change z T s (i # index) g v = (None, v') \<longleftrightarrow> (\<exists>vs x. contents z fs s v = Some vs \<and>
    change z (f_type (fs ! i)) (f_exported (fs ! i)) index g (vs ! i) = (None, x) \<and> v' = enclose v (vs[i := x]))"
  unfolding change_step [OF assms] by (cases "contents z fs s v") (auto simp: map_prod_def split: prod.splits)

lemma change_commutes:
  "type_at T a = Some S \<Longrightarrow> type_at T b = Some S' \<Longrightarrow> a \<parallel> b \<Longrightarrow> conforms T v \<Longrightarrow> keeps_type S g \<Longrightarrow> keeps_type S' h \<Longrightarrow>
   change z T s a g v = (None, v1) \<Longrightarrow> change z T s b h v1 = (None, v2) \<Longrightarrow>
   \<exists>w. change z T s b h v = (None, w) \<and> change z T s a g w = (None, v2)"
proof (induction a arbitrary: b T s v v1 v2)
  case (Cons i a)
  from \<open>i # a \<parallel> b\<close> obtain j b' where b: "b = j # b'" by (cases b) auto
  obtain fs where fs: "embedded_fields T = Some fs" "i < length fs" "type_at (f_type (fs ! i)) a = Some S"
    "j < length fs" "type_at (f_type (fs ! j)) b' = Some S'"
    using Cons.prems(1,2) b by (auto split: option.splits if_splits)
  have v1: "conforms T v1" using change_conforms [OF Cons.prems(1,5,4), of z s] Cons.prems(7) by simp
  obtain vs x where x: "contents z fs s v = Some vs" "v1 = enclose v (vs[i := x])"
    "change z (f_type (fs ! i)) (f_exported (fs ! i)) a g (vs ! i) = (None, x)"
    using Cons.prems(7) unfolding change_Cons_None [OF fs(1) Cons.prems(4) fs(2)] by blast
  note fit = conforms_contents [OF fs(1) Cons.prems(4) x(1)]
  then have len: "i < length vs" "j < length vs" "conforms (f_type (fs ! i)) (vs ! i)"
    using fs(2,4) by (auto simp: fit_def)
  obtain y where y: "v2 = enclose v (vs[i := x, j := y])"
    "change z (f_type (fs ! j)) (f_exported (fs ! j)) b' h (vs[i := x] ! j) = (None, y)"
    using Cons.prems(8) unfolding b change_Cons_None [OF fs(1) v1 fs(4)] by (auto simp: x(2))
  show ?case
  proof (cases "i = j")
    case False
    let ?w = "enclose v (vs[j := y])"
    have w: "change z T s (j # b') h v = (None, ?w)"
      using x(1) y(2) False len unfolding change_Cons_None [OF fs(1) Cons.prems(4) fs(4)] by auto
    have "conforms T ?w" using change_conforms [OF Cons.prems(2,6,4), of z s] w b by simp
    then have "change z T s (i # a) g ?w = (None, v2)"
      using x(3) False len y(1) unfolding change_Cons_None [OF fs(1) \<open>conforms T ?w\<close> fs(2)]
      by (auto simp: list_update_swap)
    then show ?thesis using w b by blast
  next
    case True
    have "a \<parallel> b'" using Cons.prems(3) b True by simp
    obtain w0 where w0: "change z (f_type (fs ! i)) (f_exported (fs ! i)) b' h (vs ! i) = (None, w0)"
      "change z (f_type (fs ! i)) (f_exported (fs ! i)) a g w0 = (None, y)"
      using Cons.IH [OF fs(3) _ \<open>a \<parallel> b'\<close> len(3) Cons.prems(5,6) x(3), of y] fs(5) y(2) len True by auto
    let ?w = "enclose v (vs[i := w0])"
    have w: "change z T s (j # b') h v = (None, ?w)"
      using x(1) w0(1) True unfolding change_Cons_None [OF fs(1) Cons.prems(4) fs(4)] by auto
    have "conforms T ?w" using change_conforms [OF Cons.prems(2,6,4), of z s] w b by simp
    then have "change z T s (i # a) g ?w = (None, v2)"
      using w0(2) len y(1) True unfolding change_Cons_None [OF fs(1) \<open>conforms T ?w\<close> fs(2)] by auto
    then show ?thesis using w b by blast
  qed
qed simp

text \<open>What a change does to the variable at its path and to those elsewhere.\<close>

lemma value_in_contents:
  assumes "embedded_fields T = Some fs" "conforms T v"
  shows "value_in (i # index) v = (if v = VPointer None then None
    else Option.bind (contents z fs s v) (\<lambda>vs. if i < length vs then value_in index (vs ! i) else None))"
proof (rule embedded_shape [OF assms(1)])
  assume "\<And>v :: 'a go_value. conforms T v \<longleftrightarrow> (\<exists>vs. v = VStruct vs \<and> fit fs vs)"
  then obtain us where "v = VStruct us" using assms(2) by blast
  then show ?thesis by (simp add: contents_def value_in.simps(2))
next
  assume "\<And>v :: 'a go_value. conforms T v \<longleftrightarrow> v = VPointer None \<or> (\<exists>vs. v = VPointer (Some (VStruct vs)) \<and> fit fs vs)"
  then consider "v = VPointer None" | us where "v = VPointer (Some (VStruct us))" using assms(2) by blast
  then show ?thesis by cases (simp_all add: contents_def value_in.simps(2))
qed

lemma zero_conforms_field: "zero_field z f = zero_value z (f_type f)"
  by (cases f) simp

lemma zero_at: "type_at T index = Some S \<Longrightarrow> value_in index (zero_value z T) \<in> {None, Some (zero_value z S)}"
proof (induction index arbitrary: T)
  case (Cons i index)
  then obtain fs where fs: "embedded_fields T = Some fs" "i < length fs" "type_at (f_type (fs ! i)) index = Some S"
    by (auto split: option.splits if_splits)
  show ?case
  proof (rule embedded_cases [OF fs(1)])
    assume "underlying T = TStruct fs"
    then have "zero_value z T = VStruct (map (zero_field z) fs)" using zero_underlying [of z T] by simp
    then show ?thesis using Cons.IH [OF fs(3)] fs(2) by (simp add: value_in.simps(2) zero_conforms_field)
  next
    fix U assume "underlying T = TPointer U"
    then have "zero_value z T = VPointer None" using zero_underlying [of z T] by simp
    then show ?thesis by (simp add: value_in.simps(2))
  qed
qed simp

lemma change_here:
  "type_at T index = Some S \<Longrightarrow> conforms T v \<Longrightarrow> change z T s index g v = (None, v') \<Longrightarrow>
   \<exists>old new. (value_in index v = Some old \<or> value_in index v = None \<and> old = zero_value z S) \<and>
     conforms S old \<and> g old = (None, new) \<and> value_in index v' = Some new"
proof (induction index arbitrary: T s v v')
  case (Cons i index)
  then obtain fs where fs: "embedded_fields T = Some fs" "i < length fs" "type_at (f_type (fs ! i)) index = Some S"
    by (auto split: option.splits if_splits)
  obtain vs x where x: "contents z fs s v = Some vs" "v' = enclose v (vs[i := x])"
    "change z (f_type (fs ! i)) (f_exported (fs ! i)) index g (vs ! i) = (None, x)"
    using Cons.prems(3) unfolding change_Cons_None [OF fs(1) Cons.prems(2) fs(2)] by blast
  have i: "i < length vs" "conforms (f_type (fs ! i)) (vs ! i)"
    using conforms_contents [OF fs(1) Cons.prems(2) x(1)] fs(2) by (auto simp: fit_def)
  obtain old new where r: "value_in index (vs ! i) = Some old \<or> value_in index (vs ! i) = None \<and> old = zero_value z S"
    "conforms S old" "g old = (None, new)" "value_in index x = Some new"
    using Cons.IH [OF fs(3) i(2) x(3)] by blast
  have found: "value_in (i # index) v = (if v = VPointer None then None else value_in index (vs ! i))"
    using value_in_contents [OF fs(1) Cons.prems(2), of i index z s] x(1) i(1) by simp
  have "value_in (i # index) v' = Some new" using r(4) x(2) i(1) by simp
  moreover have "old = zero_value z S" if "v = VPointer None"
  proof -
    have "vs ! i = zero_value z (f_type (fs ! i))"
      using x(1) that fs(2) by (auto simp: contents_def zero_conforms_field split: if_splits)
    then show ?thesis using r(1) zero_at [OF fs(3), of z] by auto
  qed
  then have "value_in (i # index) v = Some old \<or> value_in (i # index) v = None \<and> old = zero_value z S"
    using r(1) unfolding found by (cases "v = VPointer None") simp_all
  ultimately show ?case using r(2,3) by blast
qed simp

lemma change_elsewhere:
  "type_at T index = Some S \<Longrightarrow> conforms T v \<Longrightarrow> change z T s index g v = (err, v') \<Longrightarrow> index \<parallel> other \<Longrightarrow>
   value_in other v = Some y \<Longrightarrow> value_in other v' = Some y"
proof (induction index arbitrary: T s v v' other)
  case (Cons i index)
  then obtain fs where fs: "embedded_fields T = Some fs" "i < length fs" "type_at (f_type (fs ! i)) index = Some S"
    by (auto split: option.splits if_splits)
  from \<open>i # index \<parallel> other\<close> obtain j other' where other: "other = j # other'" by (cases other) auto
  show ?case
  proof (cases "contents z fs s v")
    case None
    then show ?thesis using Cons.prems(3,5) by (simp add: change_step [OF fs(1) Cons.prems(2) fs(2)])
  next
    case (Some vs)
    then obtain x where x: "change z (f_type (fs ! i)) (f_exported (fs ! i)) index g (vs ! i) = (err, x)"
      "v' = enclose v (vs[i := x])"
      using Cons.prems(3) by (auto simp: change_step [OF fs(1) Cons.prems(2) fs(2)] map_prod_def split: prod.splits)
    have i: "i < length vs" "conforms (f_type (fs ! i)) (vs ! i)"
      using conforms_contents [OF fs(1) Cons.prems(2) Some] fs(2) by (auto simp: fit_def)
    have y: "j < length vs" "value_in other' (vs ! j) = Some y"
      using Cons.prems(5) value_in_contents [OF fs(1) Cons.prems(2), of j other' z s] Some
      by (auto simp: other split: if_splits)
    then show ?thesis
      using Cons.IH [OF fs(3) i(2) x(1), of other'] Cons.prems(4) i(1)
      by (cases "i = j") (auto simp: other x(2))
  qed
qed simp

end
