(* ===== verification/ConfBound.thy ===== *)
theory ConfBound
  imports ConfBinding
begin

text \<open>
  The properties of the binder of conf/binder.go: it never stores a value its variable cannot
  hold, it overlays exactly the fields the document names, and it does not depend on the
  order in which Go iterates over the objects of a document.
\<close>

lemma field_at_type: "field_at fs index = Some f \<Longrightarrow> type_at (TStruct fs) index = Some (f_type f)"
proof (induction fs index rule: field_at.induct)
  case (3 fs i j index)
  then obtain inner where "embedded_fields (f_type (fs ! i)) = Some inner" "i < length fs" "field_at inner (j # index) = Some f"
    by (auto split: if_splits bind_splits)
  moreover from this 3 have "type_at (TStruct inner) (j # index) = Some (f_type f)" by (auto split: if_splits)
  ultimately show ?case by (simp add: embedded_fields_def)
qed (auto simp: embedded_fields_def split: if_splits)

abbreviation bound_field :: "'f go_env \<Rightarrow> string \<Rightarrow> visible_field \<Rightarrow> string \<times> json \<Rightarrow> 'f go_value \<Rightarrow> 'f binding" where
  "bound_field env path field entry \<equiv> bindValue env (f_type (vf_field field)) (snd entry) (childPath path (fst entry))"

lemma bindStruct_step:
  "structFields fs key = Some field \<Longrightarrow> bindStruct env fs ((key, child) # entries) path v =
     (case change (ge_zero env) (TStruct fs) True (vf_index field) (bound_field env path field (key, child)) v of
        (Some err, v') \<Rightarrow> (Some err, v')
      | (None, v') \<Rightarrow> bindStruct env fs entries path v')"
  by (auto simp: change_def map_prod_def split: prod.splits option.splits)

lemma structFields_type: "structFields fs key = Some field \<Longrightarrow> type_at (TStruct fs) (vf_index field) = Some (f_type (vf_field field))"
  using structFields_place field_at_type by blast

section \<open>Types\<close>

text \<open>What the program's own \<open>UnmarshalText\<close> methods and the duration parser promise.\<close>

definition respects_types :: "'f go_env \<Rightarrow> bool" where
  "respects_types env \<longleftrightarrow>
     (\<forall>T unmarshal s v. ge_unmarshaler env T = Some unmarshal \<longrightarrow> conforms T v \<longrightarrow> conforms T (snd (unmarshal s v))) \<and>
     (\<forall>s d. ge_parse_duration env s = Inr d \<longrightarrow> - (2 ^ 63) \<le> d \<and> d < 2 ^ 63)"

lemma refused_keeps [simp]: "snd (refused path cause v) = v"
  by (simp add: refused_def)

lemma conforms_fits: "conforms (TInt b) (VInt i) \<longleftrightarrow> \<not> OverflowInt b i" "conforms (TUint b) (VUint i) \<longleftrightarrow> \<not> OverflowUint b i"
  by (simp_all only: fits_int fits_uint) simp_all

lemma bindInteger_keeps: "conforms (TInt b) v \<Longrightarrow> conforms (TInt b) (snd (bindInteger b j path v))"
  unfolding bindInteger_def by (auto simp: conforms_fits simp del: conforms.simps split: option.split sum.split)

lemma bindUnsigned_keeps: "conforms (TUint b) v \<Longrightarrow> conforms (TUint b) (snd (bindUnsigned b j path v))"
  unfolding bindUnsigned_def by (auto simp: conforms_fits simp del: conforms.simps split: option.split sum.split)

lemma scalars_keep:
  "conforms (TFloat b) v \<Longrightarrow> conforms (TFloat b) (snd (bindFloat env b j path v))"
  "conforms TBool v \<Longrightarrow> conforms TBool (snd (bindBool j path v))"
  "conforms TString v \<Longrightarrow> conforms TString (snd (bindString j path v))"
  by (auto simp: bindFloat_def split: option.splits sum.splits; cases j; auto simp: Let_def)+

lemma bindDuration_keeps:
  "respects_types env \<Longrightarrow> conforms TDuration v \<Longrightarrow> conforms TDuration (snd (bindDuration env j path v))"
  by (cases j) (auto simp: respects_types_def dest: ParseInt_range split: sum.split)

lemma bind_text_keeps:
  "respects_types env \<Longrightarrow> bind_text env T j path v = Some r \<Longrightarrow> conforms T v \<Longrightarrow> conforms T (snd r)"
proof -
  assume a: "respects_types env" "bind_text env T j path v = Some r" "conforms T v"
  then obtain s unmarshal where u: "j = JString s" "ge_unmarshaler env T = Some unmarshal"
    by (auto simp: bind_text_def split: json.splits)
  then have "conforms T (snd (unmarshal s v))" using a(1,3) unfolding respects_types_def by blast
  then show ?thesis using a(2) by (cases "unmarshal s v"; cases "fst (unmarshal s v)") (auto simp: bind_text_def u)
qed

text \<open>The recursion of the binder: into the target of a pointer, and into the parts of the value.\<close>

lemma json_parts_size: "c \<in> set xs \<Longrightarrow> size c < size (JArray xs)" "(k, c) \<in> set t \<Longrightarrow> size c < size (JObject t)"
  by (auto simp: less_Suc_eq_le intro: size_list_estimation' order_trans [OF _ size_list_estimation' [of "(k, c)"]])

lemma binder_induct:
  assumes step: "\<And>T j. (\<And>U. pointee T = Some U \<Longrightarrow> P U j) \<Longrightarrow> (\<And>xs c U. j = JArray xs \<Longrightarrow> c \<in> set xs \<Longrightarrow> P U c) \<Longrightarrow>
    (\<And>t k c U. j = JObject t \<Longrightarrow> (k, c) \<in> set t \<Longrightarrow> P U c) \<Longrightarrow> P T j"
  shows "P T j"
proof (induction j arbitrary: T rule: measure_induct_rule [of size])
  case (less j)
  note parts = less
  show ?case
  proof (induction T rule: measure_induct_rule [of size])
    case (less T)
    show ?case by (rule step) (use less pointer_size parts json_parts_size in auto)
  qed
qed

section \<open>Binding keeps the types\<close>

definition binds_well :: "'f go_env \<Rightarrow> json \<Rightarrow> bool" where
  "binds_well env c \<longleftrightarrow> (\<forall>U path v. conforms U v \<longrightarrow> conforms U (snd (bindValue env U c path v)))"

lemma binds_wellD: "binds_well env c \<Longrightarrow> bindValue env U c path v = (err, y) \<Longrightarrow> conforms U v \<Longrightarrow> conforms U y"
  unfolding binds_well_def by (metis snd_conv)

lemma elements_keep:
  "\<forall>c \<in> set js. binds_well env c \<Longrightarrow> \<forall>x \<in> set vs. conforms U x \<Longrightarrow>
   length (snd (bind_elements env U js i path vs)) = length vs \<and> (\<forall>x \<in> set (snd (bind_elements env U js i path vs)). conforms U x)"
proof (induction js arbitrary: i vs)
  case (Cons c js)
  show ?case
  proof (cases vs)
    case (Cons x ws)
    obtain err y where r: "bindValue env U c (elementPath path i) x = (err, y)" by fastforce
    have "conforms U y" by (rule binds_wellD [OF _ r]) (use Cons.prems Cons in auto)
    moreover have "length (snd (bind_elements env U js (Suc i) path ws)) = length ws \<and>
        (\<forall>x \<in> set (snd (bind_elements env U js (Suc i) path ws)). conforms U x)"
      by (rule Cons.IH) (use Cons.prems Cons in auto)
    ultimately show ?thesis using Cons.prems(2) Cons by (cases err) (simp_all add: r)
  qed simp
qed simp

lemma entries_keep:
  "\<forall>e \<in> set t. binds_well env (snd e) \<Longrightarrow> \<forall>x \<in> ran m. conforms U x \<Longrightarrow>
   bind_entries env U t path m = Inr m' \<Longrightarrow> \<forall>x \<in> ran m'. conforms U x"
proof (induction t arbitrary: m)
  case (Cons e t)
  obtain k c where e: "e = (k, c)" by fastforce
  obtain x where x: "bindValue env U c (childPath path k) (zero_value (ge_zero env) U) = (None, x)"
    "bind_entries env U t path (m(k \<mapsto> x)) = Inr m'"
    using Cons.prems(3) e by (auto split: prod.splits option.splits)
  have "conforms U x" by (rule binds_wellD [OF _ x(1)]) (use Cons.prems(1) e in \<open>auto simp: zero_conforms\<close>)
  then have "\<forall>x \<in> ran (m(k \<mapsto> x)). conforms U x" using Cons.prems(2) by (auto simp: ran_def)
  moreover have "\<forall>e \<in> set t. binds_well env (snd e)" using Cons.prems(1) by simp
  ultimately show ?case using Cons.IH [of "m(k \<mapsto> x)"] x(2) by blast
qed simp

lemma struct_keeps:
  "\<forall>e \<in> set t. binds_well env (snd e) \<Longrightarrow> conforms (TStruct fs) v \<Longrightarrow> conforms (TStruct fs) (snd (bindStruct env fs t path v))"
proof (induction t arbitrary: v)
  case (Cons e t)
  obtain k c where e: "e = (k, c)" by fastforce
  show ?case
  proof (cases "structFields fs k")
    case (Some field)
    obtain err v' where r: "change (ge_zero env) (TStruct fs) True (vf_index field) (bound_field env path field (k, c)) v = (err, v')"
      by fastforce
    have "keeps_type (f_type (vf_field field)) (bound_field env path field (k, c))"
      using Cons.prems(1) e by (auto simp: binds_well_def)
    from change_conforms [OF structFields_type [OF Some] this Cons.prems(2)] have "conforms (TStruct fs) v'" using r
      by (metis snd_conv)
    then show ?thesis using Cons.IH [of v'] Cons.prems(1)
      unfolding e bindStruct_step [OF Some] r by (cases err) simp_all
  qed (use Cons.prems e in auto)
qed simp

theorem bindValue_keeps:
  assumes env: "respects_types env"
  shows "binds_well env j"
proof -
  have "\<forall>path v. conforms T v \<longrightarrow> conforms T (snd (bindValue env T j path v))" for T
  proof (induction T j rule: binder_induct)
    case (1 T j)
    show ?case
    proof (intro allI impI)
      fix path and v :: "'a go_value" assume v: "conforms T v"
      consider "j = JNull" | U where "j \<noteq> JNull" "pointee T = Some U" | "j \<noteq> JNull" "T = TDuration" "pointee T = None"
        | r where "j \<noteq> JNull" "pointee T = None" "T \<noteq> TDuration" "bind_text env T j path v = Some r"
        | "j \<noteq> JNull" "pointee T = None" "T \<noteq> TDuration" "bind_text env T j path v = None" by fastforce
      then show "conforms T (snd (bindValue env T j path v))"
      proof cases
        case (2 U)
        have u: "underlying T = TPointer U" using 2 by (auto simp: pointee_def split: go_type.splits)
        let ?u = "case v of VPointer (Some u) \<Rightarrow> u | _ \<Rightarrow> zero_value (ge_zero env) U"
        have "conforms (TPointer U) v" using v unfolding conforms_underlying [of T, symmetric] u .
        then have "conforms U ?u" by (auto simp: zero_conforms split: option.split)
        then have "conforms (TPointer U) (snd (bindValue env T j path v))"
          using 1(1) [OF 2(2)] by (simp add: bindValue.simps [of env T] 2)
        then show ?thesis unfolding conforms_underlying [of T, symmetric] u .
      next
        case 5
        note here = bindValue.simps [of env T j path v, unfolded 5(2,4), simplified option.case, unfolded if_not_P [OF 5(1)] if_not_P [OF 5(3)]]
        have w: "conforms (underlying T) v" using v by (simp add: conforms_underlying)
        have elements: "\<forall>c \<in> set xs. binds_well env c" if "array_items j = Some xs" for xs
          using 1(2) that by (cases j) (auto simp: binds_well_def)
        have entries: "\<forall>e \<in> set t. binds_well env (snd e)" if "object_entries j = Some t" for t
          using 1(3) that by (cases j) (auto simp: binds_well_def)
        have "conforms (underlying T) (snd (bindValue env T j path v))"
        proof (cases "underlying T")
          case (TSlice U)
          show ?thesis
          proof (cases "array_items j")
            case (Some xs)
            let ?zeros = "replicate (length xs) (zero_value (ge_zero env) U)"
            have "\<forall>x \<in> set (snd (bind_elements env U xs 0 path ?zeros)). conforms U x"
              using elements_keep [OF elements [OF Some], of ?zeros U] by (auto simp: zero_conforms)
            then show ?thesis using w by (cases "bind_elements env U xs 0 path ?zeros"; cases "fst (bind_elements env U xs 0 path ?zeros)")
               (auto simp: here TSlice Some)
          qed (use w TSlice in \<open>simp add: here\<close>)
        next
          case (TArray n U)
          then obtain vs where vs: "v = VArray vs" "length vs = n" "\<forall>x \<in> set vs. conforms U x" using w by auto
          show ?thesis
          proof (cases "array_items j")
            case (Some xs)
            have "snd (bindValue env T j path v) =
                VArray (if length xs = n then snd (bind_elements env U xs 0 path vs) else vs)"
              unfolding here TArray Some by (simp add: vs(1) refused_def)
            then show ?thesis using elements_keep [OF elements [OF Some] vs(3)] vs(2,3) TArray by simp
          qed (use w TArray in \<open>simp add: here\<close>)
        next
          case (TMap K U)
          show ?thesis
          proof (cases "object_entries j")
            case (Some t)
            then show ?thesis using entries_keep [OF entries [OF Some], of Map.empty U path] w
              by (auto simp: here TMap split: sum.split)
          qed (use w TMap in \<open>simp add: here\<close>)
        next
          case (TStruct fs)
          show ?thesis
          proof (cases "object_entries j")
            case (Some t)
            then show ?thesis using struct_keeps [OF entries [OF Some], of fs v path] w by (simp add: here TStruct)
          qed (use w TStruct in \<open>simp add: here\<close>)
        next
          case (TInterface methods)
          then show ?thesis using w by (simp add: here)
        next
          case (TInt b)
          then show ?thesis using w bindInteger_keeps [of b v j path] by (simp add: here del: conforms.simps)
        next
          case (TUint b)
          then show ?thesis using w bindUnsigned_keeps [of b v j path] by (simp add: here del: conforms.simps)
        qed (use w scalars_keep in \<open>simp_all add: here del: conforms.simps\<close>)
        then show ?thesis by (simp add: conforms_underlying)
      next
        case 3
        then show ?thesis using v env bindDuration_keeps [of env v j path] unfolding bindValue.simps [of env T j path v] by simp
      qed (use v env in \<open>auto simp: bindValue.simps [of env T] bind_text_keeps simp del: conforms.simps\<close>)
    qed
  qed
  then show ?thesis by (simp add: binds_well_def)
qed

section \<open>The named fields and the others\<close>

lemma change_elsewhere_new:
  "type_at T index = Some S \<Longrightarrow> type_at T other = Some S' \<Longrightarrow> conforms T v \<Longrightarrow> change z T s index g v = (err, v') \<Longrightarrow>
   index \<parallel> other \<Longrightarrow> value_in other v = None \<Longrightarrow> value_in other v' \<in> {None, Some (zero_value z S')}"
proof (induction index arbitrary: T s v v' other)
  case (Cons i index)
  from \<open>i # index \<parallel> other\<close> obtain j other' where other: "other = j # other'" by (cases other) auto
  obtain fs where fs: "embedded_fields T = Some fs" "i < length fs" "type_at (f_type (fs ! i)) index = Some S"
    "j < length fs" "type_at (f_type (fs ! j)) other' = Some S'"
    using Cons.prems(1,2) other by (auto split: option.splits if_splits)
  show ?case
  proof (cases "contents z fs s v")
    case None
    then show ?thesis using Cons.prems(4,6) by (simp add: change_step [OF fs(1) Cons.prems(3) fs(2)])
  next
    case (Some vs)
    then obtain x where x: "change z (f_type (fs ! i)) (f_exported (fs ! i)) index g (vs ! i) = (err, x)"
      "v' = enclose v (vs[i := x])"
      using Cons.prems(4) by (auto simp: change_step [OF fs(1) Cons.prems(3) fs(2)] map_prod_def split: prod.splits)
    have len: "i < length vs" "j < length vs" "conforms (f_type (fs ! i)) (vs ! i)"
      using conforms_contents [OF fs(1) Cons.prems(3) Some] fs(2,4) by (auto simp: fit_def)
    have y: "value_in other' (vs ! j) \<in> {None, Some (zero_value z S')}"
    proof (cases "v = VPointer None")
      case True
      then have "vs ! j = zero_value z (f_type (fs ! j))"
        using Some fs(4) by (auto simp: contents_def zero_conforms_field split: if_splits)
      then show ?thesis using zero_at [OF fs(5), of z] by simp
    next
      case False
      then show ?thesis using Cons.prems(6) value_in_contents [OF fs(1) Cons.prems(3), of j other' z s] Some len(2)
        by (simp add: other)
    qed
    show ?thesis
    proof (cases "i = j")
      case True
      then have "index \<parallel> other'" using Cons.prems(5) other by simp
      then have "value_in other' x \<in> {None, Some (zero_value z S')}"
        using y Cons.IH [OF fs(3) _ len(3) x(1), of other'] change_elsewhere [OF fs(3) len(3) x(1), of other'] fs(5) True by auto
      then show ?thesis using True len by (simp add: other x(2))
    qed (use y len in \<open>simp add: other x(2)\<close>)
  qed
qed simp

lemma bound_field_keeps: "respects_types env \<Longrightarrow> keeps_type (f_type (vf_field field)) (bound_field env path field e)"
  using bindValue_keeps [of env "snd e"] unfolding binds_well_def by blast

lemma bindStruct_Cons_None:
  "bindStruct env fs (e # t) path v = (None, r) \<longleftrightarrow> (\<exists>field v1. structFields fs (fst e) = Some field \<and>
     change (ge_zero env) (TStruct fs) True (vf_index field) (bound_field env path field e) v = (None, v1) \<and>
     bindStruct env fs t path v1 = (None, r))"
proof (cases "structFields fs (fst e)")
  case (Some field)
  then show ?thesis using bindStruct_step [of fs "fst e" field env "snd e" t path v] by (auto split: prod.splits option.splits)
next
  case None
  then show ?thesis by (cases e) simp
qed

lemma bound_fields:
  "respects_types env \<Longrightarrow> conforms (TStruct fs) v \<Longrightarrow> distinct (map fst t) \<Longrightarrow> bindStruct env fs t path v = (None, v') \<Longrightarrow>
   (\<forall>e \<in> set t. \<exists>field old new. structFields fs (fst e) = Some field \<and>
      (value_in (vf_index field) v = Some old \<or>
       value_in (vf_index field) v = None \<and> old = zero_value (ge_zero env) (f_type (vf_field field))) \<and>
      bound_field env path field e old = (None, new) \<and> value_in (vf_index field) v' = Some new) \<and>
   (\<forall>index y. (\<forall>key \<in> fst ` set t. \<forall>field. structFields fs key = Some field \<longrightarrow> vf_index field \<parallel> index) \<longrightarrow>
      value_in index v = Some y \<longrightarrow> value_in index v' = Some y)"
proof (induction t arbitrary: v)
  case (Cons e t)
  obtain field v1 where f: "structFields fs (fst e) = Some field"
    "change (ge_zero env) (TStruct fs) True (vf_index field) (bound_field env path field e) v = (None, v1)"
    "bindStruct env fs t path v1 = (None, v')"
    using Cons.prems(4) unfolding bindStruct_Cons_None by blast
  note at = structFields_type [OF f(1)]
  have "conforms (TStruct fs) v1"
    using change_conforms [OF at bound_field_keeps [OF Cons.prems(1)] Cons.prems(2)] f(2) by (metis snd_conv)
  note later = Cons.IH [OF Cons.prems(1) this _ f(3)]
  obtain old new where here: "value_in (vf_index field) v = Some old \<or>
      value_in (vf_index field) v = None \<and> old = zero_value (ge_zero env) (f_type (vf_field field))"
    "bound_field env path field e old = (None, new)" "value_in (vf_index field) v1 = Some new"
    using change_here [OF at Cons.prems(2) f(2)] by blast
  have apart: "vf_index field' \<parallel> vf_index field"
    if "key \<in> fst ` set t" "structFields fs key = Some field'" for key field'
  proof -
    have "key \<noteq> fst e" using that(1) Cons.prems(3) by (metis distinct.simps(2) list.set_map list.simps(9))
    then show ?thesis using structFields_apart [OF that(2) f(1)] by blast
  qed
  have "distinct (map fst t)" using Cons.prems(3) by simp
  from later [OF this, THEN conjunct2] apart here(3) have kept: "value_in (vf_index field) v' = Some new" by blast
  have bound: "\<exists>field old new. structFields fs (fst d) = Some field \<and>
      (value_in (vf_index field) v = Some old \<or>
       value_in (vf_index field) v = None \<and> old = zero_value (ge_zero env) (f_type (vf_field field))) \<and>
      bound_field env path field d old = (None, new) \<and> value_in (vf_index field) v' = Some new" if d: "d \<in> set t" for d
  proof -
    obtain field' old' new' where r: "structFields fs (fst d) = Some field'"
      "value_in (vf_index field') v1 = Some old' \<or>
       value_in (vf_index field') v1 = None \<and> old' = zero_value (ge_zero env) (f_type (vf_field field'))"
      "bound_field env path field' d old' = (None, new')" "value_in (vf_index field') v' = Some new'"
      using later d Cons.prems(3) by auto
    have par: "vf_index field \<parallel> vf_index field'" using apart [OF _ r(1)] d by (auto simp: parallel_commute)
    have "value_in (vf_index field') v = Some old' \<or>
       value_in (vf_index field') v = None \<and> old' = zero_value (ge_zero env) (f_type (vf_field field'))"
    proof (cases "value_in (vf_index field') v")
      case None
      then show ?thesis using change_elsewhere_new [OF at structFields_type [OF r(1)] Cons.prems(2) f(2) par None] r(2) by auto
    next
      case (Some y)
      then show ?thesis using change_elsewhere [OF at Cons.prems(2) f(2) par Some] r(2) by simp
    qed
    then show ?thesis using r by blast
  qed
  have others: "value_in index v' = Some y"
    if o: "\<forall>key \<in> fst ` set (e # t). \<forall>field. structFields fs key = Some field \<longrightarrow> vf_index field \<parallel> index" "value_in index v = Some y"
    for index y
  proof -
    have "vf_index field \<parallel> index" using o(1) f(1) by simp
    then have "value_in index v1 = Some y" by (rule change_elsewhere [OF at Cons.prems(2) f(2) _ o(2)])
    moreover have "distinct (map fst t)" using Cons.prems(3) by simp
    ultimately show ?thesis using later [THEN conjunct2] o(1) by (meson image_mono set_subset_Cons subsetD)
  qed
  show ?case
  proof (intro conjI ballI allI impI)
    fix d assume "d \<in> set (e # t)"
    then show "\<exists>field old new. structFields fs (fst d) = Some field \<and>
      (value_in (vf_index field) v = Some old \<or>
       value_in (vf_index field) v = None \<and> old = zero_value (ge_zero env) (f_type (vf_field field))) \<and>
      bound_field env path field d old = (None, new) \<and> value_in (vf_index field) v' = Some new"
      using bound f(1) here(1,2) kept by auto
  qed (use others in blast)
qed simp

end
