(* ===== verification/ConfOrder.thy ===== *)
theory ConfOrder
  imports ConfBound "HOL-Library.Multiset"
begin

text \<open>
  Go iterates over a map in a different order at every run. Two documents that are the same up to
  the order of their objects bind alike: when binding one succeeds, so does binding the other,
  with the same target. The properties of the binder close the theory.
\<close>

inductive same_json :: "json \<Rightarrow> json \<Rightarrow> bool" where
  same_atom: "same_json j j"
| same_array: "list_all2 same_json xs ys \<Longrightarrow> same_json (JArray xs) (JArray ys)"
| same_object: "distinct (map fst t) \<Longrightarrow> list_all2 (\<lambda>e e'. fst e = fst e' \<and> same_json (snd e) (snd e')) t t'' \<Longrightarrow> mset t'' = mset t' \<Longrightarrow>
    same_json (JObject t) (JObject t')"

inductive_cases same_jsonE: "same_json j j'"

definition agrees :: "'f go_env \<Rightarrow> json \<Rightarrow> json \<Rightarrow> bool" where
  "agrees env j j' \<longleftrightarrow> (\<forall>U path v r. conforms U v \<longrightarrow> bindValue env U j path v = (None, r) \<longrightarrow> bindValue env U j' path v = (None, r))"

definition alike :: "'f go_env \<Rightarrow> string \<times> json \<Rightarrow> string \<times> json \<Rightarrow> bool" where
  "alike env e e' \<longleftrightarrow> fst e = fst e' \<and> agrees env (snd e) (snd e')"

lemma alike_keys: "list_all2 (alike env) t t' \<Longrightarrow> map fst t' = map fst t"
  by (induction rule: list_all2_induct) (auto simp: alike_def)

section \<open>Part by part\<close>

lemma elements_alike:
  "list_all2 (agrees env) js js' \<Longrightarrow> respects_types env \<Longrightarrow> \<forall>x \<in> set vs. conforms U x \<Longrightarrow>
   bind_elements env U js i path vs = (None, r) \<Longrightarrow> bind_elements env U js' i path vs = (None, r)"
proof (induction js js' arbitrary: i vs r rule: list_all2_induct)
  case (Cons j js j' js')
  show ?case
  proof (cases vs)
    case Nil
    then show ?thesis using Cons.prems(3) by simp
  next
    case (Cons x ws)
    then obtain y s where y: "bindValue env U j (elementPath path i) x = (None, y)"
      "bind_elements env U js (Suc i) path ws = (None, s)" "r = y # s"
      using Cons.prems(3) by (auto simp: map_prod_def split: prod.splits option.splits)
    have "bindValue env U j' (elementPath path i) x = (None, y)"
      using Cons.hyps(1) y(1) Cons.prems(2) Cons unfolding agrees_def by simp
    moreover have "bind_elements env U js' (Suc i) path ws = (None, s)"
      using Cons.IH [OF Cons.prems(1) _ y(2)] Cons.prems(2) Cons by simp
    ultimately show ?thesis using y(3) Cons by simp
  qed
qed simp

lemma change_mono:
  "type_at T index = Some S \<Longrightarrow> conforms T v \<Longrightarrow> \<forall>x y. conforms S x \<longrightarrow> g x = (None, y) \<longrightarrow> h x = (None, y) \<Longrightarrow>
   change z T s index g v = (None, v') \<Longrightarrow> change z T s index h v = (None, v')"
proof (induction index arbitrary: T s v v')
  case (Cons i index)
  then obtain fs where fs: "embedded_fields T = Some fs" "i < length fs" "type_at (f_type (fs ! i)) index = Some S"
    by (auto split: option.splits if_splits)
  obtain vs x where x: "contents z fs s v = Some vs" "v' = enclose v (vs[i := x])"
    "change z (f_type (fs ! i)) (f_exported (fs ! i)) index g (vs ! i) = (None, x)"
    using Cons.prems(4) unfolding change_Cons_None [OF fs(1) Cons.prems(2) fs(2)] by blast
  have "conforms (f_type (fs ! i)) (vs ! i)"
    using conforms_contents [OF fs(1) Cons.prems(2) x(1)] fs(2) by (auto simp: fit_def)
  from Cons.IH [OF fs(3) this Cons.prems(3) x(3)] show ?case
    unfolding change_Cons_None [OF fs(1) Cons.prems(2) fs(2)] using x(1,2) by blast
qed auto

lemma struct_alike:
  "list_all2 (alike env) t t' \<Longrightarrow> respects_types env \<Longrightarrow> conforms (TStruct fs) v \<Longrightarrow>
   bindStruct env fs t path v = (None, r) \<Longrightarrow> bindStruct env fs t' path v = (None, r)"
proof (induction t t' arbitrary: v rule: list_all2_induct)
  case (Cons e t e' t')
  obtain field v1 where f: "structFields fs (fst e) = Some field"
    "change (ge_zero env) (TStruct fs) True (vf_index field) (bound_field env path field e) v = (None, v1)"
    "bindStruct env fs t path v1 = (None, r)"
    using Cons.prems(3) unfolding bindStruct_Cons_None by blast
  have "conforms (TStruct fs) v1"
    using change_conforms [OF structFields_type [OF f(1)] bound_field_keeps [OF Cons.prems(1)] Cons.prems(2)] f(2)
    by (metis snd_conv)
  then have "bindStruct env fs t' path v1 = (None, r)" using Cons.IH [OF Cons.prems(1)] f(3) by blast
  moreover have "change (ge_zero env) (TStruct fs) True (vf_index field) (bound_field env path field e') v = (None, v1)"
    by (rule change_mono [OF structFields_type [OF f(1)] Cons.prems(2) _ f(2)])
       (use Cons.hyps(1) in \<open>auto simp: alike_def agrees_def\<close>)
  ultimately show ?case using f(1) Cons.hyps(1) unfolding bindStruct_Cons_None alike_def by auto
qed simp

section \<open>Reordering the keys of an object\<close>

lemma struct_front:
  "respects_types env \<Longrightarrow> fst e \<notin> fst ` set xs \<Longrightarrow> conforms (TStruct fs) v \<Longrightarrow>
   bindStruct env fs (xs @ e # ys) path v = (None, r) \<Longrightarrow> bindStruct env fs (e # xs @ ys) path v = (None, r)"
proof (induction xs arbitrary: v)
  case (Cons x xs)
  obtain field v1 where f: "structFields fs (fst x) = Some field"
    "change (ge_zero env) (TStruct fs) True (vf_index field) (bound_field env path field x) v = (None, v1)"
    "bindStruct env fs (xs @ e # ys) path v1 = (None, r)"
    using Cons.prems(4) unfolding append_Cons bindStruct_Cons_None by blast
  note keeps = bound_field_keeps [OF Cons.prems(1)]
  have "conforms (TStruct fs) v1"
    using change_conforms [OF structFields_type [OF f(1)] keeps Cons.prems(3)] f(2) by (metis snd_conv)
  then have "bindStruct env fs (e # xs @ ys) path v1 = (None, r)" using Cons.IH [OF Cons.prems(1)] Cons.prems(2) f(3) by simp
  then obtain field' v2 where e: "structFields fs (fst e) = Some field'"
    "change (ge_zero env) (TStruct fs) True (vf_index field') (bound_field env path field' e) v1 = (None, v2)"
    "bindStruct env fs (xs @ ys) path v2 = (None, r)"
    unfolding bindStruct_Cons_None by blast
  have "vf_index field \<parallel> vf_index field'" by (rule structFields_apart [OF f(1) e(1)]) (use Cons.prems(2) in auto)
  from change_commutes [OF structFields_type [OF f(1)] structFields_type [OF e(1)] this Cons.prems(3) keeps keeps f(2) e(2)]
  show ?case using f(1) e(1,3) unfolding append_Cons bindStruct_Cons_None by blast
qed simp

lemma struct_reorder:
  "respects_types env \<Longrightarrow> mset t = mset t' \<Longrightarrow> distinct (map fst t) \<Longrightarrow> conforms (TStruct fs) v \<Longrightarrow>
   bindStruct env fs t path v = (None, r) \<Longrightarrow> bindStruct env fs t' path v = (None, r)"
proof (induction t' arbitrary: t v)
  case (Cons e t')
  obtain xs ys where t: "t = xs @ e # ys" using Cons.prems(2) by (metis list.set_intros(1) set_mset_mset split_list)
  have front: "bindStruct env fs (e # xs @ ys) path v = (None, r)"
    by (rule struct_front [OF Cons.prems(1) _ Cons.prems(4) Cons.prems(5) [unfolded t]]) (use Cons.prems(3) t in auto)
  then obtain field v1 where f: "structFields fs (fst e) = Some field"
    "change (ge_zero env) (TStruct fs) True (vf_index field) (bound_field env path field e) v = (None, v1)"
    "bindStruct env fs (xs @ ys) path v1 = (None, r)"
    unfolding bindStruct_Cons_None by blast
  have "conforms (TStruct fs) v1"
    using change_conforms [OF structFields_type [OF f(1)] bound_field_keeps [OF Cons.prems(1)] Cons.prems(4)] f(2)
    by (metis snd_conv)
  from Cons.IH [OF Cons.prems(1) _ _ this f(3)] have "bindStruct env fs t' path v1 = (None, r)"
    using Cons.prems(2,3) t by simp
  then show ?case using f(1,2) unfolding bindStruct_Cons_None by blast
qed simp

definition entry_binding :: "'f go_env \<Rightarrow> go_type \<Rightarrow> string \<Rightarrow> string \<times> json \<Rightarrow> 'f binding" where
  "entry_binding env U path e = bindValue env U (snd e) (childPath path (fst e)) (zero_value (ge_zero env) U)"

lemma bind_entries_iff:
  "distinct (map fst t) \<Longrightarrow> bind_entries env U t path m = Inr m' \<longleftrightarrow>
     (\<forall>e \<in> set t. fst (entry_binding env U path e) = None) \<and>
     m' = m ++ map_of (map (\<lambda>e. (fst e, snd (entry_binding env U path e))) t)"
proof (induction t arbitrary: m)
  case (Cons e t)
  obtain err x where r: "entry_binding env U path e = (err, x)" by fastforce
  have "fst e \<notin> dom (map_of (map (\<lambda>e. (fst e, snd (entry_binding env U path e))) t))"
    using Cons.prems by (simp add: dom_map_of_conv_image_fst image_image)
  from map_add_upd_left [OF this, of m x] have "m(fst e \<mapsto> x) ++ map_of (map (\<lambda>e. (fst e, snd (entry_binding env U path e))) t) =
      m ++ map_of (map (\<lambda>e. (fst e, snd (entry_binding env U path e))) (e # t))"
    by (simp only: list.map map_of.simps r map_add_upd snd_conv fst_conv)
  note add = this
  have d: "distinct (map fst t)" using Cons.prems by simp
  show ?case
  proof (cases err)
    case None
    have step: "bind_entries env U (e # t) path m = bind_entries env U t path (m(fst e \<mapsto> x))"
      using r None by (cases e) (simp add: entry_binding_def)
    have all: "(\<forall>d \<in> set (e # t). fst (entry_binding env U path d) = None) \<longleftrightarrow> (\<forall>d \<in> set t. fst (entry_binding env U path d) = None)"
      using r None by simp
    show ?thesis unfolding step all add [symmetric] by (rule Cons.IH [OF d])
  next
    case (Some err')
    then show ?thesis using r by (cases e) (simp add: entry_binding_def)
  qed
qed auto

lemma entries_alike:
  assumes "respects_types env" "list_all2 (alike env) t t''" "mset t'' = mset t'" "distinct (map fst t)"
    and "bind_entries env U t path m = Inr m'"
  shows "bind_entries env U t' path m = Inr m'"
proof -
  let ?b = "entry_binding env U path"
  let ?bound = "map (\<lambda>e. (fst e, snd (?b e)))"
  have d'': "distinct (map fst t'')" using assms(4) by (simp add: alike_keys [OF assms(2)])
  have d': "distinct (map fst t')" by (metis assms(3) d'' mset_eq_imp_distinct_iff mset_map)
  have ok: "\<forall>e \<in> set t. fst (?b e) = None" and m': "m' = m ++ map_of (?bound t)"
    using assms(5) unfolding bind_entries_iff [OF assms(4)] by auto
  have same: "list_all2 (\<lambda>e e'. fst e = fst e' \<and> ?b e = ?b e') t t''"
    using assms(2) ok
  proof (induction rule: list_all2_induct)
    case (Cons e t e' t'')
    obtain r where r: "?b e = (None, r)" using Cons.prems by (cases "?b e") auto
    then have "?b e' = (None, r)"
      using Cons.hyps(1) zero_conforms(1) [of U "ge_zero env"] unfolding alike_def agrees_def entry_binding_def by auto
    then show ?case using Cons r by (simp add: alike_def)
  qed simp
  then have "?bound t'' = ?bound t" by (induction rule: list_all2_induct) auto
  moreover have "\<forall>e \<in> set t''. fst (?b e) = None" using same ok by (induction rule: list_all2_induct) auto
  moreover have "set t'' = set t'" using assms(3) by (metis set_mset_mset)
  moreover have "map_of (?bound t'') = map_of (?bound t')"
    by (subst map_of_inject_set) (use d' d'' \<open>set t'' = set t'\<close> in \<open>simp_all add: comp_def\<close>)
  ultimately show ?thesis unfolding bind_entries_iff [OF d'] m' by simp
qed

section \<open>Whole documents\<close>

lemma normalize_fields_map: "normalize_fields env t = map_of (map (\<lambda>e. (fst e, normalize env (snd e))) t)"
  by (induction t) auto

lemma normalize_items_map: "normalize_items env xs = map (normalize env) xs"
  by (induction xs) auto

lemma normalize_alike: "same_json j j' \<Longrightarrow> normalize env j = normalize env j'"
proof (induction j arbitrary: j' rule: measure_induct_rule [of size])
  case (less j)
  from less.prems show ?case
  proof cases
    case (same_array xs ys)
    have "list_all2 (\<lambda>x y. normalize env x = normalize env y) xs ys"
      using same_array(3) by (rule list.rel_mono_strong) (use less.IH same_array json_parts_size in auto)
    then show ?thesis unfolding same_array normalize.simps normalize_items_map
      by (simp add: list_all2_conv_all_nth list_eq_iff_nth_eq)
  next
    case (same_object t t'' t')
    let ?n = "map (\<lambda>e. (fst e, normalize env (snd e)))"
    have "list_all2 (\<lambda>e e'. (fst e, normalize env (snd e)) = (fst e', normalize env (snd e'))) t t''"
      using same_object(4) by (rule list.rel_mono_strong) (use less.IH same_object json_parts_size in auto)
    then have n: "?n t = ?n t''" by (simp add: list_all2_conv_all_nth list_eq_iff_nth_eq)
    then have "map fst (?n t) = map fst (?n t'')" by simp
    then have "distinct (map fst t'')" using same_object(3) by (simp add: comp_def)
    moreover from this have "distinct (map fst t')" by (metis same_object(5) mset_eq_imp_distinct_iff mset_map)
    moreover have "set t'' = set t'" using same_object(5) by (metis set_mset_mset)
    ultimately have "map_of (?n t'') = map_of (?n t')" by (subst map_of_inject_set) (simp_all add: comp_def)
    then show ?thesis unfolding same_object normalize.simps normalize_fields_map using n by simp
  qed simp
qed

lemma bind_array:
  assumes "pointee T = None"
  shows "bindValue env T (JArray xs) path v =
     (if T = TDuration then refused path None v
      else case underlying T of
        TInterface methods \<Rightarrow> if methods then refused path None v else (None, VInterface (normalize env (JArray xs)))
      | TSlice U \<Rightarrow> (case bind_elements env U xs 0 path (replicate (length xs) (zero_value (ge_zero env) U)) of
            (Some err, _) \<Rightarrow> (Some err, v)
          | (None, vs) \<Rightarrow> (None, VSlice (Some vs)))
      | TArray n U \<Rightarrow> if length xs \<noteq> n then refused path None v
          else map_prod id VArray (bind_elements env U xs 0 path (array_values v))
      | _ \<Rightarrow> refused path None v)"
  using assms unfolding bindValue.simps [of env T]
  by (cases "underlying T")
     (simp_all add: bind_text_def bindInteger_def bindUnsigned_def bindFloat_def del: normalize.simps)

lemma bind_object:
  assumes "pointee T = None"
  shows "bindValue env T (JObject t) path v =
     (if T = TDuration then refused path None v
      else case underlying T of
        TInterface methods \<Rightarrow> if methods then refused path None v else (None, VInterface (normalize env (JObject t)))
      | TMap K U \<Rightarrow> if underlying K \<noteq> TString then refused path None v
          else (case bind_entries env U t path Map.empty of Inl err \<Rightarrow> (Some err, v) | Inr m \<Rightarrow> (None, VMap (Some m)))
      | TStruct fs \<Rightarrow> bindStruct env fs t path v
      | _ \<Rightarrow> refused path None v)"
  using assms unfolding bindValue.simps [of env T]
  by (cases "underlying T")
     (simp_all add: bind_text_def bindInteger_def bindUnsigned_def bindFloat_def del: normalize.simps)

lemma bind_pointer:
  "pointee T = Some U \<Longrightarrow> j \<noteq> JNull \<Longrightarrow> bindValue env T j path v = map_prod id (VPointer \<circ> Some)
     (bindValue env U j path (case v of VPointer (Some u) \<Rightarrow> u | _ \<Rightarrow> zero_value (ge_zero env) U))"
  by (simp add: bindValue.simps [of env T])

lemma pointee_conforms:
  assumes "pointee T = Some U" "conforms T v"
  shows "conforms U (case v of VPointer (Some u) \<Rightarrow> u | _ \<Rightarrow> zero_value z U)"
proof -
  have u: "underlying T = TPointer U" using assms(1) by (auto simp: pointee_def split: go_type.splits)
  have "conforms (TPointer U) v" using assms(2) unfolding conforms_underlying [of T, symmetric] u .
  then show ?thesis by (auto simp: zero_conforms split: option.split)
qed

lemma refused_fails [simp]: "refused path cause v \<noteq> (None, r)"
  by (simp add: refused_def)

lemma array_agrees:
  assumes "respects_types env" "list_all2 (agrees env) xs ys" "normalize env (JArray xs) = normalize env (JArray ys)"
    and "pointee T = None" "conforms T v" "bindValue env T (JArray xs) path v = (None, r)"
  shows "bindValue env T (JArray ys) path v = (None, r)"
proof -
  have len: "length ys = length xs" using assms(2) by (simp add: list_all2_lengthD)
  have w: "conforms (underlying T) v" using assms(5) by (simp add: conforms_underlying)
  note ok = assms(6) [unfolded bind_array [OF assms(4)]]
  show ?thesis
  proof (cases "underlying T")
    case (TSlice U)
    let ?zeros = "replicate (length xs) (zero_value (ge_zero env) U)"
    obtain vs where vs: "bind_elements env U xs 0 path ?zeros = (None, vs)" "r = VSlice (Some vs)"
      using ok TSlice by (auto split: if_splits prod.splits option.splits)
    have "bind_elements env U ys 0 path ?zeros = (None, vs)"
      by (rule elements_alike [OF assms(2,1) _ vs(1)]) (auto simp: zero_conforms)
    then show ?thesis using ok TSlice vs(2) len by (simp add: bind_array [OF assms(4)] split: if_splits)
  next
    case (TArray n U)
    then obtain us where us: "v = VArray us" "\<forall>x \<in> set us. conforms U x" using w by auto
    obtain vs where vs: "bind_elements env U xs 0 path us = (None, vs)" "r = VArray vs"
      using ok TArray us(1) by (auto simp: map_prod_def split: if_splits prod.splits)
    have "bind_elements env U ys 0 path us = (None, vs)" by (rule elements_alike [OF assms(2,1) us(2) vs(1)])
    then show ?thesis using ok TArray vs(2) us(1) len by (simp add: bind_array [OF assms(4)] split: if_splits)
  qed (use ok assms(3) in \<open>simp_all add: bind_array [OF assms(4)] split: if_splits\<close>)
qed

lemma object_agrees:
  assumes "respects_types env" "list_all2 (alike env) t t''" "mset t'' = mset t'" "distinct (map fst t)"
    and "normalize env (JObject t) = normalize env (JObject t')"
    and "pointee T = None" "conforms T v" "bindValue env T (JObject t) path v = (None, r)"
  shows "bindValue env T (JObject t') path v = (None, r)"
proof -
  have w: "conforms (underlying T) v" using assms(7) by (simp add: conforms_underlying)
  note ok = assms(8) [unfolded bind_object [OF assms(6)]]
  show ?thesis
  proof (cases "underlying T")
    case (TMap K U)
    then obtain m where m: "bind_entries env U t path Map.empty = Inr m" "r = VMap (Some m)"
      using ok by (auto split: if_splits sum.splits)
    have "bind_entries env U t' path Map.empty = Inr m" by (rule entries_alike [OF assms(1-4) m(1)])
    then show ?thesis using ok TMap m(2) by (simp add: bind_object [OF assms(6)] split: if_splits)
  next
    case (TStruct fs)
    then have bound: "bindStruct env fs t path v = (None, r)" using ok by (simp split: if_splits)
    have v: "conforms (TStruct fs) v" using w TStruct by simp
    have "distinct (map fst t'')"
      using assms(4) by (simp add: alike_keys [OF assms(2)])
    from struct_reorder [OF assms(1,3) this v struct_alike [OF assms(2,1) v bound]]
    show ?thesis using ok TStruct by (simp add: bind_object [OF assms(6)] split: if_splits)
  qed (use ok assms(5) in \<open>simp_all add: bind_object [OF assms(6)] split: if_splits\<close>)
qed

lemma same_agrees:
  assumes env: "respects_types env"
  shows "same_json j j' \<Longrightarrow> agrees env j j'"
proof -
  have "\<forall>j' path v r. same_json j j' \<longrightarrow> conforms T v \<longrightarrow> bindValue env T j path v = (None, r) \<longrightarrow> bindValue env T j' path v = (None, r)" for T
  proof (induction T j rule: binder_induct)
    case (1 T j)
    show ?case
    proof (intro allI impI)
      fix j' path and v r :: "'a go_value"
      assume same: "same_json j j'" and v: "conforms T v" and ok: "bindValue env T j path v = (None, r)"
      consider "j' = j" | xs ys where "j = JArray xs" "j' = JArray ys" "list_all2 same_json xs ys"
        | t t' t'' where "j = JObject t" "j' = JObject t'" "distinct (map fst t)"
          "list_all2 (\<lambda>e e'. fst e = fst e' \<and> same_json (snd e) (snd e')) t t''" "mset t'' = mset t'"
        using same by (rule same_jsonE) blast+
      then show "bindValue env T j' path v = (None, r)"
      proof cases
        case 1
        then show ?thesis using ok by simp
      next
        case (2 xs ys)
        have parts: "list_all2 (agrees env) xs ys"
          using 2(3) by (rule list.rel_mono_strong) (use 1(2) 2(1) in \<open>auto simp: agrees_def\<close>)
        have len: "length ys = length xs" using parts by (simp add: list_all2_lengthD)
        show ?thesis
        proof (cases "pointee T")
          case (Some U)
          then show ?thesis using 1(1) [OF Some] same ok pointee_conforms [OF Some v, of "ge_zero env"] 2(1,2)
            by (auto simp: bind_pointer [OF Some] map_prod_def split: prod.splits)
        next
          case None
          have norm: "normalize env (JArray xs) = normalize env (JArray ys)" using normalize_alike same 2(1,2) by blast
          show ?thesis using array_agrees [OF env parts norm None v] ok 2(1,2) by simp
        qed
      next
        case (3 t t' t'')
        have parts: "list_all2 (alike env) t t''"
          using 3(4) by (rule list.rel_mono_strong) (use 1(3) 3(1) in \<open>auto simp: agrees_def alike_def\<close>)
        show ?thesis
        proof (cases "pointee T")
          case (Some U)
          then show ?thesis using 1(1) [OF Some] same ok pointee_conforms [OF Some v, of "ge_zero env"] 3(1,2)
            by (auto simp: bind_pointer [OF Some] map_prod_def split: prod.splits)
        next
          case None
          have norm: "normalize env (JObject t) = normalize env (JObject t')" using normalize_alike same 3(1,2) by blast
          show ?thesis using object_agrees [OF env parts 3(5,3) norm None v] ok 3(1,2) by simp
        qed
      qed
    qed
  qed
  then show "same_json j j' \<Longrightarrow> agrees env j j'" by (simp add: agrees_def)
qed

section \<open>Properties\<close>

lemma bind_onto_struct:
  assumes "underlying U = TStruct fs"
  shows "bind_onto env t (TPointer U) (VPointer (Some u)) = map_prod id (VPointer \<circ> Some) (bindStruct env fs t [] u)"
proof -
  have "pointee U = None" "U \<noteq> TDuration" using assms by (auto simp: pointee_def)
  then show ?thesis using assms by (simp add: bind_onto_def bind_object)
qed

text \<open>C13: binding overlays the target, and only where the document says so. Whatever the document
  and the outcome, the target still holds values of its types, every integer within its width.
  When binding succeeds, each key of the document names one field, whose value is now what
  binding the key's value made of the old one, a field behind an embedded pointer that was nil
  starting from zero; every variable that no key reaches keeps its value.\<close>

theorem binding_overlays_the_target:
  assumes "respects_types env" "underlying U = TStruct fs" "conforms U u" "distinct (map fst t)"
    and "bind_onto env t (TPointer U) (VPointer (Some u)) = (err, v)"
  shows "\<exists>u'. v = VPointer (Some u') \<and> conforms U u' \<and> (err = None \<longrightarrow>
    (\<forall>(key, child) \<in> set t. \<exists>field old new. structFields fs key = Some field \<and>
       (value_in (vf_index field) u = Some old \<or>
        value_in (vf_index field) u = None \<and> old = zero_value (ge_zero env) (f_type (vf_field field))) \<and>
       bindValue env (f_type (vf_field field)) child key old = (None, new) \<and> value_in (vf_index field) u' = Some new) \<and>
    (\<forall>index y. (\<forall>key \<in> fst ` set t. \<forall>field. structFields fs key = Some field \<longrightarrow> vf_index field \<parallel> index) \<longrightarrow>
       value_in index u = Some y \<longrightarrow> value_in index u' = Some y))"
proof -
  obtain u' where u': "v = VPointer (Some u')" "bindStruct env fs t [] u = (err, u')"
    using assms(5) unfolding bind_onto_struct [OF assms(2)] by (auto simp: map_prod_def split: prod.splits)
  have u: "conforms (TStruct fs) u" using assms(2,3) conforms_underlying by metis
  have "binds_well env (snd e)" for e :: "string \<times> json" by (rule bindValue_keeps [OF assms(1)])
  then have "conforms (TStruct fs) u'" using struct_keeps [OF _ u, of t env "[]"] u'(2) by simp
  then have "conforms U u'" using assms(2) conforms_underlying by metis
  moreover note fields = bound_fields [OF assms(1) u assms(4), of "[]"]
  ultimately show ?thesis using u' by (fastforce simp: childPath_def)
qed

text \<open>C9: the order in which Go iterates over the objects of a document is irrelevant. If binding a
  document succeeds, binding any document that differs from it in the order of keys only, at any
  depth, succeeds too and leaves the same target.\<close>

theorem document_order_is_irrelevant:
  assumes "respects_types env" "underlying U = TStruct fs" "conforms U u" "same_json (JObject t) (JObject t')"
    and "bind_onto env t (TPointer U) (VPointer (Some u)) = (None, v)"
  shows "bind_onto env t' (TPointer U) (VPointer (Some u)) = (None, v)"
proof -
  have none: "pointee U = None" "U \<noteq> TDuration" using assms(2) by (auto simp: pointee_def)
  have whole: "bindValue env U (JObject t) [] u = bindStruct env fs t [] u" for t
    using none assms(2) by (simp add: bind_object)
  have "agrees env (JObject t) (JObject t')" by (rule same_agrees [OF assms(1,4)])
  then show ?thesis
    using assms(3,5) unfolding bind_onto_struct [OF assms(2)] whole [symmetric] agrees_def
    by (auto simp: map_prod_def split: prod.splits)
qed

text \<open>A struct that embeds another by pointer and has a nested object.\<close>

definition base_fields :: "struct_field list" where
  "base_fields = [StructField ''Name'' True False [(''json'', ''name'')] TString, StructField ''Limit'' True False [(''json'', ''limit,omitempty'')] (TInt 8)]"

definition demo_fields :: "struct_field list" where
  "demo_fields =
     [StructField ''Base'' True True [] (TPointer (TNamed ''Base'' (TStruct base_fields))),
      StructField ''Name'' True False [(''json'', ''label'')] TString,
      StructField ''Server'' True False [(''json'', ''server'')]
        (TStruct [StructField ''Host'' True False [(''json'', ''host'')] TString, StructField ''Port'' True False [(''json'', ''port'')] (TUint 16)])]"

definition demo_env :: "nat go_env" where
  "demo_env = \<lparr>ge_zero = 0, ge_parse_float = \<lambda>_. Inl ErrSyntax, ge_overflow_float = \<lambda>_ _. False, ge_round_float = \<lambda>_ f. f,
     ge_parse_duration = \<lambda>_. Inl ErrSyntax, ge_unmarshaler = \<lambda>_. None\<rparr>"

definition demo_target :: "nat go_value" where
  "demo_target = VStruct [VPointer None, VString ''old'', VStruct [VString ''local'', VUint 80]]"

abbreviation demo_document :: tree where
  "demo_document \<equiv> [(''limit'', JString '' 7''), (''server'', JObject [(''host'', JString ''web''), (''port'', JNumber ''8080'')])]"

abbreviation demo_reordered :: tree where
  "demo_reordered \<equiv> [(''server'', JObject [(''port'', JNumber ''8080''), (''host'', JString ''web'')]), (''limit'', JString '' 7'')]"

lemma demo_respects: "respects_types demo_env"
  by (simp add: respects_types_def demo_env_def)

lemma demo_conforms: "conforms (TStruct demo_fields) demo_target"
  by (simp add: demo_fields_def base_fields_def demo_target_def)

definition demo_binding :: "tree \<Rightarrow> nat binding" where
  "demo_binding t = bind_onto demo_env t (TPointer (TStruct demo_fields)) (VPointer (Some demo_target))"

lemma demo_binds: "demo_binding demo_document = (None, snd (demo_binding demo_document))"
proof -
  have "fst (demo_binding demo_document) = None" by code_simp
  then show ?thesis by (simp add: prod_eq_iff)
qed

lemma demo_bound: "bind_onto demo_env demo_document (TPointer (TStruct demo_fields)) (VPointer (Some demo_target)) =
    (None, snd (demo_binding demo_document))"
  using demo_binds by (simp only: demo_binding_def)

lemma demo_same: "same_json (JObject demo_document) (JObject demo_reordered)"
proof (rule same_object)
  let ?server = "JObject [(''port'', JNumber ''8080''), (''host'', JString ''web'')]"
  have "same_json (JObject [(''host'', JString ''web''), (''port'', JNumber ''8080'')]) ?server"
    by (rule same_object [of _ "[(''host'', JString ''web''), (''port'', JNumber ''8080'')]"]) (auto intro: same_atom)
  then show "list_all2 (\<lambda>e e'. fst e = fst e' \<and> same_json (snd e) (snd e')) demo_document
      [(''limit'', JString '' 7''), (''server'', ?server)]"
    by (auto intro: same_atom)
qed auto

lemma demo_limit: "structFields demo_fields ''limit'' =
    Some \<lparr>vf_field = StructField ''Limit'' True False [(''json'', ''limit,omitempty'')] (TInt 8), vf_index = [0, 1], vf_hidden = False\<rparr>"
  by code_simp

lemma demo_seven: "case bindValue demo_env (TInt 8) (JString '' 7'') ''limit'' old of (None, VInt i) \<Rightarrow> i = 7 | _ \<Rightarrow> False"
  by code_simp

theorem binding_overlays_the_target_witness:
  "\<exists>u'. snd (demo_binding demo_document) = VPointer (Some u') \<and> conforms (TStruct demo_fields) u' \<and> value_in [0, 1] u' = Some (VInt 7)"
proof -
  have "distinct (map fst demo_document)" by simp
  from binding_overlays_the_target [OF demo_respects underlying.simps(14) demo_conforms this demo_bound]
  obtain u' where u': "snd (demo_binding demo_document) = VPointer (Some u')" "conforms (TStruct demo_fields) u'"
    and keys: "None = (None :: goerror option) \<longrightarrow> (\<forall>(key, child) \<in> set demo_document. \<exists>field old new.
       structFields demo_fields key = Some field \<and>
       (value_in (vf_index field) demo_target = Some old \<or>
        value_in (vf_index field) demo_target = None \<and> old = zero_value (ge_zero demo_env) (f_type (vf_field field))) \<and>
       bindValue demo_env (f_type (vf_field field)) child key old = (None, new) \<and> value_in (vf_index field) u' = Some new) \<and>
      (\<forall>index y. (\<forall>key \<in> fst ` set demo_document. \<forall>field. structFields demo_fields key = Some field \<longrightarrow> vf_index field \<parallel> index) \<longrightarrow>
       value_in index demo_target = Some y \<longrightarrow> value_in index u' = Some y)"
    by (elim exE conjE)
  have "(''limit'', JString '' 7'') \<in> set demo_document" by simp
  from bspec [OF conjunct1 [OF mp [OF keys refl]] this]
  obtain old new where "bindValue demo_env (TInt 8) (JString '' 7'') ''limit'' old = (None, new)"
    "value_in [0, 1] u' = Some new" unfolding case_prod_conv demo_limit option.inject by (elim exE conjE) (hypsubst, simp)
  moreover from this have "new = VInt 7" using demo_seven [of old] by (auto split: go_value.splits)
  ultimately show ?thesis using u' by blast
qed

theorem document_order_is_irrelevant_witness: "demo_binding demo_reordered = (None, snd (demo_binding demo_document))"
  unfolding demo_binding_def [of demo_reordered]
  by (rule document_order_is_irrelevant [OF demo_respects underlying.simps(14) demo_conforms demo_same demo_bound])

text \<open>Names are resolved among the fields that Go itself makes visible, so the embedded \<open>Name\<close> with the
  document name \<open>name\<close>, hidden in Go by the outer \<open>Name\<close>, cannot be configured, although no other
  field has its document name; \<open>encoding/json\<close>, whose rules the comments of \<open>structFields\<close> cite, compares document
  names only and would bind it.\<close>

lemma hidden_name_is_unknown:
  "structFields demo_fields ''name'' = None" "structFields base_fields ''name'' \<noteq> None"
  "fst (demo_binding [(''name'', JString ''x'')]) =
     Some (Wrap ''%w: name'' [ErrUnknownKey])"
  by code_simp+

end
