(* ===== verification/ConfSchema.thy ===== *)
theory ConfSchema
  imports ConfPaths "HOL-Library.List_Lexorder" "HOL-Library.Char_ord"
begin

text \<open>
  The JSON schema of the configuration documents (conf/schema.go): the walk over the types of the
  prototype ahead of the derivation, the overlay of the definitions and the assembly of the
  document. The library that derives, resolves and encodes a schema is a parameter, as are \<open>encoding/json\<close>
  and the method sets of the program's types. A schema is a tree: the library hands out a
  structure without sharing, copying the schemas it is given for particular types. Go values of type
  \<open>any\<close> are of type \<open>'v\<close>, floating-point numbers of type \<open>'n\<close>; the keywords the program never
  touches are of type \<open>'x\<close>.
\<close>

section \<open>Schemas and definitions\<close>

record ('v, 'n) attributes =
  a_version :: string
  a_type :: string
  a_types :: "string list"
  a_title :: string
  a_description :: string
  a_default :: "string option"
  a_enum :: "'v list"
  a_examples :: "'v list"
  a_pattern :: string
  a_format :: string
  a_minimum :: "'n option"
  a_maximum :: "'n option"
  a_minLength :: "int option"
  a_maxLength :: "int option"

definition no_attributes :: "('v, 'n) attributes" where
  "no_attributes = \<lparr>a_version = [], a_type = [], a_types = [], a_title = [], a_description = [], a_default = None,
     a_enum = [], a_examples = [], a_pattern = [], a_format = [], a_minimum = None, a_maximum = None,
     a_minLength = None, a_maxLength = None\<rparr>"

datatype ('v, 'n, 'x) schema =
  Schema (attributes_of: "('v, 'n) attributes") (properties_of: "(string \<times> ('v, 'n, 'x) schema) list option")
    (items_of: "('v, 'n, 'x) schema option") (patterns_of: "(string \<times> ('v, 'n, 'x) schema) list") (others_of: 'x)

record ('v, 'n) FieldDefinition =
  fd_title :: string
  fd_description :: string
  fd_default :: "'v option"
  fd_enum :: "'v list"
  fd_examples :: "'v list"
  fd_pattern :: string
  fd_format :: string
  fd_minimum :: "'n option"
  fd_maximum :: "'n option"
  fd_minLength :: "int option"
  fd_maxLength :: "int option"

record ('v, 'n) SchemaDefinition =
  sd_description :: string
  sd_fields :: "(string \<times> ('v, 'n) FieldDefinition) list"

text \<open>What the program takes from elsewhere. The pattern of durations holds a Greek letter, so it is
  a parameter too.\<close>

record ('v, 'n, 'x) schema_library =
  sl_unmarshals :: "go_type \<Rightarrow> bool"
  sl_time :: go_type
  sl_durationPattern :: string
  sl_no_others :: 'x
  sl_ForType :: "go_type \<Rightarrow> (go_type \<Rightarrow> ('v, 'n, 'x) schema option) \<Rightarrow> goerror + ('v, 'n, 'x) schema"
  sl_Resolve :: "('v, 'n, 'x) schema \<Rightarrow> goerror option"
  sl_MarshalIndent :: "('v, 'n, 'x) schema \<Rightarrow> goerror + string"
  sl_Marshal :: "'v \<Rightarrow> goerror + string"

definition leaf_schema :: "('v, 'n, 'x) schema_library \<Rightarrow> ('v, 'n) attributes \<Rightarrow> ('v, 'n, 'x) schema" where
  "leaf_schema lib a = Schema a None None [] (sl_no_others lib)"

section \<open>The walk over the prototype\<close>

definition struct_kind :: "go_type \<Rightarrow> bool" where
  "struct_kind T \<longleftrightarrow> (case underlying T of TStruct _ \<Rightarrow> True | _ \<Rightarrow> False)"

definition textualSchema :: "('v, 'n, 'x) schema_library \<Rightarrow> go_type \<Rightarrow> ('v, 'n, 'x) schema" where
  "textualSchema lib T = leaf_schema lib (case underlying T of
      TInt _ \<Rightarrow> no_attributes\<lparr>a_types := [''string'', ''integer'']\<rparr>
    | TUint _ \<Rightarrow> no_attributes\<lparr>a_types := [''string'', ''integer'']\<rparr>
    | TFloat _ \<Rightarrow> no_attributes\<lparr>a_types := [''string'', ''number'']\<rparr>
    | TBool \<Rightarrow> no_attributes\<lparr>a_types := [''string'', ''boolean'']\<rparr>
    | _ \<Rightarrow> no_attributes\<lparr>a_type := ''string''\<rparr>)"

fun rejectUnfaithfulEmbedding :: "('v, 'n, 'x) schema_library \<Rightarrow> struct_field list \<Rightarrow> goerror option" where
  "rejectUnfaithfulEmbedding lib [] = None"
| "rejectUnfaithfulEmbedding lib (field # fs) =
     (if \<not> f_anonymous field then rejectUnfaithfulEmbedding lib fs
      else (let embedded = dereference (f_type field); (name, tagged) = jsonName field
        in if name = ''-'' \<and> \<not> struct_kind embedded then rejectUnfaithfulEmbedding lib fs
           else if tagged \<or> \<not> struct_kind embedded \<or> sl_unmarshals lib embedded
           then Some (Leaf ''embedded field %s.%s cannot be described faithfully by a schema; declare a named field instead'')
           else rejectUnfaithfulEmbedding lib fs))"

definition metadata_tag :: "struct_field \<Rightarrow> string option" where
  "metadata_tag field = find (\<lambda>tag. Tag_Lookup field tag \<noteq> None) [''jsonschema'', ''desc'']"

text \<open>The fields of a struct in the order of their document names.\<close>

definition declared_names :: "struct_field list \<Rightarrow> string list" where
  "declared_names fs = sort (filter (\<lambda>name. structFields fs name \<noteq> None) (remdups (map fst (candidates [] (VisibleFields fs)))))"

definition declared_fields :: "struct_field list \<Rightarrow> struct_field list" where
  "declared_fields fs = map (\<lambda>name. vf_field (the (structFields fs name))) (declared_names fs)"

lemma structFields_candidates: "structFields fs name = Some e \<Longrightarrow> name \<in> fst ` set (candidates [] (VisibleFields fs))"
  by (force simp: structFields_def Let_def filter_empty_conv split: if_splits)

lemma declared_names_iff: "name \<in> set (declared_names fs) \<longleftrightarrow> structFields fs name \<noteq> None"
  using structFields_candidates by (auto simp: declared_names_def)

lemma declared_fields_iff: "f \<in> set (declared_fields fs) \<longleftrightarrow> (\<exists>name e. structFields fs name = Some e \<and> f = vf_field e)"
  by (force simp: declared_fields_def declared_names_iff)

lemma field_at_smaller: "field_at fs index = Some f \<Longrightarrow> size (f_type f) < Suc (size_list size fs)"
proof (induction fs index rule: field_at.induct)
  case (2 fs i)
  then have "f \<in> set fs" by (auto split: if_splits)
  then have "size f \<le> size_list size fs" by (rule size_list_estimation' [OF _ order_refl])
  then show ?case by (cases f) simp
next
  case (3 fs i j index)
  then obtain inner where inner: "embedded_fields (f_type (fs ! i)) = Some inner" "field_at inner (j # index) = Some f" "i < length fs" "f_anonymous (fs ! i)"
    by (auto split: if_splits bind_splits)
  have "size (f_type f) < Suc (size_list size inner)" using 3(1) inner by blast
  moreover have "size_list size inner < size (f_type (fs ! i))" using embedded_size [OF inner(1)] .
  moreover have "size (fs ! i) \<le> size_list size fs" using size_list_estimation' [OF nth_mem [OF inner(3)] order_refl] .
  moreover have "size (f_type (fs ! i)) < size (fs ! i)" by (cases "fs ! i") simp
  ultimately show ?case by linarith
qed simp

lemma declared_smaller: "f \<in> set (declared_fields fs) \<Longrightarrow> size (f_type f) < size (TStruct fs)"
  using structFields_place field_at_smaller by (fastforce simp: declared_fields_iff)

lemma dereference_size: "size (dereference T) \<le> size T"
  by (induction T rule: dereference.induct) (auto split: go_type.splits)

lemma dereferenced_size: "size (underlying (dereference T)) \<le> size T"
  using underlying_size dereference_size le_trans by blast

definition largest :: "struct_field list \<Rightarrow> nat" where
  "largest fs = foldr (\<lambda>f. max (size (f_type f))) fs 0"

lemma largest_declared: "largest (declared_fields fs) < size (TStruct fs)"
proof -
  have "largest gs < n" if "\<And>g. g \<in> set gs \<Longrightarrow> size (f_type g) < n" "0 < n" for gs n
    using that by (induction gs) (auto simp: largest_def)
  then show ?thesis using declared_smaller by simp
qed

type_synonym ('v, 'n, 'x) overrides = "go_type \<Rightarrow> ('v, 'n, 'x) schema option"

function analyzeType :: "('v, 'n, 'x) schema_library \<Rightarrow> go_type \<Rightarrow> go_type set \<Rightarrow> ('v, 'n, 'x) overrides \<Rightarrow>
      goerror + go_type set \<times> ('v, 'n, 'x) overrides"
  and analyze_fields :: "('v, 'n, 'x) schema_library \<Rightarrow> struct_field list \<Rightarrow> go_type set \<Rightarrow> ('v, 'n, 'x) overrides \<Rightarrow>
      goerror + go_type set \<times> ('v, 'n, 'x) overrides" where
  "analyzeType lib T visited overrides =
     (let valueType = dereference T; entered = insert valueType visited
      in if valueType \<in> visited then Inr (visited, overrides)
         else if sl_unmarshals lib valueType then Inr (entered, overrides(valueType \<mapsto> textualSchema lib valueType))
         else (case underlying valueType of
             TSlice U \<Rightarrow> analyzeType lib U entered overrides
           | TArray n U \<Rightarrow> analyzeType lib U entered overrides
           | TMap K U \<Rightarrow> analyzeType lib U entered overrides
           | TStruct fs \<Rightarrow> (case rejectUnfaithfulEmbedding lib fs of
                 Some err \<Rightarrow> Inl err
               | None \<Rightarrow> analyze_fields lib (declared_fields fs) entered overrides)
           | _ \<Rightarrow> Inr (entered, overrides)))"
| "analyze_fields lib [] visited overrides = Inr (visited, overrides)"
| "analyze_fields lib (field # fs) visited overrides = (case metadata_tag field of
      Some tag \<Rightarrow> Inl (Leaf (''field %s.%s declares a '' @ tag @ '' tag: schema metadata lives in a SchemaDefinition, not in struct tags''))
    | None \<Rightarrow> (case analyzeType lib (f_type field) visited overrides of
        Inl err \<Rightarrow> Inl err
      | Inr (visited', overrides') \<Rightarrow> analyze_fields lib fs visited' overrides'))"
  by pat_completeness auto
termination
proof (relation "measures [case_sum (\<lambda>(_, T, _). size T) (\<lambda>(_, fs, _). largest fs), case_sum (\<lambda>_. 0) (\<lambda>(_, fs, _). Suc (length fs))]",
    goal_cases)
  case (2 lib T) then show ?case using dereferenced_size [of T] by simp
next
  case (3 lib T) then show ?case using dereferenced_size [of T] by simp
next
  case (4 lib T) then show ?case using dereferenced_size [of T] by simp
next
  case (5 lib T visited overrides valueType entered fs)
  then show ?case using dereferenced_size [of T] largest_declared [of fs] by simp
qed (auto simp: largest_def)

declare analyzeType.simps [simp del]

section \<open>The overlay of a definition\<close>

definition with_attributes :: "(('v, 'n) attributes \<Rightarrow> ('v, 'n) attributes) \<Rightarrow> ('v, 'n, 'x) schema \<Rightarrow> ('v, 'n, 'x) schema" where
  "with_attributes f node = Schema (f (attributes_of node)) (properties_of node) (items_of node) (patterns_of node) (others_of node)"

definition with_items :: "('v, 'n, 'x) schema option \<Rightarrow> ('v, 'n, 'x) schema \<Rightarrow> ('v, 'n, 'x) schema" where
  "with_items items node = Schema (attributes_of node) (properties_of node) items (patterns_of node) (others_of node)"

text \<open>The filled attributes of a definition over those of its field, and the values it permits or exemplifies.\<close>

definition annotate :: "('v, 'n) FieldDefinition \<Rightarrow> ('v, 'n) attributes \<Rightarrow> ('v, 'n) attributes" where
  "annotate field a = a\<lparr>
     a_title := (if fd_title field \<noteq> [] then fd_title field else a_title a),
     a_description := (if fd_description field \<noteq> [] then fd_description field else a_description a),
     a_pattern := (if fd_pattern field \<noteq> [] then fd_pattern field else a_pattern a),
     a_format := (if fd_format field \<noteq> [] then fd_format field else a_format a),
     a_minimum := (if fd_minimum field \<noteq> None then fd_minimum field else a_minimum a),
     a_maximum := (if fd_maximum field \<noteq> None then fd_maximum field else a_maximum a),
     a_minLength := (if fd_minLength field \<noteq> None then fd_minLength field else a_minLength a),
     a_maxLength := (if fd_maxLength field \<noteq> None then fd_maxLength field else a_maxLength a)\<rparr>"

definition constrain :: "('v, 'n) FieldDefinition \<Rightarrow> ('v, 'n) attributes \<Rightarrow> ('v, 'n) attributes" where
  "constrain field a = a\<lparr>
     a_enum := (if fd_enum field \<noteq> [] then fd_enum field else a_enum a),
     a_examples := (if fd_examples field \<noteq> [] then fd_examples field else a_examples a)\<rparr>"

text \<open>The elements of an array, where there are any, or else the node itself.\<close>

definition constrain_target :: "('v, 'n) FieldDefinition \<Rightarrow> ('v, 'n, 'x) schema \<Rightarrow> ('v, 'n, 'x) schema" where
  "constrain_target field node =
     (if a_type (attributes_of node) = ''array'' \<or> ''array'' \<in> set (a_types (attributes_of node))
      then (case items_of node of
          Some items \<Rightarrow> with_items (Some (with_attributes (constrain field) items)) node
        | None \<Rightarrow> with_attributes (constrain field) node)
      else with_attributes (constrain field) node)"

definition applyFieldDefinition :: "('v, 'n, 'x) schema_library \<Rightarrow> ('v, 'n, 'x) schema \<Rightarrow> ('v, 'n) FieldDefinition \<Rightarrow> string \<Rightarrow>
    goerror + ('v, 'n, 'x) schema" where
  "applyFieldDefinition lib node field path =
     (let annotated = with_attributes (annotate field) node;
          defaulted = (case fd_default field of
              None \<Rightarrow> Inr annotated
            | Some v \<Rightarrow> (case sl_Marshal lib v of
                Inl err \<Rightarrow> Inl (Wrap (''schema definition path '' @ path @ '': encode default: %w'') [err])
              | Inr encoded \<Rightarrow> Inr (with_attributes (\<lambda>a. a\<lparr>a_default := Some encoded\<rparr>) annotated)))
      in case defaulted of
           Inl err \<Rightarrow> Inl err
         | Inr node' \<Rightarrow>
             Inr (constrain_target field node'))"

text \<open>The schema at a path of declared fields, and storing into it.\<close>

fun node_at :: "('v, 'n, 'x) schema \<Rightarrow> string list \<Rightarrow> ('v, 'n, 'x) schema option" where
  "node_at node [] = Some node"
| "node_at node (segment # path) = (case properties_of node of
      None \<Rightarrow> None
    | Some properties \<Rightarrow> (case map_of properties segment of None \<Rightarrow> None | Some child \<Rightarrow> node_at child path))"

fun put_node :: "string list \<Rightarrow> ('v, 'n, 'x) schema \<Rightarrow> ('v, 'n, 'x) schema \<Rightarrow> ('v, 'n, 'x) schema" where
  "put_node [] new node = new"
| "put_node (segment # path) new node = (case properties_of node of
      None \<Rightarrow> node
    | Some properties \<Rightarrow> (case map_of properties segment of
        None \<Rightarrow> node
      | Some child \<Rightarrow> Schema (attributes_of node) (Some (AList.update segment (put_node path new child) properties))
          (items_of node) (patterns_of node) (others_of node)))"

definition fieldNode :: "('v, 'n, 'x) schema \<Rightarrow> string \<Rightarrow> goerror + ('v, 'n, 'x) schema" where
  "fieldNode root path = (case node_at root (splitPath path) of
      None \<Rightarrow> Inl (Leaf (''schema definition path '' @ path @ '' does not designate a declared field''))
    | Some node \<Rightarrow> Inr node)"

fun apply_fields :: "('v, 'n, 'x) schema_library \<Rightarrow> (string \<times> ('v, 'n) FieldDefinition) list \<Rightarrow> string list \<Rightarrow>
    ('v, 'n, 'x) schema \<Rightarrow> goerror + ('v, 'n, 'x) schema" where
  "apply_fields lib defined [] root = Inr root"
| "apply_fields lib defined (path # paths) root = (case fieldNode root path of
      Inl err \<Rightarrow> Inl err
    | Inr node \<Rightarrow> (case applyFieldDefinition lib node (the (map_of defined path)) path of
        Inl err \<Rightarrow> Inl err
      | Inr node' \<Rightarrow> apply_fields lib defined paths (put_node (splitPath path) node' root)))"

definition applyDefinition :: "('v, 'n, 'x) schema_library \<Rightarrow> ('v, 'n, 'x) schema \<Rightarrow> ('v, 'n) SchemaDefinition \<Rightarrow>
    goerror + ('v, 'n, 'x) schema" where
  "applyDefinition lib root d =
     apply_fields lib (sd_fields d) (sort (map fst (sd_fields d)))
       (if sd_description d \<noteq> [] then with_attributes (\<lambda>a. a\<lparr>a_description := sd_description d\<rparr>) root else root)"

fun applyDefinitions :: "('v, 'n, 'x) schema_library \<Rightarrow> ('v, 'n) SchemaDefinition list \<Rightarrow> ('v, 'n, 'x) schema \<Rightarrow>
    goerror + ('v, 'n, 'x) schema" where
  "applyDefinitions lib [] root = Inr root"
| "applyDefinitions lib (d # ds) root = (case applyDefinition lib root d of
      Inl err \<Rightarrow> Inl err
    | Inr root' \<Rightarrow> applyDefinitions lib ds root')"

section \<open>Generating the document\<close>

definition schemaVersion :: string where
  "schemaVersion = ''https://json-schema.org/draft/2020-12/schema''"

definition type_name :: "go_type \<Rightarrow> string" where
  "type_name T = (case T of TNamed n _ \<Rightarrow> n | _ \<Rightarrow> [])"

definition prototype_overrides :: "('v, 'n, 'x) schema_library \<Rightarrow> ('v, 'n, 'x) overrides \<Rightarrow> ('v, 'n, 'x) overrides" where
  "prototype_overrides lib overrides = overrides(
     TDuration \<mapsto> leaf_schema lib (no_attributes\<lparr>a_types := [''string'', ''integer''], a_pattern := sl_durationPattern lib,
       a_description := ''Go duration string, such as \"30s\" or \"1h30m\", or an integer nanosecond count.''\<rparr>),
     sl_time lib \<mapsto> leaf_schema lib (no_attributes\<lparr>a_type := ''string'', a_format := ''date-time''\<rparr>))"

definition document_root :: "('v, 'n, 'x) schema_library \<Rightarrow> go_type \<Rightarrow> ('v, 'n, 'x) schema \<Rightarrow> ('v, 'n, 'x) schema" where
  "document_root lib T root =
     Schema ((attributes_of root)\<lparr>a_version := schemaVersion,
         a_title := (if type_name T \<noteq> [] then type_name T else a_title (attributes_of root))\<rparr>)
       (properties_of root) (items_of root)
       [(''^'' @ CHR 0x5C # ''$schema$'', leaf_schema lib (no_attributes\<lparr>a_type := ''string'', a_format := ''uri-reference''\<rparr>))] (others_of root)"

definition derive_root :: "('v, 'n, 'x) schema_library \<Rightarrow> go_type \<Rightarrow> goerror + ('v, 'n, 'x) schema" where
  "derive_root lib T = (case analyzeType lib T {} Map.empty of
      Inl err \<Rightarrow> Inl err
    | Inr (_, overrides) \<Rightarrow> (case sl_ForType lib T (prototype_overrides lib overrides) of
        Inl err \<Rightarrow> Inl (Wrap ''derive schema of %s: %w'' [err])
      | Inr root \<Rightarrow>
          if a_type (attributes_of root) \<noteq> ''object'' \<or> properties_of root = None
          then Inl (Leaf ''schema prototype %s does not describe a JSON object'')
          else Inr (document_root lib T root)))"

definition GenerateSchema :: "('v, 'n, 'x) schema_library \<Rightarrow> go_type option \<Rightarrow> ('v, 'n) SchemaDefinition list \<Rightarrow> goerror + string" where
  "GenerateSchema lib prototype definitions = (case prototype of
      None \<Rightarrow> Inl (Leaf ''schema prototype must not be nil'')
    | Some P \<Rightarrow>
        (let T = dereference P
         in if \<not> struct_kind T then Inl (Leaf ''schema prototype must be a struct, not %s'')
            else (case derive_root lib T of
                Inl err \<Rightarrow> Inl err
              | Inr derived \<Rightarrow> (case applyDefinitions lib definitions derived of
                  Inl err \<Rightarrow> Inl err
                | Inr root \<Rightarrow> (case sl_Resolve lib root of
                    Some err \<Rightarrow> Inl (Wrap ''validate generated schema: %w'' [err])
                  | None \<Rightarrow> (case sl_MarshalIndent lib root of
                      Inl err \<Rightarrow> Inl (Wrap ''encode schema: %w'' [err])
                    | Inr document \<Rightarrow> Inr (document @ [CHR 0x0A])))))))"

section \<open>What the walk visits\<close>

text \<open>What the walk lets pass in one type, and the types a type leads to.\<close>

definition accepted_embedding :: "('v, 'n, 'x) schema_library \<Rightarrow> struct_field \<Rightarrow> bool" where
  "accepted_embedding lib f \<longleftrightarrow>
     (let embedded = dereference (f_type f)
      in if struct_kind embedded then \<not> snd (jsonName f) \<and> \<not> sl_unmarshals lib embedded
         else fst (jsonName f) = ''-'')"

lemma rejectUnfaithfulEmbedding_iff:
  "rejectUnfaithfulEmbedding lib fs = None \<longleftrightarrow> (\<forall>f \<in> set fs. f_anonymous f \<longrightarrow> accepted_embedding lib f)"
  by (induction fs) (auto simp: accepted_embedding_def Let_def split: prod.splits)

definition accepted :: "('v, 'n, 'x) schema_library \<Rightarrow> go_type \<Rightarrow> bool" where
  "accepted lib T \<longleftrightarrow> sl_unmarshals lib T \<or>
     (case underlying T of
        TStruct fs \<Rightarrow> (\<forall>f \<in> set fs. f_anonymous f \<longrightarrow> accepted_embedding lib f) \<and>
          (\<forall>f \<in> set (declared_fields fs). Tag_Lookup f ''jsonschema'' = None \<and> Tag_Lookup f ''desc'' = None)
      | _ \<Rightarrow> True)"

lemma metadata_tag_None: "metadata_tag f = None \<longleftrightarrow> Tag_Lookup f ''jsonschema'' = None \<and> Tag_Lookup f ''desc'' = None"
  by (auto simp: metadata_tag_def)

definition field_types :: "struct_field list \<Rightarrow> go_type set" where
  "field_types fs = dereference ` f_type ` set fs"

definition leads_to :: "('v, 'n, 'x) schema_library \<Rightarrow> go_type \<Rightarrow> go_type set" where
  "leads_to lib T =
     (if sl_unmarshals lib T then {}
      else case underlying T of
          TSlice U \<Rightarrow> {dereference U}
        | TArray n U \<Rightarrow> {dereference U}
        | TMap K U \<Rightarrow> {dereference U}
        | TStruct fs \<Rightarrow> field_types (declared_fields fs)
        | _ \<Rightarrow> {})"

definition reaches :: "('v, 'n, 'x) schema_library \<Rightarrow> go_type \<Rightarrow> go_type \<Rightarrow> bool" where
  "reaches lib = (\<lambda>T U. U \<in> leads_to lib T)\<^sup>*\<^sup>*"

lemma reaches_refl [simp]: "reaches lib T T"
  by (simp add: reaches_def)

lemma reaches_step: "U \<in> leads_to lib T \<Longrightarrow> reaches lib U V \<Longrightarrow> reaches lib T V"
  unfolding reaches_def by (rule converse_rtranclp_into_rtranclp)

lemma reaches_closed:
  assumes "reaches lib T U" "T \<in> V" "\<And>X. X \<in> V \<Longrightarrow> leads_to lib X \<subseteq> V"
  shows "U \<in> V"
  using assms(1,2) unfolding reaches_def by (induction rule: rtranclp_induct) (use assms(3) in auto)

text \<open>What one call adds: types reached from where it starts, closed up to what was visited before.\<close>

definition explored where
  "explored lib start visited overrides visited' overrides' \<longleftrightarrow>
     visited \<subseteq> visited' \<and> start \<subseteq> visited' \<and>
     (\<forall>T \<in> visited' - visited. accepted lib T \<and> leads_to lib T \<subseteq> visited' \<and> (\<exists>S \<in> start. reaches lib S T)) \<and>
     overrides' = (\<lambda>T. if T \<in> visited' - visited \<and> sl_unmarshals lib T then Some (textualSchema lib T) else overrides T)"

lemma explored_refl: "start \<subseteq> visited \<Longrightarrow> explored lib start visited overrides visited overrides"
  by (simp add: explored_def)

lemma explored_text:
  "sl_unmarshals lib T \<Longrightarrow> T \<notin> visited \<Longrightarrow>
   explored lib {T} visited overrides (insert T visited) (overrides(T \<mapsto> textualSchema lib T))"
  by (auto simp: explored_def accepted_def leads_to_def)

lemma explored_enter:
  assumes "explored lib (leads_to lib T) (insert T visited) overrides visited' overrides'"
    and "T \<notin> visited" "\<not> sl_unmarshals lib T" "accepted lib T"
  shows "explored lib {T} visited overrides visited' overrides'"
  using assms by (auto simp: explored_def intro: reaches_step)

lemma explored_trans:
  assumes "explored lib S visited overrides visited1 overrides1" "explored lib S' visited1 overrides1 visited' overrides'"
  shows "explored lib (S \<union> S') visited overrides visited' overrides'"
  using assms unfolding explored_def by (auto simp: fun_eq_iff) blast+

lemma field_types_simps [simp]: "field_types [] = {}" "field_types (f # fs) = insert (dereference (f_type f)) (field_types fs)"
  by (simp_all add: field_types_def)

definition blocked :: "('v, 'n, 'x) schema_library \<Rightarrow> go_type set \<Rightarrow> bool" where
  "blocked lib start \<longleftrightarrow> (\<exists>S \<in> start. \<exists>T. reaches lib S T \<and> \<not> accepted lib T)"

lemma blocked_step: "blocked lib (leads_to lib T) \<Longrightarrow> blocked lib {T}"
  by (auto simp: blocked_def intro: reaches_step)

lemma analysis:
  "case analyzeType lib T visited overrides of
     Inl err \<Rightarrow> blocked lib {dereference T}
   | Inr (visited', overrides') \<Rightarrow> explored lib {dereference T} visited overrides visited' overrides'"
  "case analyze_fields lib fs visited overrides of
     Inl err \<Rightarrow> (\<exists>f \<in> set fs. metadata_tag f \<noteq> None) \<or> blocked lib (field_types fs)
   | Inr (visited', overrides') \<Rightarrow> (\<forall>f \<in> set fs. metadata_tag f = None) \<and> explored lib (field_types fs) visited overrides visited' overrides'"
proof (induction lib T visited overrides and lib fs visited overrides rule: analyzeType_analyze_fields.induct)
  case (1 lib T visited overrides)
  let ?T = "dereference T"
  consider (seen) "?T \<in> visited" | (text_form) "?T \<notin> visited" "sl_unmarshals lib ?T"
    | (new) "?T \<notin> visited" "\<not> sl_unmarshals lib ?T" by blast
  then show ?case
  proof cases
    case seen
    then show ?thesis by (simp add: analyzeType.simps explored_refl)
  next
    case text_form
    then show ?thesis by (simp add: analyzeType.simps Let_def explored_text)
  next
    case new
    have element: ?thesis if u: "leads_to lib ?T = {dereference U}" "accepted lib ?T"
        "analyzeType lib T visited overrides = analyzeType lib U (insert ?T visited) overrides"
      and ih: "case analyzeType lib U (insert ?T visited) overrides of
          Inl err \<Rightarrow> blocked lib {dereference U}
        | Inr (visited', overrides') \<Rightarrow> explored lib {dereference U} (insert ?T visited) overrides visited' overrides'" for U
      using ih explored_enter [of lib ?T visited overrides, unfolded u(1), OF _ new u(2)] blocked_step [of lib ?T, unfolded u(1)]
      unfolding u(3) by (auto split: sum.splits)
    have none: ?thesis if "leads_to lib ?T = {}" "accepted lib ?T"
        "analyzeType lib T visited overrides = Inr (insert ?T visited, overrides)"
      using explored_enter [of lib ?T visited overrides "insert ?T visited" overrides, OF _ new that(2)] that(1)
      unfolding that(3) by (simp add: explored_refl)
    show ?thesis
    proof (cases "underlying ?T")
      case (TSlice U)
      show ?thesis
        by (rule element [OF _ _ _ 1(1) [OF refl refl new TSlice]]) (use new TSlice in \<open>simp_all add: leads_to_def accepted_def analyzeType.simps [of lib T]\<close>)
    next
      case (TArray n U)
      show ?thesis
        by (rule element [OF _ _ _ 1(2) [OF refl refl new TArray]]) (use new TArray in \<open>simp_all add: leads_to_def accepted_def analyzeType.simps [of lib T]\<close>)
    next
      case (TMap K U)
      show ?thesis
        by (rule element [OF _ _ _ 1(3) [OF refl refl new TMap]]) (use new TMap in \<open>simp_all add: leads_to_def accepted_def analyzeType.simps [of lib T]\<close>)
    next
      case (TStruct fs)
      have l: "leads_to lib ?T = field_types (declared_fields fs)" using new TStruct by (simp add: leads_to_def)
      have d: "accepted lib ?T \<longleftrightarrow> rejectUnfaithfulEmbedding lib fs = None \<and> (\<forall>f \<in> set (declared_fields fs). metadata_tag f = None)"
        using new TStruct by (simp add: accepted_def rejectUnfaithfulEmbedding_iff metadata_tag_None)
      have bad: "blocked lib {?T}" if "\<not> accepted lib ?T" using that reaches_refl unfolding blocked_def by blast
      show ?thesis
      proof (cases "rejectUnfaithfulEmbedding lib fs")
        case None
        have a: "analyzeType lib T visited overrides = analyze_fields lib (declared_fields fs) (insert ?T visited) overrides"
          using new TStruct None by (simp add: analyzeType.simps [of lib T])
        show ?thesis using 1(4) [OF refl refl new TStruct None] None explored_enter [OF _ new, unfolded l] blocked_step [of lib ?T, unfolded l] bad
          unfolding a d by (auto split: sum.splits)
      next
        case (Some err)
        then show ?thesis using new TStruct bad d by (simp add: analyzeType.simps [of lib T])
      qed
    qed (rule none; use new in \<open>simp add: leads_to_def accepted_def analyzeType.simps [of lib T]\<close>)+
  qed
next
  case (2 lib visited overrides)
  then show ?case by (simp add: explored_refl)
next
  case (3 lib field fs visited overrides)
  show ?case
  proof (cases "metadata_tag field")
    case None
    show ?thesis
    proof (cases "analyzeType lib (f_type field) visited overrides")
      case (Inl err)
      then show ?thesis using 3(1) [OF None] None by (auto simp: blocked_def)
    next
      case (Inr r)
      obtain visited1 overrides1 where r: "r = (visited1, overrides1)" by fastforce
      have e: "explored lib {dereference (f_type field)} visited overrides visited1 overrides1"
        using 3(1) [OF None] Inr r by simp
      show ?thesis using 3(2) [OF None Inr r [symmetric]] explored_trans [OF e] None Inr r
        by (auto simp: blocked_def split: sum.splits)
    qed
  qed auto
qed

theorem analysis_is_exact:
  "(\<exists>r. analyzeType lib P {} Map.empty = Inr r) \<longleftrightarrow> (\<forall>T. reaches lib (dereference P) T \<longrightarrow> accepted lib T)"
  "analyzeType lib P {} Map.empty = Inr (visited, overrides) \<Longrightarrow> visited = {T. reaches lib (dereference P) T} \<and>
     overrides = (\<lambda>T. if reaches lib (dereference P) T \<and> sl_unmarshals lib T then Some (textualSchema lib T) else None)"
proof -
  let ?P = "dereference P"
  have visited: "visited = {T. reaches lib ?P T}" if "explored lib {?P} {} Map.empty visited overrides" for visited overrides
  proof -
    have "leads_to lib X \<subseteq> visited" if "X \<in> visited" for X
      using \<open>explored lib {?P} {} Map.empty visited overrides\<close> that by (simp add: explored_def)
    then show ?thesis using that reaches_closed [of lib ?P _ visited] by (auto simp: explored_def)
  qed
  show "(\<exists>r. analyzeType lib P {} Map.empty = Inr r) \<longleftrightarrow> (\<forall>T. reaches lib ?P T \<longrightarrow> accepted lib T)"
  proof (cases "analyzeType lib P {} Map.empty")
    case (Inl err)
    then show ?thesis using analysis(1) [of lib P "{}" Map.empty] by (auto simp: blocked_def)
  next
    case (Inr r)
    then obtain V O' where r: "r = (V, O')" "explored lib {?P} {} Map.empty V O'"
      using analysis(1) [of lib P "{}" Map.empty] by (cases r) auto
    have "\<forall>T. reaches lib ?P T \<longrightarrow> accepted lib T" using r(2) visited [OF r(2)] by (auto simp: explored_def)
    then show ?thesis using Inr by blast
  qed
  show "visited = {T. reaches lib ?P T} \<and>
      overrides = (\<lambda>T. if reaches lib ?P T \<and> sl_unmarshals lib T then Some (textualSchema lib T) else None)"
    if "analyzeType lib P {} Map.empty = Inr (visited, overrides)"
  proof -
    have e: "explored lib {?P} {} Map.empty visited overrides" using analysis(1) [of lib P "{}" Map.empty] that by simp
    show ?thesis using e visited [OF e] by (simp add: explored_def)
  qed
qed

section \<open>What a definition changes\<close>

text \<open>A schema but for what its fields hold.\<close>

definition own where
  "own node = (attributes_of node, items_of node, patterns_of node, others_of node)"

lemma own_eq: "own node = own node' \<longleftrightarrow>
    attributes_of node = attributes_of node' \<and> items_of node = items_of node' \<and> patterns_of node = patterns_of node' \<and> others_of node = others_of node'"
  by (auto simp: own_def)

lemma own_with [simp]:
  "properties_of (with_attributes f node) = properties_of node" "properties_of (with_items i node) = properties_of node"
  "attributes_of (with_attributes f node) = f (attributes_of node)" "items_of (with_attributes f node) = items_of node"
  "patterns_of (with_attributes f node) = patterns_of node" "others_of (with_attributes f node) = others_of node"
  "attributes_of (with_items i node) = attributes_of node" "items_of (with_items i node) = i"
  "patterns_of (with_items i node) = patterns_of node" "others_of (with_items i node) = others_of node"
  by (simp_all add: with_attributes_def with_items_def)

definition own_at where
  "own_at node path = map_option own (node_at node path)"

lemma own_at_frame: "own node = own node' \<Longrightarrow> properties_of node = properties_of node' \<Longrightarrow> own_at node path = own_at node' path"
  by (cases path) (simp_all add: own_at_def split: option.splits)

lemma own_at_put:
  assumes "node_at node path = Some old" "properties_of new = properties_of old"
  shows "own_at (put_node path new node) q = (if q = path then Some (own new) else own_at node q)"
  using assms
proof (induction path arbitrary: node q)
  case Nil
  then show ?case by (cases q) (auto simp: own_at_def split: option.splits)
next
  case (Cons segment path)
  then obtain properties child where c: "properties_of node = Some properties" "map_of properties segment = Some child" "node_at child path = Some old"
    by (auto split: option.splits)
  note ih = Cons.IH [OF c(3) Cons.prems(2)]
  show ?case
  proof (cases q)
    case Nil
    then show ?thesis using c by (simp add: own_at_def own_def)
  next
    case (Cons segment' q')
    then show ?thesis using c ih [of q'] by (auto simp: own_at_def update_conv' split: option.splits)
  qed
qed

lemma splitPath_inj: "splitPath s = splitPath t \<longleftrightarrow> s = t"
proof -
  define joined where "joined = (\<lambda>segments. tl (concat (map (Cons (CHR ''.'')) segments)))"
  have "joined (splitPath s) = s" for s
  proof (induction s)
    case (Cons c s)
    obtain segment segments where "splitPath s = segment # segments" using splitPath_nonempty [of s] by (cases "splitPath s") auto
    then show ?case using Cons by (auto simp: joined_def)
  qed (simp add: joined_def)
  then show ?thesis by metis
qed

text \<open>What the definition of a field makes of its schema; it encodes or it does not, whatever the schema.\<close>

definition encodes :: "('v, 'n, 'x) schema_library \<Rightarrow> ('v, 'n) FieldDefinition \<Rightarrow> bool" where
  "encodes lib f \<longleftrightarrow> (case fd_default f of None \<Rightarrow> True | Some v \<Rightarrow> (\<exists>encoded. sl_Marshal lib v = Inr encoded))"

definition refined :: "('v, 'n, 'x) schema_library \<Rightarrow> ('v, 'n) FieldDefinition \<Rightarrow> ('v, 'n, 'x) schema \<Rightarrow> ('v, 'n, 'x) schema" where
  "refined lib f node = (case applyFieldDefinition lib node f [] of Inr node' \<Rightarrow> node' | Inl _ \<Rightarrow> node)"

lemma constrain_target_properties [simp]: "properties_of (constrain_target f node) = properties_of node"
  by (simp add: constrain_target_def split: option.split)

lemma applyFieldDefinition_encodes:
  "(\<exists>err. applyFieldDefinition lib node f path = Inl err) \<longleftrightarrow> \<not> encodes lib f"
  by (auto simp: applyFieldDefinition_def encodes_def Let_def split: option.splits sum.splits)

lemma applyFieldDefinition_refined: "applyFieldDefinition lib node f path = Inr node' \<Longrightarrow> node' = refined lib f node"
  by (auto simp: applyFieldDefinition_def refined_def Let_def split: option.splits sum.splits)

lemma refined_properties [simp]: "properties_of (refined lib f node) = properties_of node"
  by (simp add: applyFieldDefinition_def refined_def Let_def split: option.split sum.split)

lemma own_with_attributes: "own node = own node' \<Longrightarrow> own (with_attributes g node) = own (with_attributes g node')"
  by (simp add: own_eq)

lemma own_constrain_target: "own node = own node' \<Longrightarrow> own (constrain_target f node) = own (constrain_target f node')"
  by (cases "items_of node'") (auto simp: own_eq constrain_target_def)

lemma refined_own: "own node = own node' \<Longrightarrow> own (refined lib f node) = own (refined lib f node')"
  by (auto simp: applyFieldDefinition_def refined_def Let_def intro!: own_constrain_target own_with_attributes split: option.splits sum.splits)

text \<open>The definition a path of document names has.\<close>

definition definition_at :: "(string \<times> ('v, 'n) FieldDefinition) list \<Rightarrow> string list \<Rightarrow> ('v, 'n) FieldDefinition option" where
  "definition_at defined path = map_of (map (map_prod splitPath id) defined) path"

lemma definition_at_split [simp]: "definition_at defined (splitPath path) = map_of defined path"
  by (induction defined) (auto simp: definition_at_def splitPath_inj)

lemma definition_at_Nil [simp]: "definition_at defined [] = None"
  using splitPath_nonempty [symmetric] by (induction defined) (auto simp: definition_at_def)

definition overlaid :: "('v, 'n, 'x) schema_library \<Rightarrow> string list \<Rightarrow> ('v, 'n) SchemaDefinition \<Rightarrow> ('v, 'n, 'x) schema \<Rightarrow> ('v, 'n, 'x) schema" where
  "overlaid lib path d node =
     (if path = [] then (if sd_description d \<noteq> [] then with_attributes (\<lambda>a. a\<lparr>a_description := sd_description d\<rparr>) node else node)
      else case definition_at (sd_fields d) path of None \<Rightarrow> node | Some f \<Rightarrow> refined lib f node)"

lemma overlaid_own: "own node = own node' \<Longrightarrow> own (overlaid lib path d node) = own (overlaid lib path d node')"
  by (auto simp: overlaid_def intro: own_with_attributes refined_own split: option.split)

lemma overlaid_all_own:
  "own node = own node' \<Longrightarrow> own (fold (overlaid lib path) ds node) = own (fold (overlaid lib path) ds node')"
proof (induction ds arbitrary: node node')
  case (Cons d ds)
  show ?case using Cons.IH [OF overlaid_own [OF Cons.prems]] by simp
qed simp

lemma own_at_through:
  assumes "own_at root path = own_at root' path" "\<And>node node'. own node = own node' \<Longrightarrow> own (f node) = own (f node')"
  shows "map_option (\<lambda>node. own (f node)) (node_at root path) = map_option (\<lambda>node. own (f node)) (node_at root' path)"
proof (cases "node_at root path"; cases "node_at root' path")
  fix node node' assume "node_at root path = Some node" "node_at root' path = Some node'"
  then show ?thesis using assms(1) assms(2) [of node node'] by (simp add: own_at_def)
qed (use assms(1) in \<open>simp_all add: own_at_def\<close>)

lemma own_at_shape: "own_at root' path = map_option f (node_at root path) \<Longrightarrow> node_at root' path = None \<longleftrightarrow> node_at root path = None"
  by (cases "node_at root path"; cases "node_at root' path") (auto simp: own_at_def)

definition applied_at where
  "applied_at lib defined paths root path =
     (if path \<in> splitPath ` set paths then map_option (\<lambda>node. own (refined lib (the (definition_at defined path)) node)) (node_at root path)
      else own_at root path)"

lemma apply_fields_own:
  assumes "distinct paths"
  shows "case apply_fields lib defined paths root of
      Inl err \<Rightarrow> \<exists>path \<in> set paths. node_at root (splitPath path) = None \<or> \<not> encodes lib (the (map_of defined path))
    | Inr root' \<Rightarrow> (\<forall>path \<in> set paths. node_at root (splitPath path) \<noteq> None \<and> encodes lib (the (map_of defined path))) \<and>
        (\<forall>path. own_at root' path = applied_at lib defined paths root path)"
  using assms
proof (induction paths arbitrary: root)
  case (Cons path paths)
  let ?f = "the (map_of defined path)"
  show ?case
  proof (cases "node_at root (splitPath path)")
    case (Some node)
    show ?thesis
    proof (cases "applyFieldDefinition lib node ?f path")
      case (Inl err)
      then have "\<not> encodes lib ?f" using applyFieldDefinition_encodes by blast
      then show ?thesis using Some Inl by (simp add: fieldNode_def)
    next
      case (Inr node')
      then have f: "encodes lib ?f" "node' = refined lib ?f node"
        using applyFieldDefinition_encodes [of lib node ?f path] applyFieldDefinition_refined by auto
      let ?root = "put_node (splitPath path) node' root"
      have put: "own_at ?root q = (if q = splitPath path then Some (own node') else own_at root q)" for q
        by (rule own_at_put [OF Some]) (simp add: f(2))
      have shape: "node_at ?root q = None \<longleftrightarrow> node_at root q = None" for q
        using put [of q] Some by (cases "node_at ?root q"; cases "node_at root q") (auto simp: own_at_def split: if_splits)
      have "applied_at lib defined paths ?root q = applied_at lib defined (path # paths) root q" for q
      proof (cases "q = splitPath path")
        case True
        then have "q \<notin> splitPath ` set paths" using Cons.prems by (auto simp: splitPath_inj)
        then show ?thesis using True put [of q] Some f(2) by (simp add: applied_at_def)
      next
        case False
        then show ?thesis using put [of q] own_at_through [of ?root q root "refined lib (the (definition_at defined q))", OF _ refined_own]
          by (auto simp: applied_at_def)
      qed
      then show ?thesis using Cons.IH [of ?root] Cons.prems Some Inr f(1) shape
        by (auto simp: fieldNode_def split: sum.splits)
    qed
  qed (simp add: fieldNode_def)
qed (simp add: applied_at_def)

definition designates :: "('v, 'n, 'x) schema_library \<Rightarrow> ('v, 'n, 'x) schema \<Rightarrow> ('v, 'n) SchemaDefinition \<Rightarrow> bool" where
  "designates lib root d \<longleftrightarrow>
     (\<forall>(path, f) \<in> set (sd_fields d). node_at root (splitPath path) \<noteq> None \<and> encodes lib f)"

lemma applyDefinition_own:
  assumes "distinct (map fst (sd_fields d))"
  shows "case applyDefinition lib root d of
      Inl err \<Rightarrow> \<not> designates lib root d
    | Inr root' \<Rightarrow> designates lib root d \<and> (\<forall>path. own_at root' path = map_option (\<lambda>node. own (overlaid lib path d node)) (node_at root path))"
proof -
  let ?root = "if sd_description d \<noteq> [] then with_attributes (\<lambda>a. a\<lparr>a_description := sd_description d\<rparr>) root else root"
  let ?paths = "sort (map fst (sd_fields d))"
  have below: "node_at ?root path = node_at root path" if "path \<noteq> []" for path using that by (cases path) auto
  have named: "the (map_of (sd_fields d) path) = f" if "(path, f) \<in> set (sd_fields d)" for path f
    using assms that by simp
  have des: "designates lib root d \<longleftrightarrow>
      (\<forall>path \<in> set ?paths. node_at ?root (splitPath path) \<noteq> None \<and> encodes lib (the (map_of (sd_fields d) path)))"
    using named by (fastforce simp: designates_def below [OF splitPath_nonempty])
  have app: "applied_at lib (sd_fields d) ?paths ?root path = map_option (\<lambda>node. own (overlaid lib path d node)) (node_at root path)" for path
  proof (cases "path = []")
    case True
    then show ?thesis using splitPath_nonempty [symmetric] by (auto simp: applied_at_def overlaid_def own_at_def)
  next
    case False
    have n: "definition_at (sd_fields d) path = None \<longleftrightarrow> path \<notin> splitPath ` set ?paths"
      by (auto simp: definition_at_def map_of_eq_None_iff image_iff)
    then show ?thesis using False
      by (cases "definition_at (sd_fields d) path") (simp_all add: applied_at_def overlaid_def below own_at_def)
  qed
  have "case apply_fields lib (sd_fields d) ?paths ?root of
      Inl err \<Rightarrow> \<not> designates lib root d
    | Inr root' \<Rightarrow> designates lib root d \<and> (\<forall>path. own_at root' path = map_option (\<lambda>node. own (overlaid lib path d node)) (node_at root path))"
    using apply_fields_own [of ?paths ?root lib "sd_fields d", unfolded distinct_sort, OF assms] unfolding des app [symmetric]
    by (cases "apply_fields lib (sd_fields d) ?paths ?root"; simp only: sum.case; blast)
  then show ?thesis unfolding applyDefinition_def .
qed

lemma applyDefinitions_own:
  assumes "\<forall>d \<in> set ds. distinct (map fst (sd_fields d))"
  shows "case applyDefinitions lib ds root of
      Inl err \<Rightarrow> \<exists>d \<in> set ds. \<not> designates lib root d
    | Inr root' \<Rightarrow> (\<forall>d \<in> set ds. designates lib root d) \<and>
        (\<forall>path. own_at root' path = map_option (\<lambda>node. own (fold (overlaid lib path) ds node)) (node_at root path))"
  using assms
proof (induction ds arbitrary: root)
  case (Cons d ds)
  have d: "distinct (map fst (sd_fields d))" using Cons.prems by simp
  show ?case
  proof (cases "applyDefinition lib root d")
    case (Inr root1)
    then have r: "designates lib root d" "own_at root1 path = map_option (\<lambda>node. own (overlaid lib path d node)) (node_at root path)" for path
      using applyDefinition_own [OF d, of lib root] by simp_all
    have shape: "designates lib root1 d' \<longleftrightarrow> designates lib root d'" for d'
      using own_at_shape [OF r(2)] by (simp add: designates_def)
    have step: "map_option (\<lambda>node. own (fold (overlaid lib path) ds node)) (node_at root1 path) =
        map_option (\<lambda>node. own (fold (overlaid lib path) ds (overlaid lib path d node))) (node_at root path)" for path
    proof (cases "node_at root path"; cases "node_at root1 path")
      fix node node1 assume n: "node_at root path = Some node" "node_at root1 path = Some node1"
      then have "own node1 = own (overlaid lib path d node)" using r(2) [of path] by (simp add: own_at_def)
      from overlaid_all_own [OF this] show ?thesis using n by simp
    qed (use r(2) [of path] in \<open>simp_all add: own_at_def\<close>)
    show ?thesis using Cons.IH [of root1] Cons.prems Inr r(1) by (auto simp: shape step split: sum.splits)
  qed (use applyDefinition_own [OF d, of lib root] in simp)
qed (simp add: own_at_def)

definition refined_by :: "('v, 'n, 'x) schema_library \<Rightarrow> ('v, 'n) SchemaDefinition list \<Rightarrow> ('v, 'n, 'x) schema \<Rightarrow> ('v, 'n, 'x) schema \<Rightarrow> bool" where
  "refined_by lib ds derived root \<longleftrightarrow>
     (\<forall>path. own_at root path = map_option (\<lambda>node. own (fold (overlaid lib path) ds node)) (node_at derived path))"

text \<open>An attribute a definition leaves unset keeps what the schema had.\<close>

lemma refined_fills:
  assumes "encodes lib f"
  shows "a_title (attributes_of (refined lib f node)) = (if fd_title f \<noteq> [] then fd_title f else a_title (attributes_of node))"
    and "a_pattern (attributes_of (refined lib f node)) = (if fd_pattern f \<noteq> [] then fd_pattern f else a_pattern (attributes_of node))"
    and "a_minimum (attributes_of (refined lib f node)) = (if fd_minimum f \<noteq> None then fd_minimum f else a_minimum (attributes_of node))"
    and "a_type (attributes_of (refined lib f node)) = a_type (attributes_of node)"
    and "a_types (attributes_of (refined lib f node)) = a_types (attributes_of node)"
    and "a_default (attributes_of (refined lib f node)) =
      (case fd_default f of Some v \<Rightarrow> (case sl_Marshal lib v of Inr encoded \<Rightarrow> Some encoded | Inl _ \<Rightarrow> None)
       | None \<Rightarrow> a_default (attributes_of node))"
  using assms
  by (auto simp: refined_def applyFieldDefinition_def encodes_def constrain_target_def annotate_def constrain_def Let_def split: option.splits)

text \<open>A prototype with a duration and an optional number, and a library for flat structs.\<close>

definition demo_prototype :: go_type where
  "demo_prototype = TPointer (TNamed ''Settings'' (TStruct
     [StructField ''Name'' True False [(''json'', ''name'')] TString,
      StructField ''Wait'' True False [(''json'', ''wait,omitempty'')] TDuration]))"

definition demo_ForType :: "go_type \<Rightarrow> (go_type \<Rightarrow> (string, nat, unit) schema option) \<Rightarrow> goerror + (string, nat, unit) schema" where
  "demo_ForType T overrides = (case underlying T of
      TStruct fs \<Rightarrow> Inr (Schema (no_attributes\<lparr>a_type := ''object''\<rparr>)
        (Some (map (\<lambda>name. (name, case overrides (f_type (vf_field (the (structFields fs name)))) of
            Some node \<Rightarrow> node
          | None \<Rightarrow> Schema (no_attributes\<lparr>a_type := ''string''\<rparr>) None None [] ())) (declared_names fs))) None [] ())
    | _ \<Rightarrow> Inl (Leaf ''unsupported type''))"

definition demo_library :: "(string, nat, unit) schema_library" where
  "demo_library = \<lparr>sl_unmarshals = \<lambda>_. False, sl_time = TNamed ''Time'' (TStruct []), sl_durationPattern = ''[0-9]+s'', sl_no_others = (),
     sl_ForType = demo_ForType, sl_Resolve = \<lambda>_. None, sl_MarshalIndent = \<lambda>root. Inr (a_title (attributes_of root)), sl_Marshal = Inr\<rparr>"

definition titled :: "string \<Rightarrow> string option \<Rightarrow> (string, nat) FieldDefinition" where
  "titled title preset = \<lparr>fd_title = title, fd_description = [], fd_default = preset, fd_enum = [], fd_examples = [], fd_pattern = [],
     fd_format = [], fd_minimum = None, fd_maximum = None, fd_minLength = None, fd_maxLength = None\<rparr>"

definition demo_definitions :: "(string, nat) SchemaDefinition list" where
  "demo_definitions =
     [\<lparr>sd_description = ''settings'', sd_fields = [(''wait'', titled ''Wait'' (Some ''30s'')), (''name'', titled ''Name'' None)]\<rparr>,
      \<lparr>sd_description = [], sd_fields = [(''wait'', titled ''Pause'' None)]\<rparr>]"

definition demo_derived :: "(string, nat, unit) schema" where
  "demo_derived = (case derive_root demo_library (dereference demo_prototype) of Inr root \<Rightarrow> root | Inl _ \<Rightarrow> leaf_schema demo_library no_attributes)"

definition waits where
  "waits node \<longleftrightarrow> a_title (attributes_of node) = ''Pause'' \<and> a_default (attributes_of node) = Some ''30s'' \<and>
     a_types (attributes_of node) = [''string'', ''integer'']"

lemma demo_schema_parts:
  "derive_root demo_library (dereference demo_prototype) = Inr demo_derived"
  "map_option (\<lambda>node. waits (fold (overlaid demo_library [''wait'']) demo_definitions node)) (node_at demo_derived [''wait'']) = Some True"
  "case GenerateSchema demo_library (Some demo_prototype) demo_definitions of Inr text \<Rightarrow> text = ''Settings'' @ [CHR 0x0A] | Inl err \<Rightarrow> False"
proof -
  have "case derive_root demo_library (dereference demo_prototype) of Inr root \<Rightarrow> True | Inl _ \<Rightarrow> False" by code_simp
  then show "derive_root demo_library (dereference demo_prototype) = Inr demo_derived"
    by (auto simp: demo_derived_def split: sum.splits)
  show "map_option (\<lambda>node. waits (fold (overlaid demo_library [''wait'']) demo_definitions node)) (node_at demo_derived [''wait'']) = Some True"
    by code_simp
  show "case GenerateSchema demo_library (Some demo_prototype) demo_definitions of Inr text \<Rightarrow> text = ''Settings'' @ [CHR 0x0A] | Inl err \<Rightarrow> False"
    by code_simp
qed

section \<open>Properties\<close>

text \<open>An embedded field that the derived schema and the binding treat alike: both skip one whose json
  name is a dash, and both promote the fields of a plain struct. A type is describable when its embedded fields are
  and no declared field carries schema metadata in a tag.\<close>

definition faithful_embedding :: "('v, 'n, 'x) schema_library \<Rightarrow> struct_field \<Rightarrow> bool" where
  "faithful_embedding lib f \<longleftrightarrow> fst (jsonName f) = ''-'' \<or>
     struct_kind (dereference (f_type f)) \<and> \<not> snd (jsonName f) \<and> \<not> sl_unmarshals lib (dereference (f_type f))"

definition describable :: "('v, 'n, 'x) schema_library \<Rightarrow> go_type \<Rightarrow> bool" where
  "describable lib T \<longleftrightarrow> sl_unmarshals lib T \<or>
     (case underlying T of
        TStruct fs \<Rightarrow> (\<forall>f \<in> set fs. f_anonymous f \<longrightarrow> faithful_embedding lib f) \<and>
          (\<forall>f \<in> set (declared_fields fs). Tag_Lookup f ''jsonschema'' = None \<and> Tag_Lookup f ''desc'' = None)
      | _ \<Rightarrow> True)"

definition excludes_struct :: "go_type \<Rightarrow> bool" where
  "excludes_struct T \<longleftrightarrow>
     (case underlying T of
        TStruct fs \<Rightarrow> \<exists>f \<in> set fs. f_anonymous f \<and> fst (jsonName f) = ''-'' \<and> struct_kind (dereference (f_type f))
      | _ \<Rightarrow> False)"

lemma accepted_describable: "\<not> excludes_struct T \<Longrightarrow> accepted lib T \<longleftrightarrow> describable lib T"
  by (auto simp: accepted_def describable_def accepted_embedding_def faithful_embedding_def excludes_struct_def Let_def
      split: go_type.splits)

text \<open>C20: the walk over the prototype is exact, unless some type embeds a struct excluded by a json
  dash (these are left out here: the code rejects what its comment lets pass). It fails if some type the
  prototype leads to, through elements, map values and declared fields but not past a type that unmarshals
  text, embeds a field that schema and binding treat differently or has a declared field with a schema
  tag. Otherwise it has visited exactly those types and recorded the textual schema of exactly those among
  them that unmarshal text, so every type is visited once and none is missed.\<close>

theorem analysis_visits_exactly_what_the_prototype_leads_to:
  assumes "\<And>T. reaches lib (dereference P) T \<Longrightarrow> \<not> excludes_struct T"
  shows "case analyzeType lib P {} Map.empty of
     Inl err \<Rightarrow> \<exists>T. reaches lib (dereference P) T \<and> \<not> describable lib T
   | Inr (visited, overrides) \<Rightarrow>
       (\<forall>T. reaches lib (dereference P) T \<longrightarrow> describable lib T) \<and> visited = {T. reaches lib (dereference P) T} \<and>
       overrides = (\<lambda>T. if reaches lib (dereference P) T \<and> sl_unmarshals lib T then Some (textualSchema lib T) else None)"
proof -
  have "accepted lib T = describable lib T" if "reaches lib (dereference P) T" for T
    by (rule accepted_describable [OF assms [OF that]])
  then show ?thesis
    using analysis_is_exact(1) [of lib P] analysis_is_exact(2) [of lib P] by (auto split: sum.splits)
qed

theorem analysis_visits_exactly_what_the_prototype_leads_to_witness:
  "reaches demo_library (dereference demo_prototype) TDuration \<and> describable demo_library TDuration"
proof -
  have evaluated: "case analyzeType demo_library demo_prototype {} Map.empty of
      Inr (visited, overrides) \<Rightarrow> TDuration \<in> visited \<and> (\<forall>T \<in> visited. \<not> excludes_struct T) | Inl err \<Rightarrow> False"
    by code_simp
  then obtain visited overrides where walk: "analyzeType demo_library demo_prototype {} Map.empty = Inr (visited, overrides)"
      "TDuration \<in> visited" "\<forall>T \<in> visited. \<not> excludes_struct T"
    by (auto split: sum.splits)
  then have "visited = {T. reaches demo_library (dereference demo_prototype) T}" using analysis_is_exact(2) by blast
  then have none: "\<not> excludes_struct T" if "reaches demo_library (dereference demo_prototype) T" for T
    using walk(3) that by blast
  show ?thesis
    using analysis_visits_exactly_what_the_prototype_leads_to [of demo_library demo_prototype, OF none] walk by auto
qed

text \<open>C36: a definition refines exactly what it names. Over a prototype whose schema derives, the
  generation fails when some path of a definition designates no declared field or some
  default does not encode, or when the library refuses the refined schema; when it succeeds, all paths designate
  declared fields and the document is the encoding of a schema in which each field is its derived schema
  refined by the definitions that name it, in argument order, whatever the order of the keys within
  one definition, and every field no definition names is as derived.\<close>

theorem definitions_refine_exactly_what_they_name:
  assumes "struct_kind (dereference P)" "derive_root lib (dereference P) = Inr derived"
    and "\<forall>d \<in> set ds. distinct (map fst (sd_fields d))"
  shows "case GenerateSchema lib (Some P) ds of
      Inl err \<Rightarrow> (\<exists>d \<in> set ds. \<not> designates lib derived d) \<or>
        (\<exists>root. refined_by lib ds derived root \<and> (sl_Resolve lib root \<noteq> None \<or> (\<exists>e. sl_MarshalIndent lib root = Inl e)))
    | Inr text \<Rightarrow> (\<forall>d \<in> set ds. designates lib derived d) \<and>
        (\<exists>root document. refined_by lib ds derived root \<and> sl_Resolve lib root = None \<and> sl_MarshalIndent lib root = Inr document \<and>
          text = document @ [CHR 0x0A])"
  using applyDefinitions_own [OF assms(3), of lib derived] assms(1,2) unfolding refined_by_def
  by (auto simp: GenerateSchema_def Let_def split: sum.splits option.splits)

theorem definitions_refine_exactly_what_they_name_witness:
  "\<exists>root :: (string, nat, unit) schema. (\<exists>node. node_at root [''wait''] = Some node \<and> waits node) \<and>
     GenerateSchema demo_library (Some demo_prototype) demo_definitions = Inr (a_title (attributes_of root) @ [CHR 0x0A])"
proof -
  have "struct_kind (dereference demo_prototype)" "\<forall>d \<in> set demo_definitions. distinct (map fst (sd_fields d))"
    by (simp_all add: struct_kind_def demo_prototype_def demo_definitions_def)
  note refines = definitions_refine_exactly_what_they_name [OF this(1) demo_schema_parts(1) this(2)]
  obtain out where g: "GenerateSchema demo_library (Some demo_prototype) demo_definitions = Inr out"
    using demo_schema_parts(3) by (auto split: sum.splits)
  then obtain root where root: "refined_by demo_library demo_definitions demo_derived root" "out = a_title (attributes_of root) @ [CHR 0x0A]"
    using refines by (auto simp: demo_library_def)
  have "own_at root [''wait''] = map_option (\<lambda>node. own (fold (overlaid demo_library [''wait'']) demo_definitions node)) (node_at demo_derived [''wait''])"
    using root(1) unfolding refined_by_def by blast
  then have "\<exists>node. node_at root [''wait''] = Some node \<and> waits node"
    using demo_schema_parts(2) by (auto simp: own_at_def own_def waits_def map_option_eq_Some)
  then show ?thesis using g root(2) by (intro exI [of _ root]) simp
qed

end
