(* ===== verification/LogLevels.thy ===== *)
theory LogLevels
  imports GoText
begin

text \<open>
  Logger names and levels (logging/name.go, logging/level.go), with what they use of \<open>log/slog\<close>:
  the four predeclared levels and the text form of a level.
\<close>

section \<open>Names\<close>

definition is_separator :: "char \<Rightarrow> bool" where
  "is_separator c \<longleftrightarrow> c = CHR ''/'' \<or> c = CHR ''.''"

definition trim_once :: "string \<Rightarrow> string" where
  "trim_once name = trim_by is_separator (TrimSpace name)"

lemma trim_once_shorter: "trim_once name \<noteq> name \<Longrightarrow> length (trim_once name) < length name"
  using trim_shorter [of is_separator "TrimSpace name"] trim_shorter [of is_space name]
  by (auto simp: trim_once_def TrimSpace_def)

function trim_fixpoint :: "string \<Rightarrow> string" where
  "trim_fixpoint name = (let trimmed = trim_once name in if trimmed = name then name else trim_fixpoint trimmed)"
  by pat_completeness auto
termination by (relation "measure length") (auto dest: trim_once_shorter)

declare trim_fixpoint.simps [simp del]

definition canonicalName :: "string \<Rightarrow> string" where
  "canonicalName name = (let fixed = trim_fixpoint name in if EqualFold fixed ''root'' then [] else fixed)"

definition displayName :: "string \<Rightarrow> string" where
  "displayName canonical = (if canonical = [] then ''root'' else canonical)"

text \<open>The text before the last separator.\<close>

definition before_last :: "string \<Rightarrow> string option" where
  "before_last name = (case dropWhile (\<lambda>c. \<not> is_separator c) (rev name) of [] \<Rightarrow> None | _ # before \<Rightarrow> Some (rev before))"

lemma before_last_shorter: "before_last name = Some before \<Longrightarrow> length before < length name"
proof -
  assume b: "before_last name = Some before"
  then obtain s where s: "dropWhile (\<lambda>c. \<not> is_separator c) (rev name) = s # rev before"
    by (auto simp: before_last_def split: list.splits)
  have "length (dropWhile (\<lambda>c. \<not> is_separator c) (rev name)) \<le> length (rev name)" by (rule length_dropWhile_le)
  then show ?thesis unfolding s by simp
qed

function ancestors :: "string \<Rightarrow> string list" where
  "ancestors name = (case before_last name of
      None \<Rightarrow> []
    | Some before \<Rightarrow> (let parent = trim_by is_separator before
        in if parent = [] then [] else parent # ancestors parent))"
  by pat_completeness auto
termination
proof (relation "measure length")
  fix name before parent assume "before_last name = Some before" "parent = trim_by is_separator before"
  then show "(parent, name) \<in> measure length"
    using before_last_shorter [of name before] trim_shorter [of is_separator before] by auto
qed simp

declare ancestors.simps [simp del]

definition ancestry :: "string \<Rightarrow> string list" where
  "ancestry name = (let canonical = canonicalName name
     in if canonical = [] then [] else canonical # ancestors canonical)"

section \<open>The hierarchy\<close>

lemma trim_fixpoint_fixed: "trim_once (trim_fixpoint name) = trim_fixpoint name"
  by (induction name rule: trim_fixpoint.induct) (simp add: trim_fixpoint.simps [of name for name] Let_def)

text \<open>Cutting whole segments: an ancestor is followed by a separator and does not end in one.\<close>

definition is_ancestor :: "string \<Rightarrow> string \<Rightarrow> bool" where
  "is_ancestor a name \<longleftrightarrow> a \<noteq> [] \<and> \<not> is_separator (last a) \<and> (\<exists>s after. is_separator s \<and> name = a @ s # after)"

lemma ancestors_step:
  assumes "is_separator s" "\<And>c. c \<in> set v \<Longrightarrow> \<not> is_separator c" "\<And>c. c \<in> set b \<Longrightarrow> is_separator c"
    and "w \<noteq> []" "\<not> is_separator (last w)"
  shows "is_ancestor a (w @ b @ s # v) \<longleftrightarrow> a = w \<or> is_ancestor a w"
proof
  assume anc: "is_ancestor a (w @ b @ s # v)"
  then obtain x after where x: "is_separator x" "w @ b @ s # v = a @ x # after" and a: "a \<noteq> []" "\<not> is_separator (last a)"
    by (auto simp: is_ancestor_def)
  then consider us where "a = w @ us" "us @ x # after = b @ s # v" | us where "w = a @ us" "us @ b @ s # v = x # after"
    using append_eq_append_conv2 [THEN iffD1, OF x(2) [symmetric]] by metis
  then show "a = w \<or> is_ancestor a w"
  proof cases
    case (1 us)
    show ?thesis
    proof (cases "us = []")
      case False
      have "us @ x # after = (b @ [s]) @ v" using 1(2) by simp
      then consider us' where "us = (b @ [s]) @ us'" "us' @ x # after = v" | us' where "b @ [s] = us @ us'"
        using append_eq_append_conv2 [THEN iffD1, of us "x # after" "b @ [s]" v] by metis
      then show ?thesis
      proof cases
        case (1 us')
        then show ?thesis using assms(2) [of x] x(1) by auto
      next
        case (2 us')
        then have "last us \<in> set (b @ [s])" using False by (metis in_set_conv_decomp append_butlast_last_id append.assoc append_Cons)
        then have "is_separator (last us)" using assms(1,3) by auto
        then show ?thesis using a(2) 1(1) False by simp
      qed
    qed (use 1 in simp)
  next
    case (2 us)
    show ?thesis
    proof (cases us)
      case (Cons y ys)
      then show ?thesis using 2 x(1) a by (auto simp: is_ancestor_def)
    qed (use 2 in simp)
  qed
next
  assume "a = w \<or> is_ancestor a w"
  then show "is_ancestor a (w @ b @ s # v)"
  proof
    assume "a = w"
    moreover have "\<exists>x after. is_separator x \<and> b @ s # v = x # after" using assms(1,3) by (cases b) auto
    ultimately show ?thesis using assms(4,5) by (auto simp: is_ancestor_def)
  qed (auto simp: is_ancestor_def)
qed

lemma before_last_parts:
  "before_last name = Some u \<Longrightarrow> \<exists>s v. name = u @ s # v \<and> is_separator s \<and> (\<forall>c \<in> set v. \<not> is_separator c)"
  "before_last name = None \<Longrightarrow> \<forall>c \<in> set name. \<not> is_separator c"
proof -
  let ?P = "\<lambda>c. \<not> is_separator c"
  assume "before_last name = Some u"
  then obtain s where s: "dropWhile ?P (rev name) = s # rev u" by (auto simp: before_last_def split: list.splits)
  have "rev name = takeWhile ?P (rev name) @ s # rev u" using s by (metis takeWhile_dropWhile_id)
  then have "name = u @ s # rev (takeWhile ?P (rev name))" by (metis append.assoc append_Cons append_Nil rev.simps(2) rev_append rev_rev_ident)
  moreover have "is_separator s" using s by (metis dropWhile_eq_Cons_conv)
  ultimately show "\<exists>s v. name = u @ s # v \<and> is_separator s \<and> (\<forall>c \<in> set v. \<not> is_separator c)"
    by (metis set_rev set_takeWhileD)
next
  assume "before_last name = None"
  then show "\<forall>c \<in> set name. \<not> is_separator c" by (auto simp: before_last_def split: list.splits)
qed

lemma parent_parts:
  assumes "name \<noteq> []" "\<not> is_separator (hd name)" "before_last name = Some u"
  shows "\<exists>b s v. name = trim_by is_separator u @ b @ s # v \<and> is_separator s \<and> (\<forall>c \<in> set v. \<not> is_separator c) \<and>
    (\<forall>c \<in> set b. is_separator c) \<and> trim_by is_separator u \<noteq> [] \<and> \<not> is_separator (hd (trim_by is_separator u))"
proof -
  obtain s v where n: "name = u @ s # v" "is_separator s" "\<forall>c \<in> set v. \<not> is_separator c" using before_last_parts(1) [OF assms(3)] by blast
  have u: "u \<noteq> []" "\<not> is_separator (hd u)" using n assms(1,2) by (cases u; auto)+
  then have "takeWhile is_separator u = []" by (cases u) auto
  then have parts: "u = trim_by is_separator u @ rev (takeWhile is_separator (rev (dropWhile is_separator u)))"
    using trim_parts [of u is_separator] by simp
  have "trim_by is_separator u \<noteq> []"
  proof
    assume "trim_by is_separator u = []"
    then have "\<forall>c \<in> set u. is_separator c" using parts by (metis append_Nil set_rev set_takeWhileD)
    then show False using u by (cases u) auto
  qed
  then show ?thesis using n parts trim_ends(1) by (metis append.assoc set_rev set_takeWhileD)
qed

lemma ancestors_are:
  "name \<noteq> [] \<Longrightarrow> \<not> is_separator (hd name) \<Longrightarrow> set (ancestors name) = {a. is_ancestor a name}"
proof (induction name rule: ancestors.induct)
  case (1 name)
  show ?case
  proof (cases "before_last name")
    case None
    then have "\<not> is_ancestor a name" for a using before_last_parts(2) [OF None] by (auto simp: is_ancestor_def)
    then show ?thesis using None by (simp add: ancestors.simps)
  next
    case (Some u)
    let ?w = "trim_by is_separator u"
    obtain b s v where n: "name = ?w @ b @ s # v" "is_separator s" "\<And>c. c \<in> set v \<Longrightarrow> \<not> is_separator c"
      "\<And>c. c \<in> set b \<Longrightarrow> is_separator c" "?w \<noteq> []" "\<not> is_separator (hd ?w)"
      using parent_parts [OF 1(2,3) Some] by blast
    have "set (ancestors ?w) = {a. is_ancestor a ?w}" using 1(1) [OF Some refl n(5,5,6)] .
    moreover have "ancestors name = ?w # ancestors ?w" using Some n(5) by (simp add: ancestors.simps [of name] Let_def)
    moreover have "is_ancestor a name \<longleftrightarrow> a = ?w \<or> is_ancestor a ?w" for a
    proof -
      have "is_ancestor a (?w @ b @ s # v) \<longleftrightarrow> a = ?w \<or> is_ancestor a ?w"
        by (rule ancestors_step) (use n trim_ends(2) in auto)
      then show ?thesis by (simp only: n(1) [symmetric])
    qed
    ultimately show ?thesis by auto
  qed
qed

lemma ancestors_shorter: "sorted_wrt (\<lambda>a b. length b < length a) (name # ancestors name)"
proof (induction name rule: ancestors.induct)
  case (1 name)
  show ?case
  proof (cases "before_last name")
    case (Some u)
    let ?w = "trim_by is_separator u"
    have "length ?w < length name" using before_last_shorter [OF Some] trim_shorter [of is_separator u] by auto
    then show ?thesis using 1 [OF Some refl] Some by (cases "?w = []") (auto simp: ancestors.simps [of name] Let_def)
  qed (simp add: ancestors.simps [of name])
qed

section \<open>Levels\<close>

text \<open>A level is a 64-bit integer; \<open>slog\<close> predeclares four of them.\<close>

definition LevelDebug :: int where
  "LevelDebug = - 4"

definition LevelInfo :: int where
  "LevelInfo = 0"

definition LevelWarn :: int where
  "LevelWarn = 4"

definition LevelError :: int where
  "LevelError = 8"

definition LevelTrace :: int where
  "LevelTrace = LevelDebug - 4"

definition LevelOff :: int where
  "LevelOff = 2 ^ 31 - 1"

lemmas level_defs = LevelDebug_def LevelInfo_def LevelWarn_def LevelError_def LevelTrace_def LevelOff_def

definition ErrInvalidLevel :: goerror where
  "ErrInvalidLevel = Leaf ''log level is not recognized''"

text \<open>\<open>strconv.Atoi\<close>: an optional sign, then digits only, within 64 bits.\<close>

fun digits_of :: "string \<Rightarrow> nat list option" where
  "digits_of [] = Some []"
| "digits_of (c # s) = (case (digit_value c, digits_of s) of (Some d, Some ds) \<Rightarrow> Some (d # ds) | _ \<Rightarrow> None)"

definition atoi :: "string \<Rightarrow> int option" where
  "atoi s = (let negative = (s \<noteq> [] \<and> hd s = CHR ''-''); digits = (if s \<noteq> [] \<and> hd s \<in> {CHR ''-'', CHR ''+''} then tl s else s)
     in case digits_of digits of
          None \<Rightarrow> None
        | Some ds \<Rightarrow> (if ds = [] then None
            else let n = (if negative then - int (digits_value 0 ds) else int (digits_value 0 ds))
              in if - (2 ^ 63) \<le> n \<and> n < 2 ^ 63 then Some n else None))"

text \<open>\<open>slog.Level.UnmarshalText\<close>: a level word, then an offset from its sign on.\<close>

definition parse_slog :: "string \<Rightarrow> goerror + int" where
  "parse_slog s =
     (let word = takeWhile (\<lambda>c. c \<notin> {CHR ''+'', CHR ''-''}) s; tail = drop (length word) s
      in case (if tail = [] then Some 0 else atoi tail) of
           None \<Rightarrow> Inl (Leaf ''slog: level string: invalid syntax'')
         | Some offset \<Rightarrow> (let base = (if ToLower word = ''debug'' then Some LevelDebug
               else if ToLower word = ''info'' then Some LevelInfo
               else if ToLower word = ''warn'' then Some LevelWarn
               else if ToLower word = ''error'' then Some LevelError else None)
             in case base of
                  None \<Rightarrow> Inl (Leaf ''slog: level string: unknown name'')
                | Some l \<Rightarrow> Inr (wrap64 (l + offset))))"

definition ParseLevel :: "string \<Rightarrow> goerror + int" where
  "ParseLevel token =
     (let trimmed = TrimSpace token; word = ToLower trimmed
      in if word = ''trace'' then Inr LevelTrace
         else if word = ''debug'' then Inr LevelDebug
         else if word = ''info'' then Inr LevelInfo
         else if word \<in> {''warn'', ''warning''} then Inr LevelWarn
         else if word \<in> {''error'', ''fatal''} then Inr LevelError
         else if word \<in> {''off'', ''false''} then Inr LevelOff
         else (case parse_slog trimmed of
             Inl err \<Rightarrow> Inl (Wrap ''%w: %q: %w'' [ErrInvalidLevel, err])
           | Inr level \<Rightarrow> Inr level))"

text \<open>\<open>slog.Level.String\<close>, with the sign always printed.\<close>

definition signed :: "int \<Rightarrow> string" where
  "signed n = (if n < 0 then CHR ''-'' # show_nat (nat (- n)) else CHR ''+'' # show_nat (nat n))"

definition relative_name :: "string \<Rightarrow> int \<Rightarrow> string" where
  "relative_name base n = (if n = 0 then base else base @ signed n)"

definition slog_name :: "int \<Rightarrow> string" where
  "slog_name level =
     (if level < LevelInfo then relative_name ''DEBUG'' (level - LevelDebug)
      else if level < LevelWarn then relative_name ''INFO'' (level - LevelInfo)
      else if level < LevelError then relative_name ''WARN'' (level - LevelWarn)
      else relative_name ''ERROR'' (level - LevelError))"

definition LevelName :: "int \<Rightarrow> string" where
  "LevelName level = (if level = LevelTrace then ''TRACE'' else if level = LevelOff then ''OFF'' else slog_name level)"

section \<open>Names of levels read back\<close>

lemma digits_of_shown: "digits_of (show_nat n) = Some (nat_digits n)"
proof -
  have "digits_of (map digit_char ds) = Some ds" if "\<forall>d \<in> set ds. d < 10" for ds
    using that by (induction ds) (auto simp: digit_value_def digit_char_def Let_def)
  then show ?thesis using nat_digits_lt by (simp add: show_nat_def)
qed

lemma nat_digits_nonempty: "nat_digits n \<noteq> []"
  by (simp add: nat_digits.simps [of n])

lemma atoi_signed: "- (2 ^ 63) \<le> n \<Longrightarrow> n < 2 ^ 63 \<Longrightarrow> atoi (signed n) = Some n"
  by (simp add: atoi_def signed_def digits_of_shown nat_digits_nonempty digits_value_nat_digits)

lemma shown_digit: "c \<in> set (show_nat n) \<Longrightarrow> 48 \<le> (of_char c :: nat) \<and> (of_char c :: nat) \<le> 57"
  using nat_digits_lt [of n] by (auto simp: show_nat_def digit_char_def)

lemma space_range: "is_space c \<Longrightarrow> (of_char c :: nat) < 33 \<or> 132 < (of_char c :: nat)"
  by (auto simp: is_space_def)

lemma trim_graphic: "(\<And>c. c \<in> set s \<Longrightarrow> 33 \<le> (of_char c :: nat) \<and> (of_char c :: nat) \<le> 132) \<Longrightarrow> TrimSpace s = s"
  unfolding TrimSpace_def by (rule trim_same) (use space_range in \<open>fastforce dest: hd_in_set last_in_set\<close>)+

lemma slog_relative:
  assumes "base \<in> {''DEBUG'', ''INFO'', ''WARN'', ''ERROR''}" "- (2 ^ 63) \<le> n" "n < 2 ^ 63"
  shows "parse_slog (base @ signed n) = Inr (wrap64 ((if base = ''DEBUG'' then LevelDebug else if base = ''INFO'' then LevelInfo
       else if base = ''WARN'' then LevelWarn else LevelError) + n))"
proof -
  obtain c digits where sign: "signed n = c # digits" "c \<in> {CHR ''+'', CHR ''-''}"
    by (cases "n < 0") (auto simp: signed_def)
  have word: "takeWhile (\<lambda>c. c \<notin> {CHR ''+'', CHR ''-''}) (base @ signed n) = base" using assms(1) sign by auto
  have tail: "(if drop (length base) (base @ signed n) = [] then Some 0 else atoi (drop (length base) (base @ signed n))) = Some n"
    using atoi_signed [OF assms(2,3)] sign(1) by simp
  have lower: "ToLower ''DEBUG'' = ''debug''" "ToLower ''INFO'' = ''info''" "ToLower ''WARN'' = ''warn''" "ToLower ''ERROR'' = ''error''"
    by code_simp+
  show ?thesis
    unfolding parse_slog_def Let_def word tail using assms(1) by (elim insertE emptyE) (simp_all add: lower)
qed

lemma level_relative:
  assumes "base \<in> {''DEBUG'', ''INFO'', ''WARN'', ''ERROR''}"
  shows "ParseLevel (base @ signed n) = (case parse_slog (base @ signed n) of
      Inl err \<Rightarrow> Inl (Wrap ''%w: %q: %w'' [ErrInvalidLevel, err]) | Inr level \<Rightarrow> Inr level)"
proof -
  let ?s = "base @ signed n"
  obtain c digits where sign: "signed n = c # digits" "c \<in> {CHR ''+'', CHR ''-''}" "digits = show_nat (nat \<bar>n\<bar>)"
    by (cases "n < 0") (auto simp: signed_def)
  have "TrimSpace ?s = ?s"
  proof (rule trim_graphic)
    fix x assume "x \<in> set ?s"
    then consider "x \<in> set base" | "x = c" | "x \<in> set (show_nat (nat \<bar>n\<bar>))" using sign(1,3) by auto
    then show "33 \<le> (of_char x :: nat) \<and> (of_char x :: nat) \<le> 132"
    proof cases
      case 3
      then show ?thesis using shown_digit [of x "nat \<bar>n\<bar>"] by linarith
    qed (use assms sign(2) in auto)
  qed
  moreover have "lower_char c \<in> set (ToLower ?s)" using sign(1) by (simp add: ToLower_def)
  then have "c \<in> set (ToLower ?s)" using sign(2) by (auto simp: lower_char_def)
  then have "ToLower ?s \<notin> {''trace'', ''debug'', ''info'', ''warn'', ''warning'', ''error'', ''fatal'', ''off'', ''false''}"
    using sign(2) by auto
  ultimately show ?thesis by (simp add: ParseLevel_def Let_def)
qed

lemma level_words:
  "ParseLevel ''DEBUG'' = Inr LevelDebug" "ParseLevel ''INFO'' = Inr LevelInfo" "ParseLevel ''WARN'' = Inr LevelWarn"
  "ParseLevel ''ERROR'' = Inr LevelError" "ParseLevel ''TRACE'' = Inr LevelTrace" "ParseLevel ''OFF'' = Inr LevelOff"
  by code_simp+

lemma level_names_read_back:
  assumes "- (2 ^ 63) \<le> level" "level < 2 ^ 63"
  shows "ParseLevel (LevelName level) = Inr level"
proof -
  have relative: "ParseLevel (relative_name base (level - l)) = Inr level"
    if "(base, l) \<in> {(''DEBUG'', LevelDebug), (''INFO'', LevelInfo), (''WARN'', LevelWarn), (''ERROR'', LevelError)}"
      "- (2 ^ 63) \<le> level - l" "level - l < 2 ^ 63" for base l
  proof (cases "level = l")
    case True
    then show ?thesis using that(1) level_words by (auto simp: relative_name_def)
  next
    case False
    have "ParseLevel (base @ signed (level - l)) = Inr (wrap64 (l + (level - l)))"
      using that(1) level_relative [of base "level - l"] slog_relative [of base "level - l", OF _ that(2,3)]
      by auto
    then show ?thesis using False wrap64_id [OF assms] by (simp add: relative_name_def)
  qed
  show ?thesis
    using assms relative [of "''DEBUG''" LevelDebug] relative [of "''INFO''" LevelInfo] relative [of "''WARN''" LevelWarn]
      relative [of "''ERROR''" LevelError] level_words(5,6)
    by (auto simp: LevelName_def slog_name_def level_defs)
qed

end
