(* ===== verification/LogManager.thy ===== *)
theory LogManager
  imports LogLevels "HOL-Library.AList" "HOL-Library.List_Lexorder" "HOL-Library.Char_ord"
begin

text \<open>
  The manager of hierarchical log levels (logging/manager.go), the handlers it gives out
  (logging/handler.go) and the configuration documents applied to it (logging/configuration.go).
  Maps are association lists with distinct keys; a delegate handler is an element of the type
  \<open>'d\<close> with the two decorating operations of \<open>slog.Handler\<close>. An operation holds the manager's
  mutex or reads one snapshot, so it is one function on the manager; \<open>encoding/json\<close> and the
  emission of records are not modelled.
\<close>

section \<open>The level tree\<close>

record level_tree =
  lt_root :: int
  lt_assigned :: "(string \<times> int) list"

fun effective :: "level_tree \<Rightarrow> string list \<Rightarrow> int" where
  "effective t [] = lt_root t"
| "effective t (name # chain) = (case map_of (lt_assigned t) name of Some level \<Rightarrow> level | None \<Rightarrow> effective t chain)"

record 'd delegate_ops =
  do_attrs :: "(string \<times> string) list \<Rightarrow> 'd \<Rightarrow> 'd"
  do_group :: "string \<Rightarrow> 'd \<Rightarrow> 'd"

record 'd log_manager =
  mg_delegate :: 'd
  mg_nameKey :: string
  mg_initialRoot :: int
  mg_tree :: level_tree
  mg_groups :: "(string \<times> string list) list"
  mg_known :: "string list"

type_synonym 'd log_manager_option = "'d log_manager \<Rightarrow> 'd log_manager"

section \<open>Assigning levels\<close>

definition rebuild :: "(level_tree \<Rightarrow> level_tree) \<Rightarrow> 'd log_manager \<Rightarrow> 'd log_manager" where
  "rebuild change m = m\<lparr>mg_tree := change (mg_tree m)\<rparr>"

definition expand_name :: "'d log_manager \<Rightarrow> string \<Rightarrow> string list" where
  "expand_name m name = (let canonical = canonicalName name
     in case map_of (mg_groups m) canonical of
          Some members \<Rightarrow> if members \<noteq> [] then members else [canonical]
        | None \<Rightarrow> [canonical])"

definition remember :: "string \<Rightarrow> 'd log_manager \<Rightarrow> 'd log_manager" where
  "remember canonical m = (if canonical = [] then m else m\<lparr>mg_known := List.insert canonical (mg_known m)\<rparr>)"

definition assign :: "int \<Rightarrow> string \<Rightarrow> level_tree \<Rightarrow> level_tree" where
  "assign level target t = (if target = [] then t\<lparr>lt_root := level\<rparr>
     else t\<lparr>lt_assigned := AList.update target level (lt_assigned t)\<rparr>)"

definition SetLevel :: "string \<Rightarrow> int \<Rightarrow> 'd log_manager \<Rightarrow> 'd log_manager" where
  "SetLevel name level m = rebuild (fold (assign level) (expand_name m name)) m"

definition clear :: "int \<Rightarrow> string \<Rightarrow> level_tree \<Rightarrow> level_tree" where
  "clear initialRoot target t = (if target = [] then t\<lparr>lt_root := initialRoot\<rparr>
     else t\<lparr>lt_assigned := AList.delete target (lt_assigned t)\<rparr>)"

definition ResetLevel :: "string \<Rightarrow> 'd log_manager \<Rightarrow> 'd log_manager" where
  "ResetLevel name m = rebuild (fold (clear (mg_initialRoot m)) (expand_name m name)) m"

section \<open>Reading levels\<close>

definition EffectiveLevel :: "'d log_manager \<Rightarrow> string \<Rightarrow> int" where
  "EffectiveLevel m name = effective (mg_tree m) (ancestry name)"

definition ConfiguredLevel :: "'d log_manager \<Rightarrow> string \<Rightarrow> int option" where
  "ConfiguredLevel m name = (let canonical = canonicalName name
     in if canonical = [] then Some (lt_root (mg_tree m)) else map_of (lt_assigned (mg_tree m)) canonical)"

record logger_levels =
  ll_name :: string
  ll_configured :: "int option"
  ll_effective :: int

definition Loggers :: "'d log_manager \<Rightarrow> logger_levels list" where
  "Loggers m = (let t = mg_tree m; names = sort (remdups (mg_known m @ map fst (lt_assigned t)))
     in \<lparr>ll_name = ''root'', ll_configured = Some (lt_root t), ll_effective = lt_root t\<rparr> #
        map (\<lambda>name. \<lparr>ll_name = name, ll_configured = map_of (lt_assigned t) name, ll_effective = effective t (ancestry name)\<rparr>) names)"

definition Groups :: "'d log_manager \<Rightarrow> (string \<times> string list) list" where
  "Groups m = mg_groups m"

section \<open>Construction\<close>

definition WithHandler :: "'d option \<Rightarrow> 'd log_manager_option" where
  "WithHandler handler m = (case handler of None \<Rightarrow> m | Some h \<Rightarrow> m\<lparr>mg_delegate := h\<rparr>)"

definition WithRootLevel :: "int \<Rightarrow> 'd log_manager_option" where
  "WithRootLevel level = SetLevel ''root'' level"

definition WithLevel :: "string \<Rightarrow> int \<Rightarrow> 'd log_manager_option" where
  "WithLevel name level = SetLevel name level"

definition WithGroup :: "string \<Rightarrow> string list \<Rightarrow> 'd log_manager_option" where
  "WithGroup name members m = (let canonical = canonicalName name
     in if canonical = [] then m
        else m\<lparr>mg_groups := AList.update canonical (filter (\<lambda>member. member \<noteq> []) (map canonicalName members)) (mg_groups m)\<rparr>)"

definition WithNameKey :: "string \<Rightarrow> 'd log_manager_option" where
  "WithNameKey key m = m\<lparr>mg_nameKey := key\<rparr>"

definition NewLogManager :: "'d \<Rightarrow> 'd log_manager_option list \<Rightarrow> 'd log_manager" where
  "NewLogManager delegate options =
     (let m = fold (\<lambda>f m. f m) options \<lparr>mg_delegate = delegate, mg_nameKey = ''logger'', mg_initialRoot = 0,
        mg_tree = \<lparr>lt_root = LevelInfo, lt_assigned = []\<rparr>, mg_groups = [], mg_known = []\<rparr>
      in m\<lparr>mg_initialRoot := lt_root (mg_tree m)\<rparr>)"

section \<open>Handlers\<close>

record 'd level_handler =
  lh_delegate :: 'd
  lh_chain :: "string list"

definition Handler :: "'d delegate_ops \<Rightarrow> string \<Rightarrow> 'd log_manager \<Rightarrow> 'd level_handler \<times> 'd log_manager" where
  "Handler ops name m = (let canonical = canonicalName name; m' = remember canonical m;
       delegate = (if mg_nameKey m' \<noteq> [] then do_attrs ops [(mg_nameKey m', displayName canonical)] (mg_delegate m') else mg_delegate m')
     in (\<lparr>lh_delegate = delegate, lh_chain = ancestry canonical\<rparr>, m'))"

definition Enabled :: "'d log_manager \<Rightarrow> 'd level_handler \<Rightarrow> int \<Rightarrow> bool" where
  "Enabled m h level \<longleftrightarrow> level \<ge> effective (mg_tree m) (lh_chain h)"

definition WithAttrs :: "'d delegate_ops \<Rightarrow> (string \<times> string) list \<Rightarrow> 'd level_handler \<Rightarrow> 'd level_handler" where
  "WithAttrs ops attributes h = (if attributes = [] then h else h\<lparr>lh_delegate := do_attrs ops attributes (lh_delegate h)\<rparr>)"

definition Handler_WithGroup :: "'d delegate_ops \<Rightarrow> string \<Rightarrow> 'd level_handler \<Rightarrow> 'd level_handler" where
  "Handler_WithGroup ops name h = (if name = [] then h else h\<lparr>lh_delegate := do_group ops name (lh_delegate h)\<rparr>)"

section \<open>Configuration documents\<close>

record log_configuration =
  cf_levels :: "(string \<times> string) list"
  cf_groups :: "(string \<times> string list) list"

text \<open>\<open>slices.Sorted(maps.Keys(m))\<close> with the values.\<close>

definition in_key_order :: "(string \<times> 'b) list \<Rightarrow> (string \<times> 'b) list" where
  "in_key_order = sort_key fst"

fun ParseLevels_from :: "string list \<Rightarrow> (string \<times> string) list \<Rightarrow> goerror + (string \<times> string) list" where
  "ParseLevels_from [] levels = Inr levels"
| "ParseLevels_from (raw # entries) levels =
     (let entry = TrimSpace raw
      in if entry = [] then ParseLevels_from entries levels
         else (case cut_at (CHR ''='') entry of
             None \<Rightarrow> Inl (Leaf ''level entry %q must have the form name=level'')
           | Some (left, right) \<Rightarrow> (let name = TrimSpace left; token = TrimSpace right
               in if name = [] \<or> token = [] then Inl (Leaf ''level entry %q must have the form name=level'')
                  else (case ParseLevel token of
                      Inl err \<Rightarrow> Inl (Wrap ''level of %q: %w'' [err])
                    | Inr _ \<Rightarrow> ParseLevels_from entries (AList.update name token levels)))))"

definition ParseLevels :: "string \<Rightarrow> goerror + (string \<times> string) list" where
  "ParseLevels list = ParseLevels_from (split_at (CHR '','') list) []"

definition Validate :: "log_configuration \<Rightarrow> goerror option" where
  "Validate c = (case find (\<lambda>(name, token). \<exists>err. ParseLevel token = Inl err) (in_key_order (cf_levels c)) of
      Some (name, token) \<Rightarrow> (case ParseLevel token of Inl err \<Rightarrow> Some (Wrap ''level of %q: %w'' [err]) | Inr _ \<Rightarrow> None)
    | None \<Rightarrow> (case find (\<lambda>(name, members). canonicalName name = [] \<or> (\<exists>member \<in> set members. canonicalName member = []))
          (in_key_order (cf_groups c)) of
        Some (name, members) \<Rightarrow> Some (Leaf (if canonicalName name = [] then ''group %q designates the root logger''
          else ''group %q member %q must name a logger other than the root''))
      | None \<Rightarrow> None))"

definition declare_groups :: "(string \<times> string list) list \<Rightarrow> (string \<times> string list) list \<Rightarrow> (string \<times> string list) list" where
  "declare_groups declared groups = fold (\<lambda>(name, members). AList.update (canonicalName name) (map canonicalName members)) declared groups"

text \<open>The levels a document assigns: through groups and directly.\<close>

fun fan_out ::
  "(string \<times> string list) list \<Rightarrow> (string \<times> string) list \<Rightarrow> (string \<times> int) list \<times> (string \<times> int) list \<Rightarrow>
   goerror + ((string \<times> int) list \<times> (string \<times> int) list)" where
  "fan_out groups [] maps = Inr maps"
| "fan_out groups ((name, token) # levels) (fanned, direct) =
     (case ParseLevel token of
        Inl err \<Rightarrow> Inl (Wrap ''level of %q: %w'' [err])
      | Inr level \<Rightarrow> (let canonical = canonicalName name
          in case map_of groups canonical of
               Some members \<Rightarrow> (if members \<noteq> []
                 then fan_out groups levels (fold (\<lambda>member. AList.update member level) members fanned, direct)
                 else fan_out groups levels (fanned, AList.update canonical level direct))
             | None \<Rightarrow> fan_out groups levels (fanned, AList.update canonical level direct)))"

text \<open>\<open>walk 0\<close> and \<open>walk 1\<close> give the order in which Go ranges over the maps \<open>fanned\<close> and \<open>direct\<close>.\<close>

type_synonym map_walk = "nat \<Rightarrow> (string \<times> int) list \<Rightarrow> (string \<times> int) list"

definition Apply :: "map_walk \<Rightarrow> log_configuration \<Rightarrow> 'd log_manager \<Rightarrow> goerror option \<times> 'd log_manager" where
  "Apply walk c m = (case Validate c of
      Some err \<Rightarrow> (Some (Wrap ''apply logging configuration: %w'' [err]), m)
    | None \<Rightarrow> (let m1 = m\<lparr>mg_groups := declare_groups (in_key_order (cf_groups c)) (mg_groups m)\<rparr>
        in case fan_out (mg_groups m1) (in_key_order (cf_levels c)) ([], []) of
             Inl err \<Rightarrow> (Some err, m1)
           | Inr (fanned, direct) \<Rightarrow>
               (None, rebuild (fold (\<lambda>assignments. fold (\<lambda>(name, level). assign level name) assignments) [walk 0 fanned, walk 1 direct]) m1)))"

section \<open>Properties\<close>

lemma canonical_fixed:
  assumes "canonicalName name \<noteq> []"
  shows "\<not> is_separator (hd (canonicalName name))"
proof -
  have c: "canonicalName name = trim_fixpoint name" using assms by (auto simp: canonicalName_def Let_def split: if_splits)
  then have "trim_by is_separator (TrimSpace (canonicalName name)) = canonicalName name"
    using trim_fixpoint_fixed [of name] by (simp add: trim_once_def)
  then show ?thesis using trim_ends(1) [of is_separator "TrimSpace (canonicalName name)"] assms by simp
qed

lemma ancestry_are:
  "set (ancestry name) = {a. canonicalName name \<noteq> [] \<and> (a = canonicalName name \<or> is_ancestor a (canonicalName name))}"
  using ancestors_are [OF _ canonical_fixed [of name]] by (auto simp: ancestry_def Let_def)

lemma ancestry_shorter: "sorted_wrt (\<lambda>a b. length b < length a) (ancestry name)"
  using ancestors_shorter [of "canonicalName name"] by (simp add: ancestry_def Let_def)

lemma effective_unassigned: "(\<And>b. b \<in> set chain \<Longrightarrow> map_of (lt_assigned t) b = None) \<Longrightarrow> effective t chain = lt_root t"
  by (induction chain) auto

lemma effective_longest:
  "sorted_wrt (\<lambda>a b. length b < length a) chain \<Longrightarrow> a \<in> set chain \<Longrightarrow> map_of (lt_assigned t) a = Some level \<Longrightarrow>
   (\<And>b. b \<in> set chain \<Longrightarrow> map_of (lt_assigned t) b \<noteq> None \<Longrightarrow> length b \<le> length a) \<Longrightarrow> effective t chain = level"
proof (induction chain)
  case (Cons c chain)
  show ?case
  proof (cases "a = c")
    case False
    then have "a \<in> set chain" using Cons.prems(2) by simp
    then have "length a < length c" using Cons.prems(1) by simp
    then have "map_of (lt_assigned t) c = None" using Cons.prems(4) [of c] by fastforce
    then show ?thesis using Cons.IH \<open>a \<in> set chain\<close> Cons.prems by simp
  qed (use Cons.prems(3) in simp)
qed simp

text \<open>C40: the nearest configured ancestor decides. The effective level of a name is the level
  assigned to the longest of its whole-segment prefixes, the name itself included, that has one:
  a prefix that is followed by a separator and does not end in one, so a sibling with a common
  prefix never counts; without any, and for the root, it is the root level.\<close>

theorem nearest_ancestor_decides:
  assumes "name' = canonicalName name" "covering = {a. name' \<noteq> [] \<and> (a = name' \<or> is_ancestor a name')}"
    and "assigned = map_of (lt_assigned (mg_tree m))"
  shows "(\<forall>a \<in> covering. \<forall>level. assigned a = Some level \<and> (\<forall>b \<in> covering. assigned b \<noteq> None \<longrightarrow> length b \<le> length a) \<longrightarrow>
       EffectiveLevel m name = level) \<and>
    ((\<forall>a \<in> covering. assigned a = None) \<longrightarrow> EffectiveLevel m name = lt_root (mg_tree m))"
proof -
  have chain: "set (ancestry name) = covering" using ancestry_are [of name] assms(1,2) by simp
  have "EffectiveLevel m name = level"
    if "a \<in> covering" "assigned a = Some level" "\<forall>b \<in> covering. assigned b \<noteq> None \<longrightarrow> length b \<le> length a" for a level
    unfolding EffectiveLevel_def
    by (rule effective_longest [OF ancestry_shorter, of a]) (use that chain assms(3) in auto)
  moreover have "EffectiveLevel m name = lt_root (mg_tree m)" if "\<forall>a \<in> covering. assigned a = None"
    unfolding EffectiveLevel_def by (rule effective_unassigned) (use that chain assms(3) in auto)
  ultimately show ?thesis by blast
qed

definition demo_manager :: "unit log_manager" where
  "demo_manager = NewLogManager () [WithLevel ''a/'' LevelDebug, WithLevel ''a/b'' LevelWarn]"

lemma demo_assigned: "lt_assigned (mg_tree demo_manager) = [(''a'', LevelDebug), (''a/b'', LevelWarn)]"
  by code_simp

lemma demo_name: "canonicalName ''a/bc'' = ''a/bc''"
  by code_simp

theorem nearest_ancestor_decides_witness: "EffectiveLevel demo_manager ''a/bc'' = LevelDebug"
proof -
  let ?covering = "{a. ''a/bc'' \<noteq> [] \<and> (a = ''a/bc'' \<or> is_ancestor a ''a/bc'')}"
  have "''a'' \<in> ?covering" by (simp add: is_ancestor_def is_separator_def)
  moreover have "\<not> is_ancestor ''a/b'' ''a/bc''" by (simp add: is_ancestor_def is_separator_def)
  then have "\<forall>b \<in> ?covering. map_of (lt_assigned (mg_tree demo_manager)) b \<noteq> None \<longrightarrow> length b \<le> length ''a''"
    by (auto simp: demo_assigned split: if_splits)
  moreover have "map_of (lt_assigned (mg_tree demo_manager)) ''a'' = Some LevelDebug" by (simp add: demo_assigned)
  ultimately show ?thesis
    using nearest_ancestor_decides [OF demo_name [symmetric] refl refl, of demo_manager] by blast
qed

end
