(* ===== verification/LogConfiguration.thy ===== *)
theory LogConfiguration
  imports LogManager "HOL-Library.Multiset"
begin

text \<open>
  Configuration documents of the logging package (logging/configuration.go): what \<open>ParseConfiguration\<close>
  accepts, and what \<open>Apply\<close> does to the levels of the manager. \<open>encoding/json\<close> is the parameter
  \<open>decode\<close>, which reads one value without unknown fields and says whether more follows.
\<close>

definition ParseConfiguration :: "(string \<Rightarrow> goerror + log_configuration \<times> bool) \<Rightarrow> string \<Rightarrow> goerror + log_configuration" where
  "ParseConfiguration decode document = (case decode document of
      Inl err \<Rightarrow> Inl (Wrap ''decode logging configuration: %w'' [err])
    | Inr (configuration, trailing) \<Rightarrow>
        if trailing then Inl (Leaf ''logging configuration document contains more than one JSON value'')
        else (case Validate configuration of Some err \<Rightarrow> Inl err | None \<Rightarrow> Inr configuration))"

section \<open>The level a document gives a logger\<close>

text \<open>An entry of the document names a group with members, which receive its level, or a logger; of several entries
  for one logger the last counts.\<close>

definition members_of :: "(string \<times> string list) list \<Rightarrow> string \<Rightarrow> string list" where
  "members_of groups key = (case map_of groups (canonicalName key) of Some members \<Rightarrow> members | None \<Rightarrow> [])"

definition direct_entry :: "(string \<times> string list) list \<Rightarrow> string \<Rightarrow> string \<times> string \<Rightarrow> bool" where
  "direct_entry groups target entry \<longleftrightarrow> members_of groups (fst entry) = [] \<and> canonicalName (fst entry) = target"

definition group_entry :: "(string \<times> string list) list \<Rightarrow> string \<Rightarrow> string \<times> string \<Rightarrow> bool" where
  "group_entry groups target entry \<longleftrightarrow> target \<in> set (members_of groups (fst entry))"

definition last_level :: "(string \<times> string \<Rightarrow> bool) \<Rightarrow> (string \<times> string) list \<Rightarrow> int option" where
  "last_level P entries = Option.bind (find P (rev entries)) (\<lambda>(_, token). case ParseLevel token of Inr level \<Rightarrow> Some level | Inl _ \<Rightarrow> None)"

definition preferred :: "'a option \<Rightarrow> 'a option \<Rightarrow> 'a option" where
  "preferred x y = (case x of Some a \<Rightarrow> Some a | None \<Rightarrow> y)"

lemma preferred_simps [simp]: "preferred None y = y" "preferred (Some a) y = Some a" "preferred x None = x"
  by (simp_all add: preferred_def split: option.split)

lemma preferred_assoc: "preferred (preferred x y) z = preferred x (preferred y z)"
  by (cases x) simp_all

lemma last_level_simps:
  "last_level P [] = None"
  "ParseLevel token = Inr level \<Longrightarrow>
   last_level P ((name, token) # entries) = preferred (last_level P entries) (if P (name, token) then Some level else None)"
  if tokens: "\<forall>(_, token) \<in> set entries. \<exists>level. ParseLevel token = Inr level"
proof -
  show "last_level P [] = None" by (simp add: last_level_def)
  assume t: "ParseLevel token = Inr level"
  show "last_level P ((name, token) # entries) = preferred (last_level P entries) (if P (name, token) then Some level else None)"
  proof (cases "find P (rev entries)")
    case None
    then show ?thesis using t by (simp add: last_level_def find_append)
  next
    case (Some e)
    then have "e \<in> set entries" by (metis find_Some_iff nth_mem set_rev)
    then obtain l where "ParseLevel (snd e) = Inr l" using tokens by fastforce
    then show ?thesis using Some by (cases e) (simp add: last_level_def find_append)
  qed
qed

lemma update_members: "map_of (fold (\<lambda>member. AList.update member level) members fanned) x =
    (if x \<in> set members then Some level else map_of fanned x)"
  by (induction members arbitrary: fanned) (auto simp: update_conv')

lemma distinct_members: "distinct (map fst fanned) \<Longrightarrow> distinct (map fst (fold (\<lambda>member. AList.update member level) members fanned))"
  by (induction members arbitrary: fanned) (simp_all add: distinct_update)

lemma fan_out_levels:
  assumes "\<forall>(_, token) \<in> set entries. \<exists>level. ParseLevel token = Inr level" "distinct (map fst fanned)" "distinct (map fst direct)"
  shows "\<exists>fanned' direct'. fan_out groups entries (fanned, direct) = Inr (fanned', direct') \<and>
    distinct (map fst fanned') \<and> distinct (map fst direct') \<and>
    (\<forall>x. map_of fanned' x = preferred (last_level (group_entry groups x) entries) (map_of fanned x)) \<and>
    (\<forall>x. map_of direct' x = preferred (last_level (direct_entry groups x) entries) (map_of direct x))"
  using assms
proof (induction entries arbitrary: fanned direct)
  case (Cons entry entries)
  obtain name token where e: "entry = (name, token)" by fastforce
  then obtain level where l: "ParseLevel token = Inr level" using Cons.prems(1) by auto
  have later: "\<forall>(_, token) \<in> set entries. \<exists>level. ParseLevel token = Inr level" using Cons.prems(1) by simp
  note last = last_level_simps(2) [OF later l]
  show ?case
  proof (cases "members_of groups name")
    case Nil
    let ?direct = "AList.update (canonicalName name) level direct"
    have "fan_out groups (entry # entries) (fanned, direct) = fan_out groups entries (fanned, ?direct)"
      using Nil by (simp add: e l members_of_def Let_def split: option.splits)
    moreover have "preferred (last_level (direct_entry groups x) entries) (map_of ?direct x) =
        preferred (last_level (direct_entry groups x) (entry # entries)) (map_of direct x)" for x
      using Nil by (simp add: e last preferred_assoc direct_entry_def update_conv')
    moreover have "last_level (group_entry groups x) (entry # entries) = last_level (group_entry groups x) entries" for x
      using Nil by (simp add: e last group_entry_def)
    ultimately show ?thesis
      using Cons.IH [OF later Cons.prems(2) distinct_update [OF Cons.prems(3)], of "canonicalName name" level] by simp
  next
    case (Cons member members)
    let ?fanned = "fold (\<lambda>member. AList.update member level) (members_of groups name) fanned"
    have "fan_out groups (entry # entries) (fanned, direct) = fan_out groups entries (?fanned, direct)"
      using Cons by (simp add: e l members_of_def Let_def split: option.splits)
    moreover have "preferred (last_level (group_entry groups x) entries) (map_of ?fanned x) =
        preferred (last_level (group_entry groups x) (entry # entries)) (map_of fanned x)" for x
      by (simp add: e last preferred_assoc group_entry_def update_members)
    moreover have "last_level (direct_entry groups x) (entry # entries) = last_level (direct_entry groups x) entries" for x
      using Cons by (simp add: e last direct_entry_def)
    ultimately show ?thesis
      using Cons.IH [OF later distinct_members [OF Cons.prems(2)] Cons.prems(3), of level "members_of groups name"] by simp
  qed
qed (simp add: last_level_def)

section \<open>Assigning\<close>

definition level_at :: "level_tree \<Rightarrow> string \<Rightarrow> int option" where
  "level_at t x = (if x = [] then Some (lt_root t) else map_of (lt_assigned t) x)"

lemma ConfiguredLevel_at: "ConfiguredLevel m name = level_at (mg_tree m) (canonicalName name)"
  by (simp add: ConfiguredLevel_def level_at_def Let_def)

lemma assign_all:
  "distinct (map fst assignments) \<Longrightarrow>
   level_at (fold (\<lambda>(name, level). assign level name) assignments t) x = preferred (map_of assignments x) (level_at t x)"
proof (induction assignments arbitrary: t)
  case (Cons entry assignments)
  obtain name level where e: "entry = (name, level)" by fastforce
  have "level_at (assign level name t) x = (if x = name then Some level else level_at t x)"
    by (auto simp: level_at_def assign_def update_conv')
  moreover have "map_of assignments name = None" using Cons.prems by (simp add: e map_of_eq_None_iff)
  ultimately show ?case using Cons.IH [of "assign level name t"] Cons.prems by (auto simp: e)
qed simp

lemma Validate_levels: "Validate c = None \<Longrightarrow> \<forall>(_, token) \<in> set (in_key_order (cf_levels c)). \<exists>level. ParseLevel token = Inr level"
proof -
  assume v: "Validate c = None"
  have "find (\<lambda>(name, token). \<exists>err. ParseLevel token = Inl err) (in_key_order (cf_levels c)) = None"
  proof (rule ccontr)
    assume "\<not> ?thesis"
    then obtain name token where f: "find (\<lambda>(name, token). \<exists>err. ParseLevel token = Inl err) (in_key_order (cf_levels c)) = Some (name, token)"
      by auto
    then have "\<exists>err. ParseLevel token = Inl err" by (auto simp: find_Some_iff)
    then show False using v f by (auto simp: Validate_def)
  qed
  then have none: "(\<exists>err. ParseLevel token = Inl err) = False" if "(name, token) \<in> set (in_key_order (cf_levels c))" for name token
    using that unfolding find_None_iff by auto
  show ?thesis
  proof (clarify)
    fix name token assume "(name, token) \<in> set (in_key_order (cf_levels c))"
    from none [OF this] show "\<exists>level. ParseLevel token = Inr level" by (cases "ParseLevel token") auto
  qed
qed

lemma declared_groups:
  "map_of (declare_groups declared groups) g =
     (case find (\<lambda>(name, _). canonicalName name = g) (rev declared) of
        Some (_, members) \<Rightarrow> Some (map canonicalName members)
      | None \<Rightarrow> map_of groups g)"
  unfolding declare_groups_def
proof (induction declared arbitrary: groups)
  case (Cons entry declared)
  obtain name members where e: "entry = (name, members)" by fastforce
  show ?case using Cons.IH by (auto simp: e find_append update_conv' split: option.splits)
qed simp

lemma walked:
  assumes "mset entries' = mset entries" "distinct (map fst entries)"
  shows "distinct (map fst entries')" "map_of entries' = map_of entries"
proof -
  show d: "distinct (map fst entries')"
    using assms by (metis mset_map mset_eq_imp_distinct_iff)
  show "map_of entries' = map_of entries"
    by (rule ext) (metis assms d map_of_eqI mset_eq_setD set_map map_of_eq_Some_iff not_None_eq)
qed

lemma Apply_validated:
  fixes walk :: map_walk
  assumes "Validate c = None" and walk: "\<And>i entries. mset (walk i entries) = mset entries"
  shows "\<exists>m'. Apply walk c m = (None, m') \<and> mg_groups m' = declare_groups (in_key_order (cf_groups c)) (mg_groups m) \<and>
    (\<forall>name. ConfiguredLevel m' name =
       preferred (last_level (direct_entry (mg_groups m') (canonicalName name)) (in_key_order (cf_levels c)))
         (preferred (last_level (group_entry (mg_groups m') (canonicalName name)) (in_key_order (cf_levels c)))
           (ConfiguredLevel m name)))"
proof -
  let ?groups = "declare_groups (in_key_order (cf_groups c)) (mg_groups m)" and ?levels = "in_key_order (cf_levels c)"
  obtain fanned direct where f: "fan_out ?groups ?levels ([], []) = Inr (fanned, direct)" "distinct (map fst fanned)" "distinct (map fst direct)"
      "\<And>x. map_of fanned x = last_level (group_entry ?groups x) ?levels" "\<And>x. map_of direct x = last_level (direct_entry ?groups x) ?levels"
    using fan_out_levels [OF Validate_levels [OF assms(1)], of "[]" "[]" ?groups] by auto
  let ?assigned = "\<lambda>assignments t. fold (\<lambda>(name, level). assign level name) assignments t"
  let ?m = "m\<lparr>mg_groups := ?groups, mg_tree := ?assigned (walk 1 direct) (?assigned (walk 0 fanned) (mg_tree m))\<rparr>"
  have "Apply walk c m = (None, ?m)" using assms f(1) by (simp add: Apply_def rebuild_def Let_def)
  moreover have "level_at (mg_tree ?m) x = preferred (map_of direct x) (preferred (map_of fanned x) (level_at (mg_tree m) x))" for x
    using assign_all [OF walked(1) [OF walk f(3)]] assign_all [OF walked(1) [OF walk f(2)]]
    by (simp add: walked(2) [OF walk f(2)] walked(2) [OF walk f(3)])
  ultimately show ?thesis unfolding ConfiguredLevel_at by (intro exI [of _ ?m]) (simp add: f(4,5))
qed

text \<open>What the parser accepts applies to every manager.\<close>

lemma parsed_configuration_applies:
  "ParseConfiguration decode document = Inr c \<Longrightarrow> (\<And>i entries. mset (walk i entries) = mset entries) \<Longrightarrow> fst (Apply walk c m) = None"
  using Apply_validated [of c walk m] by (auto simp: ParseConfiguration_def split: sum.splits prod.splits option.splits if_splits)

text \<open>C16: applying a configuration overlays it, whatever the order in which Go walks its maps. It fails
  exactly when the document does not validate, and then leaves the manager as it is. Otherwise each
  group has the members of the last entry, in key order, that declares it, or else those it had; and the
  level of every name and of the root is the one of the last entry that names it directly, or else of
  the last entry for a group it is now a member of, or else the one it had.\<close>

theorem applied_configuration_overlays_the_levels:
  assumes "\<And>i entries. mset (walk i entries) = mset entries"
  shows "case Apply walk c m of
     (Some err, m') \<Rightarrow> Validate c \<noteq> None \<and> m' = m
   | (None, m') \<Rightarrow> Validate c = None \<and>
       (\<forall>g. map_of (mg_groups m') g =
          (case find (\<lambda>(name, _). canonicalName name = g) (rev (in_key_order (cf_groups c))) of
             Some (_, members) \<Rightarrow> Some (map canonicalName members)
           | None \<Rightarrow> map_of (mg_groups m) g)) \<and>
       (\<forall>name. ConfiguredLevel m' name =
          preferred (last_level (direct_entry (mg_groups m') (canonicalName name)) (in_key_order (cf_levels c)))
            (preferred (last_level (group_entry (mg_groups m') (canonicalName name)) (in_key_order (cf_levels c)))
              (ConfiguredLevel m name)))"
proof (cases "Validate c")
  case None
  then obtain m' where m': "Apply walk c m = (None, m')" "mg_groups m' = declare_groups (in_key_order (cf_groups c)) (mg_groups m)"
      "\<forall>name. ConfiguredLevel m' name =
         preferred (last_level (direct_entry (mg_groups m') (canonicalName name)) (in_key_order (cf_levels c)))
           (preferred (last_level (group_entry (mg_groups m') (canonicalName name)) (in_key_order (cf_levels c)))
             (ConfiguredLevel m name))"
    using Apply_validated [where walk = walk and m = m, OF None assms] by blast
  then show ?thesis using None declared_groups [of "in_key_order (cf_groups c)" "mg_groups m"] by simp
qed (simp add: Apply_def)

definition demo_document :: log_configuration where
  "demo_document = \<lparr>cf_levels = [(''db'', ''debug''), (''a'', ''warn'')], cf_groups = [(''db'', [''a'', ''b''])]\<rparr>"

definition backwards :: map_walk where
  "backwards i = rev"

theorem applied_configuration_overlays_the_levels_witness:
  "case Apply backwards demo_document demo_manager of (err, m') \<Rightarrow> err = None \<and>
     map_of (mg_groups m') ''db'' = Some [''a'', ''b''] \<and>
     ConfiguredLevel m' ''a'' = Some LevelWarn \<and> ConfiguredLevel m' ''b'' = Some LevelDebug"
proof -
  obtain err m' where m': "Apply backwards demo_document demo_manager = (err, m')" by fastforce
  have order: "in_key_order (cf_levels demo_document) = [(''a'', ''warn''), (''db'', ''debug'')]"
      "in_key_order (cf_groups demo_document) = [(''db'', [''a'', ''b''])]"
    by code_simp+
  have names: "canonicalName ''db'' = ''db''" "canonicalName ''a'' = ''a''" "canonicalName ''b'' = ''b''" by code_simp+
  have levels: "ParseLevel ''warn'' = Inr LevelWarn" "ParseLevel ''debug'' = Inr LevelDebug" by code_simp+
  have valid: "Validate demo_document = None" by (simp add: Validate_def order levels names)
  have none: "map_of (mg_groups demo_manager) x = None" for x by (simp add: demo_manager_def NewLogManager_def WithLevel_def
    SetLevel_def rebuild_def)
  have applied: "err = None"
    "\<And>g. map_of (mg_groups m') g = (if g = ''db'' then Some [''a'', ''b''] else None)"
    "\<And>name. ConfiguredLevel m' name =
       preferred (last_level (direct_entry (mg_groups m') (canonicalName name)) [(''a'', ''warn''), (''db'', ''debug'')])
         (preferred (last_level (group_entry (mg_groups m') (canonicalName name)) [(''a'', ''warn''), (''db'', ''debug'')])
           (ConfiguredLevel demo_manager name))"
    using applied_configuration_overlays_the_levels [of backwards demo_document demo_manager]
    by (auto simp: backwards_def m' valid order names none split: option.splits)
  have "ConfiguredLevel m' ''a'' = Some LevelWarn" "ConfiguredLevel m' ''b'' = Some LevelDebug"
    unfolding applied(3) names
    by (simp_all add: last_level_def direct_entry_def group_entry_def members_of_def applied(2) names levels)
  then show ?thesis using applied(1,2) by (simp add: m')
qed

end
