(* ===== verification/AfterCommit.thy ===== *)
theory AfterCommit
  imports TxRun
begin

text \<open>
  What the two publishers share (outbox/publisher.go and sqlbus/publisher.go have the same
  shape): rows are stored through the querier of the context, and their delivery is registered
  for after the commit, or happens at once when no unit of work is active. The locale
  \<open>unit_publisher\<close> states what this relies on, over any database: its transactions see what was
  committed and publish it when they commit. Its lemma computes \<open>Run\<close> for work that publishes
  one event and then ends in any way.
\<close>

section \<open>Deferring a delivery\<close>

text \<open>\<open>closure batch\<close> is the code of the closure over \<open>batch\<close>, which \<open>deliver\<close> executes.\<close>

definition after_commit ::
  "('b \<Rightarrow> 'cb) \<Rightarrow> (gocontext \<Rightarrow> 'b \<Rightarrow> ('cb, 'db) world \<Rightarrow> ('cb, 'db) world) \<Rightarrow> gocontext \<Rightarrow> 'b \<Rightarrow>
   ('cb, 'db) world \<Rightarrow> ('cb, 'db) world" where
  "after_commit closure deliver ctx batch w =
     (case RegisterAfterCommit ctx (closure batch) [] w of
        (True, w') \<Rightarrow> w'
      | (False, w') \<Rightarrow> deliver ctx batch w')"

lemma after_commit_in_unit:
  "fromContext ctx w = Some u \<Longrightarrow> after_commit closure deliver ctx batch w =
     upd_unit u (\<lambda>x. x\<lparr>afterCommit := afterCommit x @ [\<lparr>cb_order = 0, cb_call = closure batch\<rparr>]\<rparr>) w"
  by (simp add: after_commit_def RegisterAfterCommit_def ordered_def newRegistration_def)

lemma after_commit_outside:
  "fromContext ctx w = None \<Longrightarrow> after_commit closure deliver ctx batch w = deliver ctx batch w"
  by (simp add: after_commit_def RegisterAfterCommit_def)

text \<open>\<open>context.WithoutCancel\<close> keeps the values of a context and drops its cancellation.\<close>

definition withoutCancel :: "gocontext \<Rightarrow> gocontext" where
  "withoutCancel ctx = ctx\<lparr>ctx_scope := None\<rparr>"

text \<open>A delivery works with a context of its own: units of work that exist, and transactions
  that have ended, are left alone.\<close>

definition left_alone :: "('cb, 'db) world \<Rightarrow> ('cb, 'db) world \<Rightarrow> bool" where
  "left_alone w w' \<longleftrightarrow>
     (\<forall>u < length (units w). u < length (units w') \<and> units w' ! u = units w ! u) \<and>
     (\<forall>t < length (txs w). t < length (txs w') \<and> (tx_state (txs w ! t) \<noteq> TxOpen \<longrightarrow> txs w' ! t = txs w ! t))"

lemma left_alone_refl [simp]: "left_alone w w"
  by (simp add: left_alone_def)

lemma left_alone_trans: "left_alone w w' \<Longrightarrow> left_alone w' w'' \<Longrightarrow> left_alone w w''"
  unfolding left_alone_def by metis

lemma left_alone_db [simp]: "left_alone w (w\<lparr>db := x\<rparr>)" "left_alone w (w\<lparr>scopes := y\<rparr>)"
  by (simp_all add: left_alone_def)

definition leaves_units :: "(('cb, 'db) world \<Rightarrow> ('cb, 'db) world) \<Rightarrow> bool" where
  "leaves_units f \<longleftrightarrow> (\<forall>w. left_alone w (f w))"

lemma leaves_unitsD:
  assumes "leaves_units f"
  shows "u < length (units w) \<Longrightarrow> units (f w) ! u = units w ! u"
    "u < length (units w) \<Longrightarrow> u < length (units (f w))"
    "t < length (txs w) \<Longrightarrow> tx_state (txs w ! t) \<noteq> TxOpen \<Longrightarrow> txs (f w) ! t = txs w ! t"
  using assms by (auto simp: leaves_units_def left_alone_def)

text \<open>The work: publish, and stop at its error or end as \<open>outcome\<close> says.\<close>

definition publish_then ::
  "('e \<Rightarrow> gocontext \<Rightarrow> ('cb, 'db) world \<Rightarrow> goerror option \<times> ('cb, 'db) world) \<Rightarrow> 'e \<Rightarrow> outcome \<Rightarrow> ('cb, 'db) work" where
  "publish_then publish event outcome ctx w =
     (case publish event ctx w of
        (Some err, w') \<Rightarrow> (Returned (Some err), w')
      | (None, w') \<Rightarrow> (outcome, w'))"

section \<open>A unit that only defers\<close>

lemma upd_unit_same: "f (units w ! u) = units w ! u \<Longrightarrow> upd_unit u f w = w"
  by (simp add: upd_unit_def)

definition deferring :: "nat \<Rightarrow> 'cb ordered_callback list \<Rightarrow> ('cb, 'db) world \<Rightarrow> bool" where
  "deferring u cbs w \<longleftrightarrow> u < length (units w) \<and> beforeCommit (units w ! u) = [] \<and> beforeCompletion (units w ! u) = [] \<and>
     afterCompletion (units w ! u) = [] \<and> \<not> rollbackOnly (units w ! u) \<and> afterCommit (units w ! u) = cbs"

lemma runBeforeCommit_deferring: "deferring u cbs w \<Longrightarrow> runBeforeCommit exec u ctx w = (Returned None, w)"
  by (simp add: runBeforeCommit_def Let_def deferring_def upd_unit_same sortByOrder_def)

lemma runBeforeCompletion_deferring: "deferring u cbs w \<Longrightarrow> runBeforeCompletion exec u ctx w = (Returned None, w)"
  by (simp add: runBeforeCompletion_def Let_def deferring_def upd_unit_same sortByOrder_def)

lemma runAfterCompletion_deferring:
  "u < length (units w) \<Longrightarrow> afterCompletion (units w ! u) = [] \<Longrightarrow> runAfterCompletion exec u ctx st w = w"
  by (simp add: runAfterCompletion_def Let_def upd_unit_same sortByOrder_def)

lemma decide_deferring:
  assumes "work bound w = (r0, w1)" "deferring u cbs w1"
  shows "\<exists>e. (e = None \<longleftrightarrow> error_of r0 = None) \<and> decide exec u bound tctx work d w =
    (e, [panic_of r0, None, None], panic_of r0 \<noteq> None \<or> e \<noteq> None \<and> shouldRollback d e, w1)"
proof -
  let ?e = "if error_of r0 \<noteq> None \<and> timedOut tctx w1
    then Some (Wrap ''%w: %w'' [ErrTransactionTimedOut, the (error_of r0)]) else error_of r0"
  have "\<not> isRollbackOnly u w1" using assms(2) by (simp add: deferring_def isRollbackOnly_def)
  then have "decide exec u bound tctx work d w =
      (?e, [panic_of r0, None, None], panic_of r0 \<noteq> None \<or> ?e \<noteq> None \<and> shouldRollback d ?e, w1)"
    using runBeforeCommit_deferring [OF assms(2)] runBeforeCompletion_deferring [OF assms(2)]
    by (auto simp: decide_def runGuarded_def runGuardedVoid_def assms(1) Let_def)
  then show ?thesis by (intro exI [of _ ?e]) auto
qed

lemma no_listeners [simp]:
  "fireBeforeBegin (NewManager drv []) ctx st w = w" "fireAfterBegin (NewManager drv []) ctx st e w = w"
  "fireBeforeCommit (NewManager drv []) ctx st w = w" "fireAfterCommit (NewManager drv []) ctx st e w = w"
  "fireBeforeRollback (NewManager drv []) ctx st w = w" "fireAfterRollback (NewManager drv []) ctx st e w = w"
  "database (NewManager drv []) = drv"
  by (simp_all add: NewManager_def fireBeforeBegin_def fireAfterBegin_def fireBeforeCommit_def fireAfterCommit_def
      fireBeforeRollback_def fireAfterRollback_def)

lemma deferring_parts [simp]:
  "deferring u cbs (w\<lparr>db := x\<rparr>) = deferring u cbs w"
  "deferring u cbs (end_tx t how x w) = deferring u cbs w"
  "units (end_tx t how x w) = units w" "db (end_tx t how x w) = x"
  "t < length (txs w) \<Longrightarrow> tx_state (txs (end_tx t how x w) ! t) = how"
  by (simp_all add: deferring_def end_tx_def)

lemma deferring_completed: "deferring u cbs w \<Longrightarrow> deferring u cbs (markCompleted u w)"
  by (simp add: deferring_def markCompleted_def upd_unit_def)

lemma markCompleted_parts [simp]: "txs (markCompleted u w) = txs w" "db (markCompleted u w) = db w"
  by (simp_all add: markCompleted_def)

lemma settleRollback_deferring:
  assumes "deferring u cbs w" "t < length (txs w)" "tx_state (txs w ! t) = TxOpen"
    and "settleRollback exec (NewManager drv []) u t st bound cctx workErr panics w = (r, w')"
  shows "r \<noteq> Returned None \<and> tx_state (txs w' ! t) = TxRolledBack \<and> db w' = snd (drv_rollback drv t (db w))"
proof -
  obtain err x where x: "drv_rollback drv t (db w) = (err, x)" by fastforce
  let ?w = "markCompleted u (end_tx t TxRolledBack x w)"
  have "deferring u cbs ?w" using assms(1) by (simp add: deferring_completed)
  then have "runAfterCompletion exec u cctx StatusRolledBack ?w = ?w"
    by (simp add: runAfterCompletion_deferring deferring_def)
  then show ?thesis
    using assms(2-4) x by (auto simp: settleRollback_def Tx_Rollback_def errors_join_def Let_def split: option.splits if_splits)
qed

lemma settleCommit_deferring:
  assumes w: "deferring u cbs w" "t < length (txs w)" "tx_state (txs w ! t) = TxOpen"
    and run: "settleCommit exec (NewManager drv []) u t st bound cctx workErr w = (r, w')"
  shows "(\<exists>e. r = Returned (Some e)) \<and> tx_state (txs w' ! t) = TxRolledBack \<and> db w' = snd (drv_rollback drv t (db w)) \<or>
    (\<exists>e err. r = Returned (Some e) \<and> drv_commit drv t (db w) = (Some err, db w')) \<and> tx_state (txs w' ! t) = TxFailed \<or>
    r = Returned workErr \<and> (\<exists>x v. drv_commit drv t (db w) = (None, x) \<and> v = markCompleted u (end_tx t TxCommitted x w) \<and>
      w' = runAfterCompletion exec u cctx StatusCommitted
        (recovering_loop exec cctx NoArgument (sortByOrder cbs) (upd_unit u (\<lambda>y. y\<lparr>afterCommit := sortByOrder cbs\<rparr>) v)))"
proof -
  have settled: "runAfterCompletion exec u cctx st' (markCompleted u (end_tx t how x w)) = markCompleted u (end_tx t how x w)"
    for st' how x
    using deferring_completed [of u cbs "end_tx t how x w"] w(1)
    by (intro runAfterCompletion_deferring) (simp_all add: deferring_def)
  have committed: "runAfterCommit exec u cctx (markCompleted u (end_tx t how x w)) =
      recovering_loop exec cctx NoArgument (sortByOrder cbs)
        (upd_unit u (\<lambda>y. y\<lparr>afterCommit := sortByOrder cbs\<rparr>) (markCompleted u (end_tx t how x w)))" for how x
    using deferring_completed [of u cbs "end_tx t how x w"] w(1)
    by (simp add: runAfterCommit_def Let_def deferring_def) (simp add: upd_unit_def)
  show ?thesis
    using run w(2,3)
    by (auto simp: settleCommit_def Tx_Commit_def Tx_Rollback_def Let_def settled committed errors_join_def wrapSystem_def
        split: option.splits prod.splits if_splits)
qed

section \<open>A database with transactions\<close>

text \<open>\<open>stored\<close> is what is committed, \<open>seen t\<close> what transaction \<open>t\<close> sees, and \<open>handled\<close> anything that
  the statements of a publication leave alone, such as the record of what listeners received.\<close>

locale transactions =
  fixes drv :: "'db sql_driver" and stored :: "'db \<Rightarrow> 'x" and seen :: "nat \<Rightarrow> 'db \<Rightarrow> 'x" and handled :: "'db \<Rightarrow> 'l"
  assumes begin_sees: "drv_begin drv t opts d = (None, d') \<Longrightarrow> seen t d' = stored d"
    and begin_keeps: "drv_begin drv t opts d = (r, d') \<Longrightarrow> stored d' = stored d \<and> handled d' = handled d"
    and commit_stores: "drv_commit drv t d = (None, d') \<Longrightarrow> stored d' = seen t d"
    and commit_in_doubt: "drv_commit drv t d = (Some e, d') \<Longrightarrow> stored d' = stored d \<or> stored d' = seen t d"
    and commit_keeps: "drv_commit drv t d = (r, d') \<Longrightarrow> handled d' = handled d"
    and rollback_keeps: "drv_rollback drv t d = (r, d') \<Longrightarrow> stored d' = stored d \<and> handled d' = handled d"

text \<open>
  Sessions of a database: the tables as the auto-commit session (\<open>None\<close>) or a transaction sees
  them, and writing them back. A statement through a querier acts on its session's tables.
\<close>

record ('x, 'db) sessions =
  session_tables :: "nat option \<Rightarrow> 'db \<Rightarrow> 'x"
  put_session :: "nat option \<Rightarrow> 'x \<Rightarrow> 'db \<Rightarrow> 'db"

definition session_of :: "querier \<Rightarrow> nat option" where
  "session_of q = (case q of OnTransaction t \<Rightarrow> Some t | OnDatabase \<Rightarrow> None)"

definition in_session ::
  "('x, 'db) sessions \<Rightarrow> nat option \<Rightarrow> ('x \<Rightarrow> 'a \<times> 'x) \<Rightarrow> ('cb, 'db) world \<Rightarrow> 'a \<times> ('cb, 'db) world" where
  "in_session S s f w = (case f (session_tables S s (db w)) of (a, x) \<Rightarrow> (a, w\<lparr>db := put_session S s x (db w)\<rparr>))"

definition on_world :: "('db \<Rightarrow> 'a \<times> 'db) \<Rightarrow> ('cb, 'db) world \<Rightarrow> 'a \<times> ('cb, 'db) world" where
  "on_world f w = (case f (db w) of (a, d) \<Rightarrow> (a, w\<lparr>db := d\<rparr>))"

lemma leaves_units_steps:
  "leaves_units (\<lambda>w. snd (in_session S s f w))" "leaves_units (\<lambda>w. snd (on_world g w))"
  by (simp_all add: leaves_units_def in_session_def on_world_def case_prod_beta)

text \<open>
  Documented behaviour of a database: a session reads what it wrote, an uncommitted transaction
  is invisible to the others, a transaction starts from the committed rows, a commit publishes
  its rows and a rollback drops them. A commit whose answer is an error is in doubt: it took
  effect or it did not, as a whole.
\<close>

locale session_database =
  fixes drv :: "'db sql_driver" and S :: "('x, 'db) sessions" and rows :: "'x \<Rightarrow> 'r" and handled :: "'db \<Rightarrow> 'l"
  assumes reads_own_writes: "session_tables S s (put_session S s x d) = x"
    and isolated: "session_tables S None (put_session S (Some t) x d) = session_tables S None d"
    and put_frame: "handled (put_session S (Some t) x d) = handled d"
    and starts: "drv_begin drv t opts d = (None, d') \<Longrightarrow> rows (session_tables S (Some t) d') = rows (session_tables S None d)"
    and begin_frame: "drv_begin drv t opts d = (r, d') \<Longrightarrow>
      rows (session_tables S None d') = rows (session_tables S None d) \<and> handled d' = handled d"
    and commits: "drv_commit drv t d = (None, d') \<Longrightarrow> rows (session_tables S None d') = rows (session_tables S (Some t) d)"
    and fails_whole: "drv_commit drv t d = (Some e, d') \<Longrightarrow>
      rows (session_tables S None d') = rows (session_tables S None d) \<or> rows (session_tables S None d') = rows (session_tables S (Some t) d)"
    and commit_frame: "drv_commit drv t d = (r, d') \<Longrightarrow> handled d' = handled d"
    and rolls_back: "drv_rollback drv t d = (r, d') \<Longrightarrow>
      rows (session_tables S None d') = rows (session_tables S None d) \<and> handled d' = handled d"

sublocale session_database \<subseteq> transactions drv "\<lambda>d. rows (session_tables S None d)" "\<lambda>t d. rows (session_tables S (Some t) d)" handled
  using starts begin_frame commits fails_whole commit_frame rolls_back by unfold_locales blast+

text \<open>How a transaction in which a publication was stored ends: \<open>v\<close> is the world before the store, \<open>res\<close>
  and \<open>v1\<close> what the store left, \<open>r\<close> and \<open>w'\<close> the result of \<open>Run\<close>.\<close>

definition fate ::
  "('db \<Rightarrow> 'x) \<Rightarrow> (nat \<Rightarrow> 'db \<Rightarrow> 'x) \<Rightarrow> ('db \<Rightarrow> 'l) \<Rightarrow> (gocontext \<Rightarrow> 'b \<Rightarrow> ('cb, 'db) world \<Rightarrow> ('cb, 'db) world) \<Rightarrow> gocontext \<Rightarrow> nat \<Rightarrow>
   outcome \<Rightarrow> ('cb, 'db) world \<Rightarrow> goerror + 'b option \<Rightarrow> ('cb, 'db) world \<Rightarrow> outcome \<Rightarrow> ('cb, 'db) world \<Rightarrow> bool" where
  "fate stored seen handled deliver ctx t outcome v res v1 r w' \<longleftrightarrow>
     tx_state (txs w' ! t) = TxCommitted \<and>
       (\<exists>e v2. r = Returned e \<and> (e = None \<longleftrightarrow> (\<exists>b. res = Inr b) \<and> outcome = Returned None) \<and>
          stored (db v2) = seen t (db v1) \<and> handled (db v2) = handled (db v) \<and>
          db w' = db (case res of Inr (Some b) \<Rightarrow> deliver (withoutUnit ctx) b v2 | _ \<Rightarrow> v2)) \<or>
     tx_state (txs w' ! t) = TxRolledBack \<and> r \<noteq> Returned None \<and>
       stored (db w') = stored (db v) \<and> handled (db w') = handled (db v) \<or>
     tx_state (txs w' ! t) = TxFailed \<and> (\<exists>e. r = Returned (Some e)) \<and>
       stored (db w') \<in> {stored (db v), seen t (db v1)} \<and> handled (db w') = handled (db v)"

locale unit_publisher = transactions drv stored seen handled
  for drv :: "'db sql_driver" and stored :: "'db \<Rightarrow> 'x" and seen :: "nat \<Rightarrow> 'db \<Rightarrow> 'x" and handled :: "'db \<Rightarrow> 'l" +
  fixes exec :: "('cb, 'db) interp"
    and publish :: "'e \<Rightarrow> gocontext \<Rightarrow> ('cb, 'db) world \<Rightarrow> goerror option \<times> ('cb, 'db) world"
    and store :: "'e \<Rightarrow> gocontext \<Rightarrow> querier \<Rightarrow> ('cb, 'db) world \<Rightarrow> (goerror + 'b option) \<times> ('cb, 'db) world"
    and closure :: "'b \<Rightarrow> 'cb" and deliver :: "gocontext \<Rightarrow> 'b \<Rightarrow> ('cb, 'db) world \<Rightarrow> ('cb, 'db) world"
  assumes publish: "publish e ctx w = (case store e ctx (Querier ctx w) w of
        (Inl err, w1) \<Rightarrow> (Some err, w1)
      | (Inr None, w1) \<Rightarrow> (None, w1)
      | (Inr (Some b), w1) \<Rightarrow> (None, after_commit closure deliver ctx b w1))"
    and closure: "exec (closure b) ctx arg w = (Returned None, deliver ctx b w)"
    and deliver: "leaves_units (deliver ctx b)"
    and store_frame: "store e ctx (OnTransaction t) w = (r, w1) \<Longrightarrow>
      \<exists>d. w1 = w\<lparr>db := d\<rparr> \<and> stored d = stored (db w) \<and> handled d = handled (db w)"
begin

lemma publishes_in_unit:
  assumes "ctx_status bound = Some st" "st_unit st = Some u" "transaction (units v ! u) = Some t" "deferring u [] v"
  shows "\<exists>res v1 v2 r0 cbs. store e bound (OnTransaction t) v = (res, v1) \<and>
    publish_then publish e outcome bound v = (r0, v2) \<and> deferring u cbs v2 \<and> db v2 = db v1 \<and> txs v2 = txs v \<and>
    length (units v2) = length (units v) \<and>
    stored (db v1) = stored (db v) \<and> handled (db v1) = handled (db v) \<and>
    r0 = (case res of Inl err \<Rightarrow> Returned (Some err) | Inr b \<Rightarrow> outcome) \<and>
    cbs = (case res of Inr (Some b) \<Rightarrow> [\<lparr>cb_order = 0, cb_call = closure b\<rparr>] | _ \<Rightarrow> [])"
proof -
  obtain res v1 where v1: "store e bound (OnTransaction t) v = (res, v1)" by fastforce
  then obtain d where d: "v1 = v\<lparr>db := d\<rparr>" "stored d = stored (db v)" "handled d = handled (db v)"
    using store_frame by blast
  have unit: "fromContext bound v = Some u" "fromContext bound v1 = Some u"
    using assms(1-3) d(1) by (simp_all add: fromContext_def statusFromContext_def)
  then have "publish e bound v = (case res of Inl err \<Rightarrow> (Some err, v1) | Inr None \<Rightarrow> (None, v1)
      | Inr (Some b) \<Rightarrow> (None, upd_unit u (\<lambda>x. x\<lparr>afterCommit := afterCommit x @ [\<lparr>cb_order = 0, cb_call = closure b\<rparr>]\<rparr>) v1))"
    using assms(3) v1 by (simp add: publish Querier_def after_commit_in_unit split: sum.split option.split)
  moreover have "deferring u [] v1" using assms(4) d(1) by simp
  ultimately show ?thesis
    using v1 d by (cases res; cases "projr res") (simp_all add: publish_then_def deferring_def upd_unit_def)
qed

lemma runBegun_fate:
  assumes st: "st_unit st = Some u" "transaction (units v ! u) = Some t" "deferring u [] v"
    and t: "t < length (txs v)" "tx_state (txs v ! t) = TxOpen"
    and run: "runBegun exec (NewManager drv []) ctx tctx u t st (publish_then publish e outcome) d v = (r, w')"
  shows "\<exists>c res v1. store e c (OnTransaction t) v = (res, v1) \<and> fate stored seen handled deliver ctx t outcome v res v1 r w'"
proof -
  let ?bound = "withStatus tctx st"
  have "ctx_status ?bound = Some st" by (simp add: withStatus_def)
  from publishes_in_unit [OF this st, of e outcome]
  obtain res v1 v2 r0 cbs where p: "store e ?bound (OnTransaction t) v = (res, v1)"
      "publish_then publish e outcome ?bound v = (r0, v2)" "deferring u cbs v2" "db v2 = db v1" "txs v2 = txs v"
      "stored (db v1) = stored (db v)" "handled (db v1) = handled (db v)"
    and r0: "r0 = (case res of Inl err \<Rightarrow> Returned (Some err) | Inr b \<Rightarrow> outcome)"
    and cbs: "cbs = (case res of Inr (Some b) \<Rightarrow> [\<lparr>cb_order = 0, cb_call = closure b\<rparr>] | _ \<Rightarrow> [])"
    by blast
  from decide_deferring [where work = "publish_then publish e outcome" and bound = ?bound and exec = exec and tctx = tctx and d = d, OF p(2,3)]
  obtain e' where e'_decide: "(e' = None \<longleftrightarrow> error_of r0 = None) \<and> decide exec u ?bound tctx (publish_then publish e outcome) d v =
      (e', [panic_of r0, None, None], panic_of r0 \<noteq> None \<or> e' \<noteq> None \<and> shouldRollback d e', v2)" ..
  note e' = e'_decide [THEN conjunct1] and decide = e'_decide [THEN conjunct2]
  note open2 = t [folded p(5)]
  have rolled: "stored (snd (drv_rollback drv t (db v2))) = stored (db v) \<and> handled (snd (drv_rollback drv t (db v2))) = handled (db v)"
    using rollback_keeps [OF prod.collapse [symmetric]] p(4,6,7) by simp
  show ?thesis
  proof (cases "panic_of r0 \<noteq> None \<or> e' \<noteq> None \<and> shouldRollback d e'")
    case True
    then have "settleRollback exec (NewManager drv []) u t st ?bound (withoutUnit ctx) e' [panic_of r0, None, None] v2 = (r, w')"
      using run decide by (simp add: runBegun_def Let_def)
    from settleRollback_deferring [OF p(3) open2 this] show ?thesis
      using p(1) rolled unfolding fate_def by auto
  next
    case False
    then have "settleCommit exec (NewManager drv []) u t st ?bound (withoutUnit ctx) e' v2 = (r, w')"
      using run decide by (auto simp: runBegun_def Let_def split: if_splits)
    from settleCommit_deferring [OF p(3) open2 this] show ?thesis
    proof (elim disjE conjE exE)
      fix err assume "tx_state (txs w' ! t) = TxRolledBack" "db w' = snd (drv_rollback drv t (db v2))" "r = Returned (Some err)"
      then show ?thesis using p(1) rolled unfolding fate_def by auto
    next
      fix e err assume failed: "tx_state (txs w' ! t) = TxFailed" "drv_commit drv t (db v2) = (Some err, db w')" "r = Returned (Some e)"
      then show ?thesis
        using p(1,4,6,7) commit_keeps [OF failed(2)] commit_in_doubt [OF failed(2)] unfolding fate_def by auto
    next
      fix x and y :: "('cb, 'db) world"
      let ?w = "upd_unit u (\<lambda>y. y\<lparr>afterCommit := sortByOrder cbs\<rparr>) y"
      let ?done_world = "case res of Inr (Some b) \<Rightarrow> deliver (withoutUnit ctx) b ?w | _ \<Rightarrow> ?w"
      assume c: "r = Returned e'" "drv_commit drv t (db v2) = (None, x)" "y = markCompleted u (end_tx t TxCommitted x v2)"
        and w': "w' = runAfterCompletion exec u (withoutUnit ctx) StatusCommitted
          (recovering_loop exec (withoutUnit ctx) NoArgument (sortByOrder cbs) ?w)"
      have w: "u < length (units ?w)" "afterCompletion (units ?w ! u) = []" "t < length (txs ?w)"
          "tx_state (txs ?w ! t) = TxCommitted" "db ?w = x"
        using p(3) open2(1) by (simp_all add: c(3) markCompleted_def upd_unit_def deferring_def end_tx_def)
      have loop: "recovering_loop exec (withoutUnit ctx) NoArgument (sortByOrder cbs) ?w = ?done_world"
        by (simp add: cbs sortByOrder_def closure recoverSynchronization_def split: sum.split option.split)
      have "u < length (units ?done_world)" "afterCompletion (units ?done_world ! u) = []" "tx_state (txs ?done_world ! t) = TxCommitted"
        using w leaves_unitsD [OF deliver] by (auto split: sum.split option.split)
      then have "w' = ?done_world" "tx_state (txs w' ! t) = TxCommitted"
        by (simp_all add: w' loop runAfterCompletion_deferring)
      moreover have "stored (db ?w) = seen t (db v1)" "handled (db ?w) = handled (db v)"
        using commit_stores [of t "db v2" x] commit_keeps [of t "db v2" None x] c(2) p(4,7) w(5) by simp_all
      moreover have "e' = None \<longleftrightarrow> (\<exists>b. res = Inr b) \<and> outcome = Returned None"
        using e' r0 False by (cases outcome) (auto split: sum.splits)
      ultimately show ?thesis using p(1) c(1) unfolding fate_def by blast
    qed
  qed
qed

lemma Run_publishes:
  assumes outer: "fromContext ctx w = None" "d_propagation (newDefinition opts) \<in> {Required, Nested}"
      "0 \<le> d_timeout (newDefinition opts)"
    and run: "Run exec (NewManager drv []) ctx (publish_then publish e outcome) opts w = (r, w')"
  shows "(\<exists>err. r = Returned (Some (Wrap ''%w: %w'' [ErrBeginFailed, err]))) \<and>
      stored (db w') = stored (db w) \<and> handled (db w') = handled (db w) \<or>
    (\<exists>c v res v1. db v = snd (drv_begin drv (length (txs w)) (transactionOptions (newDefinition opts)) (db w)) \<and>
       stored (db v) = stored (db w) \<and> handled (db v) = handled (db w) \<and>
       seen (length (txs w)) (db v) = stored (db w) \<and>
       store e c (OnTransaction (length (txs w))) v = (res, v1) \<and> fate stored seen handled deliver ctx (length (txs w)) outcome v res v1 r w')"
proof -
  let ?d = "newDefinition opts" and ?u = "length (units w)" and ?t = "length (txs w)"
  obtain tctx w1 where w1: "(tctx, w1) =
      (if d_timeout ?d > 0 then withTimeoutCause ctx ErrTransactionTimedOut w else (ctx, w))"
    by (metis surj_pair)
  then have parts: "units w1 = units w" "txs w1 = txs w" "db w1 = db w"
    by (auto simp: withTimeoutCause_def split: if_splits)
  let ?st = "\<lparr>st_unit = Some ?u, st_name = d_name ?d, st_newTransaction = True, st_savepoint = False\<rparr>"
  let ?w2 = "w1\<lparr>units := units w @ [new_unit (d_isolation ?d) (d_readOnly ?d)]\<rparr>"
  let ?cancel = "\<lambda>w'. if d_timeout ?d > 0 then cancelScope (ctx_scope tctx) w' else w'"
  have cancel: "db (?cancel x) = db x" "txs (?cancel x) = txs x" for x
    by (simp_all add: cancelScope_def split: option.split)
  obtain b w3 where b: "BeginTx drv tctx (transactionOptions ?d) ?w2 = (b, w3)" by fastforce
  have run: "(r, w') = (let (r, w4) = (case b of
        Inl err \<Rightarrow> (Returned (Some (Wrap ''%w: %w'' [ErrBeginFailed, err])), w3)
      | Inr t \<Rightarrow> runBegun exec (NewManager drv []) ctx tctx ?u t ?st (publish_then publish e outcome) ?d
          (upd_unit ?u (\<lambda>x. x\<lparr>transaction := Some t\<rparr>) w3)) in (r, ?cancel w4))"
    using run [symmetric] unfolding Run_outermost [OF outer] runNew_def w1 [symmetric]
    by (simp only: Let_def prod.case no_listeners parts b)
  show ?thesis
  proof (cases b)
    case (Inl err)
    then have "stored (db w3) = stored (db w) \<and> handled (db w3) = handled (db w)"
      using b begin_keeps [of ?t "transactionOptions ?d" "db w"]
      by (auto simp: BeginTx_def parts split: option.splits prod.splits)
    then show ?thesis using run Inl by (auto simp: cancel)
  next
    case (Inr t)
    then obtain x where x: "drv_begin drv ?t (transactionOptions ?d) (db w) = (None, x)" and t: "t = ?t"
      and w3: "w3 = ?w2\<lparr>db := x, txs := txs w @ [\<lparr>tx_scope = ctx_scope tctx, tx_state = TxOpen\<rparr>]\<rparr>"
      using b by (auto simp: BeginTx_def parts split: option.splits prod.splits)
    let ?v = "upd_unit ?u (\<lambda>x. x\<lparr>transaction := Some ?t\<rparr>) w3"
    obtain r4 w4 where w4: "runBegun exec (NewManager drv []) ctx tctx ?u ?t ?st (publish_then publish e outcome) ?d ?v = (r4, w4)"
      by fastforce
    have v: "transaction (units ?v ! ?u) = Some ?t" "deferring ?u [] ?v" "?t < length (txs ?v)" "tx_state (txs ?v ! ?t) = TxOpen"
      by (simp_all add: w3 upd_unit_def deferring_def new_unit_def)
    have "\<exists>c res v1. store e c (OnTransaction ?t) ?v = (res, v1) \<and> fate stored seen handled deliver ctx ?t outcome ?v res v1 r4 w4"
      by (rule runBegun_fate [OF _ v w4]) simp
    moreover have "r = r4" "w' = ?cancel w4" using run Inr t w4 by simp_all
    then have "fate stored seen handled deliver ctx ?t outcome ?v res v1 r w' = fate stored seen handled deliver ctx ?t outcome ?v res v1 r4 w4" for res v1
      by (simp only: fate_def cancel)
    moreover have "db ?v = snd (drv_begin drv ?t (transactionOptions ?d) (db w))" by (simp add: w3 x)
    moreover have "stored (db ?v) = stored (db w)" "handled (db ?v) = handled (db w)" "seen ?t (db ?v) = stored (db w)"
      using begin_keeps [OF x] begin_sees [OF x] by (simp_all add: w3)
    ultimately show ?thesis by blast
  qed
qed

end

section \<open>A database with snapshots\<close>

text \<open>An instance: every transaction works on a private copy of the tables; \<open>process\<close> is what the
  application keeps beside the database.\<close>

record ('x, 'm) snapshot_db =
  shared_tables :: 'x
  private_tables :: "nat \<Rightarrow> 'x"
  process :: 'm

definition snapshot_driver :: "('x, 'm) snapshot_db sql_driver" where
  "snapshot_driver = \<lparr>
     drv_begin = (\<lambda>t opts d. (None, d\<lparr>private_tables := (private_tables d)(t := shared_tables d)\<rparr>)),
     drv_commit = (\<lambda>t d. (None, d\<lparr>shared_tables := private_tables d t\<rparr>)),
     drv_rollback = (\<lambda>t d. (None, d)), drv_exec = (\<lambda>t statement d. (None, d))\<rparr>"

definition snapshot_sessions :: "('x, ('x, 'm) snapshot_db) sessions" where
  "snapshot_sessions = \<lparr>
     session_tables = (\<lambda>s d. case s of None \<Rightarrow> shared_tables d | Some t \<Rightarrow> private_tables d t),
     put_session = (\<lambda>s x d. case s of None \<Rightarrow> d\<lparr>shared_tables := x\<rparr>
       | Some t \<Rightarrow> d\<lparr>private_tables := (private_tables d)(t := x)\<rparr>)\<rparr>"

lemma snapshot_tables [simp]:
  "session_tables snapshot_sessions None d = shared_tables d" "session_tables snapshot_sessions (Some t) d = private_tables d t"
  by (simp_all add: snapshot_sessions_def)

interpretation snapshot: session_database snapshot_driver snapshot_sessions rows "\<lambda>d. handled (process d)"
  for rows :: "'x \<Rightarrow> 'r" and handled :: "'m \<Rightarrow> 'l"
  by unfold_locales (auto simp: snapshot_driver_def snapshot_sessions_def split: option.split)

lemmas snapshot_database = snapshot.session_database_axioms

end
