(* ===== verification/OutboxPublisher.thy ===== *)
theory OutboxPublisher
  imports AfterCommit OutboxService BrokerConfig
begin

text \<open>
  The outbox publisher (outbox/publisher.go) over the transaction manager, and the resubmitter
  (outbox/resubmitter.go). A registry reaches the world of the manager here, so its listeners may
  run transactions of their own; \<open>session_registry\<close> is the registry on the SQL store of
  outbox/store_sql.go, whose statements act on the tables as the session of the querier sees
  them. What a database does with sessions is the locale \<open>session_database\<close>.
\<close>

section \<open>The publisher\<close>

text \<open>
  The methods of the registry get the context; the querier is the argument of \<open>Create\<close> and matters
  to no other operation. \<open>pub_closure\<close> is the code of the closure \<open>dispatch\<close> over publications, and
  \<open>pub_go\<close> is the \<open>go\<close> statement: it hands the detached context and the publications to a
  goroutine whose body is \<open>background\<close>.
\<close>

type_synonym ('id, 'e) dispatch_round = "gocontext \<times> ('id, 'e) publication list"

record ('id, 'e, 'cb, 'db) publisher =
  pub_registry :: "gocontext \<Rightarrow> querier \<Rightarrow> ('id, 'e, ('cb, 'db) world) registry"
  pub_querier :: "gocontext \<Rightarrow> ('cb, 'db) world \<Rightarrow> querier"
  pub_asynchronous :: bool
  pub_timeout :: int
  pub_closure :: "('id, 'e) publication list \<Rightarrow> 'cb"
  pub_go :: "('id, 'e) dispatch_round \<Rightarrow> ('cb, 'db) world \<Rightarrow> ('cb, 'db) world"

definition dispatchTimeout :: int where
  "dispatchTimeout = 30 * second"

definition NewPublisher where
  "NewPublisher registry querier closure go =
     \<lparr>pub_registry = registry, pub_querier = querier, pub_asynchronous = False, pub_timeout = dispatchTimeout,
      pub_closure = closure, pub_go = go\<rparr>"

definition WithAsynchronousDispatch :: "('id, 'e, 'cb, 'db) publisher \<Rightarrow> ('id, 'e, 'cb, 'db) publisher" where
  "WithAsynchronousDispatch p = p\<lparr>pub_asynchronous := True\<rparr>"

text \<open>\<open>report\<close>: an error only reaches the log.\<close>

definition report ::
  "('id, 'e, 'cb, 'db) publisher \<Rightarrow> gocontext \<Rightarrow> ('id, 'e) publication list \<Rightarrow> ('cb, 'db) world \<Rightarrow> ('cb, 'db) world" where
  "report P ctx ps w = snd (Dispatch (pub_registry P ctx OnDatabase) ps w)"

definition background_round :: "('id, 'e, 'cb, 'db) publisher \<Rightarrow> ('id, 'e) dispatch_round \<Rightarrow> ('cb, 'db) world \<Rightarrow> ('cb, 'db) world" where
  "background_round P round w = (case round of (ctx, ps) \<Rightarrow> cancelScope (ctx_scope ctx) (report P ctx ps w))"

definition Publisher_dispatch ::
  "('id, 'e, 'cb, 'db) publisher \<Rightarrow> gocontext \<Rightarrow> ('id, 'e) publication list \<Rightarrow> ('cb, 'db) world \<Rightarrow> ('cb, 'db) world" where
  "Publisher_dispatch P ctx ps w =
     (if pub_asynchronous P
      then (let (detached, w1) = withTimeoutCause (withoutCancel ctx) DeadlineExceeded w in pub_go P (detached, ps) w1)
      else report P ctx ps w)"

definition Publisher_Publish ::
  "('id, 'e, 'cb, 'db) publisher \<Rightarrow> 'e \<Rightarrow> gocontext \<Rightarrow> ('cb, 'db) world \<Rightarrow> goerror option \<times> ('cb, 'db) world" where
  "Publisher_Publish P event ctx w =
     (case Registry_Publish (pub_registry P ctx (pub_querier P ctx w)) event w of
        (Inl err, w1) \<Rightarrow> (Some err, w1)
      | (Inr ps, w1) \<Rightarrow>
         (if ps = [] then (None, w1)
          else (None, after_commit (pub_closure P) (Publisher_dispatch P) ctx ps w1)))"

section \<open>The resubmitter\<close>

record ('id, 'e, 'd) resubmitter =
  rs_registry :: "('id, 'e, 'd) registry"
  rs_interval :: int
  rs_minimumAge :: int

definition NewResubmitter :: "('id, 'e, 'd) registry \<Rightarrow> int \<Rightarrow> int \<Rightarrow> ('id, 'e, 'd) resubmitter" where
  "NewResubmitter R interval minimumAge = \<lparr>rs_registry = R, rs_interval = interval, rs_minimumAge = minimumAge\<rparr>"

text \<open>What ends the wait of the loop: the ticker, with what the rest of the application did in
  between, or the stop function.\<close>

datatype 'd resubmit_signal = IntervalElapsed "'d \<Rightarrow> 'd" | StopRequested

fun resubmission_loop :: "('id, 'e, 'd) resubmitter \<Rightarrow> 'd resubmit_signal list \<Rightarrow> 'd \<Rightarrow> 'd" where
  "resubmission_loop r signals d =
     (let d1 = snd (ResubmitIncomplete (rs_registry r) (rs_minimumAge r) d)
      in (case signals of
            [] \<Rightarrow> d1
          | StopRequested # _ \<Rightarrow> d1
          | IntervalElapsed others # later \<Rightarrow> resubmission_loop r later (others d1)))"

declare resubmission_loop.simps [simp del]

text \<open>One pass at the start, one per interval, and none after the stop was requested.\<close>

lemma resubmission_loop_passes:
  "resubmission_loop r (map IntervalElapsed fs @ StopRequested # later) d =
     fold (\<lambda>f d. snd (ResubmitIncomplete (rs_registry r) (rs_minimumAge r) (f d))) fs
       (snd (ResubmitIncomplete (rs_registry r) (rs_minimumAge r) d))"
  by (induction fs arbitrary: d) (simp_all add: resubmission_loop.simps Let_def)

section \<open>The registry in sessions\<close>

text \<open>The collaborators of a registry in the world of the manager: the bus is behind its interface,
  the clock and the source of identifiers are parts of the database's world.\<close>

record ('id, 'e, 'cb, 'db, 't) outbox_config =
  oc_sessions :: "('id outbox_db, 'db) sessions"
  oc_env :: "'id environment"
  oc_mode :: completion_mode
  oc_listeners :: "'e \<Rightarrow> ('cb, 'db) world \<Rightarrow> string list"
  oc_deliver :: "gocontext \<Rightarrow> string \<Rightarrow> 'e option \<Rightarrow> ('cb, 'db) world \<Rightarrow> goerror option \<times> ('cb, 'db) world"
  oc_now :: "'db \<Rightarrow> instant \<times> 'db"
  oc_fresh :: "'db \<Rightarrow> (goerror + 'id) \<times> 'db"
  oc_minus :: "instant \<Rightarrow> int \<Rightarrow> instant"
  oc_serializer :: "'t json_serializer"
  oc_type_of :: "'e \<Rightarrow> 't option"
  oc_marshal :: "'e \<Rightarrow> goerror + string"
  oc_unmarshal :: "'t \<Rightarrow> string \<Rightarrow> goerror + 'e"

definition session_registry ::
  "('id, 'e, 'cb, 'db, 't) outbox_config \<Rightarrow> gocontext \<Rightarrow> querier \<Rightarrow> ('id, 'e, ('cb, 'db) world) registry" where
  "session_registry c ctx q = \<lparr>
     store_create = (\<lambda>p. in_session (oc_sessions c) (session_of q) (Create (oc_env c) p)),
     store_claim = (\<lambda>pid n. in_session (oc_sessions c) None (ClaimProcessing (oc_env c) pid n)),
     store_completed = (\<lambda>pid n date. in_session (oc_sessions c) None (MarkCompleted (oc_mode c) (oc_env c) pid n date)),
     store_failed = (\<lambda>pid n. in_session (oc_sessions c) None (MarkFailed (oc_env c) pid n)),
     store_resubmitted = (\<lambda>pid n date. in_session (oc_sessions c) None (MarkResubmitted (oc_env c) pid n date)),
     store_incomplete = in_session (oc_sessions c) None (FindIncomplete (oc_env c)),
     store_incomplete_before = (\<lambda>t. in_session (oc_sessions c) None (FindIncompletePublishedBefore (oc_env c) t)),
     bus_listeners = oc_listeners c,
     bus_deliver = oc_deliver c ctx,
     serialize = Serialize (oc_type_of c) (oc_marshal c) (oc_serializer c),
     deserialize = Deserialize (oc_unmarshal c) (oc_serializer c),
     clock_now = on_world (oc_now c),
     clock_before = (\<lambda>age w. case on_world (oc_now c) w of (now, w') \<Rightarrow> (oc_minus c now age, w')),
     fresh_id = on_world (oc_fresh c)\<rparr>"

section \<open>A delivery leaves the units alone\<close>

lemma left_alone_step: "leaves_units (\<lambda>w. snd (f w)) \<Longrightarrow> f w = (a, w') \<Longrightarrow> left_alone w w'"
  unfolding leaves_units_def by (metis snd_conv)

lemma dispatch_left_alone:
  assumes R: "\<And>pid n. leaves_units (\<lambda>w. snd (store_claim R pid n w))" "\<And>pid n. leaves_units (\<lambda>w. snd (store_failed R pid n w))"
      "\<And>pid n at. leaves_units (\<lambda>w. snd (store_completed R pid n at w))" "leaves_units (\<lambda>w. snd (clock_now R w))"
      "\<And>l e. leaves_units (\<lambda>w. snd (bus_deliver R l e w))"
    and run: "dispatch R p w = (err, w')"
  shows "left_alone w w'"
proof -
  obtain c w1 where c: "store_claim R (p_id p) (p_attempts p) w = (c, w1)" by fastforce
  obtain e w2 where e: "bus_deliver R (p_listener p) (p_event p) w1 = (e, w2)" by fastforce
  obtain f w3 where f: "store_failed R (p_id p) (p_attempts p) w2 = (f, w3)" by fastforce
  obtain now w4 where now: "clock_now R w2 = (now, w4)" by fastforce
  obtain g w5 where g: "store_completed R (p_id p) (p_attempts p) now w4 = (g, w5)" by fastforce
  note steps = left_alone_step [OF R(1) c] left_alone_step [OF R(5) e] left_alone_step [OF R(2) f]
    left_alone_step [OF R(4) now] left_alone_step [OF R(3) g]
  have "left_alone w w2" "left_alone w w3" "left_alone w w5"
    using steps by (blast intro: left_alone_trans)+
  moreover have "w' \<in> {w1, w3, w5}"
    using run c e f now g by (auto simp: dispatch_def Let_def split: sum.splits bool.splits option.splits)
  ultimately show ?thesis using steps(1) by auto
qed

lemma collect_left_alone:
  assumes "\<And>p w err w'. f p w = (err, w') \<Longrightarrow> left_alone w w'"
  shows "collect_failures f ps w = (errs, w') \<Longrightarrow> left_alone w w'"
proof (induction ps arbitrary: w errs w')
  case (Cons p ps)
  obtain err w1 where p: "f p w = (err, w1)" by fastforce
  obtain errs1 w2 where ps: "collect_failures f ps w1 = (errs1, w2)" by fastforce
  show ?case using Cons.prems p ps assms [OF p] Cons.IH [OF ps] by (auto simp: Let_def intro: left_alone_trans)
qed simp

text \<open>What the environment of a publisher promises: a listener works with a context of its own, the
  \<open>go\<close> statement only starts its goroutine, and calling the closure is calling \<open>dispatch\<close>.\<close>

definition publisher_environment ::
  "('id, 'e, 'cb, 'db, 't) outbox_config \<Rightarrow> ('id, 'e, 'cb, 'db) publisher \<Rightarrow> ('cb, 'db) interp \<Rightarrow> bool" where
  "publisher_environment c P exec \<longleftrightarrow>
     (\<forall>ctx l e. leaves_units (\<lambda>w. snd (oc_deliver c ctx l e w))) \<and> (\<forall>round. leaves_units (pub_go P round)) \<and>
     (\<forall>ps ctx arg w. exec (pub_closure P ps) ctx arg w = (Returned None, Publisher_dispatch P ctx ps w))"

lemma dispatch_leaves_units:
  assumes "publisher_environment c P exec" "pub_registry P = session_registry c"
  shows "leaves_units (Publisher_dispatch P ctx ps)"
proof -
  let ?R = "session_registry c"
  have dispatch: "left_alone w w'" if "dispatch (?R ctx OnDatabase) p w = (err, w')" for ctx p w err w'
    by (rule dispatch_left_alone [OF _ _ _ _ _ that])
       (use assms(1) in \<open>simp_all add: session_registry_def leaves_units_steps publisher_environment_def\<close>)
  have "left_alone w (report P ctx ps w)" for ctx w
  proof -
    obtain errs w' where c: "collect_failures (dispatch (?R ctx OnDatabase)) ps w = (errs, w')" by fastforce
    then have "left_alone w w'" by (rule collect_left_alone [OF dispatch, rotated])
    then show ?thesis by (simp add: report_def Dispatch_def assms(2) c)
  qed
  moreover have timeout: "left_alone w (snd (withTimeoutCause ctx cause w))" for w :: "('c, 'd) world" and ctx cause
    by (simp add: withTimeoutCause_def)
  moreover have go: "left_alone w (pub_go P round w)" for round w
    using assms(1) by (cases round) (simp add: publisher_environment_def leaves_units_def)
  ultimately show ?thesis
    by (auto simp: leaves_units_def Publisher_dispatch_def Let_def case_prod_beta intro: left_alone_trans [OF timeout go])
qed

section \<open>Publications and the transaction they are written in\<close>

text \<open>What a publication leaves to be delivered.\<close>

definition pending_store ::
  "('id, 'e, 'cb, 'db, 't) outbox_config \<Rightarrow> 'e \<Rightarrow> gocontext \<Rightarrow> querier \<Rightarrow> ('cb, 'db) world \<Rightarrow>
   (goerror + ('id, 'e) publication list option) \<times> ('cb, 'db) world" where
  "pending_store c event ctx q w = (case Registry_Publish (session_registry c ctx q) event w of
      (Inl err, w1) \<Rightarrow> (Inl err, w1)
    | (Inr ps, w1) \<Rightarrow> (Inr (if ps = [] then None else Some ps), w1))"

text \<open>The publications of one event, for the first of its listeners; all of them unless a statement
  or the serializer fails.\<close>

definition batch_of ::
  "('id, 'e, 'cb, 'db, 't) outbox_config \<Rightarrow> 'e \<Rightarrow> string list \<Rightarrow> ('id, 'e) publication list \<Rightarrow> bool" where
  "batch_of c event ls ps \<longleftrightarrow> (\<exists>later. ls = map p_listener ps @ later) \<and>
     (\<forall>p \<in> set ps. Serialize (oc_type_of c) (oc_marshal c) (oc_serializer c) event = Inr (p_type p, p_payload p) \<and>
        p_event p = Some event \<and> p_status p = StatusPublished \<and> p_attempts p = 1)"

locale outbox_database = session_database drv S publications handled
  for drv :: "'db sql_driver" and S :: "('id outbox_db, 'db) sessions" and handled :: "'db \<Rightarrow> 'l" +
  fixes now :: "'db \<Rightarrow> instant \<times> 'db" and fresh :: "'db \<Rightarrow> (goerror + 'id) \<times> 'db"
  assumes clock_frame: "session_tables S s (snd (now d)) = session_tables S s d" "handled (snd (now d)) = handled d"
    and fresh_frame: "session_tables S s (snd (fresh d)) = session_tables S s d" "handled (snd (fresh d)) = handled d"

lemma Create_alone:
  assumes "env_others env = (\<lambda>_ rows. rows)" "Create env p d = (err, d')"
  shows "publications d' = publications d @ (if err = None then [row_of p] else [])"
  using assms(2)
  by (auto simp: Create_def execute_def tick_def insert_row_def Let_def assms(1) split: option.splits sum.splits prod.splits if_splits)

context outbox_database begin

lemma frames:
  "now d = (at, d') \<Longrightarrow> session_tables S s d' = session_tables S s d \<and> handled d' = handled d"
  "fresh d = (i, d') \<Longrightarrow> session_tables S s d' = session_tables S s d \<and> handled d' = handled d"
  using clock_frame fresh_frame by (metis snd_conv)+

lemma session_log:
  fixes c :: "('id, 'e, 'cb, 'db, 't) outbox_config"
  assumes "oc_sessions c = S" "oc_now c = now" "oc_fresh c = fresh" "env_others (oc_env c) = (\<lambda>_ rows. rows)"
  shows "publication_log (session_registry c ctx q) (\<lambda>w. publications (session_tables S (session_of q) (db w)))"
proof (rule publication_log.intro)
  fix p err and d d' :: "('cb, 'db) world"
  assume "store_create (session_registry c ctx q) p d = (err, d')"
  then show "publications (session_tables S (session_of q) (db d')) =
      publications (session_tables S (session_of q) (db d)) @ (if err = None then [row_of p] else [])"
    using reads_own_writes
    by (auto simp: session_registry_def in_session_def assms(1) split: prod.splits dest!: Create_alone [OF assms(4)])
next
  fix i and d d' :: "('cb, 'db) world"
  assume "fresh_id (session_registry c ctx q) d = (i, d')"
  then show "publications (session_tables S (session_of q) (db d')) = publications (session_tables S (session_of q) (db d))"
    using frames(2) by (auto simp: session_registry_def on_world_def assms(3) split: prod.splits)
next
  fix i and d d' :: "('cb, 'db) world"
  assume "clock_now (session_registry c ctx q) d = (i, d')"
  then show "publications (session_tables S (session_of q) (db d')) = publications (session_tables S (session_of q) (db d))"
    using frames(1) by (auto simp: session_registry_def on_world_def assms(2) split: prod.splits)
qed

text \<open>Inside a transaction, publishing changes neither the committed rows nor what was delivered.\<close>

definition unseen :: "('cb, 'db) world \<Rightarrow> ('cb, 'db) world \<Rightarrow> bool" where
  "unseen w w' \<longleftrightarrow> (\<exists>d. w' = w\<lparr>db := d\<rparr> \<and>
     publications (session_tables S None d) = publications (session_tables S None (db w)) \<and> handled d = handled (db w))"

lemma unseen_refl: "unseen w w"
  unfolding unseen_def by (intro exI [of _ "db w"]) simp

lemma unseen_trans: "unseen w w' \<Longrightarrow> unseen w' w'' \<Longrightarrow> unseen w w''"
  unfolding unseen_def by auto

lemma unseen_steps:
  assumes "oc_sessions c = S" "oc_now c = now" "oc_fresh c = fresh"
  shows "store_create (session_registry c ctx (OnTransaction t)) p w = (r, w') \<Longrightarrow> unseen w w'"
    "fresh_id (session_registry c ctx q) w = (i, w') \<Longrightarrow> unseen w w'"
    "clock_now (session_registry c ctx q) w = (at, w') \<Longrightarrow> unseen w w'"
  using isolated put_frame frames [of "db w"]
  by (auto simp: session_registry_def in_session_def on_world_def session_of_def assms unseen_def split: prod.splits)

lemma publish_unseen:
  assumes c: "oc_sessions c = S" "oc_now c = now" "oc_fresh c = fresh"
  shows "publish_all (session_registry c ctx (OnTransaction t)) ls etype payload event at w = (r, w') \<Longrightarrow> unseen w w'"
proof (induction ls arbitrary: w r w')
  case Nil
  then show ?case by (simp add: unseen_refl)
next
  case (Cons l ls)
  let ?R = "session_registry c ctx (OnTransaction t)"
  obtain i w1 where i: "fresh_id ?R w = (i, w1)" by fastforce
  show ?case
  proof (cases i)
    case (Inl err)
    then show ?thesis using Cons.prems i unseen_steps(2) [OF c i] by simp
  next
    case (Inr pid)
    obtain err w2 where s: "store_create ?R (new_publication pid l etype payload event at) w1 = (err, w2)" by fastforce
    obtain r' w3 where p: "publish_all ?R ls etype payload event at w2 = (r', w3)" by fastforce
    have "unseen w w2" "unseen w w3"
      using unseen_steps(2) [OF c i] unseen_steps(1) [OF c s] Cons.IH [OF p] by (blast intro: unseen_trans)+
    then show ?thesis using Cons.prems i Inr s p by (auto simp: Let_def split: option.splits sum.splits)
  qed
qed

lemma Publish_unseen:
  assumes c: "oc_sessions c = S" "oc_now c = now" "oc_fresh c = fresh"
    and "Registry_Publish (session_registry c ctx (OnTransaction t)) event w = (r, w')"
  shows "unseen w w'"
proof -
  obtain at w1 where at: "clock_now (session_registry c ctx (OnTransaction t)) w = (at, w1)" by fastforce
  note unseen_trans [OF unseen_steps(3) [OF c at] publish_unseen [OF c]]
  then show ?thesis
    using assms(4) at unseen_refl by (auto simp: Registry_Publish_def Let_def split: if_splits sum.splits)
qed

text \<open>The publisher is a client of \<open>unit_publisher\<close>.\<close>

lemma outbox_unit_publisher:
  assumes c: "oc_sessions c = S" "oc_now c = now" "oc_fresh c = fresh"
    and P: "pub_registry P = session_registry c" "pub_querier P = Querier" "publisher_environment c P exec"
  shows "unit_publisher drv (\<lambda>d. publications (session_tables S None d)) (\<lambda>t d. publications (session_tables S (Some t) d)) handled
    exec (Publisher_Publish P) (pending_store c) (pub_closure P) (Publisher_dispatch P)"
proof
  fix e ctx w
  show "Publisher_Publish P e ctx w = (case pending_store c e ctx (Querier ctx w) w of
        (Inl err, w1) \<Rightarrow> (Some err, w1) | (Inr None, w1) \<Rightarrow> (None, w1)
      | (Inr (Some b), w1) \<Rightarrow> (None, after_commit (pub_closure P) (Publisher_dispatch P) ctx b w1))"
    by (auto simp: Publisher_Publish_def pending_store_def P split: prod.split sum.split)
next
  fix b ctx arg w
  show "exec (pub_closure P b) ctx arg w = (Returned None, Publisher_dispatch P ctx b w)"
    using P(3) by (simp add: publisher_environment_def)
next
  fix ctx b
  show "leaves_units (Publisher_dispatch P ctx b)" by (rule dispatch_leaves_units [OF P(3,1)])
next
  fix e ctx t w r w1
  assume "pending_store c e ctx (OnTransaction t) w = (r, w1)"
  then obtain r' where "Registry_Publish (session_registry c ctx (OnTransaction t)) e w = (r', w1)"
    by (auto simp: pending_store_def split: prod.splits sum.splits)
  from Publish_unseen [OF c this]
  show "\<exists>d. w1 = w\<lparr>db := d\<rparr> \<and> publications (session_tables S None d) = publications (session_tables S None (db w)) \<and> handled d = handled (db w)"
    by (simp add: unseen_def)
qed

lemma pending_rows:
  assumes c: "oc_sessions c = S" "oc_now c = now" "oc_fresh c = fresh" "env_others (oc_env c) = (\<lambda>_ rows. rows)"
    and "pending_store c event ctx (OnTransaction t) w = (res, w1)"
  shows "\<exists>ps. publications (session_tables S (Some t) (db w1)) = publications (session_tables S (Some t) (db w)) @ map row_of ps \<and>
    batch_of c event (oc_listeners c event w) ps \<and>
    (if map p_listener ps = oc_listeners c event w then res = Inr (if ps = [] then None else Some ps)
     else \<exists>err. res = Inl err)"
proof -
  let ?R = "session_registry c ctx (OnTransaction t)"
  let ?rows = "\<lambda>w. publications (session_tables S (Some t) (db w))" and ?ls = "oc_listeners c event w"
  have log: "publication_log ?R ?rows"
    using session_log [OF c, of ctx "OnTransaction t"] by (simp add: session_of_def)
  have R: "bus_listeners ?R event w = ?ls" "serialize ?R event = Serialize (oc_type_of c) (oc_marshal c) (oc_serializer c) event"
    by (simp_all add: session_registry_def)
  obtain r where r: "Registry_Publish ?R event w = (r, w1)"
    and res: "res = (case r of Inl err \<Rightarrow> Inl err | Inr ps \<Rightarrow> Inr (if ps = [] then None else Some ps))"
    using assms(5) by (auto simp: pending_store_def split: prod.splits sum.splits)
  from publication_log.Publish_appends [OF log r, unfolded R] consider
      "?ls = []" "r = Inr []" "w1 = w" | "?ls \<noteq> []" "isl r" "w1 = w"
    | etype payload at where "serialize ?R event = Inr (etype, payload)" "stored_prefix ?ls etype payload event at (?rows w) (?rows w1) r"
    unfolding R by (auto simp: Let_def split: if_splits sum.splits)
  then show ?thesis
  proof cases
    case 3
    then show ?thesis unfolding stored_prefix_def batch_of_def R
      by (elim exE conjE, intro exI conjI) (auto simp: res split: sum.splits)
  qed (auto intro!: exI [of _ "[]"] simp: res batch_of_def split: sum.split)
qed

end

text \<open>C12: a publication shares the fate of the business write. When an outermost \<open>Run\<close> publishes
  an event and then ends in any way, either the transaction committed, and then its rows are
  exactly the rows before and one fresh \<open>PUBLISHED\<close> row per matching listener, in order, each
  with the serialized event; all of them were handed over once, after the commit and outside every
  unit, whatever excused error \<open>Run\<close> returns. The rows stop short of the last listener only when
  publishing failed; then nothing is handed over and \<open>Run\<close> returns an error. Or the transaction was
  rolled back (or never began), \<open>Run\<close> says so, no row was added and nothing was delivered; or the database
  reports a failed commit, and then \<open>Run\<close> reports it, nothing was delivered, and the rows are there
  as a whole or not at all. That the bus names the same listeners inside the transaction is assumed.\<close>

theorem publication_shares_the_fate_of_the_work:
  assumes db: "outbox_database drv S handled now fresh"
    and c: "oc_sessions c = S" "oc_now c = now" "oc_fresh c = fresh" "env_others (oc_env c) = (\<lambda>_ rows. rows)"
    and P: "pub_registry P = session_registry c" "pub_querier P = Querier" "publisher_environment c P exec"
    and listeners: "\<And>v. handled (db v) = handled (db w) \<Longrightarrow> oc_listeners c event v = oc_listeners c event w"
    and outer: "fromContext ctx w = None" "d_propagation (newDefinition opts) \<in> {Required, Nested}"
      "0 \<le> d_timeout (newDefinition opts)"
    and run: "Run exec (NewManager drv []) ctx (publish_then (Publisher_Publish P) event outcome) opts w = (r, w')"
  shows "let rows = \<lambda>v. publications (session_tables S None (db v)); t = length (txs w);
       nothing_delivered = (handled (db w') = handled (db w)); expected = oc_listeners c event w
     in (\<exists>err. r = Returned (Some (Wrap ''%w: %w'' [ErrBeginFailed, err]))) \<and> rows w' = rows w \<and> nothing_delivered \<or>
       tx_state (txs w' ! t) = TxRolledBack \<and> r \<noteq> Returned None \<and> rows w' = rows w \<and> nothing_delivered \<or>
       tx_state (txs w' ! t) = TxFailed \<and> (\<exists>err. r = Returned (Some err)) \<and> nothing_delivered \<and>
         (\<exists>ps. batch_of c event expected ps \<and> rows w' \<in> {rows w, rows w @ map row_of ps}) \<or>
       tx_state (txs w' ! t) = TxCommitted \<and> (\<exists>e ps v. r = Returned e \<and> batch_of c event expected ps \<and>
         (e = None \<longleftrightarrow> outcome = Returned None \<and> map p_listener ps = expected) \<and>
         rows v = rows w @ map row_of ps \<and> handled (db v) = handled (db w) \<and>
         db w' = db (if map p_listener ps = expected \<and> ps \<noteq> []
                     then Publisher_dispatch P (withoutUnit ctx) ps v else v))"
proof -
  let ?stored = "\<lambda>d. publications (session_tables S None d)" and ?t = "length (txs w)"
  let ?seen = "\<lambda>t d. publications (session_tables S (Some t) d)" and ?ls = "oc_listeners c event w"
  note up = outbox_database.outbox_unit_publisher [OF db c(1-3) P]
  from unit_publisher.Run_publishes [OF up outer run]
  consider "\<exists>err. r = Returned (Some (Wrap ''%w: %w'' [ErrBeginFailed, err]))"
      "?stored (db w') = ?stored (db w)" "handled (db w') = handled (db w)"
    | ctx' v res v1 where "?stored (db v) = ?stored (db w)" "handled (db v) = handled (db w)"
      "?seen ?t (db v) = ?stored (db w)" "pending_store c event ctx' (OnTransaction ?t) v = (res, v1)"
      "fate ?stored ?seen handled (Publisher_dispatch P) ctx ?t outcome v res v1 r w'"
    by blast
  then show ?thesis
  proof cases
    case 1
    then show ?thesis by simp
  next
    case 2
    from outbox_database.pending_rows [OF db c 2(4)] obtain ps where ps:
      "?seen ?t (db v1) = ?stored (db w) @ map row_of ps" "batch_of c event ?ls ps"
      "if map p_listener ps = ?ls then res = Inr (if ps = [] then None else Some ps) else \<exists>err. res = Inl err"
      unfolding 2(3) listeners [OF 2(2)] by blast
    from 2(5) consider
        "tx_state (txs w' ! ?t) = TxRolledBack" "r \<noteq> Returned None" "?stored (db w') = ?stored (db v)" "handled (db w') = handled (db v)"
      | "tx_state (txs w' ! ?t) = TxFailed" "\<exists>e. r = Returned (Some e)" "handled (db w') = handled (db v)"
          "?stored (db w') \<in> {?stored (db v), ?seen ?t (db v1)}"
      | e v2 where "tx_state (txs w' ! ?t) = TxCommitted" "r = Returned e"
          "e = None \<longleftrightarrow> (\<exists>b. res = Inr b) \<and> outcome = Returned None"
          "?stored (db v2) = ?seen ?t (db v1)" "handled (db v2) = handled (db v)"
          "db w' = db (case res of Inr (Some b) \<Rightarrow> Publisher_dispatch P (withoutUnit ctx) b v2 | _ \<Rightarrow> v2)"
      unfolding fate_def by blast
    then show ?thesis
    proof cases
      case 1
      then show ?thesis using 2(1,2) by (simp add: Let_def)
    next
      case A: 2
      then have "?stored (db w') \<in> {?stored (db w), ?stored (db w) @ map row_of ps}" using 2(1) ps(1) by simp
      then show ?thesis using A(1-3) 2(2) ps(2) unfolding Let_def by auto
    next
      case 3
      have "e = None \<longleftrightarrow> outcome = Returned None \<and> map p_listener ps = ?ls"
        using 3(3) ps(3) by (auto split: if_splits)
      moreover have "db w' = db (if map p_listener ps = ?ls \<and> ps \<noteq> [] then Publisher_dispatch P (withoutUnit ctx) ps v2 else v2)"
        using 3(6) ps(3) by (auto split: if_splits)
      moreover have "?stored (db v2) = ?stored (db w) @ map row_of ps" "handled (db v2) = handled (db w)"
        using 3(4,5) ps(1) 2(2) by simp_all
      ultimately show ?thesis using 3(1,2) ps(2) unfolding Let_def by blast
    qed
  qed
qed

section \<open>An instance\<close>

text \<open>The publisher on a database with snapshots; \<open>received\<close> records the listeners that were called.\<close>

record demo_process =
  drawn :: nat
  received :: "string list"

type_synonym demo_database = "(nat outbox_db, demo_process) snapshot_db"

definition demo_now :: "demo_database \<Rightarrow> instant \<times> demo_database" where
  "demo_now d = (Instant 2024 1 1 0 0 0 0, d)"

definition demo_fresh :: "demo_database \<Rightarrow> (goerror + nat) \<times> demo_database" where
  "demo_fresh d = (Inr (drawn (process d)), d\<lparr>process := (process d)\<lparr>drawn := Suc (drawn (process d))\<rparr>\<rparr>)"

lemma demo_database: "outbox_database snapshot_driver snapshot_sessions (\<lambda>d. received (process d)) demo_now demo_fresh"
  by (intro outbox_database.intro outbox_database_axioms.intro snapshot_database)
    (simp_all add: snapshot_sessions_def demo_now_def demo_fresh_def split: option.split)

interpretation demo: outbox_database snapshot_driver snapshot_sessions "\<lambda>d. received (process d)" demo_now demo_fresh
  by (rule demo_database)

definition demo_outbox :: "(nat, nat, (nat, nat) publication list, demo_database, string) outbox_config" where
  "demo_outbox = \<lparr>oc_sessions = snapshot_sessions,
     oc_env = \<lparr>env_fails = \<lambda>_. None, env_now = \<lambda>k. Instant 2024 1 1 0 0 1 0, env_others = \<lambda>_ rows. rows\<rparr>,
     oc_mode = CompletionModeUpdate, oc_listeners = \<lambda>event w. [''a'', ''b''],
     oc_deliver = \<lambda>ctx l event w. (None, w\<lparr>db := (db w)\<lparr>process := (process (db w))\<lparr>received := received (process (db w)) @ [l]\<rparr>\<rparr>\<rparr>),
     oc_now = demo_now, oc_fresh = demo_fresh, oc_minus = \<lambda>t age. t,
     oc_serializer = snd (RegisterEventType ''nat'' ''number'' NewJSONSerializer),
     oc_type_of = \<lambda>e. Some ''nat'', oc_marshal = \<lambda>e. Inr ''7'', oc_unmarshal = \<lambda>t p. Inr 7\<rparr>"

definition demo_publisher :: "(nat, nat, (nat, nat) publication list, demo_database) publisher" where
  "demo_publisher = NewPublisher (session_registry demo_outbox) Querier (\<lambda>ps. ps) (\<lambda>round w. w)"

definition demo_closures :: "((nat, nat) publication list, demo_database) interp" where
  "demo_closures ps ctx arg w = (Returned None, Publisher_dispatch demo_publisher ctx ps w)"

lemma demo_environment: "publisher_environment demo_outbox demo_publisher demo_closures"
  by (simp add: publisher_environment_def demo_closures_def leaves_units_def demo_publisher_def NewPublisher_def demo_outbox_def)

interpretation demo_publisher: unit_publisher snapshot_driver "\<lambda>d. publications (session_tables snapshot_sessions None d)"
  "\<lambda>t d. publications (session_tables snapshot_sessions (Some t) d)" "\<lambda>d. received (process d)" demo_closures
  "Publisher_Publish demo_publisher" "pending_store demo_outbox" "pub_closure demo_publisher" "Publisher_dispatch demo_publisher"
  by (rule demo.outbox_unit_publisher [OF _ _ _ _ _ demo_environment])
    (simp_all add: demo_outbox_def demo_publisher_def NewPublisher_def)

definition empty_outbox :: "((nat, nat) publication list, demo_database) world" where
  "empty_outbox = \<lparr>units = [], txs = [], scopes = [], db = \<lparr>shared_tables = \<lparr>publications = [], archived = [], ticks = 0\<rparr>,
     private_tables = \<lambda>t. \<lparr>publications = [], archived = [], ticks = 0\<rparr>, process = \<lparr>drawn = 0, received = []\<rparr>\<rparr>\<rparr>"

definition demo_run where
  "demo_run outcome = Run demo_closures (NewManager snapshot_driver []) background
     (publish_then (Publisher_Publish demo_publisher) 7 outcome) [] empty_outbox"

lemmas demo_run_simps =
  demo_run_def Run_def newDefinition_def fromContext_def statusFromContext_def background_def runNew_def
  BeginTx_def scope_state_def runBegun_def decide_def runGuarded_def runGuardedVoid_def publish_then_def
  upd_unit_def empty_outbox_def new_unit_def withStatus_def timedOut_def isRollbackOnly_def
  runBeforeCommit_def runBeforeCompletion_def runAfterCommit_def runAfterCompletion_def sortByOrder_def
  settleCommit_def Tx_Commit_def end_tx_def markCompleted_def recoverSynchronization_def withoutUnit_def
  demo_closures_def Publisher_Publish_def demo_publisher_def NewPublisher_def Querier_def session_registry_def
  demo_outbox_def Registry_Publish_def new_publication_def after_commit_def RegisterAfterCommit_def ordered_def newRegistration_def
  in_session_def on_world_def session_of_def snapshot_driver_def snapshot_sessions_def demo_now_def demo_fresh_def
  Create_def execute_def tick_def insert_row_def row_of_def Serialize_def RegisterEventType_def NewJSONSerializer_def

lemma demo_commits: "fst (demo_run (Returned None)) = Returned None"
  by (simp add: demo_run_simps Let_def del: formatTime.simps)

theorem publication_shares_the_fate_of_the_work_witness:
  "let w' = snd (demo_run (Returned None))
   in tx_state (txs w' ! 0) = TxCommitted \<and> (\<exists>ps v. map p_listener ps = [''a'', ''b''] \<and>
     batch_of demo_outbox 7 [''a'', ''b''] ps \<and> publications (shared_tables (db v)) = map row_of ps \<and>
     received (process (db v)) = [] \<and> db w' = db (Publisher_dispatch demo_publisher (withoutUnit background) ps v))"
proof -
  obtain w' where w': "demo_run (Returned None) = (Returned None, w')"
    using demo_commits by (metis prod.collapse)
  have c: "oc_sessions demo_outbox = snapshot_sessions" "oc_now demo_outbox = demo_now"
      "oc_fresh demo_outbox = demo_fresh" "env_others (oc_env demo_outbox) = (\<lambda>_ rows. rows)"
      "pub_registry demo_publisher = session_registry demo_outbox" "pub_querier demo_publisher = Querier"
    by (simp_all add: demo_outbox_def demo_publisher_def NewPublisher_def)
  have ls: "oc_listeners demo_outbox e v = [''a'', ''b'']" for e v by (simp add: demo_outbox_def)
  have outer: "fromContext background empty_outbox = None" "d_propagation (newDefinition []) \<in> {Required, Nested}"
      "0 \<le> d_timeout (newDefinition [])"
    by (simp_all add: fromContext_def statusFromContext_def background_def newDefinition_def)
  have "length (txs empty_outbox) = 0" "publications (shared_tables (db empty_outbox)) = []"
      "received (process (db empty_outbox)) = []"
    by (simp_all add: empty_outbox_def)
  then have "tx_state (txs w' ! 0) = TxCommitted \<and> (\<exists>ps v. batch_of demo_outbox 7 [''a'', ''b''] ps \<and>
      map p_listener ps = [''a'', ''b''] \<and>
      publications (shared_tables (db v)) = map row_of ps \<and> received (process (db v)) = [] \<and>
      db w' = db (if map p_listener ps = [''a'', ''b''] \<and> ps \<noteq> []
        then Publisher_dispatch demo_publisher (withoutUnit background) ps v else v))"
    using publication_shares_the_fate_of_the_work [OF demo_database c demo_environment _ outer w' [unfolded demo_run_def]]
    by (simp add: Let_def ls)
  then show ?thesis unfolding Let_def w' snd_conv by (elim conjE exE, intro conjI exI) auto
qed

end
