(* ===== verification/BusPublisher.thy ===== *)
theory BusPublisher
  imports AfterCommit BusBridge
begin

text \<open>
  The publisher of the distributed bus (sqlbus/publisher.go) over the transaction manager. The
  bridge of sqlbus/bridge.go works on a node: the shared tables as a session sees them, and the
  memory of the process; \<open>on_node\<close> runs a call of the bridge in the world of the manager, its
  statements in the session of a querier. As the outbox publisher, it is a client of
  \<open>unit_publisher\<close>.
\<close>

section \<open>A node in the world of the manager\<close>

text \<open>\<open>node_memory\<close> and \<open>put_memory\<close> reach what the process keeps in memory; the tables in it are not
  used.\<close>

record ('id, 'e, 'h, 's, 'db) node_access =
  node_sessions :: "('id bus_db, 'db) sessions"
  node_memory :: "'db \<Rightarrow> ('id, 'e, 'h, 's) node"
  put_memory :: "('id, 'e, 'h, 's) node \<Rightarrow> 'db \<Rightarrow> 'db"

definition with_tables :: "'id bus_db \<Rightarrow> ('id, 'e, 'h, 's) node \<Rightarrow> ('id, 'e, 'h, 's) node" where
  "with_tables x n = n\<lparr>rest := (rest n)\<lparr>nw_db := x\<rparr>\<rparr>"

definition on_node ::
  "('id, 'e, 'h, 's, 'db) node_access \<Rightarrow> nat option \<Rightarrow> (('id, 'e, 'h, 's) node \<Rightarrow> 'a \<times> ('id, 'e, 'h, 's) node) \<Rightarrow>
   ('cb, 'db) world \<Rightarrow> 'a \<times> ('cb, 'db) world" where
  "on_node A s f w =
     (case f (with_tables (session_tables (node_sessions A) s (db w)) (node_memory A (db w))) of
        (a, n) \<Rightarrow> (a, w\<lparr>db := put_session (node_sessions A) s (nw_db (rest n)) (put_memory A n (db w))\<rparr>))"

section \<open>The publisher\<close>

type_synonym ('id, 'e) delivery_round = "'e \<times> 'id delivery_key list"

record ('id, 'e, 'h, 's, 'cb, 'db) bus_publisher =
  bp_bridge :: "('id, 'e, 'h, 's) bridge"
  bp_access :: "('id, 'e, 'h, 's, 'db) node_access"
  bp_querier :: "gocontext \<Rightarrow> ('cb, 'db) world \<Rightarrow> querier"
  bp_asynchronous :: bool
  bp_timeout :: int
  bp_closure :: "('id, 'e) delivery_round \<Rightarrow> 'cb"
  bp_go :: "gocontext \<times> ('id, 'e) delivery_round \<Rightarrow> ('cb, 'db) world \<Rightarrow> ('cb, 'db) world"

definition busDispatchTimeout :: int where
  "busDispatchTimeout = 30 * second"

definition NewBusPublisher where
  "NewBusPublisher b access querier closure go =
     \<lparr>bp_bridge = b, bp_access = access, bp_querier = querier, bp_asynchronous = False, bp_timeout = busDispatchTimeout,
      bp_closure = closure, bp_go = go\<rparr>"

definition BusPublisher_WithAsynchronousDispatch ::
  "('id, 'e, 'h, 's, 'cb, 'db) bus_publisher \<Rightarrow> ('id, 'e, 'h, 's, 'cb, 'db) bus_publisher" where
  "BusPublisher_WithAsynchronousDispatch p = p\<lparr>bp_asynchronous := True\<rparr>"

definition BusPublisher_report ::
  "('id::linorder, 'e, 'h, 's, 'cb, 'db) bus_publisher \<Rightarrow> ('id, 'e) delivery_round \<Rightarrow> ('cb, 'db) world \<Rightarrow> ('cb, 'db) world" where
  "BusPublisher_report P round w = (case round of (event, keys) \<Rightarrow>
     snd (on_node (bp_access P) None (dispatchLocal (bp_bridge P) event keys) w))"

text \<open>The body of the goroutine, with its deferred \<open>cancel\<close>.\<close>

definition BusPublisher_background ::
  "('id::linorder, 'e, 'h, 's, 'cb, 'db) bus_publisher \<Rightarrow> gocontext \<times> ('id, 'e) delivery_round \<Rightarrow> ('cb, 'db) world \<Rightarrow> ('cb, 'db) world" where
  "BusPublisher_background P started w = (case started of (ctx, round) \<Rightarrow> cancelScope (ctx_scope ctx) (BusPublisher_report P round w))"

definition BusPublisher_dispatch ::
  "('id::linorder, 'e, 'h, 's, 'cb, 'db) bus_publisher \<Rightarrow> gocontext \<Rightarrow> ('id, 'e) delivery_round \<Rightarrow> ('cb, 'db) world \<Rightarrow> ('cb, 'db) world" where
  "BusPublisher_dispatch P ctx round w =
     (if bp_asynchronous P
      then (let (detached, w1) = withTimeoutCause (withoutCancel ctx) DeadlineExceeded w in bp_go P (detached, round) w1)
      else BusPublisher_report P round w)"

definition BusPublisher_Publish ::
  "('id::linorder, 'e, 'h, 's, 'cb, 'db) bus_publisher \<Rightarrow> 'e \<Rightarrow> gocontext \<Rightarrow> ('cb, 'db) world \<Rightarrow> goerror option \<times> ('cb, 'db) world" where
  "BusPublisher_Publish P event ctx w =
     (case on_node (bp_access P) (session_of (bp_querier P ctx w)) (Bridge_Publish (bp_bridge P) event) w of
        (Inl err, w1) \<Rightarrow> (Some err, w1)
      | (Inr (message, keys), w1) \<Rightarrow>
         (if keys = [] then (None, w1)
          else (None, after_commit (bp_closure P) (BusPublisher_dispatch P) ctx (event, keys) w1)))"

section \<open>What publishing stores\<close>

text \<open>The rows \<open>Bridge_Publish\<close> adds, when no other session writes: none, or one message and the
  missing delivery rows of the first keys of its local listeners; all of them when it succeeds,
  and only then.\<close>

definition bus_rows :: "'id bus_db \<Rightarrow> 'id message_row list \<times> 'id delivery_row list" where
  "bus_rows d = (t_messages d, t_deliveries d)"

lemma CreateDeliveries_rows:
  assumes "be_others env = (\<lambda>_ d. d)"
  shows "CreateDeliveries env keys d = (err, d') \<Longrightarrow>
    \<exists>done later. keys = done @ later \<and> (err = None \<longleftrightarrow> later = []) \<and> t_messages d' = t_messages d \<and>
      t_deliveries d' = fold insert_delivery done (t_deliveries d)"
proof (induction keys arbitrary: d)
  case (Cons key keys)
  let ?d = "d\<lparr>t_ticks := Suc (t_ticks d)\<rparr>"
  show ?case
  proof (cases "be_fails env (t_ticks d)")
    case (Some e)
    then show ?thesis using Cons.prems assms by (intro exI [of _ "[]"] exI [of _ "key # keys"]) (auto simp: run_def Let_def)
  next
    case None
    then have "CreateDeliveries env keys (?d\<lparr>t_deliveries := insert_delivery key (t_deliveries d)\<rparr>) = (err, d')"
      using Cons.prems assms by (simp add: run_def Let_def)
    from Cons.IH [OF this] obtain ks later where "keys = ks @ later" "err = None \<longleftrightarrow> later = []"
        "t_messages d' = t_messages d" "t_deliveries d' = fold insert_delivery ks (insert_delivery key (t_deliveries d))"
      by auto
    then show ?thesis by (intro exI [of _ "key # ks"] exI [of _ later]) simp
  qed
qed (auto intro: exI [of _ "[]"])

type_synonym 'id stored_batch = "('id bus_message \<times> 'id delivery_key list) option"

definition message_batch ::
  "('id, 'e, 'h, 's) bridge \<Rightarrow> 'e \<Rightarrow> ('id, 'e, 'h, 's) node \<Rightarrow> 'id stored_batch \<Rightarrow> bool" where
  "message_batch b event n batch \<longleftrightarrow>
     (case batch of
        None \<Rightarrow> True
      | Some (message, keys) \<Rightarrow> b_serialize b event = Inr (m_type message, m_payload message) \<and> m_node message = b_node b \<and>
          (\<exists>later. localDeliveryKeys b message n = keys @ later))"

definition whole_batch :: "('id, 'e, 'h, 's) bridge \<Rightarrow> ('id, 'e, 'h, 's) node \<Rightarrow> 'id stored_batch \<Rightarrow> bool" where
  "whole_batch b n batch \<longleftrightarrow>
     (case batch of None \<Rightarrow> False | Some (message, keys) \<Rightarrow> keys = localDeliveryKeys b message n)"

definition batch_rows ::
  "'id stored_batch \<Rightarrow> 'id message_row list \<times> 'id delivery_row list \<Rightarrow> 'id message_row list \<times> 'id delivery_row list" where
  "batch_rows batch rows =
     (case batch of
        None \<Rightarrow> rows
      | Some (message, keys) \<Rightarrow> (fst rows @ [message_to_row message], fold insert_delivery keys (snd rows)))"

lemma batch_with_tables [simp]:
  "message_batch b event (with_tables x n) = message_batch b event n"
  "whole_batch b (with_tables x n) = whole_batch b n"
  by (auto simp: fun_eq_iff message_batch_def whole_batch_def localDeliveryKeys_def with_tables_def split: option.split)

text \<open>What a call with result \<open>r\<close> stored.\<close>

definition publish_stores ::
  "('id, 'e, 'h, 's) bridge \<Rightarrow> 'e \<Rightarrow> ('id, 'e, 'h, 's) node \<Rightarrow> 'id message_row list \<times> 'id delivery_row list \<Rightarrow>
   'id message_row list \<times> 'id delivery_row list \<Rightarrow> goerror + 'id bus_message \<times> 'id delivery_key list \<Rightarrow> 'id stored_batch \<Rightarrow> bool" where
  "publish_stores b event n before after r batch \<longleftrightarrow> message_batch b event n batch \<and> after = batch_rows batch before \<and>
     (case r of Inl err \<Rightarrow> \<not> whole_batch b n batch | Inr stored \<Rightarrow> batch = Some stored \<and> whole_batch b n batch)"

lemma stores_nothing [simp]: "publish_stores b event n rows rows (Inl err) None"
  by (simp add: publish_stores_def message_batch_def whole_batch_def batch_rows_def)

lemma CreateMessage_rows:
  assumes "be_others env = (\<lambda>_ d. d)" "CreateMessage env m d = (err, d')"
  shows "t_deliveries d' = t_deliveries d \<and> t_messages d' = t_messages d @ (if err = None then [message_to_row m] else [])"
  using assms(2)
  by (auto simp: CreateMessage_def run_def insert_message_def Let_def assms(1) split: option.splits sum.splits prod.splits if_splits)

lemma with_db_run:
  "f (nw_db (rest w)) = (a, d) \<Longrightarrow> with_db f w = (a, w\<lparr>rest := (rest w)\<lparr>nw_db := d\<rparr>\<rparr>)"
  by (simp add: with_db_def)

lemma Bridge_Publish_stores:
  assumes alone: "be_others (b_env b) = (\<lambda>_ d. d)" and run: "Bridge_Publish b event w = (r, w')"
  shows "\<exists>k d' batch. w' = w\<lparr>rest := (rest w)\<lparr>nw_db := d', nw_fresh := k\<rparr>\<rparr> \<and>
    publish_stores b event w (bus_rows (nw_db (rest w))) (bus_rows d') r batch"
proof -
  let ?k = "nw_fresh (rest w)" and ?d = "nw_db (rest w)"
  let ?stores = "publish_stores b event w (bus_rows ?d)"
  show ?thesis
  proof (cases "b_serialize b event")
    case (Inl err)
    then have "r = Inl err" "w' = w" using run by (simp_all add: Bridge_Publish_def)
    then show ?thesis by (intro exI [of _ "?k"] exI [of _ "?d"] exI [of _ None]) simp
  next
    case (Inr sp)
    obtain etype payload where sp: "b_serialize b event = Inr (etype, payload)" using Inr by (cases sp) auto
    let ?w1 = "w\<lparr>rest := (rest w)\<lparr>nw_fresh := Suc ?k\<rparr>\<rparr>"
    show ?thesis
    proof (cases "b_new_id b ?k")
      case (Inl err)
      then show ?thesis
        using run sp
        by (intro exI [of _ "Suc ?k"] exI [of _ ?d] exI [of _ None]) (auto simp: Bridge_Publish_def fresh_def Let_def)
    next
      case (Inr mid)
      let ?m = "\<lparr>m_id = mid, m_type = etype, m_payload = payload, m_node = b_node b, m_date = be_now (b_env b) (t_ticks ?d)\<rparr>"
      let ?d2 = "?d\<lparr>t_ticks := Suc (t_ticks ?d)\<rparr>"
      let ?at = "\<lambda>x. w\<lparr>rest := (rest w)\<lparr>nw_db := x, nw_fresh := Suc ?k\<rparr>\<rparr>"
      obtain e3 d3 where d3: "CreateMessage (b_env b) ?m ?d2 = (e3, d3)" by fastforce
      let ?keys = "localDeliveryKeys b ?m w"
      obtain e4 d4 where d4: "CreateDeliveries (b_env b) ?keys d3 = (e4, d4)" by fastforce
      have "bus_now b ?w1 = (be_now (b_env b) (t_ticks ?d), ?at ?d2)"
        unfolding bus_now_def by (subst with_db_run) auto
      moreover have "with_db (CreateMessage (b_env b) ?m) (?at ?d2) = (e3, ?at d3)"
        by (subst with_db_run) (auto simp: d3)
      moreover have "with_db (CreateDeliveries (b_env b) ?keys) (?at d3) = (e4, ?at d4)"
        by (subst with_db_run) (auto simp: d4)
      moreover have "localDeliveryKeys b ?m (?at d3) = ?keys" by (simp add: localDeliveryKeys_def)
      ultimately have publish: "Bridge_Publish b event w = (case e3 of Some err \<Rightarrow> (Inl err, ?at d3)
          | None \<Rightarrow> (case e4 of Some err \<Rightarrow> (Inl err, ?at d4) | None \<Rightarrow> (Inr (?m, ?keys), ?at d4)))"
        using Inr by (simp add: Bridge_Publish_def sp fresh_def Let_def split: option.split)
      note m3 = CreateMessage_rows [OF alone d3]
      show ?thesis
      proof (cases e3)
        case (Some err)
        then have "?stores (bus_rows d3) (Inl err) None" using m3 by (simp add: bus_rows_def)
        then show ?thesis using run publish Some by auto
      next
        case None
        obtain stored later where rows: "?keys = stored @ later" "e4 = None \<longleftrightarrow> later = []" "t_messages d4 = t_messages d3"
            "t_deliveries d4 = fold insert_delivery stored (t_deliveries d3)"
          using CreateDeliveries_rows [OF alone d4] by blast
        have "?stores (bus_rows d4) (case e4 of Some err \<Rightarrow> Inl err | None \<Rightarrow> Inr (?m, ?keys)) (Some (?m, stored))"
          using m3 None rows sp
          by (auto simp: publish_stores_def message_batch_def whole_batch_def batch_rows_def bus_rows_def split: option.split)
        then show ?thesis using run publish None by (auto split: option.splits)
      qed
    qed
  qed
qed

section \<open>Messages and the transaction they are written in\<close>

text \<open>Writing back the memory of the process touches no table, beginning a transaction does not touch
  that memory, and \<open>handled\<close> is part of what the application keeps beside the bridge.\<close>

locale bus_database = session_database drv "node_sessions A" bus_rows handled
  for drv :: "'db sql_driver" and A :: "('id::linorder, 'e, 'h, 's, 'db) node_access" and handled :: "'db \<Rightarrow> 'l" +
  assumes memory_frame: "session_tables (node_sessions A) s (put_memory A n d) = session_tables (node_sessions A) s d"
    and memory_begin: "drv_begin drv t opts d = (r, d') \<Longrightarrow> node_memory A d' = node_memory A d"
    and handled_frame: "nw_rest (rest n) = nw_rest (rest (node_memory A d)) \<Longrightarrow> handled (put_memory A n d) = handled d"

definition bus_environment ::
  "('id::linorder, 'e, 'h, 's, 'cb, 'db) bus_publisher \<Rightarrow> ('cb, 'db) interp \<Rightarrow> bool" where
  "bus_environment P exec \<longleftrightarrow> (\<forall>started. leaves_units (bp_go P started)) \<and>
     (\<forall>round ctx arg w. exec (bp_closure P round) ctx arg w = (Returned None, BusPublisher_dispatch P ctx round w))"

definition pending_round ::
  "('id::linorder, 'e, 'h, 's, 'cb, 'db) bus_publisher \<Rightarrow> 'e \<Rightarrow> gocontext \<Rightarrow> querier \<Rightarrow> ('cb, 'db) world \<Rightarrow>
   (goerror + ('id, 'e) delivery_round option) \<times> ('cb, 'db) world" where
  "pending_round P event ctx q w =
     (case on_node (bp_access P) (session_of q) (Bridge_Publish (bp_bridge P) event) w of
        (Inl err, w1) \<Rightarrow> (Inl err, w1)
      | (Inr (message, keys), w1) \<Rightarrow> (Inr (if keys = [] then None else Some (event, keys)), w1))"

lemma bus_dispatch_leaves_units:
  assumes "bus_environment P exec"
  shows "leaves_units (BusPublisher_dispatch P ctx round)"
proof -
  have "left_alone w (BusPublisher_report P round w)" for w
    by (simp add: BusPublisher_report_def on_node_def case_prod_beta)
  moreover have timeout: "left_alone w (snd (withTimeoutCause c cause w))" for w :: "('e, 'f) world" and c cause
    by (simp add: withTimeoutCause_def)
  moreover have go: "left_alone w (bp_go P started w)" for started w
    using assms by (cases started) (simp add: bus_environment_def leaves_units_def)
  ultimately show ?thesis
    by (auto simp: leaves_units_def BusPublisher_dispatch_def Let_def case_prod_beta intro: left_alone_trans [OF timeout go])
qed

context bus_database begin

lemma publish_on_node:
  assumes "be_others (b_env b) = (\<lambda>_ d. d)" "on_node A (Some t) (Bridge_Publish b event) w = (r, w1)"
  shows "\<exists>d batch. w1 = w\<lparr>db := d\<rparr> \<and> session_tables (node_sessions A) None d = session_tables (node_sessions A) None (db w) \<and>
    handled d = handled (db w) \<and>
    publish_stores b event (node_memory A (db w)) (bus_rows (session_tables (node_sessions A) (Some t) (db w)))
      (bus_rows (session_tables (node_sessions A) (Some t) d)) r batch"
proof -
  let ?n = "with_tables (session_tables (node_sessions A) (Some t) (db w)) (node_memory A (db w))"
  obtain r' n where run: "Bridge_Publish b event ?n = (r', n)" by fastforce
  then obtain k x batch where n: "n = ?n\<lparr>rest := (rest ?n)\<lparr>nw_db := x, nw_fresh := k\<rparr>\<rparr>"
      "publish_stores b event ?n (bus_rows (nw_db (rest ?n))) (bus_rows x) r' batch"
    using Bridge_Publish_stores [OF assms(1)] by blast
  have "nw_rest (rest n) = nw_rest (rest (node_memory A (db w)))" "nw_db (rest n) = x"
      "nw_db (rest ?n) = session_tables (node_sessions A) (Some t) (db w)"
    by (simp_all add: n(1) with_tables_def)
  moreover have "publish_stores b event (node_memory A (db w)) (bus_rows (nw_db (rest ?n))) (bus_rows x) r' batch"
    using n(2) by (cases r') (auto simp: publish_stores_def)
  ultimately show ?thesis
    using assms(2) run isolated put_frame reads_own_writes memory_frame handled_frame [of n "db w"]
    by (intro exI [of _ "put_session (node_sessions A) (Some t) (nw_db (rest n)) (put_memory A n (db w))"] exI [of _ batch])
      (auto simp: on_node_def)
qed

lemma bus_unit_publisher:
  assumes "bp_access P = A" "bp_querier P = Querier" "be_others (b_env (bp_bridge P)) = (\<lambda>_ d. d)" "bus_environment P exec"
  shows "unit_publisher drv (\<lambda>d. bus_rows (session_tables (node_sessions A) None d))
    (\<lambda>t d. bus_rows (session_tables (node_sessions A) (Some t) d)) handled
    exec (BusPublisher_Publish P) (pending_round P) (bp_closure P) (BusPublisher_dispatch P)"
proof
  fix e ctx w
  show "BusPublisher_Publish P e ctx w = (case pending_round P e ctx (Querier ctx w) w of
        (Inl err, w1) \<Rightarrow> (Some err, w1) | (Inr None, w1) \<Rightarrow> (None, w1)
      | (Inr (Some b), w1) \<Rightarrow> (None, after_commit (bp_closure P) (BusPublisher_dispatch P) ctx b w1))"
    by (auto simp: BusPublisher_Publish_def pending_round_def assms(2) split: prod.split sum.split)
next
  fix b ctx arg w
  show "exec (bp_closure P b) ctx arg w = (Returned None, BusPublisher_dispatch P ctx b w)"
    using assms(4) by (cases b) (simp add: bus_environment_def)
next
  fix ctx b
  show "leaves_units (BusPublisher_dispatch P ctx b)" by (rule bus_dispatch_leaves_units [OF assms(4)])
next
  fix e ctx t w r w1
  assume "pending_round P e ctx (OnTransaction t) w = (r, w1)"
  then obtain r' where "on_node A (Some t) (Bridge_Publish (bp_bridge P) e) w = (r', w1)"
    by (auto simp: pending_round_def assms(1) session_of_def split: prod.splits sum.splits)
  from publish_on_node [OF assms(3) this]
  show "\<exists>d. w1 = w\<lparr>db := d\<rparr> \<and> bus_rows (session_tables (node_sessions A) None d) =
      bus_rows (session_tables (node_sessions A) None (db w)) \<and> handled d = handled (db w)"
    by auto
qed

end

text \<open>C29: a message shares the fate of the business write. When an outermost \<open>Run\<close> publishes an event
  on the shared bus and then ends in any way, either the transaction committed, and then the
  tables hold exactly what the publication added: one message under the event's type name and
  payload, and a pending delivery for each listener attached on this node that covers it; these
  local deliveries were all dispatched once, after the commit, whatever excused error \<open>Run\<close> returns. Less is
  stored only when publishing failed; then nothing is dispatched and \<open>Run\<close> returns an error. Or the
  transaction was rolled back (or never began), no row was added and nothing was delivered; or the
  database reports a failed commit, and then \<open>Run\<close> reports it, nothing was delivered, and the rows are
  there as a whole or not at all.\<close>

theorem message_shares_the_fate_of_the_work:
  assumes bus: "bus_database drv A handled"
    and P: "bp_access P = A" "bp_querier P = Querier" "be_others (b_env (bp_bridge P)) = (\<lambda>_ d. d)" "bus_environment P exec"
    and outer: "fromContext ctx w = None" "d_propagation (newDefinition opts) \<in> {Required, Nested}"
      "0 \<le> d_timeout (newDefinition opts)"
    and run: "Run exec (NewManager drv []) ctx (publish_then (BusPublisher_Publish P) event outcome) opts w = (r, w')"
  shows "let rows = \<lambda>v. bus_rows (session_tables (node_sessions A) None (db v)); t = length (txs w);
       nothing_delivered = (handled (db w') = handled (db w)); b = bp_bridge P; here = node_memory A (db w)
     in (\<exists>err. r = Returned (Some (Wrap ''%w: %w'' [ErrBeginFailed, err]))) \<and> rows w' = rows w \<and> nothing_delivered \<or>
       tx_state (txs w' ! t) = TxRolledBack \<and> r \<noteq> Returned None \<and> rows w' = rows w \<and> nothing_delivered \<or>
       tx_state (txs w' ! t) = TxFailed \<and> (\<exists>err. r = Returned (Some err)) \<and> nothing_delivered \<and>
         (\<exists>batch. message_batch b event here batch \<and> rows w' \<in> {rows w, batch_rows batch (rows w)}) \<or>
       tx_state (txs w' ! t) = TxCommitted \<and> (\<exists>e batch v. r = Returned e \<and> message_batch b event here batch \<and>
         (e = None \<longleftrightarrow> outcome = Returned None \<and> whole_batch b here batch) \<and>
         rows v = batch_rows batch (rows w) \<and> handled (db v) = handled (db w) \<and>
         db w' = db (if whole_batch b here batch \<and> snd (the batch) \<noteq> []
                     then BusPublisher_dispatch P (withoutUnit ctx) (event, snd (the batch)) v else v))"
proof -
  let ?S = "node_sessions A" and ?t = "length (txs w)" and ?b = "bp_bridge P" and ?here = "node_memory A (db w)"
  let ?stored = "\<lambda>d. bus_rows (session_tables ?S None d)" and ?seen = "\<lambda>t d. bus_rows (session_tables ?S (Some t) d)"
  note up = bus_database.bus_unit_publisher [OF bus P]
  from unit_publisher.Run_publishes [OF up outer run]
  consider "\<exists>err. r = Returned (Some (Wrap ''%w: %w'' [ErrBeginFailed, err]))"
      "?stored (db w') = ?stored (db w)" "handled (db w') = handled (db w)"
    | ctx' v res v1 where "?stored (db v) = ?stored (db w)" "handled (db v) = handled (db w)"
      "?seen ?t (db v) = ?stored (db w)" "pending_round P event ctx' (OnTransaction ?t) v = (res, v1)"
      "fate ?stored ?seen handled (BusPublisher_dispatch P) ctx ?t outcome v res v1 r w'"
      "db v = snd (drv_begin drv ?t (transactionOptions (newDefinition opts)) (db w))"
    by blast
  then show ?thesis
  proof cases
    case 1
    then show ?thesis by simp
  next
    case 2
    then obtain pub where pub: "on_node A (Some ?t) (Bridge_Publish ?b event) v = (pub, v1)"
      and res: "res = (case pub of Inl err \<Rightarrow> Inl err | Inr (message, keys) \<Rightarrow> Inr (if keys = [] then None else Some (event, keys)))"
      by (auto simp: pending_round_def P(1) session_of_def split: prod.splits sum.splits)
    have here: "node_memory A (db v) = ?here"
      unfolding 2(6) by (rule bus_database.memory_begin [OF bus prod.collapse [symmetric]])
    obtain batch where "publish_stores ?b event ?here (?stored (db w)) (?seen ?t (db v1)) pub batch"
      using bus_database.publish_on_node [OF bus P(3) pub] unfolding here 2(3) by auto
    then have batch: "message_batch ?b event ?here batch" "?seen ?t (db v1) = batch_rows batch (?stored (db w))"
        "case pub of Inl err \<Rightarrow> \<not> whole_batch ?b ?here batch | Inr stored \<Rightarrow> batch = Some stored \<and> whole_batch ?b ?here batch"
      by (simp_all add: publish_stores_def)
    from 2(5) consider
        "tx_state (txs w' ! ?t) = TxRolledBack" "r \<noteq> Returned None" "?stored (db w') = ?stored (db v)" "handled (db w') = handled (db v)"
      | "tx_state (txs w' ! ?t) = TxFailed" "\<exists>e. r = Returned (Some e)" "handled (db w') = handled (db v)"
          "?stored (db w') \<in> {?stored (db v), ?seen ?t (db v1)}"
      | e v2 where "tx_state (txs w' ! ?t) = TxCommitted" "r = Returned e"
          "e = None \<longleftrightarrow> (\<exists>b. res = Inr b) \<and> outcome = Returned None"
          "?stored (db v2) = ?seen ?t (db v1)" "handled (db v2) = handled (db v)"
          "db w' = db (case res of Inr (Some b) \<Rightarrow> BusPublisher_dispatch P (withoutUnit ctx) b v2 | _ \<Rightarrow> v2)"
      unfolding fate_def by blast
    then show ?thesis
    proof cases
      case 1
      then show ?thesis using 2(1,2) by (simp add: Let_def)
    next
      case A: 2
      then have "?stored (db w') \<in> {?stored (db w), batch_rows batch (?stored (db w))}" using 2(1) batch(2) by simp
      then show ?thesis using A(1-3) 2(2) batch(1) unfolding Let_def by auto
    next
      case 3
      have "e = None \<longleftrightarrow> outcome = Returned None \<and> whole_batch ?b ?here batch"
        using 3(3) res batch(3) by (auto split: sum.splits)
      moreover have "db w' = db (if whole_batch ?b ?here batch \<and> snd (the batch) \<noteq> []
          then BusPublisher_dispatch P (withoutUnit ctx) (event, snd (the batch)) v2 else v2)"
        using 3(6) res batch(3) by (auto split: sum.splits prod.splits if_splits)
      moreover have "?stored (db v2) = batch_rows batch (?stored (db w))" "handled (db v2) = handled (db w)"
        using 3(4,5) batch(2) 2(2) by simp_all
      ultimately show ?thesis using 3(1,2) batch(1) unfolding Let_def by blast
    qed
  qed
qed

section \<open>An instance\<close>

text \<open>The publisher on a database with snapshots; handlers append the event they receive to \<open>nw_rest\<close>.\<close>

type_synonym demo_node = "(nat, nat, string, nat list) node"
type_synonym demo_bus_database = "(nat bus_db, demo_node) snapshot_db"

definition process_access :: "(nat, nat, string, nat list, demo_bus_database) node_access" where
  "process_access = \<lparr>node_sessions = snapshot_sessions, node_memory = process, put_memory = \<lambda>n d. d\<lparr>process := n\<rparr>\<rparr>"

lemma demo_bus: "bus_database snapshot_driver process_access (\<lambda>d. nw_rest (rest (process d)))"
  using snapshot_database [of bus_rows "\<lambda>n. nw_rest (rest n)"]
  by (intro bus_database.intro bus_database_axioms.intro)
    (auto simp: process_access_def snapshot_sessions_def snapshot_driver_def split: option.split)

interpretation demo_bus: bus_database snapshot_driver process_access "\<lambda>d. nw_rest (rest (process d))"
  by (rule demo_bus)

definition publishing_bridge :: "(nat, nat, string, nat list) bridge" where
  "publishing_bridge = \<lparr>b_env = \<lparr>be_fails = \<lambda>_. None, be_now = \<lambda>k. Instant 2024 1 1 0 0 0 0, be_others = \<lambda>_ d. d\<rparr>,
     b_exec = \<lambda>h event w. (Returned None, w\<lparr>rest := (rest w)\<lparr>nw_rest := nw_rest (rest w) @ [event]\<rparr>\<rparr>),
     b_serialize = \<lambda>e. Inr (''order'', ''7''), b_deserialize = \<lambda>t p. Inr 7,
     b_node = ''n1'', b_maximumAttempts = 5, b_leaseDuration = 0, b_grace = 0, b_retryDelay = \<lambda>_. 0,
     b_new_id = Inr, b_new_token = \<lambda>k. ''token'', b_add = \<lambda>t n. t, b_text = \<lambda>e. ''failed'', b_cancelled = \<lambda>w. False\<rparr>"

definition demo_bus_publisher :: "(nat, nat, string, nat list, nat \<times> nat delivery_key list, demo_bus_database) bus_publisher" where
  "demo_bus_publisher = NewBusPublisher publishing_bridge process_access Querier (\<lambda>round. round) (\<lambda>started w. w)"

definition demo_bus_closures :: "(nat \<times> nat delivery_key list, demo_bus_database) interp" where
  "demo_bus_closures round ctx arg w = (Returned None, BusPublisher_dispatch demo_bus_publisher ctx round w)"

lemma demo_bus_environment: "bus_environment demo_bus_publisher demo_bus_closures"
  by (simp add: bus_environment_def demo_bus_closures_def leaves_units_def demo_bus_publisher_def NewBusPublisher_def)

lemma demo_bus_parts:
  "bp_access demo_bus_publisher = process_access" "bp_querier demo_bus_publisher = Querier"
  "be_others (b_env (bp_bridge demo_bus_publisher)) = (\<lambda>_ d. d)"
  by (simp_all add: demo_bus_publisher_def NewBusPublisher_def publishing_bridge_def)

interpretation demo_bus_publisher: unit_publisher snapshot_driver
  "\<lambda>d. bus_rows (session_tables (node_sessions process_access) None d)"
  "\<lambda>t d. bus_rows (session_tables (node_sessions process_access) (Some t) d)" "\<lambda>d. nw_rest (rest (process d))" demo_bus_closures
  "BusPublisher_Publish demo_bus_publisher" "pending_round demo_bus_publisher" "bp_closure demo_bus_publisher"
  "BusPublisher_dispatch demo_bus_publisher"
  by (rule demo_bus.bus_unit_publisher [OF demo_bus_parts demo_bus_environment])

definition no_rows :: "nat bus_db" where
  "no_rows = \<lparr>t_messages = [], t_listeners = [], t_consumers = [], t_deliveries = [], t_ticks = 0\<rparr>"

definition mail_attachment :: attachment where
  "mail_attachment = \<lparr>at_id = ''mail'', at_mode = DeliveryModeCompeting, at_type = ''order'',
     at_configuration = attach_configuration publishing_bridge []\<rparr>"

definition empty_bus :: "(nat \<times> nat delivery_key list, demo_bus_database) world" where
  "empty_bus = \<lparr>units = [], txs = [], scopes = [], db = \<lparr>shared_tables = no_rows, private_tables = \<lambda>t. no_rows,
     process = \<lparr>subscriptions = [], rest = \<lparr>nw_db = no_rows, nw_attachments = [mail_attachment],
       nw_subscribed = {}, nw_fresh = 0, nw_rest = []\<rparr>\<rparr>\<rparr>\<rparr>"

definition demo_bus_run where
  "demo_bus_run outcome = Run demo_bus_closures (NewManager snapshot_driver []) background
     (publish_then (BusPublisher_Publish demo_bus_publisher) 7 outcome) [] empty_bus"

lemmas demo_bus_run_simps =
  demo_bus_run_def Run_def newDefinition_def fromContext_def statusFromContext_def background_def runNew_def
  BeginTx_def scope_state_def runBegun_def decide_def runGuarded_def runGuardedVoid_def publish_then_def
  upd_unit_def empty_bus_def no_rows_def mail_attachment_def new_unit_def withStatus_def timedOut_def isRollbackOnly_def
  runBeforeCommit_def runBeforeCompletion_def runAfterCommit_def runAfterCompletion_def sortByOrder_def
  settleCommit_def Tx_Commit_def end_tx_def markCompleted_def recoverSynchronization_def withoutUnit_def
  demo_bus_closures_def BusPublisher_Publish_def demo_bus_publisher_def NewBusPublisher_def Querier_def
  publishing_bridge_def Bridge_Publish_def fresh_def bus_now_def with_db_def with_tables_def on_node_def
  process_access_def CreateMessage_def run_def insert_message_def message_to_row_def localDeliveryKeys_def instanceFor_def
  insert_delivery_def after_commit_def RegisterAfterCommit_def ordered_def newRegistration_def session_of_def
  snapshot_driver_def snapshot_sessions_def Let_def

lemma demo_bus_commits: "fst (demo_bus_run (Returned None)) = Returned None"
  by (simp add: demo_bus_run_simps del: formatTime.simps)

theorem message_shares_the_fate_of_the_work_witness:
  "let w' = snd (demo_bus_run (Returned None)); key = \<lambda>m. \<lparr>k_message = m_id m, k_listener = ''mail'', k_instance = []\<rparr>
   in tx_state (txs w' ! 0) = TxCommitted \<and> (\<exists>message v.
     bus_rows (shared_tables (db v)) = ([message_to_row message], insert_delivery (key message) []) \<and>
     m_type message = ''order'' \<and> nw_rest (rest (process (db v))) = [] \<and>
     db w' = db (BusPublisher_dispatch demo_bus_publisher (withoutUnit background) (7, [key message]) v))"
proof -
  obtain w' where w': "demo_bus_run (Returned None) = (Returned None, w')"
    using demo_bus_commits by (metis prod.collapse)
  have outer: "fromContext background empty_bus = None" "d_propagation (newDefinition []) \<in> {Required, Nested}"
      "0 \<le> d_timeout (newDefinition [])"
    by (simp_all add: fromContext_def statusFromContext_def background_def newDefinition_def)
  let ?here = "process (db empty_bus)"
  have facts: "length (txs empty_bus) = 0" "bus_rows (shared_tables (db empty_bus)) = ([], [])"
      "nw_rest (rest ?here) = []" "node_sessions process_access = snapshot_sessions"
      "bp_bridge demo_bus_publisher = publishing_bridge" "node_memory process_access = process"
    by (simp_all add: empty_bus_def no_rows_def bus_rows_def process_access_def demo_bus_publisher_def NewBusPublisher_def)
  from message_shares_the_fate_of_the_work [OF demo_bus demo_bus_parts demo_bus_environment outer w' [unfolded demo_bus_run_def]]
  obtain e batch v where "tx_state (txs w' ! 0) = TxCommitted" "Returned None = Returned e" "message_batch publishing_bridge 7 ?here batch"
      "e = None \<longleftrightarrow> Returned None = Returned None \<and> whole_batch publishing_bridge ?here batch"
      "bus_rows (shared_tables (db v)) = batch_rows batch ([], [])" "nw_rest (rest (process (db v))) = []"
      "db w' = db (if whole_batch publishing_bridge ?here batch \<and> snd (the batch) \<noteq> []
        then BusPublisher_dispatch demo_bus_publisher (withoutUnit background) (7, snd (the batch)) v else v)"
    unfolding Let_def facts snapshot_tables by blast
  then have v: "tx_state (txs w' ! 0) = TxCommitted" "message_batch publishing_bridge 7 ?here batch"
      "whole_batch publishing_bridge ?here batch" "bus_rows (shared_tables (db v)) = batch_rows batch ([], [])"
      "nw_rest (rest (process (db v))) = []" "db w' = db (if snd (the batch) \<noteq> []
        then BusPublisher_dispatch demo_bus_publisher (withoutUnit background) (7, snd (the batch)) v else v)"
    by simp_all
  obtain message keys where batch: "batch = Some (message, keys)" "keys = localDeliveryKeys publishing_bridge message ?here"
    using v(3) by (auto simp: whole_batch_def split: option.splits)
  have "m_type message = ''order''" using v(2) batch(1) by (auto simp: message_batch_def publishing_bridge_def)
  moreover from this have "keys = [\<lparr>k_message = m_id message, k_listener = ''mail'', k_instance = []\<rparr>]"
    unfolding batch(2)
    by (simp add: localDeliveryKeys_def empty_bus_def mail_attachment_def instanceFor_def DeliveryModeCompeting_def DeliveryModeBroadcast_def)
  ultimately show ?thesis
    unfolding Let_def w' snd_conv using v(1,4-6) batch(1)
    by (intro conjI exI [of _ message] exI [of _ v]) (simp_all add: batch_rows_def)
qed

end
