(* ===== verification/GoUrl.thy ===== *)
theory GoUrl
  imports GoText
begin

text \<open>
  What the program uses of Go's \<open>net/url\<close>: \<open>PathEscape\<close> and \<open>PathUnescape\<close>, over the bytes of a
  string. \<open>path_unescape\<close> reads back what \<open>path_escape\<close> writes, which never contains the
  separator of a path.
\<close>

definition hex_digits :: string where
  "hex_digits = ''0123456789ABCDEF''"

definition unhex :: "char \<Rightarrow> nat option" where
  "unhex c = (let n = of_char c :: nat
     in if 48 \<le> n \<and> n \<le> 57 then Some (n - 48)
        else if 97 \<le> n \<and> n \<le> 102 then Some (n - 97 + 10)
        else if 65 \<le> n \<and> n \<le> 70 then Some (n - 65 + 10) else None)"

text \<open>Letters, digits and \<open>-_.~\<close> are kept; of the reserved characters a path segment keeps those
  that do not structure a path.\<close>

definition should_escape :: "char \<Rightarrow> bool" where
  "should_escape c = (let n = of_char c :: nat
     in \<not> (48 \<le> n \<and> n \<le> 57 \<or> 65 \<le> n \<and> n \<le> 90 \<or> 97 \<le> n \<and> n \<le> 122 \<or> c \<in> set ''-_.~'' \<or> c \<in> set ''$&+:=@''))"

definition escape_byte :: "char \<Rightarrow> string" where
  "escape_byte c = (let n = of_char c :: nat in [CHR ''%'', hex_digits ! (n div 16), hex_digits ! (n mod 16)])"

definition path_escape :: "string \<Rightarrow> string" where
  "path_escape s = concat (map (\<lambda>c. if should_escape c then escape_byte c else [c]) s)"

fun path_unescape :: "string \<Rightarrow> string option" where
  "path_unescape [] = Some []"
| "path_unescape (c # s) =
     (if c = CHR ''%''
      then (case s of
          a # b # rest \<Rightarrow> (case (unhex a, unhex b) of
              (Some x, Some y) \<Rightarrow> map_option ((#) (char_of (16 * x + y))) (path_unescape rest)
            | _ \<Rightarrow> None)
        | _ \<Rightarrow> None)
      else map_option ((#) c) (path_unescape s))"

lemma unhex_digit: "n < 16 \<Longrightarrow> unhex (hex_digits ! n) = Some n"
proof -
  have "\<forall>n < 16. unhex (hex_digits ! n) = Some n"
    by (simp add: numeral_nat All_less_Suc2 all_conj_distrib unhex_def hex_digits_def Let_def)
  then show "n < 16 \<Longrightarrow> unhex (hex_digits ! n) = Some n" by blast
qed

lemma hex_digit_plain: "n < 16 \<Longrightarrow> hex_digits ! n \<noteq> CHR ''/''"
  using unhex_digit [of n] by (auto simp: unhex_def Let_def)

lemma nibbles: "(of_char c :: nat) div 16 < 16" "(of_char c :: nat) mod 16 < 16"
  using nat_of_char_less_256 [of c] by (simp_all add: div_less_iff_less_mult del: nat_of_char_less_256)

lemma unescape_escape_byte: "path_unescape (escape_byte c @ s) = map_option ((#) c) (path_unescape s)"
proof -
  let ?n = "of_char c :: nat"
  have "unhex (hex_digits ! (?n div 16)) = Some (?n div 16)" "unhex (hex_digits ! (?n mod 16)) = Some (?n mod 16)"
    by (simp_all only: unhex_digit nibbles)
  moreover have "char_of (16 * (?n div 16) + ?n mod 16) = c" by simp
  ultimately show ?thesis by (simp add: escape_byte_def Let_def)
qed

lemma percent_escaped: "should_escape (CHR ''%'')"
  by (simp add: should_escape_def)

lemma path_unescape_escape: "path_unescape (path_escape s) = Some s"
proof (induction s)
  case (Cons c s)
  show ?case
  proof (cases "should_escape c")
    case True
    then have "path_escape (c # s) = escape_byte c @ path_escape s" by (simp add: path_escape_def)
    then show ?thesis using Cons.IH by (simp only: unescape_escape_byte) simp
  next
    case False
    then have "c \<noteq> CHR ''%''" using percent_escaped by blast
    then show ?thesis using Cons.IH False by (simp add: path_escape_def)
  qed
qed (simp add: path_escape_def)

lemma path_escape_no_slash: "CHR ''/'' \<notin> set (path_escape s)"
proof -
  have "CHR ''/'' \<notin> set (if should_escape c then escape_byte c else [c])" for c
    using hex_digit_plain [OF nibbles(1), of c] hex_digit_plain [OF nibbles(2), of c]
    by (auto simp: escape_byte_def should_escape_def Let_def)
  then show ?thesis unfolding path_escape_def set_concat set_map by blast
qed

section \<open>Splitting\<close>

lemma split_at_plain: "x \<notin> set s \<Longrightarrow> split_at x s = [s]"
  by (induction s) auto

lemma split_at_join: "x \<notin> set a \<Longrightarrow> split_at x (a @ x # s) = a # split_at x s"
  by (induction a) auto

end
