(* ===== verification/BusBroker.thy ===== *)
theory BusBroker
  imports BusPublisher GoUrl OutboxRegistry
begin

text \<open>
  The broker of the distributed bus (sqlbus/broker.go): the contract of eventbus/broker.go over the
  bridge and the publisher, with references to dead letters that survive any listener or node
  name; and the serializer of sqlbus/serializer.go, a copy of the outbox one, to which it is
  proved equal. \<open>uuid.UUID.String\<close> and \<open>uuid.Parse\<close> are operations of the broker's environment.
\<close>

section \<open>The broker\<close>

record ('id, 'e, 'h, 's, 'cb, 'db) bus_broker =
  bb_bridge :: "('id, 'e, 'h, 's) bridge"
  bb_publisher :: "('id, 'e, 'h, 's, 'cb, 'db) bus_publisher"
  bb_uuid_text :: "'id \<Rightarrow> string"
  bb_uuid_parse :: "string \<Rightarrow> 'id option"

definition NewBroker where
  "NewBroker b publisher uuid_text uuid_parse =
     \<lparr>bb_bridge = b, bb_publisher = publisher, bb_uuid_text = uuid_text, bb_uuid_parse = uuid_parse\<rparr>"

definition BusBroker_Publish ::
  "('id::linorder, 'e, 'h, 's, 'cb, 'db) bus_broker \<Rightarrow> 'e \<Rightarrow> gocontext \<Rightarrow> ('cb, 'db) world \<Rightarrow> goerror option \<times> ('cb, 'db) world" where
  "BusBroker_Publish B event ctx w = BusPublisher_Publish (bb_publisher B) event ctx w"

definition subscription_options :: "consumer_configuration \<Rightarrow> attach_option list" where
  "subscription_options configuration =
     [WithListenerMaximumAttempts (MaximumAttempts configuration), WithListenerRetryDelay (Some (RetryDelay configuration))] @
     (if Ordering configuration = OrderingFIFO then [WithOrderedDelivery] else [])"

definition BusBroker_Subscribe ::
  "('id, 'e, 'h, 's, 'cb, 'db) bus_broker \<Rightarrow> ('e, 'h) consumer_registration \<Rightarrow> ('id, 'e, 'h, 's) node \<Rightarrow>
   goerror option \<times> ('id, 'e, 'h, 's) node" where
  "BusBroker_Subscribe B registration w =
     (let configuration = Configuration registration;
          mode = (if Broadcast configuration then DeliveryModeBroadcast else DeliveryModeCompeting)
      in Attach (bb_bridge B)
           \<lparr>ar_id = ID registration, ar_matches = Matches registration, ar_probe = Probe registration,
            ar_handle = Handle registration, ar_mode = mode, ar_options = subscription_options configuration\<rparr> w)"

section \<open>Dead letters\<close>

record 'e bus_dead_letter =
  bl_reference :: string
  bl_listener :: listener_id
  bl_event :: "'e option"
  bl_attempts :: int
  bl_error :: string
  bl_date :: instant

definition encodeDeadLetterReference ::
  "('id, 'e, 'h, 's, 'cb, 'db) bus_broker \<Rightarrow> 'id delivery_key \<Rightarrow> string" where
  "encodeDeadLetterReference B key =
     bb_uuid_text B (k_message key) @ ''/'' @ path_escape (k_instance key) @ ''/'' @ path_escape (k_listener key)"

definition decodeDeadLetterReference ::
  "('id, 'e, 'h, 's, 'cb, 'db) bus_broker \<Rightarrow> string \<Rightarrow> 'id delivery_key option" where
  "decodeDeadLetterReference B reference =
     (case split_at (CHR ''/'') reference of
        [first, second_segment, third] \<Rightarrow>
          (case bb_uuid_parse B first of
             None \<Rightarrow> None
           | Some message \<Rightarrow> (case path_unescape second_segment of
               None \<Rightarrow> None
             | Some inst \<Rightarrow> (case path_unescape third of
                 None \<Rightarrow> None
               | Some listener \<Rightarrow> Some \<lparr>k_message = message, k_listener = listener, k_instance = inst\<rparr>)))
      | _ \<Rightarrow> None)"

definition dead_letter_of ::
  "('id, 'e, 'h, 's, 'cb, 'db) bus_broker \<Rightarrow> 'id due_delivery \<Rightarrow> 'e bus_dead_letter" where
  "dead_letter_of B work =
     \<lparr>bl_reference = encodeDeadLetterReference B (d_key (due_delivery work)),
      bl_listener = k_listener (d_key (due_delivery work)),
      bl_event = (case b_deserialize (bb_bridge B) (m_type (due_message work)) (m_payload (due_message work)) of
          Inl err \<Rightarrow> None
        | Inr event \<Rightarrow> Some event),
      bl_attempts = d_attempts (due_delivery work), bl_error = d_error (due_delivery work),
      bl_date = m_date (due_message work)\<rparr>"

definition BusBroker_FindExhausted ::
  "('id::linorder, 'e, 'h, 's, 'cb, 'db) bus_broker \<Rightarrow> int \<Rightarrow> ('id, 'e, 'h, 's) node \<Rightarrow>
   (goerror + 'e bus_dead_letter list) \<times> ('id, 'e, 'h, 's) node" where
  "BusBroker_FindExhausted B lim w =
     (case Bridge_FindExhausted (bb_bridge B) lim w of
        (Inl err, w') \<Rightarrow> (Inl err, w')
      | (Inr exhausted, w') \<Rightarrow> (Inr (map (dead_letter_of B) exhausted), w'))"

definition BusBroker_Resubmit ::
  "('id, 'e, 'h, 's, 'cb, 'db) bus_broker \<Rightarrow> string \<Rightarrow> ('id, 'e, 'h, 's) node \<Rightarrow> (goerror + bool) \<times> ('id, 'e, 'h, 's) node" where
  "BusBroker_Resubmit B reference w =
     (case decodeDeadLetterReference B reference of
        None \<Rightarrow> (Inr False, w)
      | Some key \<Rightarrow> Bridge_Resubmit (bb_bridge B) key w)"

section \<open>Subscribing\<close>

text \<open>The configuration of the contract reaches the attachment as it is, whatever the defaults of the
  bridge: a consumer has a positive attempt budget, as \<open>Consume\<close> gives it.\<close>

lemma subscription_configuration:
  assumes "0 < MaximumAttempts configuration"
  shows "attach_configuration b (subscription_options configuration) =
    \<lparr>ac_ordering = (if Ordering configuration = OrderingFIFO then BusFIFO else BusUnordered),
     ac_maximum = MaximumAttempts configuration, ac_retry = RetryDelay configuration\<rparr>"
  using assms
  by (simp add: attach_configuration_def subscription_options_def WithListenerMaximumAttempts_def
      WithListenerRetryDelay_def WithOrderedDelivery_def)

lemma Consume_subscription:
  assumes "set options \<subseteq> consumer_options"
  shows "attach_configuration b (subscription_options (Configuration (Consume is_T probe lid handle options))) =
    (let configuration = Configuration (Consume is_T probe lid handle options)
     in \<lparr>ac_ordering = (if Ordering configuration = OrderingFIFO then BusFIFO else BusUnordered),
         ac_maximum = MaximumAttempts configuration, ac_retry = RetryDelay configuration\<rparr>)"
  unfolding Let_def by (rule subscription_configuration) (simp add: Consume_positive [OF assms])

section \<open>References\<close>

text \<open>What the code relies on from github.com/google/uuid.\<close>

definition uuid_laws :: "('id, 'e, 'h, 's, 'cb, 'db) bus_broker \<Rightarrow> bool" where
  "uuid_laws B \<longleftrightarrow> (\<forall>i. bb_uuid_parse B (bb_uuid_text B i) = Some i \<and> CHR ''/'' \<notin> set (bb_uuid_text B i))"

lemma reference_round_trip:
  assumes "uuid_laws B"
  shows "decodeDeadLetterReference B (encodeDeadLetterReference B key) = Some key"
proof -
  have "split_at (CHR ''/'') (encodeDeadLetterReference B key) =
      [bb_uuid_text B (k_message key), path_escape (k_instance key), path_escape (k_listener key)]"
    using assms by (simp add: encodeDeadLetterReference_def uuid_laws_def split_at_join split_at_plain path_escape_no_slash)
  then show ?thesis using assms by (simp add: decodeDeadLetterReference_def uuid_laws_def path_unescape_escape)
qed

lemma collected_from:
  "collectDueDeliveries xs = Inr dues \<Longrightarrow> due \<in> set dues \<Longrightarrow> \<exists>x \<in> set xs. scanDueDelivery x = Inr due"
  by (induction xs arbitrary: dues) (auto split: sum.splits)

lemma scanned_parts:
  "scanDueDelivery (r, m) = Inr due \<Longrightarrow> d_key (due_delivery due) = dr_key r \<and>
   d_attempts (due_delivery due) = dr_attempts r \<and> d_error (due_delivery due) = dr_error r"
  by (auto simp: scanDueDelivery_def split: option.splits)

lemma exhausted_found:
  assumes env: "be_others (b_env b) = (\<lambda>_ d. d)"
    and found: "Bridge_FindExhausted b lim w = (Inr dues, w')" "due \<in> set dues"
  shows "t_deliveries (nw_db (rest w')) = t_deliveries (nw_db (rest w)) \<and>
    (\<exists>r \<in> set (t_deliveries (nw_db (rest w))). dr_status r = DeliveryExhausted \<and> d_key (due_delivery due) = dr_key r \<and>
      d_attempts (due_delivery due) = dr_attempts r \<and> d_error (due_delivery due) = dr_error r)"
proof -
  let ?d = "(nw_db (rest w))\<lparr>t_ticks := Suc (t_ticks (nw_db (rest w)))\<rparr>"
  let ?found = "take (nat lim) (in_order (filter (\<lambda>(r, m). dr_status r = DeliveryExhausted) (joined ?d)))"
  have "collectDueDeliveries ?found = Inr dues" "nw_db (rest w') = ?d"
    using found(1)
    by (auto simp: Bridge_FindExhausted_def with_db_def FindExhaustedDeliveries_def fetch_due_def run_def env Let_def wrapped_def
        split: option.splits sum.splits)
  then obtain r m where rm: "(r, m) \<in> set ?found" "scanDueDelivery (r, m) = Inr due"
    using collected_from [OF _ found(2)] by fast
  have "(r, m) \<in> set (in_order (filter (\<lambda>(r, m). dr_status r = DeliveryExhausted) (joined ?d)))"
    using rm(1) by (rule in_set_takeD)
  then have "r \<in> set (t_deliveries ?d)" "dr_status r = DeliveryExhausted"
    by (auto simp: in_order_def joined_def)
  then show ?thesis using scanned_parts [OF rm(2)] \<open>nw_db (rest w') = ?d\<close> by auto
qed

text \<open>The row a resubmission leaves behind.\<close>

definition revived_row :: "'id delivery_row \<Rightarrow> 'id delivery_row" where
  "revived_row r = r\<lparr>dr_status := DeliveryPending, dr_attempts := 0, dr_next := None, dr_error := ''''\<rparr>"

lemma Bridge_Resubmit_alone:
  assumes "be_others (b_env b) = (\<lambda>_ d. d)" "be_fails (b_env b) (t_ticks (nw_db (rest w))) = None"
    and "Bridge_Resubmit b key w = (r, w')"
  shows "r = Inr (\<exists>x \<in> set (t_deliveries (nw_db (rest w))). dr_key x = key \<and> dr_status x \<in> {DeliveryFailed, DeliveryExhausted})"
    and "t_deliveries (nw_db (rest w')) = map (\<lambda>x. if dr_key x = key \<and> dr_status x \<in> {DeliveryFailed, DeliveryExhausted}
      then revived_row x else x) (t_deliveries (nw_db (rest w)))"
  using assms
  by (auto simp: Bridge_Resubmit_def with_db_def ResubmitDelivery_def run_def affected_def resubmit_delivery_def
      update_deliveries_def revived_row_def Let_def filter_empty_conv)

text \<open>C27: a dead letter is revived through its reference, exactly once. Whatever characters the names
  of listeners and nodes are made of, the reference of every dead letter \<open>FindExhausted\<close> returns
  designates the one delivery it was made from: handing it to \<open>Resubmit\<close> succeeds, makes that
  delivery pending with a fresh attempt budget and no error, and leaves every other delivery
  alone; handing it in a second time is refused and changes nothing.\<close>

theorem dead_letters_are_revived_by_reference:
  assumes B: "uuid_laws B" "be_others (b_env (bb_bridge B)) = (\<lambda>_ d. d)" "\<And>k. be_fails (b_env (bb_bridge B)) k = None"
    and keys: "distinct (map dr_key (t_deliveries (nw_db (rest w))))"
    and letters: "BusBroker_FindExhausted B lim w = (Inr letters, w1)" "l \<in> set letters"
    and resubmits: "BusBroker_Resubmit B (bl_reference l) w1 = (r, w2)" "BusBroker_Resubmit B (bl_reference l) w2 = (r', w3)"
  shows "\<exists>before x after. t_deliveries (nw_db (rest w)) = before @ x # after \<and>
    dr_status x = DeliveryExhausted \<and> bl_listener l = k_listener (dr_key x) \<and> bl_attempts l = dr_attempts x \<and> bl_error l = dr_error x \<and>
    r = Inr True \<and> t_deliveries (nw_db (rest w2)) = before @ revived_row x # after \<and>
    r' = Inr False \<and> t_deliveries (nw_db (rest w3)) = t_deliveries (nw_db (rest w2))"
proof -
  let ?b = "bb_bridge B" and ?rows = "t_deliveries (nw_db (rest w))"
  obtain dues where dues: "Bridge_FindExhausted ?b lim w = (Inr dues, w1)" "letters = map (dead_letter_of B) dues"
    using letters(1) by (auto simp: BusBroker_FindExhausted_def split: prod.splits sum.splits)
  then obtain due where due: "due \<in> set dues" "l = dead_letter_of B due" using letters(2) by auto
  from exhausted_found [OF B(2) dues(1) due(1)] obtain x where x: "x \<in> set ?rows" "dr_status x = DeliveryExhausted"
      "d_key (due_delivery due) = dr_key x" "d_attempts (due_delivery due) = dr_attempts x" "d_error (due_delivery due) = dr_error x"
    and rows1: "t_deliveries (nw_db (rest w1)) = ?rows"
    by blast
  have letter: "bl_reference l = encodeDeadLetterReference B (dr_key x)" "bl_listener l = k_listener (dr_key x)"
      "bl_attempts l = dr_attempts x" "bl_error l = dr_error x"
    using x(3-5) by (simp_all add: due(2) dead_letter_of_def)
  have "Bridge_Resubmit ?b (dr_key x) w1 = (r, w2)" "Bridge_Resubmit ?b (dr_key x) w2 = (r', w3)"
    using resubmits by (simp_all add: BusBroker_Resubmit_def letter(1) reference_round_trip [OF B(1)])
  note first = Bridge_Resubmit_alone [OF B(2,3) this(1)] and again = Bridge_Resubmit_alone [OF B(2,3) this(2)]
  obtain before after where split: "?rows = before @ x # after" using x(1) by (meson split_list)
  have other: "dr_key y \<noteq> dr_key x" if "y \<in> set before \<union> set after" for y
  proof -
    have "dr_key x \<notin> dr_key ` set before \<and> dr_key x \<notin> dr_key ` set after" using keys by (simp add: split)
    then show ?thesis using that by (metis UnE image_eqI)
  qed
  have rows2: "t_deliveries (nw_db (rest w2)) = before @ revived_row x # after"
    using other x(2) unfolding first(2) rows1 split by (auto intro: map_idI)
  have revived: "dr_key (revived_row x) = dr_key x" "dr_status (revived_row x) = DeliveryPending"
    by (simp_all add: revived_row_def)
  have "r = Inr True" using first(1) x(1,2) rows1 by auto
  moreover have "r' = Inr False" using again(1) other revived unfolding rows2 by auto
  moreover have "t_deliveries (nw_db (rest w3)) = t_deliveries (nw_db (rest w2))"
    using other revived unfolding again(2) rows2 by (auto intro: map_idI)
  ultimately show ?thesis using split x(2) letter(2-4) rows2 by blast
qed

text \<open>A dead letter of a listener whose name contains the separator.\<close>

definition demo_bus_broker :: "(nat, nat, string, nat list, nat \<times> nat delivery_key list, demo_bus_database) bus_broker" where
  "demo_bus_broker = NewBroker publishing_bridge demo_bus_publisher (\<lambda>i. replicate i (CHR ''1'')) (\<lambda>s. Some (length s))"

definition dead_row :: "nat delivery_row" where
  "dead_row = (pending_row \<lparr>k_message = 1, k_listener = ''a/b'', k_instance = ''''\<rparr>)
     \<lparr>dr_status := DeliveryExhausted, dr_attempts := 5, dr_error := ''refused''\<rparr>"

definition dead_node :: demo_node where
  "dead_node = \<lparr>subscriptions = [], rest = \<lparr>nw_db = no_rows\<lparr>t_messages := [message_to_row
       \<lparr>m_id = 1, m_type = ''order'', m_payload = ''7'', m_node = ''n1'', m_date = Instant 2024 2 2 0 0 0 0\<rparr>],
     t_deliveries := [dead_row]\<rparr>, nw_attachments = [], nw_subscribed = {}, nw_fresh = 0, nw_rest = []\<rparr>\<rparr>"

lemma demo_bus_broker_parts:
  "uuid_laws demo_bus_broker" "be_others (b_env (bb_bridge demo_bus_broker)) = (\<lambda>_ d. d)"
  "be_fails (b_env (bb_bridge demo_bus_broker)) k = None"
  by (simp_all add: uuid_laws_def demo_bus_broker_def NewBroker_def publishing_bridge_def)

lemma demo_dead_letter:
  "\<exists>l w1. BusBroker_FindExhausted demo_bus_broker 10 dead_node = (Inr [l], w1) \<and> bl_reference l = ''1//a%2Fb''"
proof -
  let ?m = "\<lparr>m_id = 1 :: nat, m_type = ''order'', m_payload = ''7'', m_node = ''n1'', m_date = Instant 2024 2 2 0 0 0 0\<rparr>"
  have parse: "parseStoredTime (formatTime (Instant 2024 2 2 0 0 0 0)) = Some (Instant 2024 2 2 0 0 0 0)"
    by (rule parse_of_format) (simp add: days_in_def)
  have joined: "joined (nw_db (rest dead_node)\<lparr>t_ticks := Suc 0\<rparr>) = [(dead_row, message_to_row ?m)]"
    by (simp add: joined_def dead_node_def dead_row_def pending_row_def message_to_row_def no_rows_def del: formatTime.simps)
  have "scanDueDelivery (dead_row, message_to_row ?m) = Inr \<lparr>due_delivery = \<lparr>d_key = dr_key dead_row, d_status = DeliveryExhausted,
      d_attempts = 5, d_token = '''', d_claim = None, d_next = None, d_completion = None, d_error = ''refused''\<rparr>, due_message = ?m\<rparr>"
    by (simp add: scanDueDelivery_def dead_row_def pending_row_def message_to_row_def parse del: formatTime.simps)
  moreover have "dr_status dead_row = DeliveryExhausted" by (simp add: dead_row_def)
  moreover have "t_ticks (nw_db (rest dead_node)) = 0" by (simp add: dead_node_def no_rows_def)
  ultimately have "fst (Bridge_FindExhausted publishing_bridge 10 dead_node) = Inr [\<lparr>due_delivery = \<lparr>d_key = dr_key dead_row,
      d_status = DeliveryExhausted, d_attempts = 5, d_token = '''', d_claim = None, d_next = None, d_completion = None,
      d_error = ''refused''\<rparr>, due_message = ?m\<rparr>]"
    by (simp add: Bridge_FindExhausted_def with_db_def FindExhaustedDeliveries_def fetch_due_def run_def publishing_bridge_def
        joined in_order_def wrapped_def Let_def case_prod_beta)
  then obtain w1 where "Bridge_FindExhausted publishing_bridge 10 dead_node = (Inr [\<lparr>due_delivery = \<lparr>d_key = dr_key dead_row,
      d_status = DeliveryExhausted, d_attempts = 5, d_token = '''', d_claim = None, d_next = None, d_completion = None,
      d_error = ''refused''\<rparr>, due_message = ?m\<rparr>], w1)"
    by (metis prod.collapse)
  then show ?thesis
    by (simp add: BusBroker_FindExhausted_def demo_bus_broker_def NewBroker_def dead_letter_of_def
        encodeDeadLetterReference_def dead_row_def pending_row_def path_escape_def should_escape_def escape_byte_def hex_digits_def)
qed

theorem dead_letters_are_revived_by_reference_witness:
  "\<exists>w1 w2 w3. BusBroker_Resubmit demo_bus_broker ''1//a%2Fb'' w1 = (Inr True, w2) \<and>
     t_deliveries (nw_db (rest w2)) = [revived_row dead_row] \<and>
     BusBroker_Resubmit demo_bus_broker ''1//a%2Fb'' w2 = (Inr False, w3)"
proof -
  obtain l w1 where l: "BusBroker_FindExhausted demo_bus_broker 10 dead_node = (Inr [l], w1)" "bl_reference l = ''1//a%2Fb''"
    using demo_dead_letter by blast
  obtain r w2 where r: "BusBroker_Resubmit demo_bus_broker (bl_reference l) w1 = (r, w2)" by fastforce
  obtain r' w3 where r': "BusBroker_Resubmit demo_bus_broker (bl_reference l) w2 = (r', w3)" by fastforce
  have rows: "t_deliveries (nw_db (rest dead_node)) = [dead_row]" by (simp add: dead_node_def no_rows_def)
  have "\<exists>before x after. [dead_row] = before @ x # after \<and> r = Inr True \<and>
      t_deliveries (nw_db (rest w2)) = before @ revived_row x # after \<and> r' = Inr False"
    using dead_letters_are_revived_by_reference [OF demo_bus_broker_parts, where w = dead_node, OF _ l(1) _ r r'] rows by auto
  then show ?thesis using r r' l(2) by (auto simp: Cons_eq_append_conv)
qed

end
