(* ===== verification/BusSerializer.thy ===== *)
theory BusSerializer
  imports OutboxRegistry
begin

text \<open>
  The JSON serializer of the distributed bus (sqlbus/serializer.go). The code duplicates
  outbox/serializer.go so that the modules do not depend on each other, and its comments promise
  that one serializer can serve both: \<open>serializers_agree\<close> proves that the two behave alike, so
  the invariant and the round trip of OutboxRegistry hold here as well.
\<close>

definition BusErrUnknownEventType :: goerror where
  "BusErrUnknownEventType = Leaf ''event type is not registered''"

definition BusErrConflictingRegistration :: goerror where
  "BusErrConflictingRegistration = Leaf ''conflicting event type registration''"

definition Bus_NewJSONSerializer :: "'t json_serializer" where
  "Bus_NewJSONSerializer = \<lparr>names = \<lambda>_. None, factories = \<lambda>_. None\<rparr>"

definition Bus_RegisterEventType :: "'t \<Rightarrow> string \<Rightarrow> 't json_serializer \<Rightarrow> goerror option \<times> 't json_serializer" where
  "Bus_RegisterEventType t name s =
     (if name = [] then (Some (Leaf ''event type name must not be empty''), s)
      else (case names s t of
          Some current \<Rightarrow>
            (if current \<noteq> name
             then (Some (Wrap ''%w: %s is already registered as %s'' [BusErrConflictingRegistration]), s)
             else (None, s\<lparr>names := (names s)(t \<mapsto> name), factories := (factories s)(name \<mapsto> t)\<rparr>))
        | None \<Rightarrow>
            (case factories s name of
               Some _ \<Rightarrow> (Some (Wrap ''%w: name %s is already bound to another type'' [BusErrConflictingRegistration]), s)
             | None \<Rightarrow> (None, s\<lparr>names := (names s)(t \<mapsto> name), factories := (factories s)(name \<mapsto> t)\<rparr>))))"

definition Bus_Serialize ::
  "('e \<Rightarrow> 't option) \<Rightarrow> ('e \<Rightarrow> goerror + string) \<Rightarrow> 't json_serializer \<Rightarrow> 'e \<Rightarrow> goerror + (string \<times> string)" where
  "Bus_Serialize type_of marshal s event =
     (case (case type_of event of None \<Rightarrow> None | Some t \<Rightarrow> names s t) of
        None \<Rightarrow> Inl (Wrap ''%w: %T'' [BusErrUnknownEventType])
      | Some name \<Rightarrow> (case marshal event of
          Inl err \<Rightarrow> Inl (Wrap ''serialize %s: %w'' [err])
        | Inr payload \<Rightarrow> Inr (name, payload)))"

definition Bus_Deserialize ::
  "('t \<Rightarrow> string \<Rightarrow> goerror + 'e) \<Rightarrow> 't json_serializer \<Rightarrow> string \<Rightarrow> string \<Rightarrow> goerror + 'e" where
  "Bus_Deserialize unmarshal s etype payload =
     (case factories s etype of
        None \<Rightarrow> Inl (Wrap ''%w: %s'' [BusErrUnknownEventType])
      | Some t \<Rightarrow> (case unmarshal t payload of
          Inl err \<Rightarrow> Inl (Wrap ''deserialize %s: %w'' [err])
        | Inr event \<Rightarrow> Inr event))"

lemma serializers_agree:
  "(Bus_NewJSONSerializer :: 't json_serializer) = NewJSONSerializer"
  "Bus_RegisterEventType t name s = RegisterEventType t name s"
  "Bus_Serialize type_of marshal s event = Serialize type_of marshal s event"
  "Bus_Deserialize unmarshal s etype payload = Deserialize unmarshal s etype payload"
  by (simp_all add: Bus_NewJSONSerializer_def NewJSONSerializer_def Bus_RegisterEventType_def RegisterEventType_def
      Bus_Serialize_def Serialize_def Bus_Deserialize_def Deserialize_def BusErrUnknownEventType_def ErrUnknownEventType_def
      BusErrConflictingRegistration_def ErrConflictingRegistration_def bind_eq_Some_conv split: option.split)

lemma Bus_registrations_keep_names_and_types_apart:
  "serializer_inv s \<Longrightarrow> serializer_inv (snd (Bus_RegisterEventType t name s))"
  by (simp add: serializers_agree RegisterEventType_inv)

end
