(* ===== verification/OutboxMigrator.thy ===== *)
theory OutboxMigrator
  imports OutboxStore GoText "HOL-Library.List_Lexorder" "HOL-Library.Char_ord"
begin

text \<open>
  The native migrator of the outbox (outbox/migrator_native.go) and the stores it initializes (outbox/store_sql.go): the scripts of a file system, in
  the order of their names, split into statements and executed. The file system holds the entries of its
  root directory and reads files; the database and its driver are parameters, a statement may fail
  and leave any database behind.
\<close>

record file_system =
  fs_ReadDir :: "goerror + (string \<times> bool) list"
  fs_ReadFile :: "string \<Rightarrow> goerror + string"

text \<open>A statement with its arguments; a query that yields one number; the text of an error.\<close>

record 'd sql_driver =
  sql_exec :: "string \<Rightarrow> string list \<Rightarrow> 'd \<Rightarrow> goerror option \<times> 'd"
  sql_count :: "string \<Rightarrow> string list \<Rightarrow> 'd \<Rightarrow> (goerror + int) \<times> 'd"
  sql_message :: "goerror \<Rightarrow> string"

definition HasSuffix :: "string \<Rightarrow> string \<Rightarrow> bool" where
  "HasSuffix s t \<longleftrightarrow> suffix t s"

definition script_names :: "(string \<times> bool) list \<Rightarrow> string list" where
  "script_names entries = sort (map fst (filter (\<lambda>(name, dir). \<not> dir \<and> HasSuffix name ''.sql'') entries))"

definition splitSQLStatements :: "string \<Rightarrow> string list" where
  "splitSQLStatements script = filter (\<lambda>trimmed. trimmed \<noteq> []) (map TrimSpace (split_at (CHR '';'') script))"

fun execute_statements :: "'d sql_driver \<Rightarrow> string list \<Rightarrow> 'd \<Rightarrow> goerror option \<times> 'd" where
  "execute_statements drv [] d = (None, d)"
| "execute_statements drv (statement # statements) d = (case sql_exec drv statement [] d of
      (Some err, d') \<Rightarrow> (Some (Wrap ''apply schema script %s: %w'' [err]), d')
    | (None, d') \<Rightarrow> execute_statements drv statements d')"

fun apply_scripts :: "'d sql_driver \<Rightarrow> file_system \<Rightarrow> string list \<Rightarrow> 'd \<Rightarrow> goerror option \<times> 'd" where
  "apply_scripts drv fs [] d = (None, d)"
| "apply_scripts drv fs (name # names) d = (case fs_ReadFile fs name of
      Inl err \<Rightarrow> (Some (Wrap ''read schema script %s: %w'' [err]), d)
    | Inr content \<Rightarrow> (case execute_statements drv (splitSQLStatements content) d of
        (Some err, d') \<Rightarrow> (Some err, d')
      | (None, d') \<Rightarrow> apply_scripts drv fs names d'))"

definition Migrate :: "'d sql_driver \<Rightarrow> file_system \<Rightarrow> 'd \<Rightarrow> goerror option \<times> 'd" where
  "Migrate drv fs d = (case fs_ReadDir fs of
      Inl err \<Rightarrow> (Some (Wrap ''read embedded schema: %w'' [err]), d)
    | Inr entries \<Rightarrow> apply_scripts drv fs (script_names entries) d)"

section \<open>Statements\<close>

lemma split_pieces: "piece \<in> set (split_at x s) \<Longrightarrow> x \<notin> set piece"
  by (induction s arbitrary: piece) (auto split: list.splits if_splits)

lemma set_trim: "set (TrimSpace s) \<subseteq> set s"
proof -
  obtain a b where "s = a @ TrimSpace s @ b" using trim_parts [of s is_space] unfolding TrimSpace_def by blast
  then show ?thesis by (metis Un_upper1 Un_upper2 order_trans set_append)
qed

text \<open>A statement is trimmed, not blank, and holds no semicolon.\<close>

lemma statements_are_plain:
  assumes "statement \<in> set (splitSQLStatements script)"
  shows "statement \<noteq> []" "TrimSpace statement = statement" "CHR '';'' \<notin> set statement"
proof -
  obtain piece where p: "piece \<in> set (split_at (CHR '';'') script)" "statement = TrimSpace piece" "statement \<noteq> []"
    using assms by (auto simp: splitSQLStatements_def)
  show "statement \<noteq> []" "CHR '';'' \<notin> set statement" using p split_pieces set_trim by blast+
  show "TrimSpace statement = statement"
    using trim_ends [of is_space piece] p(3) unfolding p(2) TrimSpace_def by (intro trim_same) auto
qed

section \<open>Running again\<close>

text \<open>Definitions that are made once and stay, as those with \<open>IF NOT EXISTS\<close>: a statement that succeeded has no
  effect from then on, whatever statements of the kind are executed after it.\<close>

definition definitions_stay :: "'d sql_driver \<Rightarrow> string set \<Rightarrow> bool" where
  "definitions_stay drv S \<longleftrightarrow>
     (\<forall>s \<in> S. \<forall>d d'. sql_exec drv s [] d = (None, d') \<longrightarrow> sql_exec drv s [] d' = (None, d')) \<and>
     (\<forall>s \<in> S. \<forall>s' \<in> S. \<forall>d. sql_exec drv s [] d = (None, d) \<longrightarrow> (let d' = snd (sql_exec drv s' [] d) in sql_exec drv s [] d' = (None, d')))"

definition in_force :: "'d sql_driver \<Rightarrow> string set \<Rightarrow> string list \<Rightarrow> 'd \<Rightarrow> bool" where
  "in_force drv S statements d \<longleftrightarrow> set statements \<subseteq> S \<and> (\<forall>s \<in> set statements. sql_exec drv s [] d = (None, d))"

lemma in_force_again: "in_force drv S statements d \<Longrightarrow> execute_statements drv statements d = (None, d)"
  by (induction statements) (auto simp: in_force_def)

lemma in_force_stays:
  assumes "definitions_stay drv S" "in_force drv S statements d" "set others \<subseteq> S"
  shows "in_force drv S statements (snd (execute_statements drv others d))"
  using assms(2,3)
proof (induction others arbitrary: d)
  case (Cons s others)
  obtain r d1 where e: "sql_exec drv s [] d = (r, d1)" by fastforce
  have "sql_exec drv s' [] d1 = (None, d1)" if "s' \<in> set statements" for s'
    using Cons.prems assms(1) e that unfolding in_force_def definitions_stay_def Let_def
    by (metis insert_subset list.simps(15) snd_conv subset_iff)
  then have "in_force drv S statements d1" using Cons.prems by (simp add: in_force_def)
  then show ?case using Cons.IH [of d1] Cons.prems(2) e by (cases r) auto
qed simp

lemma executed_in_force:
  assumes "definitions_stay drv S" "execute_statements drv statements d = (None, d')" "set statements \<subseteq> S"
  shows "in_force drv S statements d'"
  using assms(2,3)
proof (induction statements arbitrary: d)
  case (Cons s statements)
  then obtain d1 where e: "sql_exec drv s [] d = (None, d1)" "execute_statements drv statements d1 = (None, d')"
    by (auto split: prod.splits option.splits)
  have "in_force drv S [s] d1" using e(1) assms(1) Cons.prems(2) by (auto simp: in_force_def definitions_stay_def)
  from in_force_stays [OF assms(1) this, of statements] have "in_force drv S [s] d'" using e(2) Cons.prems(2) by simp
  then show ?case using Cons.IH [OF e(2)] Cons.prems(2) by (simp add: in_force_def)
qed (simp add: in_force_def)

definition scripts_within :: "file_system \<Rightarrow> string set \<Rightarrow> bool" where
  "scripts_within fs S \<longleftrightarrow> (\<forall>name content. fs_ReadFile fs name = Inr content \<longrightarrow> set (splitSQLStatements content) \<subseteq> S)"

definition scripts_in_force :: "'d sql_driver \<Rightarrow> string set \<Rightarrow> file_system \<Rightarrow> string list \<Rightarrow> 'd \<Rightarrow> bool" where
  "scripts_in_force drv S fs names d \<longleftrightarrow>
     (\<forall>name \<in> set names. \<exists>content. fs_ReadFile fs name = Inr content \<and> in_force drv S (splitSQLStatements content) d)"

lemma scripts_in_force_again: "scripts_in_force drv S fs names d \<Longrightarrow> apply_scripts drv fs names d = (None, d)"
  by (induction names) (auto simp: scripts_in_force_def in_force_again)

lemma in_force_beyond:
  assumes "definitions_stay drv S" "in_force drv S statements d" "scripts_within fs S"
  shows "in_force drv S statements (snd (apply_scripts drv fs names d))"
  using assms(2)
proof (induction names arbitrary: d)
  case (Cons name names)
  show ?case
  proof (cases "fs_ReadFile fs name")
    case (Inr content)
    obtain r d1 where e: "execute_statements drv (splitSQLStatements content) d = (r, d1)" by fastforce
    have "set (splitSQLStatements content) \<subseteq> S" using assms(3) Inr by (auto simp: scripts_within_def)
    then have "in_force drv S statements d1" using in_force_stays [OF assms(1) Cons.prems] e by (metis snd_conv)
    then show ?thesis using Cons.IH [of d1] Inr e by (cases r) auto
  qed (use Cons.prems in simp)
qed simp

lemma applied_in_force:
  assumes "definitions_stay drv S" "apply_scripts drv fs names d = (None, d')" "scripts_within fs S"
  shows "scripts_in_force drv S fs names d'"
  using assms(2)
proof (induction names arbitrary: d)
  case (Cons name names)
  then obtain content d1 where e: "fs_ReadFile fs name = Inr content"
      "execute_statements drv (splitSQLStatements content) d = (None, d1)" "apply_scripts drv fs names d1 = (None, d')"
    by (auto split: sum.splits prod.splits option.splits)
  have "set (splitSQLStatements content) \<subseteq> S" using assms(3) e(1) by (auto simp: scripts_within_def)
  from in_force_beyond [OF assms(1) executed_in_force [OF assms(1) e(2) this] assms(3), of names]
  have "in_force drv S (splitSQLStatements content) d'" using e(3) by simp
  then show ?case using Cons.IH [OF e(3)] e(1) by (simp add: scripts_in_force_def)
qed (simp add: scripts_in_force_def)

text \<open>What a successful migration leaves, a second one finds and changes nothing of.\<close>

theorem outbox_migration_is_idempotent:
  assumes "definitions_stay drv S" "scripts_within fs S" "Migrate drv fs d = (None, d')"
  shows "Migrate drv fs d' = (None, d')"
  using assms(3) scripts_in_force_again [OF applied_in_force [OF assms(1) _ assms(2)]]
  by (auto simp: Migrate_def split: sum.splits)

text \<open>The scripts run in the order of their names, each once, and directories and other files do not.\<close>

lemma script_names_order:
  "sorted (script_names entries)"
  "mset (script_names entries) = mset (map fst (filter (\<lambda>(name, dir). \<not> dir \<and> suffix ''.sql'' name) entries))"
  by (simp_all add: script_names_def HasSuffix_def)

section \<open>Stores and their migrator\<close>

datatype sql_dialect = DialectSQLite | DialectPostgres

type_synonym 'd migrator = "sql_dialect \<Rightarrow> file_system \<Rightarrow> 'd \<Rightarrow> goerror option \<times> 'd"

text \<open>The settings of a store; the embedded scripts are an argument of \<open>Initialize\<close>. A nil migrator is \<open>None\<close>.\<close>

record 'd store_settings =
  se_mode :: completion_mode
  se_dialect :: sql_dialect
  se_migrator :: "'d migrator"

type_synonym 'd store_option = "'d store_settings \<Rightarrow> 'd store_settings"

definition WithMigrator :: "'d migrator option \<Rightarrow> 'd store_option" where
  "WithMigrator migrator s = (case migrator of Some g \<Rightarrow> s\<lparr>se_migrator := g\<rparr> | None \<Rightarrow> s)"

definition newSQLStore :: "'d sql_driver \<Rightarrow> completion_mode \<Rightarrow> sql_dialect \<Rightarrow> 'd store_option list \<Rightarrow> 'd store_settings" where
  "newSQLStore drv mode dialect options =
     fold (\<lambda>f s. f s) options \<lparr>se_mode = mode, se_dialect = dialect, se_migrator = \<lambda>_. Migrate drv\<rparr>"

definition NewSQLiteStore :: "'d sql_driver \<Rightarrow> completion_mode \<Rightarrow> 'd store_option list \<Rightarrow> 'd store_settings" where
  "NewSQLiteStore drv mode options = newSQLStore drv mode DialectSQLite options"

definition NewPostgresStore :: "'d sql_driver \<Rightarrow> completion_mode \<Rightarrow> 'd store_option list \<Rightarrow> 'd store_settings" where
  "NewPostgresStore drv mode options = newSQLStore drv mode DialectPostgres options"

definition Initialize :: "'d store_settings \<Rightarrow> file_system \<Rightarrow> 'd \<Rightarrow> goerror option \<times> 'd" where
  "Initialize s schema d = (case se_migrator s (se_dialect s) schema d of
      (Some err, d') \<Rightarrow> (Some (Wrap ''apply outbox schema: %w'' [err]), d')
    | (None, d') \<Rightarrow> (None, d'))"

text \<open>The last migrator that is not nil decides, whatever other settings there are; without one it is the native migrator.\<close>

lemma migrator_of_options:
  "se_migrator (newSQLStore drv mode dialect (map WithMigrator migrators)) =
   (case filter (\<lambda>g. g \<noteq> None) migrators of [] \<Rightarrow> (\<lambda>_. Migrate drv) | gs \<Rightarrow> the (last gs))"
  "se_dialect (newSQLStore drv mode dialect (map WithMigrator migrators)) = dialect"
  "se_mode (newSQLStore drv mode dialect (map WithMigrator migrators)) = mode"
proof -
  have "se_migrator (fold (\<lambda>f s. f s) (map WithMigrator migrators) s) =
        (case filter (\<lambda>g. g \<noteq> None) migrators of [] \<Rightarrow> se_migrator s | gs \<Rightarrow> the (last gs)) \<and>
      se_dialect (fold (\<lambda>f s. f s) (map WithMigrator migrators) s) = se_dialect s \<and>
      se_mode (fold (\<lambda>f s. f s) (map WithMigrator migrators) s) = se_mode s" for s
    by (induction migrators arbitrary: s) (auto simp: WithMigrator_def split: option.split list.split)
  then show "se_migrator (newSQLStore drv mode dialect (map WithMigrator migrators)) =
      (case filter (\<lambda>g. g \<noteq> None) migrators of [] \<Rightarrow> (\<lambda>_. Migrate drv) | gs \<Rightarrow> the (last gs))"
    "se_dialect (newSQLStore drv mode dialect (map WithMigrator migrators)) = dialect"
    "se_mode (newSQLStore drv mode dialect (map WithMigrator migrators)) = mode"
    by (simp_all add: newSQLStore_def split: list.split)
qed

lemma initialization_is_idempotent:
  assumes "definitions_stay drv S" "scripts_within schema S" "Initialize (NewSQLiteStore drv mode []) schema d = (None, d')"
  shows "Initialize (NewSQLiteStore drv mode []) schema d' = (None, d')"
proof -
  have "Migrate drv schema d = (None, d')"
    using assms(3) by (simp add: Initialize_def NewSQLiteStore_def newSQLStore_def split: prod.splits option.splits)
  from outbox_migration_is_idempotent [OF assms(1,2) this] show ?thesis
    by (simp add: Initialize_def NewSQLiteStore_def newSQLStore_def)
qed

end
