(* ===== verification/BusMigrator.thy ===== *)
theory BusMigrator
  imports OutboxMigrator
begin

text \<open>
  The native migrator of the distributed bus (sqlbus/migrator_native.go): as that of the outbox, but it
  records the names of the scripts it has applied in a table of its own and skips them later, and it takes
  a column that is already present for the outcome of the statement that adds it.
\<close>

definition nativeAppliedTable :: string where
  "nativeAppliedTable = ''event_message_native_schema''"

definition insertConflictClause :: string where
  "insertConflictClause = '' ON CONFLICT DO NOTHING''"

definition create_record :: string where
  "create_record = ''CREATE TABLE IF NOT EXISTS '' @ nativeAppliedTable @ '' (script TEXT NOT NULL PRIMARY KEY)''"

definition count_record :: string where
  "count_record = ''SELECT COUNT(*) FROM '' @ nativeAppliedTable @ '' WHERE script = $1''"

definition insert_record :: string where
  "insert_record = ''INSERT INTO '' @ nativeAppliedTable @ '' (script) VALUES ($1)'' @ insertConflictClause"

definition scriptApplied :: "'d sql_driver \<Rightarrow> string \<Rightarrow> 'd \<Rightarrow> (goerror + bool) \<times> 'd" where
  "scriptApplied drv name d = (case sql_count drv count_record [name] d of
      (Inl err, d') \<Rightarrow> (Inl (Wrap ''read native schema record of %s: %w'' [err]), d')
    | (Inr rows, d') \<Rightarrow> (Inr (rows > 0), d'))"

definition isDuplicateColumn :: "'d sql_driver \<Rightarrow> goerror \<Rightarrow> bool" where
  "isDuplicateColumn drv err = (let message = sql_message drv err
     in sublist ''duplicate column name'' message \<or> sublist ''SQLSTATE 42701'' message \<or> sublist ''already exists'' message)"

definition Bus_splitSQLStatements :: "string \<Rightarrow> string list" where
  "Bus_splitSQLStatements script = filter (\<lambda>trimmed. trimmed \<noteq> []) (map TrimSpace (split_at (CHR '';'') script))"

fun bus_execute_statements :: "'d sql_driver \<Rightarrow> string list \<Rightarrow> 'd \<Rightarrow> goerror option \<times> 'd" where
  "bus_execute_statements drv [] d = (None, d)"
| "bus_execute_statements drv (statement # statements) d = (case sql_exec drv statement [] d of
      (Some err, d') \<Rightarrow>
        if isDuplicateColumn drv err then bus_execute_statements drv statements d'
        else (Some (Wrap ''apply schema script %s: %w'' [err]), d')
    | (None, d') \<Rightarrow> bus_execute_statements drv statements d')"

fun apply_unrecorded :: "'d sql_driver \<Rightarrow> file_system \<Rightarrow> string list \<Rightarrow> 'd \<Rightarrow> goerror option \<times> 'd" where
  "apply_unrecorded drv fs [] d = (None, d)"
| "apply_unrecorded drv fs (name # names) d = (case scriptApplied drv name d of
      (Inl err, d1) \<Rightarrow> (Some err, d1)
    | (Inr True, d1) \<Rightarrow> apply_unrecorded drv fs names d1
    | (Inr False, d1) \<Rightarrow> (case fs_ReadFile fs name of
        Inl err \<Rightarrow> (Some (Wrap ''read schema script %s: %w'' [err]), d1)
      | Inr content \<Rightarrow> (case bus_execute_statements drv (Bus_splitSQLStatements content) d1 of
          (Some err, d2) \<Rightarrow> (Some err, d2)
        | (None, d2) \<Rightarrow> (case sql_exec drv insert_record [name] d2 of
            (Some err, d3) \<Rightarrow> (Some (Wrap ''record schema script %s: %w'' [err]), d3)
          | (None, d3) \<Rightarrow> apply_unrecorded drv fs names d3))))"

definition Bus_Migrate :: "'d sql_driver \<Rightarrow> file_system \<Rightarrow> 'd \<Rightarrow> goerror option \<times> 'd" where
  "Bus_Migrate drv fs d = (case sql_exec drv create_record [] d of
      (Some err, d') \<Rightarrow> (Some (Wrap ''create native schema record: %w'' [err]), d')
    | (None, d') \<Rightarrow> (case fs_ReadDir fs of
        Inl err \<Rightarrow> (Some (Wrap ''read embedded schema: %w'' [err]), d')
      | Inr entries \<Rightarrow> apply_unrecorded drv fs (script_names entries) d'))"

lemma splitters_agree: "Bus_splitSQLStatements = splitSQLStatements"
  by (simp add: fun_eq_iff Bus_splitSQLStatements_def splitSQLStatements_def)

section \<open>The record\<close>

text \<open>What the database does with the statements about the record, of which \<open>recorded\<close> reads the names, if there is
  one: it is made once, found by the query, added to, and left alone by the statements of the scripts.\<close>

definition record_created :: "'d sql_driver \<Rightarrow> ('d \<Rightarrow> string set option) \<Rightarrow> 'd \<Rightarrow> bool" where
  "record_created drv recorded d \<longleftrightarrow> (case sql_exec drv create_record [] d of
      (None, d') \<Rightarrow> recorded d' = Some (case recorded d of Some R \<Rightarrow> R | None \<Rightarrow> {}) \<and> (recorded d \<noteq> None \<longrightarrow> d' = d)
    | (Some err, d') \<Rightarrow> recorded d' = recorded d)"

definition record_queried :: "'d sql_driver \<Rightarrow> ('d \<Rightarrow> string set option) \<Rightarrow> string \<Rightarrow> 'd \<Rightarrow> bool" where
  "record_queried drv recorded name d \<longleftrightarrow> (case sql_count drv count_record [name] d of
      (Inr n, d') \<Rightarrow> d' = d \<and> (\<forall>R. recorded d = Some R \<longrightarrow> (n > 0 \<longleftrightarrow> name \<in> R))
    | (Inl err, d') \<Rightarrow> recorded d' = recorded d)"

definition record_extended :: "'d sql_driver \<Rightarrow> ('d \<Rightarrow> string set option) \<Rightarrow> string \<Rightarrow> 'd \<Rightarrow> bool" where
  "record_extended drv recorded name d \<longleftrightarrow> (case sql_exec drv insert_record [name] d of
      (None, d') \<Rightarrow> recorded d' = map_option (insert name) (recorded d)
    | (Some err, d') \<Rightarrow> recorded d' = recorded d)"

definition keeps_record :: "'d sql_driver \<Rightarrow> ('d \<Rightarrow> string set option) \<Rightarrow> string set \<Rightarrow> bool" where
  "keeps_record drv recorded S \<longleftrightarrow>
     (\<forall>d. record_created drv recorded d) \<and> (\<forall>name d. record_queried drv recorded name d) \<and>
     (\<forall>name d. record_extended drv recorded name d) \<and> (\<forall>s \<in> S. \<forall>d. recorded (snd (sql_exec drv s [] d)) = recorded d)"

lemma keeps_recordD:
  assumes "keeps_record drv recorded S"
  shows "sql_exec drv create_record [] d = (None, d') \<Longrightarrow>
      recorded d' = Some (case recorded d of Some R \<Rightarrow> R | None \<Rightarrow> {}) \<and> (recorded d \<noteq> None \<longrightarrow> d' = d)"
    and "sql_exec drv create_record [] d = (Some err, d') \<Longrightarrow> recorded d' = recorded d"
    and "sql_count drv count_record [name] d = (Inr n, d') \<Longrightarrow> d' = d \<and> (\<forall>R. recorded d = Some R \<longrightarrow> (n > 0 \<longleftrightarrow> name \<in> R))"
    and "sql_count drv count_record [name] d = (Inl err, d') \<Longrightarrow> recorded d' = recorded d"
    and "sql_exec drv insert_record [name] d = (None, d') \<Longrightarrow> recorded d' = map_option (insert name) (recorded d)"
    and "sql_exec drv insert_record [name] d = (Some err, d') \<Longrightarrow> recorded d' = recorded d"
    and "s \<in> S \<Longrightarrow> recorded (snd (sql_exec drv s [] d)) = recorded d"
proof -
  have laws: "record_created drv recorded d" "record_queried drv recorded name d" "record_extended drv recorded name d"
    "s \<in> S \<Longrightarrow> recorded (snd (sql_exec drv s [] d)) = recorded d"
    using assms by (simp_all add: keeps_record_def)
  show "sql_exec drv create_record [] d = (None, d') \<Longrightarrow>
      recorded d' = Some (case recorded d of Some R \<Rightarrow> R | None \<Rightarrow> {}) \<and> (recorded d \<noteq> None \<longrightarrow> d' = d)"
    "sql_exec drv create_record [] d = (Some err, d') \<Longrightarrow> recorded d' = recorded d"
    using laws(1) by (simp_all add: record_created_def)
  show "sql_count drv count_record [name] d = (Inr n, d') \<Longrightarrow> d' = d \<and> (\<forall>R. recorded d = Some R \<longrightarrow> (n > 0 \<longleftrightarrow> name \<in> R))"
    "sql_count drv count_record [name] d = (Inl err, d') \<Longrightarrow> recorded d' = recorded d"
    using laws(2) by (simp_all add: record_queried_def)
  show "sql_exec drv insert_record [name] d = (None, d') \<Longrightarrow> recorded d' = map_option (insert name) (recorded d)"
    "sql_exec drv insert_record [name] d = (Some err, d') \<Longrightarrow> recorded d' = recorded d"
    using laws(3) by (simp_all add: record_extended_def)
  show "s \<in> S \<Longrightarrow> recorded (snd (sql_exec drv s [] d)) = recorded d" by (rule laws(4))
qed

lemma statements_leave_the_record:
  assumes "keeps_record drv recorded S" "set statements \<subseteq> S"
  shows "recorded (snd (bus_execute_statements drv statements d)) = recorded d"
  using assms(2)
proof (induction statements arbitrary: d)
  case (Cons s statements)
  obtain r d1 where e: "sql_exec drv s [] d = (r, d1)" by fastforce
  have "recorded d1 = recorded d" using keeps_recordD(7) [OF assms(1), of s d] Cons.prems e by simp
  then show ?case using Cons.IH [of d1] Cons.prems e by (cases r) auto
qed simp

text \<open>The scripts a run gets through are recorded, in their order, and no others.\<close>

lemma recorded_in_order:
  assumes "keeps_record drv recorded S" "scripts_within fs S" "recorded d = Some R" "apply_unrecorded drv fs names d = (res, d')"
  shows "\<exists>k \<le> length names. recorded d' = Some (R \<union> set (take k names)) \<and> (res = None \<longrightarrow> k = length names)"
  using assms(3,4)
proof (induction names arbitrary: d R)
  case (Cons name names)
  note law = keeps_recordD [OF assms(1)]
  have stop: ?case if "recorded d' = Some R" "res \<noteq> None" using that by (intro exI [of _ 0]) simp
  have go: ?case if at: "recorded d1 = Some (insert name R)" "apply_unrecorded drv fs names d1 = (res, d')" for d1
  proof -
    obtain k where "k \<le> length names" "recorded d' = Some (insert name R \<union> set (take k names))" "res = None \<longrightarrow> k = length names"
      using Cons.IH [OF at] by blast
    then show ?thesis by (intro exI [of _ "Suc k"]) auto
  qed
  obtain q d1 where q: "sql_count drv count_record [name] d = (q, d1)" by fastforce
  show ?case
  proof (cases q)
    case (Inl err)
    then show ?thesis using stop law(4) [of name d err d1] q Cons.prems by (auto simp: scriptApplied_def)
  next
    case (Inr n)
    then have n: "d1 = d" "n > 0 \<longleftrightarrow> name \<in> R" using law(3) [of name d n d1] q Cons.prems(1) by auto
    show ?thesis
    proof (cases "n > 0")
      case True
      then show ?thesis using go [of d] n q Inr Cons.prems by (auto simp: scriptApplied_def insert_absorb)
    next
      case False
      show ?thesis
      proof (cases "fs_ReadFile fs name")
        case (Inl err)
        then show ?thesis using stop n q \<open>q = Inr n\<close> False Cons.prems by (auto simp: scriptApplied_def)
      next
        case content: (Inr content)
        obtain r d2 where e: "bus_execute_statements drv (Bus_splitSQLStatements content) d = (r, d2)" by fastforce
        have "set (Bus_splitSQLStatements content) \<subseteq> S" using assms(2) content by (auto simp: scripts_within_def splitters_agree)
        from statements_leave_the_record [OF assms(1) this, of d] have d2: "recorded d2 = Some R" using e Cons.prems(1) by simp
        obtain r' d3 where i: "sql_exec drv insert_record [name] d2 = (r', d3)" by fastforce
        note step = n q \<open>q = Inr n\<close> False content e i Cons.prems
        show ?thesis
        proof (cases r)
          case (Some err)
          then show ?thesis using stop d2 step by (auto simp: scriptApplied_def)
        next
          case None
          show ?thesis
          proof (cases r')
            case (Some err)
            then show ?thesis using stop d2 step law(6) [of name d2 err d3] None by (auto simp: scriptApplied_def)
          next
            case None
            then show ?thesis using go [of d3] d2 step law(5) [of name d2 d3] \<open>r = None\<close> by (auto simp: scriptApplied_def)
          qed
        qed
      qed
    qed
  qed
qed auto

text \<open>A script on record is skipped without touching the database.\<close>

lemma recorded_are_skipped:
  assumes "keeps_record drv recorded S" "recorded d = Some R" "set names \<subseteq> R"
    and "\<forall>name \<in> set names. \<exists>n. fst (sql_count drv count_record [name] d) = Inr n"
  shows "apply_unrecorded drv fs names d = (None, d)"
  using assms(3,4)
proof (induction names)
  case (Cons name names)
  then obtain n d1 where q: "sql_count drv count_record [name] d = (Inr n, d1)" by (metis list.set_intros(1) prod.collapse)
  then have "d1 = d" "n > 0" using keeps_recordD(3) [OF assms(1) q] assms(2) Cons.prems(1) by auto
  then show ?case using Cons q by (simp add: scriptApplied_def)
qed simp

section \<open>What a recorded script has done\<close>

text \<open>\<open>present d s\<close> says that the schema of \<open>d\<close> holds the outcome of the statement \<open>s\<close>. A statement that succeeds
  brings its outcome about, one refused because the object is there finds it, and no statement takes an
  outcome back: the scripts only add.\<close>

definition names_existing :: "string \<Rightarrow> bool" where
  "names_existing message \<longleftrightarrow> sublist ''duplicate column name'' message \<or> sublist ''SQLSTATE 42701'' message \<or>
     sublist ''already exists'' message"

definition statement_acts :: "'d sql_driver \<Rightarrow> ('d \<Rightarrow> string \<Rightarrow> bool) \<Rightarrow> string \<Rightarrow> 'd \<Rightarrow> bool" where
  "statement_acts drv present s d \<longleftrightarrow> (case sql_exec drv s [] d of
      (None, d') \<Rightarrow> present d' s
    | (Some err, d') \<Rightarrow> names_existing (sql_message drv err) \<longrightarrow> present d' s)"

definition only_adds :: "'d sql_driver \<Rightarrow> ('d \<Rightarrow> string \<Rightarrow> bool) \<Rightarrow> string set \<Rightarrow> bool" where
  "only_adds drv present S \<longleftrightarrow> (\<forall>s \<in> S. \<forall>d. statement_acts drv present s d) \<and>
     (\<forall>x \<in> S. \<forall>d. present d x \<longrightarrow>
        (\<forall>s \<in> insert create_record S. present (snd (sql_exec drv s [] d)) x) \<and>
        (\<forall>name. present (snd (sql_exec drv insert_record [name] d)) x \<and> present (snd (sql_count drv count_record [name] d)) x))"

definition script_present :: "file_system \<Rightarrow> ('d \<Rightarrow> string \<Rightarrow> bool) \<Rightarrow> 'd \<Rightarrow> string \<Rightarrow> bool" where
  "script_present fs present d name \<longleftrightarrow>
     (\<exists>content. fs_ReadFile fs name = Inr content \<and> (\<forall>s \<in> set (Bus_splitSQLStatements content). present d s))"

definition record_sound ::
  "file_system \<Rightarrow> ('d \<Rightarrow> string set option) \<Rightarrow> ('d \<Rightarrow> string \<Rightarrow> bool) \<Rightarrow> string set \<Rightarrow> 'd \<Rightarrow> bool" where
  "record_sound fs recorded present N d \<longleftrightarrow>
     (\<forall>R. recorded d = Some R \<longrightarrow> (\<forall>name \<in> N \<inter> R. script_present fs present d name))"

definition keeps_present :: "('d \<Rightarrow> string \<Rightarrow> bool) \<Rightarrow> string set \<Rightarrow> 'd \<Rightarrow> 'd \<Rightarrow> bool" where
  "keeps_present present S d d' \<longleftrightarrow> (\<forall>x \<in> S. present d x \<longrightarrow> present d' x)"

lemma keeps_present_trans: "keeps_present present S d d' \<Longrightarrow> keeps_present present S d' d'' \<Longrightarrow> keeps_present present S d d''"
  by (simp add: keeps_present_def)

lemma only_addsD:
  assumes "only_adds drv present S"
  shows "s \<in> S \<Longrightarrow> sql_exec drv s [] d = (e, d') \<Longrightarrow> keeps_present present S d d'"
    and "sql_exec drv create_record [] d = (e, d') \<Longrightarrow> keeps_present present S d d'"
    and "sql_exec drv insert_record [name] d = (e, d') \<Longrightarrow> keeps_present present S d d'"
    and "sql_count drv count_record [name] d = (n, d') \<Longrightarrow> keeps_present present S d d'"
    and "s \<in> S \<Longrightarrow> sql_exec drv s [] d = (None, d') \<Longrightarrow> present d' s"
    and "s \<in> S \<Longrightarrow> sql_exec drv s [] d = (Some err, d') \<Longrightarrow> isDuplicateColumn drv err \<Longrightarrow> present d' s"
proof -
  have acts: "s \<in> S \<Longrightarrow> statement_acts drv present s d" for s d using assms by (simp add: only_adds_def)
  have keep: "s \<in> insert create_record S \<Longrightarrow> keeps_present present S d (snd (sql_exec drv s [] d))"
      "keeps_present present S d (snd (sql_exec drv insert_record [name] d))"
      "keeps_present present S d (snd (sql_count drv count_record [name] d))" for s d name
    using assms unfolding only_adds_def keeps_present_def by blast+
  show "s \<in> S \<Longrightarrow> sql_exec drv s [] d = (e, d') \<Longrightarrow> keeps_present present S d d'"
    "sql_exec drv create_record [] d = (e, d') \<Longrightarrow> keeps_present present S d d'"
    "sql_exec drv insert_record [name] d = (e, d') \<Longrightarrow> keeps_present present S d d'"
    "sql_count drv count_record [name] d = (n, d') \<Longrightarrow> keeps_present present S d d'"
    using keep by (metis insertCI snd_conv)+
  show "s \<in> S \<Longrightarrow> sql_exec drv s [] d = (None, d') \<Longrightarrow> present d' s"
    "s \<in> S \<Longrightarrow> sql_exec drv s [] d = (Some err, d') \<Longrightarrow> isDuplicateColumn drv err \<Longrightarrow> present d' s"
    using acts [of s d] by (auto simp: statement_acts_def names_existing_def isDuplicateColumn_def Let_def)
qed

lemma sound_keeps:
  assumes "record_sound fs recorded present N d" "keeps_present present S d d'" "scripts_within fs S"
    and "\<And>R'. recorded d' = Some R' \<Longrightarrow> \<exists>R. recorded d = Some R \<and> N \<inter> R' \<subseteq> R \<union> {name. script_present fs present d' name}"
  shows "record_sound fs recorded present N d'"
  unfolding record_sound_def
proof (intro allI impI ballI)
  fix R' name assume "recorded d' = Some R'" "name \<in> N \<inter> R'"
  then obtain R where R: "recorded d = Some R" "name \<in> R \<or> script_present fs present d' name" "name \<in> N" using assms(4) by blast
  show "script_present fs present d' name"
  proof (cases "name \<in> R")
    case True
    then have "script_present fs present d name" using assms(1) R(1,3) by (auto simp: record_sound_def)
    then show ?thesis
      using assms(2,3) by (fastforce simp: script_present_def scripts_within_def keeps_present_def splitters_agree)
  qed (use R(2) in simp)
qed

text \<open>The statements of a script leave the record alone and keep what is present; when they all pass, they are present.\<close>

lemma statements_present:
  assumes "keeps_record drv recorded S" "only_adds drv present S" "set statements \<subseteq> S"
    and "bus_execute_statements drv statements d = (res, d')"
  shows "recorded d' = recorded d \<and> keeps_present present S d d' \<and> (res = None \<longrightarrow> (\<forall>s \<in> set statements. present d' s))"
  using assms(3,4)
proof (induction statements arbitrary: d)
  case (Cons s statements)
  note adds = only_addsD [OF assms(2)]
  obtain r d1 where e: "sql_exec drv s [] d = (r, d1)" by fastforce
  have s: "s \<in> S" using Cons.prems by simp
  have d1: "recorded d1 = recorded d" "keeps_present present S d d1"
    using keeps_recordD(7) [OF assms(1) s, of d] adds(1) [OF s e] e by simp_all
  have go: ?case if later: "bus_execute_statements drv statements d1 = (res, d')" "present d1 s"
  proof -
    have "recorded d' = recorded d1 \<and> keeps_present present S d1 d' \<and> (res = None \<longrightarrow> (\<forall>s \<in> set statements. present d' s))"
      using Cons.IH [OF _ later(1)] Cons.prems(1) by simp
    then show ?thesis using d1 later(2) s keeps_present_trans by (auto simp: keeps_present_def)
  qed
  show ?case
  proof (cases r)
    case None
    then show ?thesis using go adds(5) [OF s] e Cons.prems(2) by simp
  next
    case (Some err)
    then show ?thesis using go adds(6) [OF s] d1 e Cons.prems(2) by (auto split: if_splits)
  qed
qed (simp add: keeps_present_def)

lemma recorded_are_applied:
  assumes "keeps_record drv recorded S" "only_adds drv present S" "scripts_within fs S"
    and "record_sound fs recorded present N d" "recorded d = Some R" "apply_unrecorded drv fs names d = (res, d')"
  shows "record_sound fs recorded present N d'"
  using assms(4-6)
proof (induction names arbitrary: d R)
  case (Cons name names)
  note law = keeps_recordD [OF assms(1)] and adds = only_addsD [OF assms(2)]
  have same: "record_sound fs recorded present N d1" if "keeps_present present S d d1" "recorded d1 = recorded d" for d1
    by (rule sound_keeps [OF Cons.prems(1) that(1) assms(3)]) (use that(2) in auto)
  obtain q d1 where q: "sql_count drv count_record [name] d = (q, d1)" by fastforce
  show ?case
  proof (cases q)
    case (Inl err)
    then have "record_sound fs recorded present N d1" using same [OF adds(4) [OF q]] law(4) [of name d err d1] q by simp
    then show ?thesis using q Inl Cons.prems(3) by (auto simp: scriptApplied_def)
  next
    case (Inr n)
    then have n: "d1 = d" using law(3) [of name d n d1] q by auto
    show ?thesis
    proof (cases "n > 0 \<or> (\<exists>err. fs_ReadFile fs name = Inl err)")
      case True
      then show ?thesis using Cons.IH [OF Cons.prems(1,2)] n q Inr Cons.prems by (auto simp: scriptApplied_def split: bool.splits)
    next
      case False
      then obtain content where content: "fs_ReadFile fs name = Inr content" by (cases "fs_ReadFile fs name") auto
      obtain r d2 where e: "bus_execute_statements drv (Bus_splitSQLStatements content) d = (r, d2)" by fastforce
      have "set (Bus_splitSQLStatements content) \<subseteq> S" using assms(3) content by (auto simp: scripts_within_def splitters_agree)
      from statements_present [OF assms(1,2) this e]
      have d2: "recorded d2 = recorded d" "keeps_present present S d d2"
        "r = None \<longrightarrow> (\<forall>s \<in> set (Bus_splitSQLStatements content). present d2 s)" by simp_all
      obtain r' d3 where i: "sql_exec drv insert_record [name] d2 = (r', d3)" by fastforce
      have keep: "keeps_present present S d d3" by (rule keeps_present_trans [OF d2(2) adds(3) [OF i]])
      have run: "(res, d') = (case r of Some err \<Rightarrow> (Some err, d2) | None \<Rightarrow> (case r' of
          Some err \<Rightarrow> (Some (Wrap ''record schema script %s: %w'' [err]), d3) | None \<Rightarrow> apply_unrecorded drv fs names d3))"
        using Cons.prems(3) n q Inr False content e i by (auto simp: scriptApplied_def split: option.splits)
      show ?thesis
      proof (cases "r = None \<and> r' = None")
        case True
        have here: "script_present fs present d3 name"
          using True d2(3) adds(3) [OF i] content assms(3)
          by (fastforce simp: script_present_def keeps_present_def scripts_within_def splitters_agree)
        have d3: "recorded d3 = Some (insert name R)" using True law(5) [of name d2 d3] i d2(1) Cons.prems(2) by simp
        have "record_sound fs recorded present N d3"
          by (rule sound_keeps [OF Cons.prems(1) keep assms(3)]) (use d3 here Cons.prems(2) in auto)
        then show ?thesis using Cons.IH [OF _ d3, of] run True by simp
      next
        case False
        have "record_sound fs recorded present N d2" by (rule same [OF d2(2,1)])
        moreover have "record_sound fs recorded present N d3" if "r' \<noteq> None"
          by (rule same [OF keep]) (use law(6) [of name d2 _ d3] i that d2(1) in auto)
        ultimately show ?thesis using run False by (auto split: option.splits)
      qed
    qed
  qed
qed simp

section \<open>Stores and their migrator\<close>

record 'd bus_store_settings =
  bse_dialect :: sql_dialect
  bse_migrator :: "'d migrator"

type_synonym 'd bus_store_option = "'d bus_store_settings \<Rightarrow> 'd bus_store_settings"

definition Bus_WithMigrator :: "'d migrator option \<Rightarrow> 'd bus_store_option" where
  "Bus_WithMigrator migrator s = (case migrator of Some g \<Rightarrow> s\<lparr>bse_migrator := g\<rparr> | None \<Rightarrow> s)"

definition Bus_newSQLStore :: "'d sql_driver \<Rightarrow> sql_dialect \<Rightarrow> 'd bus_store_option list \<Rightarrow> 'd bus_store_settings" where
  "Bus_newSQLStore drv dialect options = fold (\<lambda>f s. f s) options \<lparr>bse_dialect = dialect, bse_migrator = \<lambda>_. Bus_Migrate drv\<rparr>"

definition Bus_NewSQLiteStore :: "'d sql_driver \<Rightarrow> 'd bus_store_option list \<Rightarrow> 'd bus_store_settings" where
  "Bus_NewSQLiteStore drv options = Bus_newSQLStore drv DialectSQLite options"

definition Bus_NewPostgresStore :: "'d sql_driver \<Rightarrow> 'd bus_store_option list \<Rightarrow> 'd bus_store_settings" where
  "Bus_NewPostgresStore drv options = Bus_newSQLStore drv DialectPostgres options"

definition Bus_Initialize :: "'d bus_store_settings \<Rightarrow> file_system \<Rightarrow> 'd \<Rightarrow> goerror option \<times> 'd" where
  "Bus_Initialize s schema d = (case bse_migrator s (bse_dialect s) schema d of
      (Some err, d') \<Rightarrow> (Some (Wrap ''apply sqlbus schema: %w'' [err]), d')
    | (None, d') \<Rightarrow> (None, d'))"

text \<open>Without options a store of either dialect initializes through the native migrator.\<close>

lemma native_by_default:
  assumes "s = Bus_NewSQLiteStore drv [] \<or> s = Bus_NewPostgresStore drv []"
  shows "(Bus_Initialize s schema d = (None, d')) = (Bus_Migrate drv schema d = (None, d'))"
  using assms by (auto simp: Bus_Initialize_def Bus_NewSQLiteStore_def Bus_NewPostgresStore_def Bus_newSQLStore_def split: prod.splits option.splits)

section \<open>A database with a record and columns\<close>

type_synonym demo_tables = "string list option \<times> string list"

definition demo_exec :: "string \<Rightarrow> string list \<Rightarrow> demo_tables \<Rightarrow> goerror option \<times> demo_tables" where
  "demo_exec statement arguments d =
     (if statement = create_record then (None, (Some (case fst d of Some R \<Rightarrow> R | None \<Rightarrow> []), snd d))
      else if statement = insert_record then (case fst d of
          None \<Rightarrow> (Some (Leaf ''no such table''), d)
        | Some R \<Rightarrow> (None, (Some (arguments @ R), snd d)))
      else if statement \<in> set (snd d) then (Some (Leaf ''duplicate column name: x''), d)
      else (None, (fst d, statement # snd d)))"

definition demo_sql :: "demo_tables sql_driver" where
  "demo_sql = \<lparr>sql_exec = demo_exec,
     sql_count = \<lambda>_ arguments d. (case fst d of
         None \<Rightarrow> (Inl (Leaf ''no such table''), d)
       | Some R \<Rightarrow> (Inr (if set arguments \<subseteq> set R then 1 else 0), d)),
     sql_message = \<lambda>err. (case err of Leaf message \<Rightarrow> message | _ \<Rightarrow> [])\<rparr>"

definition demo_scripts :: file_system where
  "demo_scripts = \<lparr>fs_ReadDir = Inr [(''V2.sql'', False), (''notes'', False), (''old'', True), (''V1.sql'', False)],
     fs_ReadFile = (\<lambda>name. if name = ''V1.sql'' then Inr ''ADD a; '' else if name = ''V2.sql'' then Inr ''ADD b; ADD a''
       else Inl (Leaf ''no such file''))\<rparr>"

definition demo_recorded :: "demo_tables \<Rightarrow> string set option" where
  "demo_recorded d = map_option set (fst d)"

lemma insert_is_not_create: "insert_record \<noteq> create_record"
  by (simp add: insert_record_def create_record_def nativeAppliedTable_def insertConflictClause_def)

lemma demo_keeps_record: "keeps_record demo_sql demo_recorded {''ADD a'', ''ADD b''}"
proof -
  have "''ADD a'' \<noteq> create_record" "''ADD b'' \<noteq> create_record" "''ADD a'' \<noteq> insert_record" "''ADD b'' \<noteq> insert_record"
    by (simp_all add: insert_record_def create_record_def)
  then have "demo_recorded (snd (sql_exec demo_sql s [] d)) = demo_recorded d" if "s \<in> {''ADD a'', ''ADD b''}" for s d
    using that by (auto simp: demo_sql_def demo_exec_def demo_recorded_def)
  moreover have "record_created demo_sql demo_recorded d" for d
    by (cases "fst d") (auto simp: record_created_def demo_sql_def demo_exec_def demo_recorded_def prod_eq_iff)
  moreover have "record_queried demo_sql demo_recorded name d" for name d
    by (cases "fst d") (auto simp: record_queried_def demo_sql_def demo_recorded_def)
  moreover have "record_extended demo_sql demo_recorded name d" for name d
    using insert_is_not_create by (cases "fst d") (auto simp: record_extended_def demo_sql_def demo_exec_def demo_recorded_def)
  ultimately show ?thesis unfolding keeps_record_def by blast
qed

lemma demo_scripts_within: "scripts_within demo_scripts {''ADD a'', ''ADD b''}"
proof -
  have "set (splitSQLStatements ''ADD a; '') \<subseteq> {''ADD a'', ''ADD b''}" "set (splitSQLStatements ''ADD b; ADD a'') \<subseteq> {''ADD a'', ''ADD b''}"
    by code_simp+
  then show ?thesis by (auto simp: scripts_within_def demo_scripts_def split: if_splits)
qed

definition demo_present :: "demo_tables \<Rightarrow> string \<Rightarrow> bool" where
  "demo_present d s \<longleftrightarrow> s \<in> set (snd d)"

lemma demo_only_adds: "only_adds demo_sql demo_present {''ADD a'', ''ADD b''}"
proof -
  have "''ADD a'' \<noteq> create_record" "''ADD b'' \<noteq> create_record" "''ADD a'' \<noteq> insert_record" "''ADD b'' \<noteq> insert_record"
    by (simp_all add: insert_record_def create_record_def)
  then show ?thesis using insert_is_not_create
    by (auto simp: only_adds_def statement_acts_def demo_sql_def demo_exec_def demo_present_def split: option.split)
qed

lemma demo_migrates: "Bus_Migrate demo_sql demo_scripts (None, [''ADD a'']) = (None, (Some [''V2.sql'', ''V1.sql''], [''ADD b'', ''ADD a'']))"
  by code_simp

section \<open>Properties\<close>

text \<open>C31: the record of the bus migrator tells the truth, and migrations resume and repeat. Whatever statement,
  file or query fails on the way, a script is on record only if every statement of it has had its
  effect (it succeeded, or was refused because its column or table exists, in the words of the
  drivers); the record grows by the scripts of a prefix of the name order, those the run got through, so
  that a later run starts at the first script that is missing. A run without error records every script,
  and the next run, if the record can be read, ends without error and leaves the database exactly as it is.\<close>

theorem bus_migration_resumes_and_repeats:
  assumes "keeps_record drv recorded S" "only_adds drv present S" "scripts_within fs S" "fs_ReadDir fs = Inr entries"
    and sound: "record_sound fs recorded present (set (script_names entries)) d"
    and "Bus_Migrate drv fs d = (res, d')"
  shows "record_sound fs recorded present (set (script_names entries)) d' \<and>
     (recorded d' = recorded d \<and> res \<noteq> None \<or>
      (\<exists>k \<le> length (script_names entries).
         recorded d' = Some ((case recorded d of Some R \<Rightarrow> R | None \<Rightarrow> {}) \<union> set (take k (script_names entries))) \<and>
         (res = None \<longrightarrow> k = length (script_names entries) \<and>
            ((\<forall>name. \<exists>n. fst (sql_count drv count_record [name] d') = Inr n) \<longrightarrow>
             fst (sql_exec drv create_record [] d') = None \<longrightarrow> Bus_Migrate drv fs d' = (None, d')))))"
proof -
  let ?R = "case recorded d of Some R \<Rightarrow> R | None \<Rightarrow> {}" and ?names = "script_names entries"
  let ?sound = "record_sound fs recorded present (set ?names)"
  obtain r d1 where c: "sql_exec drv create_record [] d = (r, d1)" by fastforce
  note keep = only_addsD(2) [OF assms(2) c]
  show ?thesis
  proof (cases r)
    case (Some err)
    then have "recorded d1 = recorded d" "d' = d1" "res \<noteq> None"
      using keeps_recordD(2) [OF assms(1), of d err d1] assms(6) c by (auto simp: Bus_Migrate_def)
    moreover have "?sound d1" by (rule sound_keeps [OF sound keep assms(3)]) (use calculation in auto)
    ultimately show ?thesis by simp
  next
    case None
    then have d1: "recorded d1 = Some ?R" using keeps_recordD(1) [OF assms(1), of d d1] c by simp
    have "?sound d1"
    proof (cases "recorded d")
      case (Some R)
      then show ?thesis by (intro sound_keeps [OF sound keep assms(3)]) (use d1 in auto)
    qed (use d1 in \<open>simp add: record_sound_def\<close>)
    moreover have run: "apply_unrecorded drv fs ?names d1 = (res, d')"
      using assms(4,6) c None by (simp add: Bus_Migrate_def)
    ultimately have d': "?sound d'" using recorded_are_applied [OF assms(1-3) _ d1] by blast
    obtain k where k: "k \<le> length ?names" "recorded d' = Some (?R \<union> set (take k ?names))" "res = None \<longrightarrow> k = length ?names"
      using recorded_in_order [OF assms(1,3) d1 run] by blast
    have "Bus_Migrate drv fs d' = (None, d')"
      if "res = None" "\<forall>name. \<exists>n. fst (sql_count drv count_record [name] d') = Inr n" "fst (sql_exec drv create_record [] d') = None"
    proof -
      have "set ?names \<subseteq> ?R \<union> set (take k ?names)" using k(3) that(1) by simp
      from recorded_are_skipped [OF assms(1) k(2) this] have "apply_unrecorded drv fs ?names d' = (None, d')"
        using that(2) by simp
      moreover have "sql_exec drv create_record [] d' = (None, d')"
        using that(3) keeps_recordD(1) [OF assms(1), of d'] k(2) by (metis option.distinct(1) prod.collapse)
      ultimately show ?thesis using assms(4) by (simp add: Bus_Migrate_def)
    qed
    then show ?thesis using k d' by (intro conjI disjI2 exI [of _ k] impI) simp_all
  qed
qed

theorem bus_migration_resumes_and_repeats_witness:
  "let d = (Some [''V2.sql'', ''V1.sql''], [''ADD b'', ''ADD a'']) in
     demo_recorded d = Some {''V1.sql'', ''V2.sql''} \<and> script_present demo_scripts demo_present d ''V2.sql'' \<and>
     Bus_Migrate demo_sql demo_scripts d = (None, d)"
proof -
  let ?d = "(Some [''V2.sql'', ''V1.sql''], [''ADD b'', ''ADD a''])"
  let ?entries = "[(''V2.sql'', False), (''notes'', False), (''old'', True), (''V1.sql'', False)]"
  have dir: "fs_ReadDir demo_scripts = Inr ?entries" by (simp add: demo_scripts_def)
  have fresh: "record_sound demo_scripts demo_recorded demo_present (set (script_names ?entries)) (None, [''ADD a''])"
    by (simp add: record_sound_def demo_recorded_def)
  have "\<forall>name. \<exists>n. fst (sql_count demo_sql count_record [name] ?d) = Inr n" "fst (sql_exec demo_sql create_record [] ?d) = None"
    by (simp_all add: demo_sql_def demo_exec_def)
  moreover have "''V2.sql'' \<in> set (script_names ?entries)" by code_simp
  ultimately show ?thesis
    using bus_migration_resumes_and_repeats [OF demo_keeps_record demo_only_adds demo_scripts_within dir fresh demo_migrates]
    by (auto simp: demo_recorded_def record_sound_def)
qed

end
