(* ===== verification/Spec2Isabelle.thy ===== *)
theory Spec2Isabelle
  imports TxSavepoint MemoryBroker OutboxProtocol OutboxService BusOrder BusFrontier BusDrain ConfOrder ConfSchema LogConfiguration OutboxPublisher BusBroker BusSerializer BusMigrator
begin

text \<open>
  A verification development of gokeel, a set of Go modules that give a service declarative
  transactions, events in process and across processes, a transactional outbox, layered
  configuration and hierarchical log levels.

  \<^bold>\<open>The program.\<close> A business operation runs inside \<open>Run\<close> of the transaction manager
  (src/transaction), which begins, joins, nests or suspends a unit of work, calls the
  registered synchronizations around its end, and commits or rolls back. Events go to the
  listeners of the bus (src/eventbus): synchronously through \<open>Bus\<close>, or through a broker, whose
  in-memory implementation owns queues, workers and retries. The outbox (src/outbox) stores one row per
  event and listener in the transaction of the business write and delivers it after the commit,
  by any of several competing instances. The distributed bus (src/sqlbus) does so for a cluster: messages, registered
  consumers and deliveries are tables, each node materializes, claims and settles deliveries, and a
  dispatcher loop recovers what others left. Configuration (src/conf) overlays JSON documents,
  resolves placeholders and binds the result onto a Go struct; logging (src/logging) keeps a tree of levels
  over logger names.

  \<^bold>\<open>The theories.\<close>
  \<^item> Prelude, GoRuntime, GoText, GoReflect: reachability and the invariant rule; Go errors, panics,
    decimal text, \<open>strings\<close>, the part of \<open>reflect\<close> and \<open>strconv\<close> the binder uses.
  \<^item> TxDefinition (definition.go, errors.go), TxUnit (context.go), TxManager (manager.go, listener.go): the
    code. A unit of work, a transaction of the driver and a context are entries of the record \<open>world\<close>; work
    and callbacks are codes run by a parameter. TxGrowth orders worlds by what can never be taken back, TxSettlement
    and TxRun show that every operation respects the order, TxClient interprets client programs that call the
    package again, recursion into \<open>Run\<close> included. TxProperties and TxSavepoint hold C1 to C7, C10 and C11. AfterCommit
    states what a deferred unit does under any enclosing work, behind a locale of transactional databases,
    whose failed commits are in doubt: they took effect as a whole or not at all.
  \<^item> EventBus (bus.go; C14, C15), BrokerConfig (broker.go), MemoryBroker (broker_memory.go; C8, C17 to
    C19), an interleaving of publishers, workers, retry goroutines and Stop as a labelled step relation.
  \<^item> Timestamp (the time text of both stores; C21, C22).
  \<^item> OutboxStore (store_sql.go), OutboxRegistry (registry.go, serializer.go), OutboxService, the two together
    (C28), OutboxProtocol, one step per statement of any number of instances, crashes anywhere (C23 to C26), and
    OutboxPublisher (publisher.go, resubmitter.go; C12), which composes registry, store and transaction manager.
    OutboxMigrator (migrator_native.go and the construction of the stores).
  \<^item> BusStore (store_sql.go, message.go), BusBridge (bridge.go), BusDispatch, what one dispatch or attach does to the
    tables (C35), BusDispatcher (dispatcher.go), BusDrain, what a pass achieves (C37), and the cluster as a
    step relation: BusProtocol (C30), BusOrder for ordered consumers (C32, C33), BusFrontier for
    materialization (C34, over orderly runs, and a run that shows why they are needed). BusPublisher (publisher.go; C29), GoUrl and BusBroker (broker.go; C27), BusSerializer
    (serializer.go, equal to that of the outbox), BusMigrator (migrator_native.go; C31).
  \<^item> ConfPlaceholder (placeholder.go; C38), ConfLoader (loader.go; C39), ConfFields and ConfBinder (binder.go), ConfPaths,
    ConfBinding and ConfBound, the index paths of fields and changes at them, ConfOrder (C9, C13), ConfSchema (schema.go; C20, C36).
  \<^item> LogLevels (name.go, level.go), LogManager (manager.go, handler.go, configuration.go; C40), LogConfiguration (C16).

  \<^bold>\<open>How state and operations correspond.\<close> A Go struct is a record, a sentinel or wrapped error a value of
  \<open>goerror\<close>, whose format text stands for its message; a call that may panic returns an
  \<open>outcome\<close>. A method takes the state and returns its results with the new state. SQL statements are functions on
  tables, rows as the columns hold them (dates as text); an environment decides which statement fails, what
  the clock reads and what other sessions commit before it. What runs concurrently is a step
  relation with one step per statement or per critical section. Maps iterated in Go's random order are association lists,
  whose order stands for the one the iteration takes, or a parameter reorders them; C9 and C16 show where that order cannot matter.

  \<^bold>\<open>What the lemmas show.\<close> For transactions: no leak, no partial commit, doom of the outermost unit by a
  failing joined scope, callbacks once and in order, savepoints. For the broker, the outbox and the
  bus: conservation of deliveries, at most one dispatcher per generation and one settlement per
  claim, fencing of stale settlements, retry budgets, order of FIFO consumers, no skipped message in orderly runs, and
  progress of a pass. For configuration: resolution ends, later documents win, binding keeps types and
  touches only what the document names; the schema walk visits exactly what the prototype leads to (embedded structs excluded by a json dash left out, where code and comment differ) and a definition refines exactly what it
  names. For logging: the nearest configured ancestor decides, level names read back, an applied document overlays the levels it names. For the
  migrators: what is on record has been executed, a run resumes where the last one stopped, and a second one changes nothing.

  \<^bold>\<open>Bounds and fuel.\<close> Client programs of TxClient run on fuel that only bounds their own recursion; the
  statements hold for every amount. The schema walk recurses over the finite tree of a type and keeps the set of types it has visited. \<open>resolveText\<close> takes one unit per nested call and C38 shows that
  \<open>resolution_fuel\<close>, computed from the lengths of the text and of the values, always suffices. A delivery pass runs at most
  16 batches as in the code. The delivery loop ends with the list of wake-ups it is given. Every other loop is a total function.
  Integers the code computes with (backoff, widths of configured integers, log levels) wrap or are checked at their width.

  \<^bold>\<open>Parameters.\<close> The SQL driver under the transaction manager, client work and callbacks; \<open>encoding/json\<close>, the file system and the
  environment; sources of identifiers and tokens; adding a duration to a time; floating-point
  and duration parsing and \<open>UnmarshalText\<close> methods; delegate log handlers; the library that derives, resolves and encodes a JSON schema,
  which hands out trees without sharing; the file system of migration scripts and the database they run on.

  \<^bold>\<open>Not modelled, and why.\<close> The text of SQL statements, their rendering for a dialect, the migration scripts, the adapter to a
  migration engine and generated table descriptions (third-party query builders and scripts); failures of \<open>RowsAffected\<close> or of closing rows after the statement took
  effect; \<open>NameFor\<close>, \<open>LoggerFor\<close> and \<open>StandardLogger\<close> (reflection, the standard logger); the emission of log records; the jitter of the
  poll interval (random floating-point numbers that only time the next pass); the broker conformance suite (test helpers).
  Strings are characters up to U+00FF. Floats are not narrowed to their width.

  \<^bold>\<open>Idealizations.\<close> The cluster model publishes within the materialization grace, which is the
  bridge's own documented requirement, and its nodes read one clock. A statement, its subqueries included, is one step: a database
  at a weaker isolation than that could grant two rows of an ordered consumer to claims that overlap.
\<close>

end
